(* ===== verification/Prelude.thy ===== *)
theory Prelude
  imports Main "HOL-Library.Signed_Division"
begin

text \<open>
  Shared vocabulary of the development: the ways a C++ thread can go wrong (\<open>fault\<close>), results
  with faults and their sequencing (\<open>bindr\<close>), checked 32-bit \<open>int\<close> arithmetic, counting loops
  (\<open>for_up\<close>) with their invariant rule, and the interface of a transition system with an
  invariant (locale \<open>inv_system\<close>), which the transport and the cluster interpret.
\<close>

named_theorems result_simps \<open>evaluation of results with faults\<close>

section \<open>Faults and results\<close>

text \<open>
  What the source does without defining it (a division by zero, a signed overflow that is used, an
  access outside an array or outside a registered buffer, a null dereference) and the calls of
  \<open>rc_die\<close>, which ends the process with \<open>EXIT_FAILURE\<close>.
\<close>

datatype fault =
    Div_by_zero
  | Signed_overflow
  | Out_of_bounds
  | Buffer_overflow
  | Null_deref
  | Died string

type_synonym 'a result = "fault + 'a"

definition bindr :: "'a result \<Rightarrow> ('a \<Rightarrow> 'b result) \<Rightarrow> 'b result" where
  "bindr m f = (case m of Inl e \<Rightarrow> Inl e | Inr x \<Rightarrow> f x)"

lemma bindr_Inl [simp, result_simps]: "bindr (Inl e) f = Inl e"
  by (simp add: bindr_def)

lemma bindr_Inr [simp, result_simps]: "bindr (Inr x) f = f x"
  by (simp add: bindr_def)

lemma bindr_eq_Inr: "bindr m f = Inr y \<longleftrightarrow> (\<exists>x. m = Inr x \<and> f x = Inr y)"
  by (cases m) auto

lemma bindr_eq_Inl: "bindr m f = Inl e \<longleftrightarrow> m = Inl e \<or> (\<exists>x. m = Inr x \<and> f x = Inl e)"
  by (cases m) auto

lemma bindr_assoc: "bindr (bindr m f) g = bindr m (\<lambda>x. bindr (f x) g)"
  by (cases m) auto

lemma bindr_cong [fundef_cong]:
  "m = m' \<Longrightarrow> (\<And>x. m' = Inr x \<Longrightarrow> f x = f' x) \<Longrightarrow> bindr m f = bindr m' f'"
  by (cases m') auto

definition guardr :: "bool \<Rightarrow> fault \<Rightarrow> unit result" where
  "guardr b e = (if b then Inr () else Inl e)"

lemma guardr_simps [simp, result_simps]:
  "guardr True e = Inr ()" "guardr False e = Inl e"
  by (simp_all add: guardr_def)

lemma guardr_eq_Inr: "guardr b e = Inr u \<longleftrightarrow> b"
  by (simp add: guardr_def)

lemmas result_elims = bindr_eq_Inr guardr_eq_Inr

section \<open>32-bit signed arithmetic\<close>

definition int32_max :: int where "int32_max = 2147483647"
definition int32_min :: int where "int32_min = - 2147483648"

definition in_int32 :: "int \<Rightarrow> bool" where
  "in_int32 x \<longleftrightarrow> int32_min \<le> x \<and> x \<le> int32_max"

lemmas int32_defs = in_int32_def int32_min_def int32_max_def

definition chk32 :: "int \<Rightarrow> int result" where
  "chk32 x = (if in_int32 x then Inr x else Inl Signed_overflow)"

lemma chk32_ok [simp]: "in_int32 x \<Longrightarrow> chk32 x = Inr x"
  by (simp add: chk32_def)

lemma chk32_eq_Inr: "chk32 x = Inr y \<longleftrightarrow> in_int32 x \<and> y = x"
  by (auto simp: chk32_def)

definition c_add :: "int \<Rightarrow> int \<Rightarrow> int result" where "c_add a b = chk32 (a + b)"
definition c_sub :: "int \<Rightarrow> int \<Rightarrow> int result" where "c_sub a b = chk32 (a - b)"
definition c_mul :: "int \<Rightarrow> int \<Rightarrow> int result" where "c_mul a b = chk32 (a * b)"

text \<open>Division truncates towards zero.\<close>

definition c_div :: "int \<Rightarrow> int \<Rightarrow> int result" where
  "c_div a b = (if b = 0 then Inl Div_by_zero else chk32 (a sdiv b))"

definition c_mod :: "int \<Rightarrow> int \<Rightarrow> int result" where
  "c_mod a b = (if b = 0 then Inl Div_by_zero else Inr (a smod b))"

text \<open>Two's complement wrap-around, for values the source computes and never uses.\<close>

definition wrap32 :: "int \<Rightarrow> int" where
  "wrap32 x = (x + 2 ^ 31) mod 2 ^ 32 - 2 ^ 31"

lemma wrap32_id: "in_int32 x \<Longrightarrow> wrap32 x = x"
  by (simp add: wrap32_def int32_defs)

lemma sdiv_nonneg: "0 \<le> a \<Longrightarrow> 0 < b \<Longrightarrow> (a::int) sdiv b = a div b"
  by (simp add: signed_divide_int_def sgn_if)

lemma smod_nonneg: "0 \<le> a \<Longrightarrow> 0 < b \<Longrightarrow> (a::int) smod b = a mod b"
  by (cases "a = 0") (simp_all add: signed_modulo_int_def)

lemma c_div_nonneg:
  assumes "0 \<le> a" and "0 < b" and "in_int32 a"
  shows "c_div a b = Inr (a div b)"
proof -
  have "a div b \<le> a" using assms zdiv_mono2[of a 1 b] by simp
  moreover have "0 \<le> a div b" using assms by (simp add: pos_imp_zdiv_nonneg_iff)
  ultimately have "in_int32 (a div b)" using assms(3) by (auto simp: int32_defs)
  then show ?thesis using assms by (simp add: c_div_def sdiv_nonneg)
qed

lemma c_mod_nonneg: "0 \<le> a \<Longrightarrow> 0 < b \<Longrightarrow> c_mod a b = Inr (a mod b)"
  by (simp add: c_mod_def smod_nonneg)

section \<open>Arrays with bounds\<close>

definition arr_get :: "'a list \<Rightarrow> int \<Rightarrow> 'a result" where
  "arr_get xs i = (if 0 \<le> i \<and> i < int (length xs) then Inr (xs ! nat i) else Inl Out_of_bounds)"

definition arr_set :: "'a list \<Rightarrow> int \<Rightarrow> 'a \<Rightarrow> 'a list result" where
  "arr_set xs i v =
     (if 0 \<le> i \<and> i < int (length xs) then Inr (xs[nat i := v]) else Inl Out_of_bounds)"

lemma arr_get_ok: "0 \<le> i \<Longrightarrow> i < int (length xs) \<Longrightarrow> arr_get xs i = Inr (xs ! nat i)"
  by (simp add: arr_get_def)

lemma arr_set_ok: "0 \<le> i \<Longrightarrow> i < int (length xs) \<Longrightarrow> arr_set xs i v = Inr (xs[nat i := v])"
  by (simp add: arr_set_def)

text \<open>The index of a global array of \<open>n\<close> elements, which the model keeps as a function.\<close>

definition index_in :: "nat \<Rightarrow> int \<Rightarrow> nat result" where
  "index_in n i = (if 0 \<le> i \<and> i < int n then Inr (nat i) else Inl Out_of_bounds)"

lemma index_in_ok [simp]: "i < n \<Longrightarrow> index_in n (int i) = Inr i"
  by (simp add: index_in_def)

lemma index_in_eq_Inr: "index_in n i = Inr k \<longleftrightarrow> i = int k \<and> k < n"
  by (auto simp: index_in_def)

section \<open>Counting loops\<close>

text \<open>\<open>for_up f i n s\<close> is \<open>for (j = i; j < i + n; j++) s = f j s\<close>, stopping at the first fault.\<close>

fun for_up :: "(nat \<Rightarrow> 's \<Rightarrow> 's result) \<Rightarrow> nat \<Rightarrow> nat \<Rightarrow> 's \<Rightarrow> 's result" where
  "for_up f i 0 s = Inr s"
| "for_up f i (Suc n) s = bindr (f i s) (for_up f (Suc i) n)"

lemma for_up_inv:
  assumes "\<And>j s. i \<le> j \<Longrightarrow> j < i + n \<Longrightarrow> I j s \<Longrightarrow> \<exists>s'. f j s = Inr s' \<and> I (Suc j) s'"
    and "I i s"
  shows "\<exists>s'. for_up f i n s = Inr s' \<and> I (i + n) s'"
  using assms
proof (induction n arbitrary: i s)
  case 0
  then show ?case by simp
next
  case (Suc n)
  from Suc.prems obtain s1 where s1: "f i s = Inr s1" "I (Suc i) s1"
    by (metis le_refl less_add_same_cancel1 zero_less_Suc)
  have "\<exists>s'. for_up f (Suc i) n s1 = Inr s' \<and> I (Suc i + n) s'"
    using Suc.prems(1) s1(2) by (intro Suc.IH) auto
  with s1(1) show ?case by auto
qed

lemma for_up_pres:
  assumes "for_up f i n s = Inr s'"
    and "\<And>j s s'. i \<le> j \<Longrightarrow> j < i + n \<Longrightarrow> f j s = Inr s' \<Longrightarrow> I s \<Longrightarrow> I s'"
    and "I s"
  shows "I s'"
  using assms
proof (induction n arbitrary: i s)
  case 0
  then show ?case by simp
next
  case (Suc n)
  from Suc.prems(1) obtain s1 where s1: "f i s = Inr s1" "for_up f (Suc i) n s1 = Inr s'"
    by (auto simp: result_elims)
  have "I s1" using Suc.prems(2)[OF _ _ s1(1)] Suc.prems(3) by auto
  show ?case
  proof (rule Suc.IH[OF s1(2) _ \<open>I s1\<close>])
    fix j t t'
    assume "Suc i \<le> j" "j < Suc i + n" "f j t = Inr t'" "I t"
    then show "I t'" using Suc.prems(2)[of j t t'] by auto
  qed
qed

section \<open>Transition systems with an invariant\<close>

text \<open>
  The interface between a component and the theorems about its runs: a start predicate, a step
  relation, and an invariant that holds at the start and that every step keeps. Provided by the
  transport link and by the cluster.
\<close>

locale inv_system =
  fixes init :: "'s \<Rightarrow> bool"
    and step :: "'s \<Rightarrow> 's \<Rightarrow> bool"
    and inv :: "'s \<Rightarrow> bool"
  assumes inv_init: "init s \<Longrightarrow> inv s"
    and inv_step: "inv s \<Longrightarrow> step s t \<Longrightarrow> inv t"
begin

lemma inv_steps: "step\<^sup>*\<^sup>* s t \<Longrightarrow> inv s \<Longrightarrow> inv t"
  by (induction rule: rtranclp_induct) (auto intro: inv_step)

lemma inv_reach: "init s \<Longrightarrow> step\<^sup>*\<^sup>* s t \<Longrightarrow> inv t"
  by (auto intro: inv_steps inv_init)

end

text \<open>Two lists whose lengths add up to at most zero.\<close>

lemma no_lengths: "int (length xs) + int (length ys) \<le> 0 \<longleftrightarrow> xs = [] \<and> ys = []"
  by (cases xs; cases ys) auto

end
