(* ===== verification/Wire.thy ===== *)
theory Wire
  imports Prelude "HOL-Library.Word"
begin

unbundle bit_operations_syntax

text \<open>
  Bytes on the wire: the little-endian memory images of the scalar types that the programs copy
  with \<open>memcpy\<close> and overlay with pointer casts, byte-addressed buffers, and \<open>size_t\<close> arithmetic.
  The locale \<open>codec\<close> is the interface between a fixed-width encoding and the arrays and buffers
  that hold its values; it is interpreted for the three scalars of a \<open>Block\<close> image.
\<close>

type_synonym byte = "8 word"
type_synonym double = "64 word"
type_synonym mem = "nat \<Rightarrow> byte"

section \<open>Little-endian images of words\<close>

primrec le_bytes :: "nat \<Rightarrow> 'a::len word \<Rightarrow> byte list" where
  "le_bytes 0 w = []"
| "le_bytes (Suc n) w = ucast w # le_bytes n (drop_bit 8 w)"

primrec le_word :: "byte list \<Rightarrow> 'a::len word" where
  "le_word [] = 0"
| "le_word (b # bs) = ucast b OR push_bit 8 (le_word bs)"

lemma length_le_bytes [simp]: "length (le_bytes n w) = n"
  by (induction n arbitrary: w) auto

lemma le_word_le_bytes: "le_word (le_bytes n (w :: 'a::len word)) = take_bit (8 * n) w"
proof (induction n arbitrary: w)
  case 0
  then show ?case by simp
next
  case (Suc n)
  have "ucast (ucast w :: byte) OR push_bit 8 (take_bit (8 * n) (drop_bit 8 w)) =
        take_bit (8 * Suc n) w"
    by (rule bit_word_eqI) (auto simp: bit_simps)
  then show ?case by (simp add: Suc.IH)
qed

lemma le_word_le_bytes_full:
  "LENGTH('a) \<le> 8 * n \<Longrightarrow> le_word (le_bytes n (w :: 'a::len word)) = w"
  by (simp add: le_word_le_bytes take_bit_word_eq_self)

lemma le_bytes_take_bit:
  "8 * n \<le> k \<Longrightarrow> le_bytes n (take_bit k (w :: 'a::len word)) = le_bytes n w"
proof (induction n arbitrary: k w)
  case 0
  then show ?case by simp
next
  case (Suc n)
  have "ucast (take_bit k w) = (ucast w :: byte)"
    using Suc.prems by (intro bit_word_eqI) (auto simp: bit_simps)
  moreover have "drop_bit 8 (take_bit k w) = take_bit (k - 8) (drop_bit 8 w)"
    by (rule bit_word_eqI) (auto simp: bit_simps)
  ultimately show ?case using Suc by simp
qed

lemma le_bytes_le_word:
  "8 * length bs \<le> LENGTH('a) \<Longrightarrow> le_bytes (length bs) (le_word bs :: 'a::len word) = bs"
proof (induction bs)
  case Nil
  then show ?case by simp
next
  case (Cons b bs)
  let ?w = "le_word bs :: 'a word"
  have "ucast (ucast b OR push_bit 8 ?w) = b"
    using Cons.prems by (intro bit_word_eqI) (auto simp: bit_simps)
  moreover have "drop_bit 8 (ucast b OR push_bit 8 ?w) = take_bit (LENGTH('a) - 8) ?w"
    by (rule bit_word_eqI) (auto simp: bit_simps dest: bit_imp_le_length)
  ultimately show ?case
    using Cons by (simp add: le_bytes_take_bit)
qed

section \<open>Buffers\<close>

definition get_bytes :: "mem \<Rightarrow> nat \<Rightarrow> nat \<Rightarrow> byte list" where
  "get_bytes m off n = map (\<lambda>i. m (off + i)) [0..<n]"

definition put_bytes :: "mem \<Rightarrow> nat \<Rightarrow> byte list \<Rightarrow> mem" where
  "put_bytes m off bs = (\<lambda>a. if off \<le> a \<and> a < off + length bs then bs ! (a - off) else m a)"

lemma length_get_bytes [simp]: "length (get_bytes m off n) = n"
  by (simp add: get_bytes_def)

lemma get_put_same: "n = length bs \<Longrightarrow> get_bytes (put_bytes m off bs) off n = bs"
  by (rule nth_equalityI) (auto simp: get_bytes_def put_bytes_def)

lemma get_put_other:
  "off' + n \<le> off \<or> off + length bs \<le> off' \<Longrightarrow>
   get_bytes (put_bytes m off bs) off' n = get_bytes m off' n"
  by (rule nth_equalityI) (auto simp: get_bytes_def put_bytes_def)

lemma get_bytes_append:
  "get_bytes m off (a + b) = get_bytes m off a @ get_bytes m (off + a) b"
  by (rule nth_equalityI) (auto simp: get_bytes_def nth_append)

lemma get_bytes_sub:
  "a + n \<le> k \<Longrightarrow> take n (drop a (get_bytes m off k)) = get_bytes m (off + a) n"
  by (rule nth_equalityI) (auto simp: get_bytes_def add.assoc)

lemma get_put_sub:
  assumes "off \<le> off'" and "off' + n \<le> off + length bs"
  shows "get_bytes (put_bytes m off bs) off' n = take n (drop (off' - off) bs)"
  using assms by (intro nth_equalityI) (auto simp: get_bytes_def put_bytes_def)

section \<open>Fixed-width codecs\<close>

definition enc_array :: "('a \<Rightarrow> byte list) \<Rightarrow> 'a list \<Rightarrow> byte list" where
  "enc_array enc xs = concat (map enc xs)"

primrec dec_array :: "nat \<Rightarrow> (byte list \<Rightarrow> 'a) \<Rightarrow> nat \<Rightarrow> byte list \<Rightarrow> 'a list" where
  "dec_array w dec 0 bs = []"
| "dec_array w dec (Suc n) bs = dec (take w bs) # dec_array w dec n (drop w bs)"

lemma length_dec_array [simp]: "length (dec_array w dec n bs) = n"
  by (induction n arbitrary: bs) auto

locale codec =
  fixes enc :: "'a \<Rightarrow> byte list"
    and dec :: "byte list \<Rightarrow> 'a"
    and width :: nat
    and ok :: "'a \<Rightarrow> bool"
  assumes enc_length: "length (enc x) = width"
    and dec_enc: "ok x \<Longrightarrow> dec (enc x) = x"
begin

lemma enc_array_length: "length (enc_array enc xs) = width * length xs"
  by (induction xs) (auto simp: enc_array_def enc_length)

lemma enc_inj: "ok x \<Longrightarrow> ok y \<Longrightarrow> enc x = enc y \<Longrightarrow> x = y"
  by (metis dec_enc)

lemma dec_enc_array:
  "list_all ok xs \<Longrightarrow> dec_array width dec (length xs) (enc_array enc xs @ rest) = xs"
  by (induction xs) (auto simp: enc_array_def enc_length dec_enc)

lemma dec_take_enc_array:
  assumes "list_all ok xs" and "n \<le> length xs"
  shows "dec_array width dec n (take (width * n) (enc_array enc xs)) = take n xs"
  using assms
proof (induction xs arbitrary: n)
  case Nil
  then show ?case by simp
next
  case (Cons x xs)
  then show ?case
    by (cases n) (auto simp: enc_array_def enc_length dec_enc take_append)
qed

lemma read_back: "ok x \<Longrightarrow> dec (get_bytes (put_bytes m off (enc x)) off width) = x"
  by (simp add: get_put_same enc_length dec_enc)

end

section \<open>The scalars of a block\<close>

definition enc_int32 :: "int \<Rightarrow> byte list" where
  "enc_int32 x = le_bytes 4 (word_of_int x :: 32 word)"

definition dec_int32 :: "byte list \<Rightarrow> int" where
  "dec_int32 bs = sint (le_word bs :: 32 word)"

definition enc_bool :: "bool \<Rightarrow> byte list" where
  "enc_bool b = [if b then 1 else 0]"

definition dec_bool :: "byte list \<Rightarrow> bool" where
  "dec_bool bs = (case bs of [] \<Rightarrow> False | b # _ \<Rightarrow> b \<noteq> 0)"

definition enc_word64 :: "64 word \<Rightarrow> byte list" where
  "enc_word64 w = le_bytes 8 w"

definition dec_word64 :: "byte list \<Rightarrow> 64 word" where
  "dec_word64 bs = le_word bs"

lemma sint_word_of_int32: "in_int32 x \<Longrightarrow> sint (word_of_int x :: 32 word) = x"
  by (simp add: int32_defs sint_sbintrunc' signed_take_bit_int_eq_self)

interpretation int32: codec enc_int32 dec_int32 4 in_int32
  by unfold_locales
    (auto simp: enc_int32_def dec_int32_def le_word_le_bytes_full sint_word_of_int32)

interpretation boolean: codec enc_bool dec_bool 1 "\<lambda>_. True"
  by unfold_locales (auto simp: enc_bool_def dec_bool_def)

interpretation word64: codec enc_word64 dec_word64 8 "\<lambda>_. True"
  by unfold_locales (auto simp: enc_word64_def dec_word64_def le_word_le_bytes_full)

text \<open>An array of doubles, as \<open>memcpy\<close> moves it: the bit patterns, eight bytes each.\<close>

definition doubles_bytes :: "double list \<Rightarrow> byte list" where
  "doubles_bytes = enc_array enc_word64"

definition bytes_doubles :: "byte list \<Rightarrow> double list" where
  "bytes_doubles bs = dec_array 8 dec_word64 (length bs div 8) bs"

lemma length_doubles_bytes [simp]: "length (doubles_bytes xs) = 8 * length xs"
  by (simp add: doubles_bytes_def word64.enc_array_length)

lemma doubles_bytes_Nil [simp]: "doubles_bytes [] = []"
  by (simp add: doubles_bytes_def enc_array_def)

lemma doubles_bytes_eq_Nil [simp]: "doubles_bytes xs = [] \<longleftrightarrow> xs = []"
  by (metis length_doubles_bytes length_0_conv mult_eq_0_iff zero_neq_numeral)

lemma bytes_doubles_roundtrip: "bytes_doubles (doubles_bytes xs) = xs"
  using word64.dec_enc_array[of xs "[]"]
  by (simp add: bytes_doubles_def doubles_bytes_def word64.enc_array_length list_all_iff)

lemma bytes_doubles_take:
  assumes "n \<le> length xs"
  shows "bytes_doubles (take (8 * n) (doubles_bytes xs)) = take n xs"
proof -
  have "length (take (8 * n) (enc_array enc_word64 xs)) div 8 = n"
    using assms by (simp add: word64.enc_array_length)
  then show ?thesis
    using word64.dec_take_enc_array[of xs n] assms
    by (simp add: bytes_doubles_def doubles_bytes_def list_all_iff)
qed

section \<open>\<open>size_t\<close>\<close>

definition sz_add :: "nat \<Rightarrow> nat \<Rightarrow> nat" where
  "sz_add a b = (a + b) mod 2 ^ 64"

text \<open>\<open>sizeof(double) * n\<close> for an \<open>int n\<close>: the conversion to \<open>size_t\<close> wraps a negative count.\<close>

definition sz_doubles :: "int \<Rightarrow> nat" where
  "sz_doubles n = nat ((8 * n) mod 2 ^ 64)"

lemma sz_add_small: "a + b < 2 ^ 64 \<Longrightarrow> sz_add a b = a + b"
  by (simp add: sz_add_def)

lemma sz_doubles_nonneg:
  assumes "0 \<le> n" and "in_int32 n"
  shows "sz_doubles n = 8 * nat n"
  using assms by (simp add: sz_doubles_def int32_defs nat_mult_distrib)

lemma sz_doubles_neg:
  assumes "n < 0" and "in_int32 n"
  shows "2 ^ 63 \<le> sz_doubles n"
proof -
  have "(8 * n) mod 2 ^ 64 = 8 * n + 2 ^ 64"
    using assms mod_add_self2[of "8 * n" "2 ^ 64"] mod_pos_pos_trivial[of "8 * n + 2 ^ 64" "2 ^ 64"]
    by (simp add: int32_defs)
  then show ?thesis using assms by (simp add: sz_doubles_def int32_defs le_nat_iff)
qed

section \<open>Network byte order\<close>

text \<open>\<open>htonl\<close> on a little-endian host reverses the four bytes; \<open>ntohl\<close> is the same function.\<close>

definition htonl :: "32 word \<Rightarrow> 32 word" where
  "htonl w = le_word (rev (le_bytes 4 w))"

definition ntohl :: "32 word \<Rightarrow> 32 word" where
  "ntohl w = htonl w"

lemma ntohl_htonl [simp]: "ntohl (htonl w) = w"
proof -
  have "le_bytes 4 (le_word (rev (le_bytes 4 w)) :: 32 word) = rev (le_bytes 4 w)"
    using le_bytes_le_word[of "rev (le_bytes 4 w)", where 'a = 32] by simp
  then show ?thesis by (simp add: ntohl_def htonl_def le_word_le_bytes_full)
qed

end
