(* ===== verification/MF_Common.thy ===== *)
theory MF_Common
  imports Wire
begin

text \<open>
  \<open>mf_common.h\<close>: the constants of the benchmark, \<open>struct Block\<close> with its assignment operator and
  its 32-byte memory image, and the C heap the element arrays live in. An array of doubles is a
  list of bit patterns under an opaque address; address 0 is \<open>NULL\<close>. \<open>malloc\<close> hands out the next
  fresh address while \<open>h_avail\<close> bytes are left and \<open>NULL\<close> afterwards; the contents of fresh memory
  are whatever \<open>h_junk\<close> says.
\<close>

section \<open>Constants\<close>

definition N_rows :: int where "N_rows = 1000990"
definition M_cols :: int where "M_cols = 624961"
definition K_dim :: int where "K_dim = 100"
definition CAP :: nat where "CAP = 2000"
definition WORKER_NUM :: int where "WORKER_NUM = 4"

lemmas mf_constants = N_rows_def M_cols_def K_dim_def CAP_def WORKER_NUM_def

section \<open>Blocks\<close>

record Block =
  block_id :: int
  data_age :: int
  sta_idx :: int
  height :: int
  ele_num :: int
  isP :: bool
  eles :: nat

text \<open>A global \<open>Block\<close> is zero-initialised; its constructor does nothing.\<close>

definition zero_block :: Block where
  "zero_block = \<lparr>block_id = 0, data_age = 0, sta_idx = 0, height = 0, ele_num = 0,
     isP = False, eles = 0\<rparr>"

text \<open>\<open>dst = src\<close>: the operator's assignments, in its order; the result is a copy of \<open>*this\<close>.\<close>

definition block_assign :: "Block \<Rightarrow> Block \<Rightarrow> Block" where
  "block_assign dst src =
     dst\<lparr>block_id := block_id src, data_age := data_age src, height := height src,
         eles := eles src, ele_num := ele_num src, sta_idx := sta_idx src\<rparr>"

text \<open>
  The memory image of a \<open>Block\<close> (x86-64 layout): five \<open>int\<close>s, the flag, three bytes of padding,
  the pointer.
\<close>

definition BLOCK_SZ :: nat where "BLOCK_SZ = 32"

definition block_image :: "Block \<Rightarrow> byte list" where
  "block_image b =
     enc_int32 (block_id b) @ enc_int32 (data_age b) @ enc_int32 (sta_idx b) @
     enc_int32 (height b) @ enc_int32 (ele_num b) @ enc_bool (isP b) @ [0, 0, 0] @
     enc_word64 (word_of_nat (eles b))"

text \<open>The \<open>Block\<close> a pointer into a byte buffer denotes.\<close>

definition overlay_block :: "byte list \<Rightarrow> Block" where
  "overlay_block bs =
     \<lparr>block_id = dec_int32 (take 4 bs), data_age = dec_int32 (take 4 (drop 4 bs)),
      sta_idx = dec_int32 (take 4 (drop 8 bs)), height = dec_int32 (take 4 (drop 12 bs)),
      ele_num = dec_int32 (take 4 (drop 16 bs)), isP = dec_bool (take 1 (drop 20 bs)),
      eles = unat (dec_word64 (take 8 (drop 24 bs)))\<rparr>"

definition block_ints_ok :: "Block \<Rightarrow> bool" where
  "block_ints_ok b \<longleftrightarrow> in_int32 (block_id b) \<and> in_int32 (data_age b) \<and> in_int32 (sta_idx b) \<and>
     in_int32 (height b) \<and> in_int32 (ele_num b)"

definition block_ok :: "Block \<Rightarrow> bool" where
  "block_ok b \<longleftrightarrow> block_ints_ok b \<and> eles b < 2 ^ 64"

lemmas enc_lengths =
  int32.enc_length boolean.enc_length word64.enc_length

lemma length_block_image [simp]: "length (block_image b) = BLOCK_SZ"
  by (simp add: block_image_def BLOCK_SZ_def enc_lengths)

lemma overlay_block_image: "block_ok b \<Longrightarrow> overlay_block (block_image b) = b"
  by (cases b)
    (simp add: overlay_block_def block_image_def block_ok_def block_ints_ok_def enc_lengths
      int32.dec_enc boolean.dec_enc word64.dec_enc unsigned_of_nat take_bit_nat_eq_self)

lemma overlay_block_image_ints:
  assumes "block_ints_ok b"
  shows "overlay_block (block_image b) = b\<lparr>eles := eles b mod 2 ^ 64\<rparr>"
  using assms
  by (cases b)
    (simp add: overlay_block_def block_image_def block_ints_ok_def enc_lengths
      int32.dec_enc boolean.dec_enc word64.dec_enc unsigned_of_nat take_bit_eq_mod)

section \<open>The heap\<close>

record heap =
  h_arr :: "nat \<Rightarrow> double list option"
  h_next :: nat
  h_avail :: nat
  h_junk :: "nat \<Rightarrow> double"

definition heap_ok :: "heap \<Rightarrow> bool" where
  "heap_ok h \<longleftrightarrow> 0 < h_next h \<and> (\<forall>a. h_arr h a \<noteq> None \<longrightarrow> 0 < a \<and> a < h_next h)"

definition fresh_heap :: "nat \<Rightarrow> heap" where
  "fresh_heap bytes = \<lparr>h_arr = (\<lambda>_. None), h_next = 1, h_avail = bytes, h_junk = (\<lambda>_. 0)\<rparr>"

text \<open>\<open>Malloc(double, n)\<close>.\<close>

definition malloc_doubles :: "int \<Rightarrow> heap \<Rightarrow> nat \<times> heap" where
  "malloc_doubles n h =
     (let sz = sz_doubles n in
      if sz \<le> h_avail h
      then (h_next h,
            h\<lparr>h_arr := (h_arr h)(h_next h \<mapsto> map (h_junk h) [0..<sz div 8]),
              h_next := Suc (h_next h), h_avail := h_avail h - sz\<rparr>)
      else (0, h))"

lemma heap_ok_fresh: "heap_ok (fresh_heap n)"
  by (simp add: heap_ok_def fresh_heap_def)

lemma heap_ok_null: "heap_ok h \<Longrightarrow> h_arr h 0 = None"
  by (auto simp: heap_ok_def)

lemma heap_ok_malloc: "heap_ok h \<Longrightarrow> malloc_doubles n h = (p, h') \<Longrightarrow> heap_ok h'"
  by (auto simp: malloc_doubles_def heap_ok_def Let_def less_Suc_eq split: if_splits)

lemma malloc_junk: "malloc_doubles n h = (p, h') \<Longrightarrow> h_junk h' = h_junk h"
  by (auto simp: malloc_doubles_def Let_def split: if_splits)

text \<open>\<open>memcpy\<close> of \<open>n\<close> bytes out of, and of some bytes into, an array of the heap.\<close>

definition heap_read :: "heap \<Rightarrow> nat \<Rightarrow> nat \<Rightarrow> byte list result" where
  "heap_read h p n =
     (if n = 0 then Inr []
      else case h_arr h p of
             None \<Rightarrow> Inl Null_deref
           | Some xs \<Rightarrow> if n \<le> 8 * length xs then Inr (take n (doubles_bytes xs))
                        else Inl Out_of_bounds)"

definition heap_write :: "heap \<Rightarrow> nat \<Rightarrow> byte list \<Rightarrow> heap result" where
  "heap_write h p bs =
     (if bs = [] then Inr h
      else case h_arr h p of
             None \<Rightarrow> Inl Null_deref
           | Some xs \<Rightarrow> if length bs \<le> 8 * length xs
                        then Inr (h\<lparr>h_arr := (h_arr h)(p \<mapsto>
                               bytes_doubles bs @ drop (length bs div 8) xs)\<rparr>)
                        else Inl Buffer_overflow)"

text \<open>Element access \<open>p[i]\<close>.\<close>

definition heap_get :: "heap \<Rightarrow> nat \<Rightarrow> int \<Rightarrow> double result" where
  "heap_get h p i = (case h_arr h p of None \<Rightarrow> Inl Null_deref | Some xs \<Rightarrow> arr_get xs i)"

definition heap_set :: "heap \<Rightarrow> nat \<Rightarrow> int \<Rightarrow> double \<Rightarrow> heap result" where
  "heap_set h p i v =
     (case h_arr h p of
        None \<Rightarrow> Inl Null_deref
      | Some xs \<Rightarrow> bindr (arr_set xs i v) (\<lambda>ys. Inr (h\<lparr>h_arr := (h_arr h)(p \<mapsto> ys)\<rparr>)))"

text \<open>A block whose array holds exactly the \<open>ele_num\<close> doubles its header announces.\<close>

definition block_sized :: "heap \<Rightarrow> Block \<Rightarrow> bool" where
  "block_sized h b \<longleftrightarrow>
     (\<exists>xs. h_arr h (eles b) = Some xs \<and> int (length xs) = ele_num b)"

definition block_vals :: "heap \<Rightarrow> Block \<Rightarrow> double list" where
  "block_vals h b = (case h_arr h (eles b) of None \<Rightarrow> [] | Some xs \<Rightarrow> xs)"

lemma heap_read_block:
  assumes "block_sized h b" and "in_int32 (ele_num b)"
  shows "heap_read h (eles b) (sz_doubles (ele_num b)) = Inr (doubles_bytes (block_vals h b))"
proof -
  obtain xs where xs: "h_arr h (eles b) = Some xs" "int (length xs) = ele_num b"
    using assms(1) by (auto simp: block_sized_def)
  have "sz_doubles (ele_num b) = 8 * length xs"
    using xs(2) assms(2) by (simp add: sz_doubles_nonneg flip: xs(2))
  then show ?thesis
    using xs by (cases "xs = []") (simp_all add: heap_read_def block_vals_def)
qed

lemma heap_write_full:
  assumes "h_arr h p = Some ys" and "length ys = length xs"
  shows "heap_write h p (doubles_bytes xs) = Inr (h\<lparr>h_arr := (h_arr h)(p \<mapsto> xs)\<rparr>)"
proof (cases "xs = []")
  case True
  then have "(h_arr h)(p \<mapsto> xs) = h_arr h" using assms by (auto simp: fun_eq_iff)
  then show ?thesis using True by (simp add: heap_write_def)
next
  case False
  then show ?thesis using assms by (simp add: heap_write_def bytes_doubles_roundtrip)
qed

lemma length_bytes_doubles [simp]: "length (bytes_doubles bs) = length bs div 8"
  by (simp add: bytes_doubles_def)

lemma heap_write_bytes:
  assumes "h_arr h p = Some ys" and "length bs = 8 * length ys"
  shows "heap_write h p bs = Inr (h\<lparr>h_arr := (h_arr h)(p \<mapsto> bytes_doubles bs)\<rparr>)"
proof (cases "bs = []")
  case True
  then have "bytes_doubles bs = []" and "ys = []" using assms by (auto simp: bytes_doubles_def)
  moreover from this have "(h_arr h)(p \<mapsto> bytes_doubles bs) = h_arr h"
    using assms by (auto simp: fun_eq_iff)
  ultimately show ?thesis using True by (simp add: heap_write_def)
next
  case False
  then show ?thesis using assms by (simp add: heap_write_def)
qed

text \<open>The heap after a fresh array was allocated and filled with \<open>xs\<close>.\<close>

definition heap_new :: "heap \<Rightarrow> double list \<Rightarrow> heap" where
  "heap_new h xs =
     h\<lparr>h_arr := (h_arr h)(h_next h \<mapsto> xs), h_next := Suc (h_next h),
       h_avail := h_avail h - 8 * length xs\<rparr>"

lemma malloc_then_write:
  assumes "0 \<le> n" and "in_int32 n" and "8 * nat n \<le> h_avail h" and "length bs = 8 * nat n"
  shows "\<exists>h1. malloc_doubles n h = (h_next h, h1) \<and>
     heap_write h1 (h_next h) bs = Inr (heap_new h (bytes_doubles bs))"
proof -
  let ?h1 = "h\<lparr>h_arr := (h_arr h)(h_next h \<mapsto> map (h_junk h) [0..<nat n]),
              h_next := Suc (h_next h), h_avail := h_avail h - 8 * nat n\<rparr>"
  have "malloc_doubles n h = (h_next h, ?h1)"
    using assms by (simp add: malloc_doubles_def sz_doubles_nonneg)
  moreover have "heap_write ?h1 (h_next h) bs = Inr (heap_new h (bytes_doubles bs))"
    using assms(4) by (subst heap_write_bytes) (auto simp: heap_new_def)
  ultimately show ?thesis by blast
qed

lemma malloc_fails:
  assumes "0 \<le> n" and "in_int32 n" and "h_avail h < 8 * nat n"
  shows "malloc_doubles n h = (0, h)"
  using assms by (simp add: malloc_doubles_def sz_doubles_nonneg)

lemma heap_write_null: "heap_ok h \<Longrightarrow> bs \<noteq> [] \<Longrightarrow> heap_write h 0 bs = Inl Null_deref"
  by (simp add: heap_write_def heap_ok_null)

lemma heap_new_simps [simp]:
  "h_next (heap_new h xs) = Suc (h_next h)"
  "h_avail (heap_new h xs) = h_avail h - 8 * length xs"
  "h_arr (heap_new h xs) = (h_arr h)(h_next h \<mapsto> xs)"
  by (simp_all add: heap_new_def)

lemma heap_ok_new: "heap_ok h \<Longrightarrow> heap_ok (heap_new h xs)"
  by (auto simp: heap_ok_def less_Suc_eq)

text \<open>What is read out of memory as a block always has the ranges of the fields.\<close>

lemma dec_int32_range: "in_int32 (dec_int32 bs)"
  using sint_ge[of "le_word bs :: 32 word"] sint_lt[of "le_word bs :: 32 word"]
  by (simp add: dec_int32_def int32_defs)

lemma overlay_block_ok: "block_ok (overlay_block bs)"
  using unsigned_less[of "dec_word64 (take 8 (drop 24 bs))", where 'a = nat]
  by (simp add: block_ok_def block_ints_ok_def overlay_block_def dec_int32_range)

end
