(* ===== verification/Partition.thy ===== *)
theory Partition
  imports MF_Common
begin

text \<open>
  \<open>partitionBlock\<close> of \<open>ps.cpp\<close>: the rows of a factor matrix are cut into \<open>portion_num\<close> blocks of
  equal height, the last ones shorter. The loop keeps \<open>acc_height\<close>; its signed arithmetic is
  checked. The lemmas give the closed form of every header, the exact condition under which no
  addition or multiplication overflows, and that the blocks tile the rows.
\<close>

section \<open>The code\<close>

type_synonym part_state = "int \<times> (nat \<Rightarrow> Block) \<times> heap"

definition partition_item :: "int \<Rightarrow> int \<Rightarrow> int \<Rightarrow> nat \<Rightarrow> part_state \<Rightarrow> part_state result" where
  "partition_item rc_num dim hgt i st =
     (let (acc_height, Blocks, h) = st in
      bindr (index_in CAP (int i)) (\<lambda>k.
      bindr (c_mul (int i) hgt) (\<lambda>sta.
      bindr (c_add acc_height hgt) (\<lambda>top.
      bindr (if top \<le> rc_num then Inr hgt else c_sub rc_num acc_height) (\<lambda>bh.
      bindr (c_add acc_height bh) (\<lambda>acc'.
      bindr (c_mul bh dim) (\<lambda>en.
      let (p, h') = malloc_doubles en h in
      Inr (acc',
           Blocks(k := (Blocks k)\<lparr>block_id := int i, data_age := 0, sta_idx := sta,
                                  height := bh, ele_num := en, eles := p\<rparr>),
           h'))))))))"

definition partitionBlock ::
    "int \<Rightarrow> int \<Rightarrow> int \<Rightarrow> (nat \<Rightarrow> Block) \<Rightarrow> heap \<Rightarrow> ((nat \<Rightarrow> Block) \<times> heap) result" where
  "partitionBlock rc_num dim portion_num Blocks h =
     bindr (c_add rc_num portion_num) (\<lambda>s.
     bindr (c_sub s 1) (\<lambda>t.
     bindr (c_div t portion_num) (\<lambda>hgt.
     bindr (for_up (partition_item rc_num dim hgt) 0 (nat portion_num) (0, Blocks, h)) (\<lambda>st.
     Inr (snd st)))))"

section \<open>Closed form\<close>

definition part_hgt :: "int \<Rightarrow> int \<Rightarrow> int" where
  "part_hgt rc pn = (rc + pn - 1) div pn"

text \<open>The first row of block \<open>i\<close> that exists, and how many rows it has.\<close>

definition part_start :: "int \<Rightarrow> int \<Rightarrow> nat \<Rightarrow> int" where
  "part_start rc hgt i = min (int i * hgt) rc"

definition part_rows :: "int \<Rightarrow> int \<Rightarrow> nat \<Rightarrow> int" where
  "part_rows rc hgt i = part_start rc hgt (Suc i) - part_start rc hgt i"

definition part_header :: "int \<Rightarrow> int \<Rightarrow> int \<Rightarrow> nat \<Rightarrow> Block \<Rightarrow> bool" where
  "part_header rc dim hgt i b \<longleftrightarrow>
     block_id b = int i \<and> data_age b = 0 \<and> sta_idx b = int i * hgt \<and>
     height b = part_rows rc hgt i \<and> ele_num b = part_rows rc hgt i * dim"

definition part_sizes_ok :: "int \<Rightarrow> int \<Rightarrow> int \<Rightarrow> bool" where
  "part_sizes_ok rc dim pn \<longleftrightarrow>
     0 \<le> rc \<and> 0 \<le> dim \<and> 1 \<le> pn \<and> pn \<le> int CAP \<and> in_int32 (rc + pn) \<and>
     in_int32 (part_hgt rc pn * dim)"

lemma part_hgt_bounds:
  assumes "0 \<le> rc" and "1 \<le> pn"
  shows "0 \<le> part_hgt rc pn" and "pn * part_hgt rc pn \<le> rc + pn - 1"
    and "rc \<le> pn * part_hgt rc pn"
proof -
  show "0 \<le> part_hgt rc pn"
    using assms by (simp add: part_hgt_def pos_imp_zdiv_nonneg_iff)
  have e: "pn * part_hgt rc pn + (rc + pn - 1) mod pn = rc + pn - 1"
    by (simp add: part_hgt_def)
  moreover have "0 \<le> (rc + pn - 1) mod pn" "(rc + pn - 1) mod pn < pn"
    using assms by auto
  ultimately show "pn * part_hgt rc pn \<le> rc + pn - 1" "rc \<le> pn * part_hgt rc pn"
    by linarith+
qed

lemma part_start_end:
  assumes "0 \<le> rc" and "1 \<le> pn"
  shows "part_start rc (part_hgt rc pn) (nat pn) = rc"
  using part_hgt_bounds(3)[OF assms] assms by (simp add: part_start_def)

lemma part_rows_bounds:
  assumes "0 \<le> rc" and "0 \<le> hgt"
  shows "0 \<le> part_rows rc hgt i" and "part_rows rc hgt i \<le> hgt" and "0 \<le> part_start rc hgt i"
  using assms by (auto simp: part_rows_def part_start_def min_def algebra_simps)

lemma partition_item_ok:
  assumes ok: "part_sizes_ok rc dim pn" and i: "int i < pn"
    and acc: "acc = part_start rc (part_hgt rc pn) i"
  shows "\<exists>p h' en. en = part_rows rc (part_hgt rc pn) i * dim \<and>
     malloc_doubles en h = (p, h') \<and>
     partition_item rc dim (part_hgt rc pn) i (acc, Bs, h) =
       Inr (part_start rc (part_hgt rc pn) (Suc i),
            Bs(i := (Bs i)\<lparr>block_id := int i, data_age := 0, sta_idx := int i * part_hgt rc pn,
                 height := part_rows rc (part_hgt rc pn) i, ele_num := en, eles := p\<rparr>), h')"
proof -
  let ?h = "part_hgt rc pn"
  note b = ok[unfolded part_sizes_ok_def] part_hgt_bounds[of rc pn]
  have h0: "0 \<le> ?h" and hp: "pn * ?h \<le> rc + pn - 1" using b by auto
  define q where "q = int i * ?h"
  have q0: "0 \<le> q" using h0 by (simp add: q_def)
  have "int (Suc i) * ?h \<le> pn * ?h" using i h0 by (intro mult_right_mono) auto
  then have qh: "q + ?h \<le> rc + pn - 1" using hp by (simp add: q_def algebra_simps)
  have ps: "part_start rc ?h i = min q rc" "part_start rc ?h (Suc i) = min (q + ?h) rc"
    by (simp_all add: part_start_def q_def algebra_simps)
  have rng: "0 \<le> rc" "rc + pn \<le> int32_max" "1 \<le> pn" using b by (auto simp: int32_defs)
  have "part_rows rc ?h i * dim \<le> ?h * dim"
    using b part_rows_bounds(2)[of rc ?h i] h0 by (intro mult_right_mono) auto
  moreover have "0 \<le> part_rows rc ?h i * dim" using b part_rows_bounds(1)[of rc ?h i] h0 by simp
  ultimately have "in_int32 (part_rows rc ?h i * dim)" using b by (auto simp: int32_defs)
  moreover have "in_int32 q" "in_int32 (acc + ?h)" "in_int32 (rc - acc)"
    "in_int32 (part_start rc ?h (Suc i))"
    using q0 qh rng h0 acc ps by (auto simp: int32_defs min_def)
  moreover from this
  have "(if acc + ?h \<le> rc then Inr ?h else c_sub rc acc) = Inr (part_rows rc ?h i)"
    using acc q0 h0 ps by (auto simp: part_rows_def c_sub_def min_def)
  moreover have "acc + part_rows rc ?h i = part_start rc ?h (Suc i)"
    by (simp add: acc part_rows_def)
  moreover have "i < CAP" using i b by linarith
  ultimately show ?thesis
    by (cases "malloc_doubles (part_rows rc ?h i * dim) h")
      (simp add: partition_item_def c_mul_def c_add_def q_def)
qed

lemma partitionBlock_loop:
  assumes ok: "part_sizes_ok rc dim pn"
  shows "partitionBlock rc dim pn Bs h =
     bindr (for_up (partition_item rc dim (part_hgt rc pn)) 0 (nat pn) (0, Bs, h))
       (\<lambda>st. Inr (snd st))"
proof -
  note b = ok[unfolded part_sizes_ok_def] part_hgt_bounds[of rc pn]
  have "in_int32 (rc + pn - 1)" using b by (auto simp: int32_defs)
  moreover from this have "c_div (rc + pn - 1) pn = Inr (part_hgt rc pn)"
    using b by (subst c_div_nonneg) (auto simp: part_hgt_def)
  ultimately show ?thesis
    using b by (simp add: partitionBlock_def c_add_def c_sub_def)
qed

lemma partition_headers:
  assumes ok: "part_sizes_ok rc dim pn"
  shows "\<exists>Bs' h'. partitionBlock rc dim pn Bs h = Inr (Bs', h') \<and>
     (\<forall>i. if int i < pn then part_header rc dim (part_hgt rc pn) i (Bs' i) \<and> isP (Bs' i) = isP (Bs i)
          else Bs' i = Bs i)"
proof -
  let ?h = "part_hgt rc pn"
  let ?I = "\<lambda>j st. fst st = part_start rc ?h j \<and>
     (\<forall>i<j. part_header rc dim ?h i (fst (snd st) i) \<and> isP (fst (snd st) i) = isP (Bs i)) \<and>
     (\<forall>i\<ge>j. fst (snd st) i = Bs i)"
  have "\<exists>st. for_up (partition_item rc dim ?h) 0 (nat pn) (0, Bs, h) = Inr st \<and> ?I (0 + nat pn) st"
  proof (rule for_up_inv)
    fix j and st :: part_state
    assume j: "0 \<le> j" "j < 0 + nat pn" and I: "?I j st"
    obtain acc Bj hj where st: "st = (acc, Bj, hj)" by (cases st)
    have "int j < pn" using j by linarith
    with partition_item_ok[OF ok this, of acc hj Bj] I st
    show "\<exists>s'. partition_item rc dim ?h j st = Inr s' \<and> ?I (Suc j) s'"
      by (auto simp: part_header_def less_Suc_eq)
  next
    show "?I 0 (0, Bs, h)" using ok by (simp add: part_start_def part_sizes_ok_def)
  qed
  then obtain acc Bs' h' where
    "for_up (partition_item rc dim ?h) 0 (nat pn) (0, Bs, h) = Inr (acc, Bs', h')"
    and I: "?I (nat pn) (acc, Bs', h')" by auto
  then have "partitionBlock rc dim pn Bs h = Inr (Bs', h')"
    by (simp add: partitionBlock_loop[OF ok])
  moreover have "\<And>i. (int i < pn) = (i < nat pn)" by linarith
  ultimately show ?thesis using I by auto
qed

text \<open>
  With memory for \<open>rc * dim\<close> doubles every array is allocated, has the announced size, and no two
  blocks share one.
\<close>

lemma part_elems_sum:
  assumes "0 \<le> rc" and "0 \<le> hgt" and "0 \<le> dim"
  shows "nat (part_rows rc hgt i * dim) + nat (part_start rc hgt i * dim) =
         nat (part_start rc hgt (Suc i) * dim)"
proof -
  have "part_rows rc hgt i * dim + part_start rc hgt i * dim = part_start rc hgt (Suc i) * dim"
    by (simp add: part_rows_def algebra_simps)
  moreover have "0 \<le> part_rows rc hgt i * dim" "0 \<le> part_start rc hgt i * dim"
    using assms part_rows_bounds[OF assms(1,2)] by simp_all
  ultimately show ?thesis by (simp flip: nat_add_distrib)
qed

lemma part_elems_le:
  assumes "0 \<le> rc" and "0 \<le> dim"
  shows "nat (part_start rc hgt i * dim) \<le> nat (rc * dim)"
  using assms by (intro nat_mono mult_right_mono) (auto simp: part_start_def)

definition part_mem :: "heap \<Rightarrow> int \<Rightarrow> int \<Rightarrow> int \<Rightarrow> nat \<Rightarrow> part_state \<Rightarrow> bool" where
  "part_mem h rc dim hgt j st \<longleftrightarrow>
     fst st = part_start rc hgt j \<and> h_next (snd (snd st)) = h_next h + j \<and>
     h_avail (snd (snd st)) + 8 * nat (part_start rc hgt j * dim) = h_avail h \<and>
     (\<forall>i<j. eles (fst (snd st) i) = h_next h + i \<and> block_sized (snd (snd st)) (fst (snd st) i)) \<and>
     (\<forall>a<h_next h. h_arr (snd (snd st)) a = h_arr h a)"

lemma part_mem_step:
  assumes ok: "part_sizes_ok rc dim pn" and i: "int i < pn"
    and mem: "8 * nat (rc * dim) \<le> h_avail h"
    and I: "part_mem h rc dim (part_hgt rc pn) i st"
  shows "\<exists>st'. partition_item rc dim (part_hgt rc pn) i st = Inr st' \<and>
     part_mem h rc dim (part_hgt rc pn) (Suc i) st'"
proof -
  let ?h = "part_hgt rc pn"
  obtain acc Bi hi where st: "st = (acc, Bi, hi)" by (cases st)
  note b = ok[unfolded part_sizes_ok_def] part_hgt_bounds(1)[of rc pn]
  have "acc = part_start rc ?h i" using I by (simp add: part_mem_def st)
  from partition_item_ok[OF ok i this, of hi Bi] obtain p h' en where
    en: "en = part_rows rc ?h i * dim" and m: "malloc_doubles en hi = (p, h')" and
    r: "partition_item rc dim ?h i st = Inr (part_start rc ?h (Suc i),
            Bi(i := (Bi i)\<lparr>block_id := int i, data_age := 0, sta_idx := int i * ?h,
                 height := part_rows rc ?h i, ele_num := en, eles := p\<rparr>), h')"
    by (auto simp: st)
  have en0: "0 \<le> en" using b en part_rows_bounds(1)[of rc ?h i] by simp
  have "en \<le> ?h * dim" unfolding en
    using b part_rows_bounds(2)[of rc ?h i] by (intro mult_right_mono) auto
  then have "in_int32 en" using en0 b by (auto simp: int32_defs)
  then have sz: "sz_doubles en = 8 * nat en" using en0 by (simp add: sz_doubles_nonneg)
  have sum: "nat en + nat (part_start rc ?h i * dim) = nat (part_start rc ?h (Suc i) * dim)"
    using part_elems_sum[of rc ?h dim i] b en by simp
  have le: "nat (part_start rc ?h (Suc i) * dim) \<le> nat (rc * dim)"
    using part_elems_le[of rc dim ?h "Suc i"] b by simp
  have av: "h_avail hi + 8 * nat (part_start rc ?h i * dim) = h_avail h"
    using I by (simp add: part_mem_def st)
  have "sz_doubles en \<le> h_avail hi" using sz sum le av mem by linarith
  then have "p = h_next hi"
    "h' = hi\<lparr>h_arr := (h_arr hi)(h_next hi \<mapsto> map (h_junk hi) [0..<nat en]),
             h_next := Suc (h_next hi), h_avail := h_avail hi - 8 * nat en\<rparr>"
    using m sz by (auto simp: malloc_doubles_def)
  moreover have "h_avail hi - 8 * nat en + 8 * nat (part_start rc ?h (Suc i) * dim) = h_avail h"
    using sz sum le av mem by linarith
  ultimately have "part_mem h rc dim ?h (Suc i) (part_start rc ?h (Suc i),
            Bi(i := (Bi i)\<lparr>block_id := int i, data_age := 0, sta_idx := int i * ?h,
                 height := part_rows rc ?h i, ele_num := en, eles := p\<rparr>), h')"
    using I en0 by (auto simp: part_mem_def st block_sized_def less_Suc_eq)
  with r show ?thesis by blast
qed

lemma partition_memory:
  assumes ok: "part_sizes_ok rc dim pn" and mem: "8 * nat (rc * dim) \<le> h_avail h"
  shows "\<exists>Bs' h'. partitionBlock rc dim pn Bs h = Inr (Bs', h') \<and>
     (\<forall>i. int i < pn \<longrightarrow> eles (Bs' i) = h_next h + i \<and> block_sized h' (Bs' i)) \<and>
     (\<forall>a<h_next h. h_arr h' a = h_arr h a) \<and>
     h_next h' = h_next h + nat pn \<and> h_avail h' + 8 * nat (rc * dim) = h_avail h"
proof -
  let ?h = "part_hgt rc pn"
  have "\<exists>st. for_up (partition_item rc dim ?h) 0 (nat pn) (0, Bs, h) = Inr st \<and>
      part_mem h rc dim ?h (0 + nat pn) st"
  proof (rule for_up_inv)
    show "part_mem h rc dim ?h 0 (0, Bs, h)"
      using ok by (simp add: part_mem_def part_start_def part_sizes_ok_def)
  qed (use part_mem_step[OF ok _ mem] in simp)
  then obtain acc Bs' h' where
    "for_up (partition_item rc dim ?h) 0 (nat pn) (0, Bs, h) = Inr (acc, Bs', h')"
    and "part_mem h rc dim ?h (nat pn) (acc, Bs', h')" by auto
  moreover have "part_start rc ?h (nat pn) = rc"
    using part_start_end[of rc pn] ok by (simp add: part_sizes_ok_def)
  ultimately show ?thesis
    by (auto simp: partitionBlock_loop[OF ok] part_mem_def zless_nat_eq_int_zless)
qed

section \<open>The blocks tile the rows\<close>

lemma part_start_mono:
  "0 \<le> hgt \<Longrightarrow> i \<le> j \<Longrightarrow> part_start rc hgt i \<le> part_start rc hgt j"
  using mult_right_mono[of "int i" "int j" hgt] by (auto simp: part_start_def min_def)

lemma part_rows_sum: "(\<Sum>i<n. part_rows rc hgt i) = part_start rc hgt n - part_start rc hgt 0"
  by (induction n) (auto simp: part_rows_def)

lemma part_cover:
  assumes "0 \<le> rc" and "1 \<le> pn" and "0 \<le> r" and "r < rc"
  shows "\<exists>!i. i < nat pn \<and> int i * part_hgt rc pn \<le> r \<and>
           r < int i * part_hgt rc pn + part_rows rc (part_hgt rc pn) i"
proof -
  let ?h = "part_hgt rc pn"
  have h0: "0 < ?h"
    using part_hgt_bounds[OF assms(1,2)] assms by (metis le_less_trans less_le mult_zero_right not_less)
  have "r < pn * ?h" using part_hgt_bounds(3)[OF assms(1,2)] assms by linarith
  have lt: "r div ?h < pn"
  proof (rule ccontr)
    assume "\<not> r div ?h < pn"
    then have "pn * ?h \<le> r div ?h * ?h" using h0 by (intro mult_right_mono) auto
    also have "\<dots> \<le> r" using h0 by (simp add: minus_mod_eq_div_mult [symmetric])
    finally show False using \<open>r < pn * ?h\<close> by simp
  qed
  have ge: "0 \<le> r div ?h" using h0 assms by (simp add: pos_imp_zdiv_nonneg_iff)
  have dm: "r = ?h * (r div ?h) + r mod ?h" "0 \<le> r mod ?h" "r mod ?h < ?h" using h0 by auto
  have rows: "\<And>i. int i * ?h \<le> r \<Longrightarrow>
     r < int i * ?h + part_rows rc ?h i \<longleftrightarrow> r < int i * ?h + ?h"
    using assms by (auto simp: part_rows_def part_start_def min_def algebra_simps)
  show ?thesis
  proof (rule ex1I[of _ "nat (r div ?h)"])
    have "int (nat (r div ?h)) * ?h = ?h * (r div ?h)" using ge by simp
    then have "int (nat (r div ?h)) * ?h \<le> r" "r < int (nat (r div ?h)) * ?h + ?h"
      using dm by linarith+
    then show "nat (r div ?h) < nat pn \<and> int (nat (r div ?h)) * ?h \<le> r \<and>
        r < int (nat (r div ?h)) * ?h + part_rows rc ?h (nat (r div ?h))"
      using lt ge rows[of "nat (r div ?h)"] by auto
  next
    fix i assume i: "i < nat pn \<and> int i * ?h \<le> r \<and> r < int i * ?h + part_rows rc ?h i"
    then have "int i * ?h \<le> r" "r < int i * ?h + ?h" using rows by auto
    then have "r div ?h = int i"
      by (intro int_div_pos_eq[of r ?h "int i" "r - int i * ?h"]) (auto simp: algebra_simps)
    then show "i = nat (r div ?h)" by simp
  qed
qed

section \<open>Sizes of the shipped benchmark\<close>

lemma part_hgt_le: "0 \<le> rc \<Longrightarrow> 1 \<le> pn \<Longrightarrow> part_hgt rc pn \<le> rc"
proof -
  assume a: "0 \<le> rc" "1 \<le> pn"
  show ?thesis
  proof (cases "rc = 0")
    case True
    then show ?thesis using a by (simp add: part_hgt_def)
  next
    case False
    have "0 \<le> (pn - 1) * (rc - 1)" using a False by simp
    then have "rc + pn - 1 \<le> rc * pn" by (simp add: algebra_simps)
    then have "(rc + pn - 1) div pn \<le> (rc * pn) div pn" using a by (intro zdiv_mono1) auto
    then show ?thesis using a by (simp add: part_hgt_def)
  qed
qed

lemma part_sizes_shipped:
  assumes "1 \<le> pn" and "pn \<le> int CAP"
  shows "part_sizes_ok N_rows K_dim pn" and "part_sizes_ok M_cols K_dim pn"
  using assms part_hgt_le[of N_rows pn] part_hgt_le[of M_cols pn]
    part_hgt_bounds(1)[of N_rows pn] part_hgt_bounds(1)[of M_cols pn]
  by (auto simp: part_sizes_ok_def mf_constants int32_defs)

section \<open>Properties\<close>

text \<open>
  C20: \<open>partitionBlock\<close> tiles the rows: for sizes within the range of \<open>int\<close>, it returns, block \<open>i\<close>
  has id \<open>i\<close>, age 0, no negative height, \<open>height * dim\<close> elements and at most the common height of
  rows; every row of the matrix lies in exactly one block's range \<open>[sta_idx, sta_idx + height)\<close>;
  blocks beyond \<open>portion_num\<close> are untouched.
\<close>

theorem partition_tiles:
  assumes "part_sizes_ok rc dim pn"
  shows "\<exists>Bs' h'. partitionBlock rc dim pn Bs h = Inr (Bs', h') \<and>
     (\<forall>i<nat pn. block_id (Bs' i) = int i \<and> data_age (Bs' i) = 0 \<and>
        0 \<le> height (Bs' i) \<and> height (Bs' i) \<le> part_hgt rc pn \<and>
        ele_num (Bs' i) = height (Bs' i) * dim) \<and>
     (\<forall>r. 0 \<le> r \<and> r < rc \<longrightarrow>
        (\<exists>!i. i < nat pn \<and> sta_idx (Bs' i) \<le> r \<and> r < sta_idx (Bs' i) + height (Bs' i))) \<and>
     (\<Sum>i<nat pn. height (Bs' i)) = rc \<and> (\<forall>i\<ge>nat pn. Bs' i = Bs i)"
proof -
  let ?h = "part_hgt rc pn"
  have b: "0 \<le> rc" "1 \<le> pn" using assms by (auto simp: part_sizes_ok_def)
  obtain Bs' h' where r: "partitionBlock rc dim pn Bs h = Inr (Bs', h')" and
    all: "\<forall>i. if int i < pn then part_header rc dim ?h i (Bs' i) \<and> isP (Bs' i) = isP (Bs i)
            else Bs' i = Bs i"
    using partition_headers[OF assms, of Bs h] by blast
  have hd: "part_header rc dim ?h i (Bs' i)" if "i < nat pn" for i
    using all[rule_format, of i] that by (auto split: if_splits)
  have "Bs' i = Bs i" if "nat pn \<le> i" for i
    using all[rule_format, of i] that b by (auto split: if_splits)
  then have rest: "\<forall>i\<ge>nat pn. Bs' i = Bs i" by blast
  have "\<exists>!i. i < nat pn \<and> sta_idx (Bs' i) \<le> r \<and> r < sta_idx (Bs' i) + height (Bs' i)"
    if "0 \<le> r" "r < rc" for r
  proof -
    have "i < nat pn \<and> sta_idx (Bs' i) \<le> r \<and> r < sta_idx (Bs' i) + height (Bs' i) \<longleftrightarrow>
       i < nat pn \<and> int i * ?h \<le> r \<and> r < int i * ?h + part_rows rc ?h i" for i
      using hd[of i] by (auto simp: part_header_def)
    then show ?thesis using part_cover[OF b that] by simp
  qed
  moreover have "(\<Sum>i<nat pn. height (Bs' i)) = (\<Sum>i<nat pn. part_rows rc ?h i)"
    using hd by (intro sum.cong) (auto simp: part_header_def)
  then have "(\<Sum>i<nat pn. height (Bs' i)) = rc"
    using part_start_end[OF b] b by (simp add: part_rows_sum part_start_def min_def)
  moreover have "\<forall>i<nat pn. block_id (Bs' i) = int i \<and> data_age (Bs' i) = 0 \<and>
        0 \<le> height (Bs' i) \<and> height (Bs' i) \<le> ?h \<and> ele_num (Bs' i) = height (Bs' i) * dim"
    using hd part_rows_bounds[OF b(1) part_hgt_bounds(1)[OF b]] by (auto simp: part_header_def)
  ultimately show ?thesis using r rest by blast
qed

theorem partition_tiles_witness:
  "\<exists>Bs' h'. partitionBlock 10 2 4 (\<lambda>_. zero_block) (fresh_heap 1000) = Inr (Bs', h') \<and>
     (\<exists>!i. i < 4 \<and> sta_idx (Bs' i) \<le> 7 \<and> 7 < sta_idx (Bs' i) + height (Bs' i))"
proof -
  have "part_sizes_ok 10 2 4" by (simp add: part_sizes_ok_def part_hgt_def CAP_def int32_defs)
  then obtain Bs' h' where r: "partitionBlock 10 2 4 (\<lambda>_. zero_block) (fresh_heap 1000) = Inr (Bs', h')"
    and c: "\<forall>r. 0 \<le> r \<and> r < 10 \<longrightarrow>
        (\<exists>!i. i < nat 4 \<and> sta_idx (Bs' i) \<le> r \<and> r < sta_idx (Bs' i) + height (Bs' i))"
    using partition_tiles[of 10 2 4 "\<lambda>_. zero_block" "fresh_heap 1000"] by blast
  show ?thesis using r c[rule_format, of 7] by simp
qed

text \<open>
  With memory for \<open>rc * dim\<close> doubles, \<open>partitionBlock\<close> gives every block an array of its own of
  exactly \<open>ele_num\<close> elements, leaves the arrays that existed before alone, and uses \<open>8 * rc * dim\<close>
  bytes in all: nothing is allocated twice or wasted.
\<close>

lemma partition_allocates:
  assumes "part_sizes_ok rc dim pn" and "8 * nat (rc * dim) \<le> h_avail h"
  shows "\<exists>Bs' h'. partitionBlock rc dim pn Bs h = Inr (Bs', h') \<and>
     (\<forall>i<nat pn. block_sized h' (Bs' i)) \<and>
     (\<forall>i<nat pn. \<forall>j<nat pn. eles (Bs' i) = eles (Bs' j) \<longrightarrow> i = j) \<and>
     (\<forall>i<nat pn. \<forall>a<h_next h. eles (Bs' i) \<noteq> a \<and> h_arr h' a = h_arr h a) \<and>
     h_avail h' + 8 * nat (rc * dim) = h_avail h"
proof -
  obtain Bs' h' where "partitionBlock rc dim pn Bs h = Inr (Bs', h')"
    and "\<forall>i. int i < pn \<longrightarrow> eles (Bs' i) = h_next h + i \<and> block_sized h' (Bs' i)"
    and "\<forall>a<h_next h. h_arr h' a = h_arr h a"
    and "h_avail h' + 8 * nat (rc * dim) = h_avail h"
    using partition_memory[OF assms, of Bs] by blast
  then show ?thesis by (intro exI[of _ Bs'] exI[of _ h']) (auto simp: zless_nat_eq_int_zless)
qed

lemma partition_allocates_example:
  "\<exists>Bs' h'. partitionBlock 10 2 4 (\<lambda>_. zero_block) (fresh_heap 1000) = Inr (Bs', h') \<and>
     block_sized h' (Bs' 3) \<and> h_avail h' = 840"
proof -
  have "part_sizes_ok 10 2 4" by (simp add: part_sizes_ok_def part_hgt_def CAP_def int32_defs)
  moreover have "8 * nat (10 * 2) \<le> h_avail (fresh_heap 1000)" by (simp add: fresh_heap_def)
  ultimately obtain Bs' h' where
    "partitionBlock 10 2 4 (\<lambda>_. zero_block) (fresh_heap 1000) = Inr (Bs', h')"
    "\<forall>i<nat 4. block_sized h' (Bs' i)" "h_avail h' + 8 * nat (10 * 2) = h_avail (fresh_heap 1000)"
    using partition_allocates[of 10 2 4 "fresh_heap 1000" "\<lambda>_. zero_block"] by blast
  then show ?thesis by (simp add: fresh_heap_def)
qed

text \<open>
  The shipped matrices are partitioned without any signed overflow for every number of workers
  from 1 to \<open>CAP\<close>, and both calls of \<open>main\<close> return.
\<close>

lemma partition_shipped_sizes:
  assumes "1 \<le> pn" and "pn \<le> int CAP"
  shows "(\<exists>r. partitionBlock N_rows K_dim pn Ps h = Inr r) \<and>
     (\<exists>r. partitionBlock M_cols K_dim pn Qs h = Inr r)"
  using partition_headers[OF part_sizes_shipped(1)[OF assms], of Ps h]
    partition_headers[OF part_sizes_shipped(2)[OF assms], of Qs h] by blast

lemma partition_shipped_sizes_example:
  "\<exists>r. partitionBlock N_rows K_dim 4 (\<lambda>_. zero_block) (fresh_heap 0) = Inr r"
  using partition_shipped_sizes[of 4 "\<lambda>_. zero_block" "fresh_heap 0"] by (simp add: CAP_def)

text \<open>
  Zero workers (\<open>./ps 0\<close>, or an argument that is no number) divide by zero in
  \<open>partitionBlock\<close>, for every matrix size an \<open>int\<close> can hold.
\<close>

lemma partition_zero_portions:
  assumes "0 \<le> rc" and "in_int32 rc"
  shows "partitionBlock rc dim 0 Bs h = Inl Div_by_zero"
  using assms by (simp add: partitionBlock_def c_add_def c_sub_def c_div_def int32_defs)

lemma partition_zero_portions_example:
  "partitionBlock N_rows K_dim 0 (\<lambda>_. zero_block) (fresh_heap 0) = Inl Div_by_zero"
  by (rule partition_zero_portions) (simp_all add: mf_constants int32_defs)

text \<open>
  Enough workers leave some without rows: the partition of the shipped column count (624961)
  among 818 workers gives the last block height 0 and no elements, although 818 is within \<open>CAP\<close>.
\<close>

lemma partition_empty_block:
  "\<exists>Bs' h'. partitionBlock M_cols K_dim 818 Bs h = Inr (Bs', h') \<and>
     height (Bs' 817) = 0 \<and> ele_num (Bs' 817) = 0"
proof -
  obtain Bs' h' where r: "partitionBlock M_cols K_dim 818 Bs h = Inr (Bs', h')" and
    all: "\<forall>i. if int i < 818 then part_header M_cols K_dim (part_hgt M_cols 818) i (Bs' i) \<and>
              isP (Bs' i) = isP (Bs i) else Bs' i = Bs i"
    using partition_headers[OF part_sizes_shipped(2)[of 818], of Bs h] by (auto simp: CAP_def)
  have "part_rows M_cols (part_hgt M_cols 818) 817 = 0"
    by (simp add: part_rows_def part_start_def part_hgt_def M_cols_def)
  then show ?thesis
    using r all[rule_format, of 817] by (auto simp: part_header_def)
qed

text \<open>
  The edges of \<open>partitionBlock\<close> for the shipped matrices: with 0 workers, as for an argument that
  is no number, it divides by zero; for every number from 1 to \<open>CAP\<close> both calls of \<open>main\<close> return
  without a signed overflow.
\<close>

lemma partition_edges:
  assumes "0 \<le> pn" and "pn \<le> int CAP"
  shows "if pn = 0 then partitionBlock N_rows K_dim pn Ps h = Inl Div_by_zero
    else (\<exists>r. partitionBlock N_rows K_dim pn Ps h = Inr r) \<and> (\<exists>r. partitionBlock M_cols K_dim pn Qs h = Inr r)"
  using partition_zero_portions[of N_rows K_dim Ps h] partition_shipped_sizes[of pn Ps h Qs] assms
  by (simp add: mf_constants int32_defs)

lemma partition_edges_example:
  "\<exists>r. partitionBlock N_rows K_dim (int CAP) (\<lambda>_. zero_block) (fresh_heap 0) = Inr r"
  using partition_edges[of "int CAP" "\<lambda>_. zero_block" "fresh_heap 0"] by (simp add: CAP_def)

end
