(* ===== verification/Verbs.thy ===== *)
theory Verbs
  imports Wire
begin

text \<open>
  The boundary to librdmacm, libibverbs and the resolver, which are not part of the repository. A
  call is a value of type \<open>call\<close>; what the library answers is a parameter \<open>V\<close> of every definition
  that makes calls, a function from the call and the state of the outside world to a \<open>reply\<close> and
  the next world. Nothing is assumed about \<open>V\<close> here. \<open>traced V\<close> is the same library with a log of
  the calls, for statements about their order. \<open>common.h\<close> contributes the message that server and
  client exchange and the two macros that end the process.
\<close>

section \<open>Data of the calls\<close>

record ibv_mr =
  mr_addr :: nat
  mr_length :: nat
  mr_lkey :: "32 word"
  mr_rkey :: "32 word"

record ibv_sge =
  sge_addr :: "64 word"
  sge_length :: "32 word"
  sge_lkey :: "32 word"

datatype wr_opcode = IBV_WR_SEND | IBV_WR_RDMA_WRITE | IBV_WR_RDMA_WRITE_WITH_IMM

record send_wr =
  swr_id :: nat
  swr_opcode :: wr_opcode
  swr_signaled :: bool
  swr_imm :: "32 word"
  swr_remote_addr :: "64 word"
  swr_rkey :: "32 word"
  swr_sges :: "ibv_sge list"

text \<open>A work request after \<open>memset(&wr, 0, sizeof(wr))\<close>; opcode 0 is \<open>IBV_WR_RDMA_WRITE\<close>.\<close>

definition zero_send_wr :: send_wr where
  "zero_send_wr = \<lparr>swr_id = 0, swr_opcode = IBV_WR_RDMA_WRITE, swr_signaled = False, swr_imm = 0,
     swr_remote_addr = 0, swr_rkey = 0, swr_sges = []\<rparr>"

record recv_wr =
  rwr_id :: nat
  rwr_sges :: "ibv_sge list"

datatype wc_opcode =
    IBV_WC_SEND
  | IBV_WC_RDMA_WRITE
  | IBV_WC_RDMA_READ
  | IBV_WC_RECV
  | IBV_WC_RECV_RDMA_WITH_IMM

text \<open>\<open>wc->opcode & IBV_WC_RECV\<close>: the bit is set in exactly the receive opcodes.\<close>

fun opcode_recv_bit :: "wc_opcode \<Rightarrow> bool" where
  "opcode_recv_bit IBV_WC_RECV = True"
| "opcode_recv_bit IBV_WC_RECV_RDMA_WITH_IMM = True"
| "opcode_recv_bit _ = False"

record ibv_wc =
  wc_id :: nat
  wc_status :: nat
  wc_opcode :: wc_opcode
  wc_imm :: "32 word"

datatype cm_event_type =
    RDMA_CM_EVENT_ADDR_RESOLVED
  | RDMA_CM_EVENT_ROUTE_RESOLVED
  | RDMA_CM_EVENT_CONNECT_REQUEST
  | RDMA_CM_EVENT_ESTABLISHED
  | RDMA_CM_EVENT_DISCONNECTED
  | RDMA_CM_EVENT_OTHER nat

record cm_event =
  ev_event :: cm_event_type
  ev_id :: nat
  ev_verbs :: nat
  ev_status :: int

record conn_param =
  initiator_depth :: nat
  responder_resources :: nat
  retry_count :: nat
  rnr_retry_count :: nat

record qp_attr =
  qp_send_cq :: nat
  qp_recv_cq :: nat
  qp_reliable :: bool
  max_send_wr :: nat
  max_recv_wr :: nat
  max_send_sge :: nat
  max_recv_sge :: nat

datatype access = LOCAL_WRITE | REMOTE_READ | REMOTE_WRITE

section \<open>Calls and replies\<close>

datatype (plugins only: code size) call =
    Getaddrinfo string string
  | Freeaddrinfo
  | Create_event_channel
  | Destroy_event_channel nat
  | Create_id nat
  | Destroy_id nat
  | Bind_addr nat int
  | Listen nat nat
  | Resolve_addr nat nat
  | Resolve_route nat nat
  | Connect nat conn_param
  | Accept nat conn_param
  | Disconnect nat
  | Get_cm_event nat
  | Ack_cm_event
  | Create_qp nat nat qp_attr
  | Destroy_qp nat
  | Alloc_pd nat
  | Dealloc_pd nat
  | Create_comp_channel nat
  | Destroy_comp_channel nat
  | Create_cq nat nat nat
  | Destroy_cq nat
  | Req_notify_cq nat
  | Get_cq_event nat
  | Ack_cq_events nat nat
  | Poll_cq nat nat
  | Reg_mr nat nat nat "access list"
  | Dereg_mr ibv_mr
  | Memalign nat
  | Malloc nat
  | Calloc nat
  | Free nat
  | Post_send nat send_wr
  | Post_recv nat recv_wr
  | Pthread_create nat
  | Socket
  | Bind_socket int string int
  | Listen_socket int nat
  | Accept_socket int

text \<open>
  \<open>r_code\<close> is the integer result, \<open>r_handle\<close> the pointer the call returns or stores (0 is \<open>NULL\<close>),
  \<open>r_mr\<close>, \<open>r_event\<close> and \<open>r_wcs\<close> what it points to, \<open>r_errno\<close> the value of \<open>errno\<close> after it.
\<close>

record reply =
  r_code :: int
  r_errno :: int
  r_handle :: nat
  r_mr :: ibv_mr
  r_event :: cm_event
  r_wcs :: "ibv_wc list"

type_synonym 'w verbs = "call \<Rightarrow> 'w \<Rightarrow> reply \<times> 'w"

definition traced :: "'w verbs \<Rightarrow> ('w \<times> call list) verbs" where
  "traced V c st = (let (r, w') = V c (fst st) in (r, (w', snd st @ [c])))"

section \<open>\<open>common.h\<close> and \<open>common.cpp\<close>\<close>

definition TIMEOUT_IN_MS :: nat where "TIMEOUT_IN_MS = 500"
definition BUFFER_SIZE :: nat where "BUFFER_SIZE = 500 * 1024 * 1024"

definition MSG_INVALID :: int where "MSG_INVALID = 0"
definition MSG_MR :: int where "MSG_MR = 1"
definition MSG_READY :: int where "MSG_READY = 2"
definition MSG_DONE :: int where "MSG_DONE = 3"

lemmas msg_ids = MSG_INVALID_def MSG_MR_def MSG_READY_def MSG_DONE_def

record message =
  msg_id :: int
  msg_addr :: "64 word"
  msg_rkey :: "32 word"

definition MESSAGE_SZ :: nat where "MESSAGE_SZ = 24"

record rdma_context =
  cx_ctx :: nat
  cx_pd :: nat
  cx_cq :: nat
  cx_comp_channel :: nat

definition rc_die :: "string \<Rightarrow> 'a result" where
  "rc_die reason = Inl (Died reason)"

definition rc_disconnect :: "'w verbs \<Rightarrow> nat \<Rightarrow> 'w \<Rightarrow> 'w" where
  "rc_disconnect V cid w = snd (V (Disconnect cid) w)"

definition TEST_NZ :: "'w verbs \<Rightarrow> call \<Rightarrow> 'w \<Rightarrow> (reply \<times> 'w) result" where
  "TEST_NZ V c w =
     (let (r, w') = V c w in
      if r_code r \<noteq> 0 then rc_die ''returned non-zero'' else Inr (r, w'))"

definition TEST_Z :: "'w verbs \<Rightarrow> call \<Rightarrow> 'w \<Rightarrow> (reply \<times> 'w) result" where
  "TEST_Z V c w =
     (let (r, w') = V c w in
      if r_handle r = 0 then rc_die ''returned zero/null'' else Inr (r, w'))"

lemma TEST_NZ_eq_Inr:
  "TEST_NZ V c w = Inr rw \<longleftrightarrow> (\<exists>r w'. rw = (r, w') \<and> V c w = (r, w') \<and> r_code r = 0)"
  by (auto simp: TEST_NZ_def rc_die_def split: prod.splits)

lemma TEST_Z_eq_Inr:
  "TEST_Z V c w = Inr rw \<longleftrightarrow> (\<exists>r w'. rw = (r, w') \<and> V c w = (r, w') \<and> r_handle r \<noteq> 0)"
  by (auto simp: TEST_Z_def rc_die_def split: prod.splits)

lemma TEST_NZ_ok: "r_code (fst (V c w)) = 0 \<Longrightarrow> TEST_NZ V c w = Inr (V c w)"
  by (cases "V c w") (simp add: TEST_NZ_def)

lemma TEST_Z_ok: "r_handle (fst (V c w)) \<noteq> 0 \<Longrightarrow> TEST_Z V c w = Inr (V c w)"
  by (cases "V c w") (simp add: TEST_Z_def)

lemmas call_elims = TEST_NZ_eq_Inr TEST_Z_eq_Inr

text \<open>The log grows by the call, whatever the library answers.\<close>

lemma traced_eq: "traced V c st = (fst (V c (fst st)), (snd (V c (fst st)), snd st @ [c]))"
  by (simp add: traced_def Let_def split_beta)

lemma traced_NZ:
  "TEST_NZ (traced V) c st = Inr x \<longleftrightarrow>
     r_code (fst (V c (fst st))) = 0 \<and> x = (fst (V c (fst st)), (snd (V c (fst st)), snd st @ [c]))"
  by (auto simp: TEST_NZ_def traced_eq rc_die_def)

lemma traced_Z:
  "TEST_Z (traced V) c st = Inr x \<longleftrightarrow>
     r_handle (fst (V c (fst st))) \<noteq> 0 \<and> x = (fst (V c (fst st)), (snd (V c (fst st)), snd st @ [c]))"
  by (auto simp: TEST_Z_def traced_eq rc_die_def)

lemmas traced_calls = traced_eq traced_NZ traced_Z

section \<open>Repeating a call\<close>

text \<open>
  \<open>do ... while\<close> around one call, which is repeated as long as its reply satisfies \<open>again\<close>. The loop
  returns exactly when some repetition does not.
\<close>

partial_function (option) repeat_call :: "'w verbs \<Rightarrow> call \<Rightarrow> (reply \<Rightarrow> bool) \<Rightarrow> 'w \<Rightarrow> 'w option" where
  "repeat_call V c again w =
     (let (r, w1) = V c w in if again r then repeat_call V c again w1 else Some w1)"

primrec after_calls :: "'w verbs \<Rightarrow> call \<Rightarrow> nat \<Rightarrow> 'w \<Rightarrow> 'w" where
  "after_calls V c 0 w = w"
| "after_calls V c (Suc n) w = after_calls V c n (snd (V c w))"

definition nth_reply :: "'w verbs \<Rightarrow> call \<Rightarrow> 'w \<Rightarrow> nat \<Rightarrow> reply" where
  "nth_reply V c w n = fst (V c (after_calls V c n w))"

lemma nth_reply_Suc: "nth_reply V c w (Suc n) = nth_reply V c (snd (V c w)) n"
  by (simp add: nth_reply_def)

lemma repeat_call_step:
  "repeat_call V c again w =
     (if again (nth_reply V c w 0) then repeat_call V c again (snd (V c w)) else Some (snd (V c w)))"
  by (subst repeat_call.simps) (simp add: nth_reply_def Let_def split_beta)

lemma repeat_call_ends:
  "(\<And>i. i < n \<Longrightarrow> again (nth_reply V c w i)) \<Longrightarrow> \<not> again (nth_reply V c w n) \<Longrightarrow>
   repeat_call V c again w = Some (after_calls V c (Suc n) w)"
proof (induction n arbitrary: w)
  case 0
  then show ?case by (simp add: repeat_call_step)
next
  case (Suc n)
  have "repeat_call V c again (snd (V c w)) = Some (after_calls V c (Suc n) (snd (V c w)))"
  proof (rule Suc.IH)
    fix i assume "i < n"
    then show "again (nth_reply V c (snd (V c w)) i)" using Suc.prems(1)[of "Suc i"] by (simp add: nth_reply_Suc)
  qed (use Suc.prems(2) in \<open>simp add: nth_reply_Suc\<close>)
  then show ?case using Suc.prems(1)[of 0] by (subst repeat_call_step) simp
qed

lemma repeat_call_returned:
  assumes "repeat_call V c again w = Some w'"
  shows "\<exists>n. (\<forall>i<n. again (nth_reply V c w i)) \<and> \<not> again (nth_reply V c w n) \<and> w' = after_calls V c (Suc n) w"
proof (rule repeat_call.raw_induct[OF _ assms, of "\<lambda>V c again w w'. \<exists>n. (\<forall>i<n. again (nth_reply V c w i)) \<and>
    \<not> again (nth_reply V c w n) \<and> w' = after_calls V c (Suc n) w"])
  fix f :: "'a verbs \<Rightarrow> call \<Rightarrow> (reply \<Rightarrow> bool) \<Rightarrow> 'a \<Rightarrow> 'a option" and V c again w w'
  assume IH: "\<And>V c again w y. f V c again w = Some y \<Longrightarrow> \<exists>n. (\<forall>i<n. again (nth_reply V c w i)) \<and>
      \<not> again (nth_reply V c w n) \<and> y = after_calls V c (Suc n) w"
    and r: "(let (r, w1) = V c w in if again r then f V c again w1 else Some w1) = Some w'"
  show "\<exists>n. (\<forall>i<n. again (nth_reply V c w i)) \<and> \<not> again (nth_reply V c w n) \<and> w' = after_calls V c (Suc n) w"
  proof (cases "again (nth_reply V c w 0)")
    case True
    then have "f V c again (snd (V c w)) = Some w'" using r by (simp add: nth_reply_def Let_def split_beta)
    from IH[OF this] obtain n where "\<forall>i<n. again (nth_reply V c (snd (V c w)) i)"
      "\<not> again (nth_reply V c (snd (V c w)) n)" "w' = after_calls V c (Suc n) (snd (V c w))" by blast
    then show ?thesis using True by (intro exI[of _ "Suc n"]) (auto simp: nth_reply_Suc less_Suc_eq_0_disj)
  next
    case False
    then show ?thesis using r by (intro exI[of _ 0]) (simp add: nth_reply_def Let_def split_beta)
  qed
qed

lemma repeat_call_iff: "(\<exists>w'. repeat_call V c again w = Some w') \<longleftrightarrow> (\<exists>n. \<not> again (nth_reply V c w n))"
proof
  assume "\<exists>n. \<not> again (nth_reply V c w n)"
  then obtain n where "\<not> again (nth_reply V c w n)" "\<And>i. i < n \<Longrightarrow> again (nth_reply V c w i)"
    using exists_least_iff[of "\<lambda>n. \<not> again (nth_reply V c w n)"] by blast
  then have "repeat_call V c again w = Some (after_calls V c (Suc n) w)"
    by (intro repeat_call_ends)
  then show "\<exists>w'. repeat_call V c again w = Some w'" by blast
next
  assume "\<exists>w'. repeat_call V c again w = Some w'"
  then obtain w' where "repeat_call V c again w = Some w'" ..
  from repeat_call_returned[OF this] show "\<exists>n. \<not> again (nth_reply V c w n)" by (elim exE conjE) (rule exI)
qed

end
