(* ===== verification/Block_Wire.thy ===== *)
theory Block_Wire
  imports MF_Common Verbs
begin

text \<open>
  How a pair of blocks travels through a link's buffer. Both programs pack in the same way: header
  of P, elements of P, header of Q, elements of Q, back to back. \<open>pack_blocks\<close> is that packing with
  the buffer's bound; \<open>read_blocks\<close> is what overlaying the two headers and reading the element
  arrays behind them yields. The locale \<open>message_port\<close> is the contract that the transport and the
  programs share: what is packed is what is read wherever the first \<open>len\<close> bytes have been copied.
\<close>

section \<open>The contract\<close>

locale message_port =
  fixes put :: "'m \<Rightarrow> mem \<Rightarrow> (mem \<times> nat) result"
    and get :: "mem \<Rightarrow> 'v result"
    and view :: "'m \<Rightarrow> 'v"
    and ok :: "'m \<Rightarrow> bool"
  assumes put_get: "ok x \<Longrightarrow> put x m = Inr (m', len) \<Longrightarrow>
      get_bytes m2 0 len = get_bytes m' 0 len \<Longrightarrow> get m2 = Inr (view x)"
    and put_bounded: "ok x \<Longrightarrow> put x m = Inr (m', len) \<Longrightarrow> len \<le> BUFFER_SIZE"
begin

lemma get_own: "ok x \<Longrightarrow> put x m = Inr (m', len) \<Longrightarrow> get m' = Inr (view x)"
  by (rule put_get) auto

lemma get_copy:
  assumes "ok x" and "put x m = Inr (m', len)"
  shows "get (put_bytes m2 0 (get_bytes m' 0 len)) = Inr (view x)"
  using assms by (rule put_get) (simp add: get_put_same)

lemma put_determines:
  assumes "ok x" "put x m = Inr (m', len)" "ok y" "put y n = Inr (n', len')"
    and "get_bytes m' 0 len = get_bytes n' 0 len"
  shows "view x = view y"
proof -
  have "get n' = Inr (view x)" using assms by (intro put_get[OF assms(1,2)]) simp
  then show ?thesis using get_own[OF assms(3,4)] by simp
qed

end

section \<open>Packing\<close>

definition buf_put :: "nat \<Rightarrow> byte list \<Rightarrow> mem \<Rightarrow> mem result" where
  "buf_put off bs m =
     (if off + length bs \<le> BUFFER_SIZE then Inr (put_bytes m off bs) else Inl Buffer_overflow)"

definition buf_get :: "mem \<Rightarrow> nat \<Rightarrow> nat \<Rightarrow> byte list result" where
  "buf_get m off n =
     (if off + n \<le> BUFFER_SIZE then Inr (get_bytes m off n) else Inl Out_of_bounds)"

definition buf_block :: "mem \<Rightarrow> nat \<Rightarrow> Block result" where
  "buf_block m off = bindr (buf_get m off BLOCK_SZ) (\<lambda>bs. Inr (overlay_block bs))"

definition pack_blocks :: "heap \<Rightarrow> Block \<Rightarrow> Block \<Rightarrow> mem \<Rightarrow> (mem \<times> nat) result" where
  "pack_blocks h P Q m =
     (let p_data_sz = sz_doubles (ele_num P); p_total = sz_add BLOCK_SZ p_data_sz;
          q_data_sz = sz_doubles (ele_num Q); q_total = sz_add BLOCK_SZ q_data_sz;
          total_len = sz_add p_total q_total in
      bindr (buf_put 0 (block_image P) m) (\<lambda>m1.
      bindr (heap_read h (eles P) p_data_sz) (\<lambda>ps.
      bindr (buf_put BLOCK_SZ ps m1) (\<lambda>m2.
      bindr (buf_put p_total (block_image Q) m2) (\<lambda>m3.
      bindr (heap_read h (eles Q) q_data_sz) (\<lambda>qs.
      bindr (buf_put (sz_add p_total BLOCK_SZ) qs m3) (\<lambda>m4.
      Inr (m4, total_len))))))))"

definition read_blocks :: "mem \<Rightarrow> ((Block \<times> double list) \<times> (Block \<times> double list)) result" where
  "read_blocks m =
     bindr (buf_block m 0) (\<lambda>pb.
     bindr (buf_get m BLOCK_SZ (sz_doubles (ele_num pb))) (\<lambda>ps.
     let p_total = sz_add BLOCK_SZ (sz_doubles (ele_num pb)) in
     bindr (buf_block m p_total) (\<lambda>qb.
     bindr (buf_get m (sz_add p_total BLOCK_SZ) (sz_doubles (ele_num qb))) (\<lambda>qs.
     Inr ((pb, bytes_doubles ps), (qb, bytes_doubles qs))))))"

definition pair_total :: "Block \<Rightarrow> Block \<Rightarrow> nat" where
  "pair_total P Q = 2 * BLOCK_SZ + 8 * nat (ele_num P) + 8 * nat (ele_num Q)"

definition pair_ok :: "heap \<Rightarrow> Block \<Rightarrow> Block \<Rightarrow> bool" where
  "pair_ok h P Q \<longleftrightarrow> block_ok P \<and> block_ok Q \<and> block_sized h P \<and> block_sized h Q"

lemma block_sized_nonneg: "block_sized h b \<Longrightarrow> 0 \<le> ele_num b"
  by (auto simp: block_sized_def)

lemma block_vals_length: "block_sized h b \<Longrightarrow> int (length (block_vals h b)) = ele_num b"
  by (auto simp: block_sized_def block_vals_def)

lemma block_ok_ele: "block_ok b \<Longrightarrow> in_int32 (ele_num b)"
  by (simp add: block_ok_def block_ints_ok_def)

lemma sz_doubles_block:
  assumes "block_sized h b" and "block_ok b"
  shows "sz_doubles (ele_num b) = 8 * nat (ele_num b)"
    and "8 * nat (ele_num b) = 8 * length (block_vals h b)"
  using block_vals_length[OF assms(1)] block_sized_nonneg[OF assms(1)] block_ok_ele[OF assms(2)]
  by (simp_all add: sz_doubles_nonneg)

lemma heap_read_sized:
  "block_sized h b \<Longrightarrow> block_ok b \<Longrightarrow>
   heap_read h (eles b) (8 * nat (ele_num b)) = Inr (doubles_bytes (block_vals h b))"
  using heap_read_block[of h b] sz_doubles_block(1)[of h b] by (simp add: block_ok_ele)

lemma block_vals_nat:
  "block_sized h b \<Longrightarrow> length (block_vals h b) = nat (ele_num b)"
  by (auto simp: block_sized_def block_vals_def)

text \<open>No sum of sizes wraps: an \<open>int\<close> count of doubles stays far below \<open>2 ^ 64\<close>.\<close>

lemma pair_sums:
  assumes "block_ok P" and "block_ok Q"
  shows "sz_add BLOCK_SZ (8 * nat (ele_num P)) = BLOCK_SZ + 8 * nat (ele_num P)"
    "sz_add (BLOCK_SZ + 8 * nat (ele_num P)) BLOCK_SZ = 2 * BLOCK_SZ + 8 * nat (ele_num P)"
    "sz_add BLOCK_SZ (8 * nat (ele_num Q)) = BLOCK_SZ + 8 * nat (ele_num Q)"
    "sz_add (BLOCK_SZ + 8 * nat (ele_num P)) (BLOCK_SZ + 8 * nat (ele_num Q)) = pair_total P Q"
proof -
  have "nat (ele_num P) < 2 ^ 31" "nat (ele_num Q) < 2 ^ 31"
    using assms block_ok_ele[of P] block_ok_ele[of Q] by (auto simp: int32_defs)
  then show "sz_add BLOCK_SZ (8 * nat (ele_num P)) = BLOCK_SZ + 8 * nat (ele_num P)"
    "sz_add (BLOCK_SZ + 8 * nat (ele_num P)) BLOCK_SZ = 2 * BLOCK_SZ + 8 * nat (ele_num P)"
    "sz_add BLOCK_SZ (8 * nat (ele_num Q)) = BLOCK_SZ + 8 * nat (ele_num Q)"
    "sz_add (BLOCK_SZ + 8 * nat (ele_num P)) (BLOCK_SZ + 8 * nat (ele_num Q)) = pair_total P Q"
    by (simp_all add: sz_add_small BLOCK_SZ_def pair_total_def)
qed

text \<open>Packing a well-formed pair succeeds exactly when the pair fits the registered buffer.\<close>

lemma pack_blocks_fits:
  assumes "pair_ok h P Q" and "pair_total P Q \<le> BUFFER_SIZE"
  shows "pack_blocks h P Q m =
     Inr (put_bytes (put_bytes (put_bytes (put_bytes m 0 (block_image P))
            BLOCK_SZ (doubles_bytes (block_vals h P)))
            (BLOCK_SZ + 8 * nat (ele_num P)) (block_image Q))
            (2 * BLOCK_SZ + 8 * nat (ele_num P)) (doubles_bytes (block_vals h Q)),
          pair_total P Q)"
  using assms[unfolded pair_ok_def pair_total_def] pair_sums[of P Q]
  by (simp add: pack_blocks_def Let_def sz_doubles_block(1)[of h] heap_read_sized
      buf_put_def block_vals_nat)

lemma pack_blocks_overflow:
  assumes "pair_ok h P Q" and "BUFFER_SIZE < pair_total P Q"
  shows "pack_blocks h P Q m = Inl Buffer_overflow"
  using assms[unfolded pair_ok_def pair_total_def] pair_sums[of P Q]
  by (simp add: pack_blocks_def Let_def sz_doubles_block(1)[of h] heap_read_sized
      buf_put_def block_vals_nat)

lemma pack_blocks_len: "pack_blocks h P Q m = Inr (m', len) \<Longrightarrow> pair_ok h P Q \<Longrightarrow>
   len = pair_total P Q \<and> len \<le> BUFFER_SIZE"
  using pack_blocks_fits[of h P Q m] pack_blocks_overflow[of h P Q m]
  by (cases "pair_total P Q \<le> BUFFER_SIZE") auto

section \<open>Reading back\<close>

definition pair_view :: "heap \<times> Block \<times> Block \<Rightarrow> (Block \<times> double list) \<times> (Block \<times> double list)" where
  "pair_view x = (let (h, P, Q) = x in ((P, block_vals h P), (Q, block_vals h Q)))"

lemma read_blocks_prefix:
  assumes ok: "pair_ok h P Q" and pk: "pack_blocks h P Q m = Inr (m', len)"
    and cp: "get_bytes m2 0 len = get_bytes m' 0 len"
  shows "read_blocks m2 = Inr (pair_view (h, P, Q))"
proof -
  note s = ok[unfolded pair_ok_def]
  let ?p = "nat (ele_num P)" and ?q = "nat (ele_num Q)"
  have len: "len = pair_total P Q" "len \<le> BUFFER_SIZE" using pack_blocks_len[OF pk ok] by auto
  have m': "m' = put_bytes (put_bytes (put_bytes (put_bytes m 0 (block_image P))
            BLOCK_SZ (doubles_bytes (block_vals h P))) (BLOCK_SZ + 8 * ?p) (block_image Q))
            (2 * BLOCK_SZ + 8 * ?p) (doubles_bytes (block_vals h Q))"
    using pack_blocks_fits[OF ok] pk len by auto
  have sub: "get_bytes m2 off n = get_bytes m' off n" if "off + n \<le> len" for off n
    using get_bytes_sub[OF that, of m2 0] get_bytes_sub[OF that, of m' 0] cp by simp
  have g: "get_bytes m2 0 BLOCK_SZ = block_image P"
    "get_bytes m2 BLOCK_SZ (8 * ?p) = doubles_bytes (block_vals h P)"
    "get_bytes m2 (BLOCK_SZ + 8 * ?p) BLOCK_SZ = block_image Q"
    "get_bytes m2 (2 * BLOCK_SZ + 8 * ?p) (8 * ?q) = doubles_bytes (block_vals h Q)"
    using len(1) by (simp_all add: sub pair_total_def m' get_put_same get_put_other
          block_vals_nat s)
  show ?thesis
    using s len pair_sums[of P Q]
    by (simp add: read_blocks_def buf_block_def buf_get_def g overlay_block_image Let_def
      sz_doubles_block(1)[of h] pair_total_def bytes_doubles_roundtrip pair_view_def)
qed

text \<open>The packing of block pairs provides the contract.\<close>

definition put_pair :: "heap \<times> Block \<times> Block \<Rightarrow> mem \<Rightarrow> (mem \<times> nat) result" where
  "put_pair x m = (let (h, P, Q) = x in pack_blocks h P Q m)"

definition pair_ok' :: "heap \<times> Block \<times> Block \<Rightarrow> bool" where
  "pair_ok' x = (let (h, P, Q) = x in pair_ok h P Q)"

interpretation block_port: message_port put_pair read_blocks pair_view pair_ok'
proof unfold_locales
  fix x :: "heap \<times> Block \<times> Block" and m m' m2 :: mem and len
  assume "pair_ok' x" "put_pair x m = Inr (m', len)" "get_bytes m2 0 len = get_bytes m' 0 len"
  then show "read_blocks m2 = Inr (pair_view x)"
    by (cases x) (auto simp: pair_ok'_def put_pair_def intro: read_blocks_prefix)
next
  fix x :: "heap \<times> Block \<times> Block" and m m' :: mem and len
  assume "pair_ok' x" "put_pair x m = Inr (m', len)"
  then show "len \<le> BUFFER_SIZE"
    using pack_blocks_len by (cases x) (auto simp: pair_ok'_def put_pair_def)
qed

section \<open>The two overlays of a receiver\<close>

lemma buf_get_length: "buf_get m off n = Inr bs \<Longrightarrow> length bs = n"
  by (auto simp: buf_get_def split: if_splits)

lemma buf_block_ok: "buf_block m off = Inr b \<Longrightarrow> block_ok b"
  by (auto simp: buf_block_def result_elims overlay_block_ok)

lemma read_blocks_parts:
  assumes "read_blocks m = Inr ((pb, ps), (qb, qs))"
  obtains bp bq where "buf_block m 0 = Inr pb" "buf_get m BLOCK_SZ (sz_doubles (ele_num pb)) = Inr bp"
    "ps = bytes_doubles bp" "buf_block m (sz_add BLOCK_SZ (sz_doubles (ele_num pb))) = Inr qb"
    "buf_get m (sz_add (sz_add BLOCK_SZ (sz_doubles (ele_num pb))) BLOCK_SZ)
       (sz_doubles (ele_num qb)) = Inr bq"
    "qs = bytes_doubles bq" "length bp = sz_doubles (ele_num pb)" "length bq = sz_doubles (ele_num qb)"
    "block_ok pb" "block_ok qb"
  using assms that by (auto simp: read_blocks_def result_elims Let_def dest: buf_get_length buf_block_ok)

lemma read_blocks_lengths:
  assumes "read_blocks m = Inr ((pb, ps), (qb, qs))" and "0 \<le> ele_num pb" "0 \<le> ele_num qb"
  shows "length ps = nat (ele_num pb)" and "length qs = nat (ele_num qb)"
proof -
  obtain bp bq where b: "ps = bytes_doubles bp" "qs = bytes_doubles bq"
    "length bp = sz_doubles (ele_num pb)" "length bq = sz_doubles (ele_num qb)"
    "block_ok pb" "block_ok qb"
    using read_blocks_parts[OF assms(1)] by blast
  then show "length ps = nat (ele_num pb)" "length qs = nat (ele_num qb)"
    using assms(2,3) by (simp_all add: length_bytes_doubles sz_doubles_nonneg block_ok_ele)
qed

section \<open>Properties\<close>

text \<open>
  C19: A pair of blocks survives the transport. If a well-formed pair was packed into a sender's
  buffer and the packed bytes were copied to the start of any other buffer, then overlaying the two
  headers there and reading the arrays behind them yields exactly the two headers (every field,
  pointer included) and the two element arrays.
\<close>

theorem pack_copy_read:
  assumes "pair_ok h P Q" and "pack_blocks h P Q m = Inr (m', len)"
  shows "read_blocks (put_bytes m2 0 (get_bytes m' 0 len)) =
     Inr ((P, block_vals h P), (Q, block_vals h Q))"
  using block_port.get_copy[of "(h, P, Q)" m m' len m2] assms
  by (simp add: pair_ok'_def put_pair_def pair_view_def)

definition demo_pair_heap :: heap where
  "demo_pair_heap = \<lparr>h_arr = [1 \<mapsto> [10, 20], 2 \<mapsto> [30]], h_next = 3, h_avail = 0, h_junk = (\<lambda>_. 0)\<rparr>"

definition demo_P :: Block where
  "demo_P = \<lparr>block_id = 3, data_age = 7, sta_idx = 12, height = 1, ele_num = 2, isP = True, eles = 1\<rparr>"

definition demo_Q :: Block where
  "demo_Q = \<lparr>block_id = 4, data_age = 7, sta_idx = - 5, height = 1, ele_num = 1, isP = False, eles = 2\<rparr>"

lemma demo_pair_ok: "pair_ok demo_pair_heap demo_P demo_Q"
  by (simp add: pair_ok_def block_ok_def block_ints_ok_def block_sized_def demo_pair_heap_def
      demo_P_def demo_Q_def int32_defs)

lemma demo_pair_total: "pair_total demo_P demo_Q = 88"
  by (simp add: pair_total_def demo_P_def demo_Q_def BLOCK_SZ_def)

theorem pack_copy_read_witness:
  "\<exists>m'. pack_blocks demo_pair_heap demo_P demo_Q (\<lambda>_. 0) = Inr (m', 88) \<and>
     read_blocks (put_bytes (\<lambda>_. 255) 0 (get_bytes m' 0 88)) =
       Inr ((demo_P, [10, 20]), (demo_Q, [30]))"
proof -
  obtain m' where p: "pack_blocks demo_pair_heap demo_P demo_Q (\<lambda>_. 0) = Inr (m', 88)"
    using pack_blocks_fits[OF demo_pair_ok, of "\<lambda>_. 0"]
    by (auto simp: demo_pair_total BUFFER_SIZE_def)
  moreover have "block_vals demo_pair_heap demo_P = [10, 20]" "block_vals demo_pair_heap demo_Q = [30]"
    by (simp_all add: block_vals_def demo_pair_heap_def demo_P_def demo_Q_def)
  ultimately show ?thesis using pack_copy_read[OF demo_pair_ok p, of "\<lambda>_. 255"] by simp
qed

text \<open>
  C34: Packing a well-formed pair succeeds exactly when the two headers and arrays fit the registered
  buffer, and then the announced length is their total size; otherwise a \<open>memcpy\<close> runs over the end
  of the buffer, since neither program compares the sizes with \<open>BUFFER_SIZE\<close>.
\<close>

theorem pack_fits_iff:
  assumes "pair_ok h P Q"
  shows "if 64 + 8 * (ele_num P + ele_num Q) \<le> 524288000
     then \<exists>m'. pack_blocks h P Q m = Inr (m', nat (64 + 8 * (ele_num P + ele_num Q)))
     else pack_blocks h P Q m = Inl Buffer_overflow"
proof -
  have n: "0 \<le> ele_num P" "0 \<le> ele_num Q"
    using assms by (auto simp: pair_ok_def dest: block_sized_nonneg)
  have t: "int (pair_total P Q) = 64 + 8 * (ele_num P + ele_num Q)"
    using n by (simp add: pair_total_def BLOCK_SZ_def)
  then have "pair_total P Q = nat (64 + 8 * (ele_num P + ele_num Q))" by simp
  moreover have "64 + 8 * (ele_num P + ele_num Q) \<le> 524288000 \<longleftrightarrow> pair_total P Q \<le> BUFFER_SIZE"
    using t unfolding BUFFER_SIZE_def by linarith
  ultimately show ?thesis
    using pack_blocks_fits[OF assms, of m] pack_blocks_overflow[OF assms, of m] by auto
qed

theorem pack_fits_iff_witness:
  "\<exists>m'. pack_blocks demo_pair_heap demo_P demo_Q (\<lambda>_. 0) = Inr (m', 88)"
  using pack_fits_iff[OF demo_pair_ok, of "\<lambda>_. 0"] by (simp add: demo_P_def demo_Q_def)

end
