(* ===== verification/SGD.thy ===== *)
theory SGD
  imports MF_Common
begin

text \<open>
  The computation of a worker, \<open>FakeSubMF\<close> of \<open>worker.cpp\<close>: stochastic gradient descent on the two
  element arrays of its blocks, over 90000 random samples. The arrays are updated in place on the
  heap, every access is bounds-checked, and the random numbers are a parameter. The lemmas reduce
  the in-place loops to a pure update of one row of P and one row of Q.
\<close>

section \<open>Floating point\<close>

text \<open>
  The operations on bit patterns of doubles the programs use, as a parameter: the results here
  hold for any of them, in particular for IEEE binary64. Literals are their binary64 patterns.
\<close>

record fp =
  fp_add :: "double \<Rightarrow> double \<Rightarrow> double"
  fp_sub :: "double \<Rightarrow> double \<Rightarrow> double"
  fp_mul :: "double \<Rightarrow> double \<Rightarrow> double"
  fp_of_int :: "int \<Rightarrow> double"

definition lit_0_0 :: double where "lit_0_0 = 0"
definition lit_0_001 :: double where "lit_0_001 = 0x3F50624DD2F1A9FC"
definition lit_0_05 :: double where "lit_0_05 = 0x3FA999999999999A"
definition lit_1_0 :: double where "lit_1_0 = 0x3FF0000000000000"
definition lit_0_1 :: double where "lit_0_1 = 0x3FB999999999999A"

section \<open>The code\<close>

definition yita :: double where "yita = lit_0_001"
definition theta :: double where "theta = lit_0_05"

text \<open>\<open>predict_r += P[pr * K + k] * Q[qc * K + k]\<close> for \<open>k < K\<close>.\<close>

definition sgd_predict :: "fp \<Rightarrow> int \<Rightarrow> heap \<Rightarrow> nat \<Rightarrow> nat \<Rightarrow> int \<Rightarrow> int \<Rightarrow> double result" where
  "sgd_predict F K h p q pr qc =
     for_up (\<lambda>k acc.
       bindr (heap_get h p (pr * K + int k)) (\<lambda>a.
       bindr (heap_get h q (qc * K + int k)) (\<lambda>b.
       Inr (fp_add F acc (fp_mul F a b))))) 0 (nat K) lit_0_0"

text \<open>\<open>x += yita * (error * y - theta * x)\<close>.\<close>

definition sgd_upd :: "fp \<Rightarrow> double \<Rightarrow> double \<Rightarrow> double \<Rightarrow> double" where
  "sgd_upd F err y x =
     fp_add F x (fp_mul F yita (fp_sub F (fp_mul F err y) (fp_mul F theta x)))"

definition sgd_update ::
    "fp \<Rightarrow> int \<Rightarrow> double \<Rightarrow> nat \<Rightarrow> nat \<Rightarrow> int \<Rightarrow> int \<Rightarrow> nat \<Rightarrow> heap \<Rightarrow> heap result" where
  "sgd_update F K err p q pr qc k h =
     bindr (heap_get h p (pr * K + int k)) (\<lambda>a.
     bindr (heap_get h q (qc * K + int k)) (\<lambda>b.
     bindr (heap_set h p (pr * K + int k) (sgd_upd F err b a)) (\<lambda>h1.
     bindr (heap_get h1 p (pr * K + int k)) (\<lambda>a1.
     bindr (heap_get h1 q (qc * K + int k)) (\<lambda>b1.
     heap_set h1 q (qc * K + int k) (sgd_upd F err a1 b1))))))"

text \<open>
  One sample: two random numbers choose the rows. \<open>rnd\<close> is the stream of \<open>random()\<close>, of which
  \<open>pos\<close> numbers are used up.
\<close>

definition sgd_sample ::
    "fp \<Rightarrow> int \<Rightarrow> (nat \<Rightarrow> int) \<Rightarrow> Block \<Rightarrow> Block \<Rightarrow> nat \<times> heap \<Rightarrow> (nat \<times> heap) result" where
  "sgd_sample F K rnd P Q st =
     (let (pos, h) = st in
      bindr (c_mod (rnd pos) (height P)) (\<lambda>pr.
      bindr (c_mod (rnd (pos + 1)) (height Q)) (\<lambda>qc.
      bindr (sgd_predict F K h (eles P) (eles Q) pr qc) (\<lambda>predict_r.
      let err = fp_sub F lit_0_0 predict_r in
      bindr (for_up (sgd_update F K err (eles P) (eles Q) pr qc) 0 (nat K) h) (\<lambda>h'.
      Inr (pos + 2, h'))))))"

definition FakeSubMF ::
    "fp \<Rightarrow> (nat \<Rightarrow> int) \<Rightarrow> Block \<Rightarrow> Block \<Rightarrow> nat \<times> heap \<Rightarrow> (nat \<times> heap) result" where
  "FakeSubMF F rnd P Q st = for_up (\<lambda>sn. sgd_sample F K_dim rnd P Q) 0 90000 st"

section \<open>The pure meaning of a sample\<close>

text \<open>The rows of a sample as element offsets \<open>a\<close> into P's array and \<open>b\<close> into Q's.\<close>

definition row_set :: "double list \<Rightarrow> nat \<Rightarrow> nat \<Rightarrow> (nat \<Rightarrow> double) \<Rightarrow> double list" where
  "row_set xs off n f =
     map (\<lambda>i. if off \<le> i \<and> i < off + n then f (i - off) else xs ! i) [0..<length xs]"

definition sgd_dot :: "fp \<Rightarrow> nat \<Rightarrow> double list \<Rightarrow> double list \<Rightarrow> nat \<Rightarrow> nat \<Rightarrow> double" where
  "sgd_dot F n xs ys a b =
     foldl (\<lambda>acc k. fp_add F acc (fp_mul F (xs ! (a + k)) (ys ! (b + k)))) lit_0_0 [0..<n]"

definition sgd_new_p :: "fp \<Rightarrow> double \<Rightarrow> double list \<Rightarrow> double list \<Rightarrow> nat \<Rightarrow> nat \<Rightarrow> nat \<Rightarrow> double" where
  "sgd_new_p F err xs ys a b k = sgd_upd F err (ys ! (b + k)) (xs ! (a + k))"

text \<open>Q moves along the row of P that was just updated, not the old one.\<close>

definition sgd_new_q :: "fp \<Rightarrow> double \<Rightarrow> double list \<Rightarrow> double list \<Rightarrow> nat \<Rightarrow> nat \<Rightarrow> nat \<Rightarrow> double" where
  "sgd_new_q F err xs ys a b k = sgd_upd F err (sgd_new_p F err xs ys a b k) (ys ! (b + k))"

definition sgd_pure ::
    "fp \<Rightarrow> nat \<Rightarrow> nat \<Rightarrow> nat \<Rightarrow> double list \<times> double list \<Rightarrow> double list \<times> double list" where
  "sgd_pure F n a b arrs =
     (let (xs, ys) = arrs; err = fp_sub F lit_0_0 (sgd_dot F n xs ys a b) in
      (row_set xs a n (sgd_new_p F err xs ys a b), row_set ys b n (sgd_new_q F err xs ys a b)))"

text \<open>\<open>n\<close> samples in a row, with random numbers from position \<open>pos\<close> on.\<close>

primrec sgd_run ::
    "fp \<Rightarrow> (nat \<Rightarrow> int) \<Rightarrow> int \<Rightarrow> int \<Rightarrow> nat \<Rightarrow> nat \<Rightarrow> double list \<times> double list \<Rightarrow>
       double list \<times> double list" where
  "sgd_run F rnd hp hq 0 pos arrs = arrs"
| "sgd_run F rnd hp hq (Suc n) pos arrs =
     sgd_run F rnd hp hq n (pos + 2)
       (sgd_pure F (nat K_dim) (nat (rnd pos mod hp) * nat K_dim)
          (nat (rnd (pos + 1) mod hq) * nat K_dim) arrs)"

lemma length_row_set [simp]: "length (row_set xs off n f) = length xs"
  by (simp add: row_set_def)

lemma nth_row_set:
  "i < length xs \<Longrightarrow>
   row_set xs off n f ! i = (if off \<le> i \<and> i < off + n then f (i - off) else xs ! i)"
  by (simp add: row_set_def)

lemma row_set_0 [simp]: "row_set xs off 0 f = xs"
  by (rule nth_equalityI) (auto simp: nth_row_set)

lemma row_set_Suc:
  "off + n < length xs \<Longrightarrow> row_set xs off (Suc n) f = (row_set xs off n f)[off + n := f n]"
  by (rule nth_equalityI) (auto simp: nth_row_set nth_list_update less_Suc_eq)

lemma length_sgd_pure [simp]:
  "length (fst (sgd_pure F n a b arrs)) = length (fst arrs)"
  "length (snd (sgd_pure F n a b arrs)) = length (snd arrs)"
  by (simp_all add: sgd_pure_def Let_def split: prod.splits)

section \<open>The loops compute it\<close>

definition set_arrs :: "heap \<Rightarrow> nat \<Rightarrow> nat \<Rightarrow> double list \<times> double list \<Rightarrow> heap" where
  "set_arrs h p q arrs = h\<lparr>h_arr := (h_arr h)(p \<mapsto> fst arrs, q \<mapsto> snd arrs)\<rparr>"

definition holds_arrs :: "heap \<Rightarrow> nat \<Rightarrow> nat \<Rightarrow> double list \<times> double list \<Rightarrow> bool" where
  "holds_arrs h p q arrs \<longleftrightarrow> p \<noteq> q \<and> h_arr h p = Some (fst arrs) \<and> h_arr h q = Some (snd arrs)"

lemma set_arrs_same: "holds_arrs h p q arrs \<Longrightarrow> set_arrs h p q arrs = h"
  by (cases h) (auto simp: holds_arrs_def set_arrs_def fun_eq_iff)

lemma set_arrs_set [simp]: "set_arrs (set_arrs h p q a) p q b = set_arrs h p q b"
  by (auto simp: set_arrs_def fun_eq_iff)

lemma holds_set_arrs: "p \<noteq> q \<Longrightarrow> holds_arrs (set_arrs h p q a) p q a"
  by (simp add: holds_arrs_def set_arrs_def)

lemma heap_get_at: "h_arr h p = Some xs \<Longrightarrow> i < length xs \<Longrightarrow> heap_get h p (int i) = Inr (xs ! i)"
  by (simp add: heap_get_def arr_get_ok)

lemma heap_set_at:
  "h_arr h p = Some xs \<Longrightarrow> i < length xs \<Longrightarrow>
   heap_set h p (int i) v = Inr (h\<lparr>h_arr := (h_arr h)(p \<mapsto> xs[i := v])\<rparr>)"
  by (simp add: heap_set_def arr_set_ok)

lemma row_index: "0 \<le> pr \<Longrightarrow> 0 \<le> K \<Longrightarrow> pr * K + int k = int (nat pr * nat K + k)"
  by simp

lemma sgd_predict_ok:
  assumes "holds_arrs h p q (xs, ys)" and "0 \<le> pr" "0 \<le> qc" "0 \<le> K"
    and "nat pr * nat K + nat K \<le> length xs" "nat qc * nat K + nat K \<le> length ys"
  shows "sgd_predict F K h p q pr qc =
     Inr (sgd_dot F (nat K) xs ys (nat pr * nat K) (nat qc * nat K))"
proof -
  let ?a = "nat pr * nat K" and ?b = "nat qc * nat K"
  let ?f = "\<lambda>k acc. bindr (heap_get h p (pr * K + int k)) (\<lambda>a.
       bindr (heap_get h q (qc * K + int k)) (\<lambda>b. Inr (fp_add F acc (fp_mul F a b))))"
  have "\<exists>s. for_up ?f 0 (nat K) lit_0_0 = Inr s \<and> s = sgd_dot F (0 + nat K) xs ys ?a ?b"
  proof (rule for_up_inv)
    fix j s
    assume "0 \<le> j" "j < 0 + nat K" "s = sgd_dot F j xs ys ?a ?b"
    moreover from this have "?a + j < length xs" "?b + j < length ys" using assms by auto
    ultimately show "\<exists>s'. ?f j s = Inr s' \<and> s' = sgd_dot F (Suc j) xs ys ?a ?b"
      using assms(1-4) by (simp add: row_index heap_get_at holds_arrs_def sgd_dot_def del: of_nat_add of_nat_mult)
  qed (simp add: sgd_dot_def)
  then show ?thesis by (simp add: sgd_predict_def)
qed

lemma sgd_update_ok:
  assumes "holds_arrs h p q (xs, ys)" and "0 \<le> pr" "0 \<le> qc" "0 \<le> K"
    and "nat pr * nat K + k < length xs" "nat qc * nat K + k < length ys"
  shows "sgd_update F K err p q pr qc k h =
     Inr (set_arrs h p q
       (xs[nat pr * nat K + k := sgd_new_p F err xs ys (nat pr * nat K) (nat qc * nat K) k],
        ys[nat qc * nat K + k := sgd_new_q F err xs ys (nat pr * nat K) (nat qc * nat K) k]))"
  using assms
  by (simp add: sgd_update_def row_index heap_get_at heap_set_at holds_arrs_def set_arrs_def
      sgd_new_p_def sgd_new_q_def del: of_nat_add of_nat_mult)

lemma sgd_update_loop:
  assumes h: "holds_arrs h p q (xs, ys)" and n: "0 \<le> pr" "0 \<le> qc" "0 \<le> K"
    and l: "nat pr * nat K + nat K \<le> length xs" "nat qc * nat K + nat K \<le> length ys"
  shows "for_up (sgd_update F K err p q pr qc) 0 (nat K) h =
     Inr (set_arrs h p q
       (row_set xs (nat pr * nat K) (nat K) (sgd_new_p F err xs ys (nat pr * nat K) (nat qc * nat K)),
        row_set ys (nat qc * nat K) (nat K) (sgd_new_q F err xs ys (nat pr * nat K) (nat qc * nat K))))"
proof -
  let ?a = "nat pr * nat K" and ?b = "nat qc * nat K"
  let ?X = "\<lambda>j. row_set xs ?a j (sgd_new_p F err xs ys ?a ?b)"
  let ?Y = "\<lambda>j. row_set ys ?b j (sgd_new_q F err xs ys ?a ?b)"
  have "\<exists>s. for_up (sgd_update F K err p q pr qc) 0 (nat K) h = Inr s \<and>
      s = set_arrs h p q (?X (0 + nat K), ?Y (0 + nat K))"
  proof (rule for_up_inv)
    fix j s
    assume j: "0 \<le> j" "j < 0 + nat K" and s: "s = set_arrs h p q (?X j, ?Y j)"
    have b: "?a + j < length xs" "?b + j < length ys" using j l by auto
    have "p \<noteq> q" using h by (simp add: holds_arrs_def)
    then have hs: "holds_arrs s p q (?X j, ?Y j)" unfolding s by (rule holds_set_arrs)
    have "sgd_new_p F err (?X j) (?Y j) ?a ?b j = sgd_new_p F err xs ys ?a ?b j"
      "sgd_new_q F err (?X j) (?Y j) ?a ?b j = sgd_new_q F err xs ys ?a ?b j"
      using b by (simp_all add: sgd_new_p_def sgd_new_q_def nth_row_set)
    then show "\<exists>s'. sgd_update F K err p q pr qc j s = Inr s' \<and>
        s' = set_arrs h p q (?X (Suc j), ?Y (Suc j))"
      using sgd_update_ok[OF hs n, of j] b by (simp add: row_set_Suc s)
  qed (simp add: set_arrs_same[OF h])
  then show ?thesis by simp
qed

lemma sgd_sample_ok:
  assumes h: "holds_arrs h (eles P) (eles Q) (xs, ys)" and K: "0 \<le> K"
    and r: "0 \<le> rnd pos" "0 \<le> rnd (pos + 1)" and hp: "0 < height P" "0 < height Q"
    and l: "nat (height P) * nat K \<le> length xs" "nat (height Q) * nat K \<le> length ys"
  shows "sgd_sample F K rnd P Q (pos, h) =
     Inr (pos + 2, set_arrs h (eles P) (eles Q)
       (sgd_pure F (nat K) (nat (rnd pos mod height P) * nat K)
          (nat (rnd (pos + 1) mod height Q) * nat K) (xs, ys)))"
proof -
  let ?pr = "rnd pos mod height P" and ?qc = "rnd (pos + 1) mod height Q"
  have b: "0 \<le> ?pr" "0 \<le> ?qc" "?pr < height P" "?qc < height Q" using hp by auto
  have "Suc (nat ?pr) \<le> nat (height P)" "Suc (nat ?qc) \<le> nat (height Q)" using b by linarith+
  then have "Suc (nat ?pr) * nat K \<le> nat (height P) * nat K"
    "Suc (nat ?qc) * nat K \<le> nat (height Q) * nat K"
    by (auto intro: mult_right_mono simp del: mult_Suc)
  then have "nat ?pr * nat K + nat K \<le> length xs" "nat ?qc * nat K + nat K \<le> length ys"
    using l by (auto simp: add.commute)
  note loops = sgd_predict_ok[OF h b(1,2) K this] sgd_update_loop[OF h b(1,2) K this]
  show ?thesis
    using r hp by (simp add: sgd_sample_def c_mod_nonneg loops sgd_pure_def Let_def
        del: One_nat_def add_2_eq_Suc add_2_eq_Suc')
qed

text \<open>\<open>n\<close> samples: the loop of \<open>FakeSubMF\<close> for any number of samples.\<close>

lemma sgd_samples_ok:
  assumes "holds_arrs h (eles P) (eles Q) arrs"
    and "\<And>i. 0 \<le> rnd i" and "0 < height P" "0 < height Q"
    and "nat (height P) * nat K_dim \<le> length (fst arrs)"
    and "nat (height Q) * nat K_dim \<le> length (snd arrs)"
  shows "for_up (\<lambda>sn. sgd_sample F K_dim rnd P Q) i n (pos, h) =
     Inr (pos + 2 * n, set_arrs h (eles P) (eles Q)
       (sgd_run F rnd (height P) (height Q) n pos arrs))"
  using assms(1,5,6)
proof (induction n arbitrary: i pos h arrs)
  case 0
  then show ?case by (simp add: set_arrs_same)
next
  case (Suc n)
  let ?new = "sgd_pure F (nat K_dim) (nat (rnd pos mod height P) * nat K_dim)
          (nat (rnd (pos + 1) mod height Q) * nat K_dim) arrs"
  obtain xs ys where a: "arrs = (xs, ys)" by (cases arrs)
  have "eles P \<noteq> eles Q" using Suc.prems by (simp add: holds_arrs_def)
  then have n: "holds_arrs (set_arrs h (eles P) (eles Q) ?new) (eles P) (eles Q) ?new"
    by (rule holds_set_arrs)
  have "sgd_sample F K_dim rnd P Q (pos, h) =
     Inr (pos + 2, set_arrs h (eles P) (eles Q) ?new)"
    unfolding a using Suc.prems assms(2-4) a
    by (intro sgd_sample_ok) (auto simp: K_dim_def)
  then show ?case
    using Suc.IH[OF n, of "Suc i" "pos + 2"] Suc.prems by simp
qed

lemma length_sgd_run [simp]:
  "length (fst (sgd_run F rnd hp hq n pos arrs)) = length (fst arrs)"
  "length (snd (sgd_run F rnd hp hq n pos arrs)) = length (snd arrs)"
  by (induction n arbitrary: pos arrs) simp_all

section \<open>Frame\<close>

text \<open>The heap \<open>h'\<close> differs from \<open>h\<close> only in the values of the arrays at \<open>p\<close> and \<open>q\<close>.\<close>

definition heap_frame :: "nat \<Rightarrow> nat \<Rightarrow> heap \<Rightarrow> heap \<Rightarrow> bool" where
  "heap_frame p q h h' \<longleftrightarrow>
     h_next h' = h_next h \<and> h_avail h' = h_avail h \<and> h_junk h' = h_junk h \<and>
     (\<forall>a. a \<noteq> p \<and> a \<noteq> q \<longrightarrow> h_arr h' a = h_arr h a) \<and>
     (\<forall>a. map_option length (h_arr h' a) = map_option length (h_arr h a))"

lemma heap_frame_refl: "heap_frame p q h h"
  by (simp add: heap_frame_def)

lemma heap_frame_set:
  assumes "heap_frame p q h0 h" and "heap_set h a i v = Inr h'" and "a = p \<or> a = q"
  shows "heap_frame p q h0 h'"
  using assms
  by (auto simp: heap_frame_def heap_set_def arr_set_def result_elims
      split: option.splits if_splits) (metis option.map(2))+

lemma sgd_sample_frame:
  assumes "sgd_sample F K rnd P Q st = Inr st'" and "heap_frame (eles P) (eles Q) h0 (snd st)"
  shows "heap_frame (eles P) (eles Q) h0 (snd st')"
proof -
  obtain pos h where st: "st = (pos, h)" by (cases st)
  obtain err pr qc h' where
    l: "for_up (sgd_update F K err (eles P) (eles Q) pr qc) 0 (nat K) h = Inr h'" and
    st': "st' = (pos + 2, h')"
    using assms(1) by (auto simp: st sgd_sample_def result_elims Let_def)
  have "heap_frame (eles P) (eles Q) h0 h'"
    using l
  proof (rule for_up_pres)
    fix k g g'
    assume "sgd_update F K err (eles P) (eles Q) pr qc k g = Inr g'"
      and "heap_frame (eles P) (eles Q) h0 g"
    then show "heap_frame (eles P) (eles Q) h0 g'"
      by (auto simp: sgd_update_def result_elims intro: heap_frame_set)
  qed (use assms(2) st in simp)
  then show ?thesis by (simp add: st')
qed

lemma sgd_samples_frame:
  assumes "for_up (\<lambda>sn. sgd_sample F K rnd P Q) i n (pos, h) = Inr (pos', h')"
  shows "heap_frame (eles P) (eles Q) h h'"
proof -
  have "heap_frame (eles P) (eles Q) h (snd (pos', h'))"
    using assms by (rule for_up_pres) (auto intro: sgd_sample_frame simp: heap_frame_refl)
  then show ?thesis by simp
qed

lemma FakeSubMF_frame': "FakeSubMF F rnd P Q (pos, h) = Inr (pos', h') \<Longrightarrow>
   heap_frame (eles P) (eles Q) h h'"
  unfolding FakeSubMF_def by (rule sgd_samples_frame)

lemma FakeSubMF_ok:
  assumes "holds_arrs h (eles P) (eles Q) arrs"
    and "\<And>i. 0 \<le> rnd i" and "0 < height P" "0 < height Q"
    and "nat (height P) * nat K_dim \<le> length (fst arrs)"
    and "nat (height Q) * nat K_dim \<le> length (snd arrs)"
  shows "FakeSubMF F rnd P Q (pos, h) =
     Inr (pos + 180000, set_arrs h (eles P) (eles Q)
       (sgd_run F rnd (height P) (height Q) 90000 pos arrs))"
  using sgd_samples_ok[OF assms, where F = F and i = 0 and n = 90000 and pos = pos] by (simp add: FakeSubMF_def)

section \<open>Properties\<close>

text \<open>
  C18: On two well-formed blocks with distinct arrays, at least one row each, and non-negative
  random numbers, the worker's computation never faults: no index leaves an array and no division
  by zero happens in any of the 90000 samples. It uses up two random numbers per sample, and the
  two arrays end as 90000 successive pure row updates of them, in which each sample changes one
  row of P and one row of Q, and Q's row is moved along the row of P already updated.
\<close>

theorem FakeSubMF_computes:
  assumes "holds_arrs h (eles P) (eles Q) arrs"
    and "\<And>i. 0 \<le> rnd i" and "0 < height P" "0 < height Q"
    and "nat (height P) * nat K_dim \<le> length (fst arrs)"
    and "nat (height Q) * nat K_dim \<le> length (snd arrs)"
  shows "FakeSubMF F rnd P Q (pos, h) =
     Inr (pos + 180000, set_arrs h (eles P) (eles Q)
       (sgd_run F rnd (height P) (height Q) 90000 pos arrs))"
  using assms by (rule FakeSubMF_ok)

text \<open>A floating point of word operations and two one-row blocks, for the applications below.\<close>

definition demo_fp :: fp where
  "demo_fp = \<lparr>fp_add = (+), fp_sub = (-), fp_mul = (*), fp_of_int = word_of_int\<rparr>"

definition demo_block :: "nat \<Rightarrow> Block" where
  "demo_block p = zero_block\<lparr>height := 1, ele_num := 100, eles := p\<rparr>"

definition demo_heap :: heap where
  "demo_heap = \<lparr>h_arr = [1 \<mapsto> replicate 100 1, 2 \<mapsto> replicate 100 2], h_next = 3,
     h_avail = 10000, h_junk = (\<lambda>_. 0)\<rparr>"

theorem FakeSubMF_computes_witness:
  "FakeSubMF demo_fp (\<lambda>i. int i) (demo_block 1) (demo_block 2) (0, demo_heap) =
     Inr (180000, set_arrs demo_heap 1 2
       (sgd_run demo_fp (\<lambda>i. int i) 1 1 90000 0 (replicate 100 1, replicate 100 2)))"
  using FakeSubMF_computes[where h = demo_heap and P = "demo_block 1" and Q = "demo_block 2" and pos = 0
      and arrs = "(replicate 100 1, replicate 100 2)" and rnd = "\<lambda>i. int i" and F = demo_fp]
  by (simp add: holds_arrs_def demo_heap_def demo_block_def K_dim_def)

text \<open>
  A block without rows is fatal: when P or Q has height 0, the first sample divides by zero
  (\<open>random() % 0\<close>), whatever else the blocks hold.
\<close>

lemma FakeSubMF_zero_height:
  assumes "height P = 0 \<or> height Q = 0"
  shows "FakeSubMF F rnd P Q st = Inl Div_by_zero"
proof -
  obtain pos h where "st = (pos, h)" by (cases st)
  then have "sgd_sample F K_dim rnd P Q st = Inl Div_by_zero"
    using assms by (auto simp: sgd_sample_def c_mod_def bindr_def Let_def)
  moreover have "(90000::nat) = Suc 89999" by simp
  ultimately show ?thesis unfolding FakeSubMF_def by (simp only: for_up.simps bindr_Inl)
qed

lemma FakeSubMF_zero_height_example:
  "FakeSubMF demo_fp (\<lambda>i. int i) ((demo_block 1)\<lparr>height := 0\<rparr>) (demo_block 2) (0, demo_heap) =
     Inl Div_by_zero"
  by (rule FakeSubMF_zero_height) (simp add: demo_block_def)

text \<open>
  Whatever the blocks, a computation that returns has changed nothing but values inside the two
  arrays: all other arrays, all array sizes and the allocator are as before.
\<close>

lemma FakeSubMF_frame:
  assumes "FakeSubMF F rnd P Q (pos, h) = Inr (pos', h')"
  shows "heap_frame (eles P) (eles Q) h h'"
  using assms by (rule FakeSubMF_frame')

lemma FakeSubMF_frame_example:
  "heap_frame 1 2 demo_heap (set_arrs demo_heap 1 2
     (sgd_run demo_fp (\<lambda>i. int i) 1 1 90000 0 (replicate 100 1, replicate 100 2)))"
proof -
  have "FakeSubMF demo_fp (\<lambda>i. int i) (demo_block 1) (demo_block 2) (0, demo_heap) =
     Inr (180000, set_arrs demo_heap 1 2
       (sgd_run demo_fp (\<lambda>i. int i) 1 1 90000 0 (replicate 100 1, replicate 100 2)))"
    using FakeSubMF_ok[where h = demo_heap and P = "demo_block 1" and Q = "demo_block 2" and pos = 0
      and arrs = "(replicate 100 1, replicate 100 2)" and rnd = "\<lambda>i. int i" and F = demo_fp]
    by (simp add: holds_arrs_def demo_heap_def demo_block_def K_dim_def)
  then show ?thesis using FakeSubMF_frame[of demo_fp "\<lambda>i. int i" "demo_block 1" "demo_block 2"]
    by (simp add: demo_block_def)
qed

end
