(* ===== verification/C_Strings.thy ===== *)
theory C_Strings
  imports Prelude
begin

text \<open>
  The two library functions on decimal text that the programs use: \<open>sprintf(s, "%d", n)\<close> for port
  numbers and \<open>atoi\<close> for arguments and ports. \<open>atoi\<close> skips white space, takes an optional sign and
  reads digits up to the first other character; no digits give 0.
\<close>

definition digit_char :: "nat \<Rightarrow> char" where
  "digit_char d = char_of (48 + d)"

definition char_digit :: "char \<Rightarrow> nat option" where
  "char_digit c = (let n = (of_char c :: nat) in if 48 \<le> n \<and> n \<le> 57 then Some (n - 48) else None)"

fun nat_text :: "nat \<Rightarrow> string" where
  "nat_text n = (if n < 10 then [digit_char n] else nat_text (n div 10) @ [digit_char (n mod 10)])"

declare nat_text.simps [simp del]

definition sprintf_d :: "int \<Rightarrow> string" where
  "sprintf_d i = (if i < 0 then CHR ''-'' # nat_text (nat (- i)) else nat_text (nat i))"

fun read_digits :: "nat \<Rightarrow> string \<Rightarrow> nat" where
  "read_digits acc [] = acc"
| "read_digits acc (c # cs) =
     (case char_digit c of None \<Rightarrow> acc | Some d \<Rightarrow> read_digits (10 * acc + d) cs)"

definition is_space :: "char \<Rightarrow> bool" where
  "is_space c = (let n = (of_char c :: nat) in n = 32 \<or> (9 \<le> n \<and> n \<le> 13))"

definition atoi :: "string \<Rightarrow> int" where
  "atoi s =
     (case dropWhile is_space s of
        [] \<Rightarrow> 0
      | c # cs \<Rightarrow>
          if c = CHR ''-'' then - int (read_digits 0 cs)
          else if c = CHR ''+'' then int (read_digits 0 cs)
          else int (read_digits 0 (c # cs)))"

lemma of_char_digit: "d < 10 \<Longrightarrow> (of_char (digit_char d) :: nat) = 48 + d"
  by (simp add: digit_char_def)

lemma char_digit_digit [simp]: "d < 10 \<Longrightarrow> char_digit (digit_char d) = Some d"
  by (simp add: char_digit_def of_char_digit)

lemma read_digits_text: "read_digits a (nat_text n @ t) = read_digits (a * 10 ^ length (nat_text n) + n) t"
proof (induction n arbitrary: t rule: nat_text.induct)
  case (1 n)
  show ?case
  proof (cases "n < 10")
    case True
    then show ?thesis by (simp add: nat_text.simps[of n] mult.commute)
  next
    case False
    have e: "10 * (a * 10 ^ length (nat_text (n div 10)) + n div 10) + n mod 10 =
        a * 10 ^ Suc (length (nat_text (n div 10))) + n"
      by (simp add: algebra_simps)
    show ?thesis
      using False "1.IH"[of "digit_char (n mod 10) # t"] e
      by (simp add: nat_text.simps[of n] algebra_simps)
  qed
qed

lemma nat_text_hd: "\<exists>d cs. d < 10 \<and> nat_text n = digit_char d # cs"
proof (induction n rule: nat_text.induct)
  case (1 n)
  then show ?case by (cases "n < 10") (auto simp: nat_text.simps[of n])
qed

lemma digit_char_plain:
  assumes "d < 10"
  shows "\<not> is_space (digit_char d)" and "digit_char d \<noteq> CHR ''-''" and "digit_char d \<noteq> CHR ''+''"
proof -
  note e = of_char_digit[OF assms]
  show "\<not> is_space (digit_char d)" using e by (simp add: is_space_def)
  show "digit_char d \<noteq> CHR ''-''" "digit_char d \<noteq> CHR ''+''" using e by auto
qed

lemma atoi_text: "atoi (nat_text n) = int n"
proof -
  obtain d cs where d: "d < 10" "nat_text n = digit_char d # cs" using nat_text_hd by blast
  have "read_digits 0 (nat_text n) = n" using read_digits_text[of 0 n "[]"] by simp
  then show ?thesis using d digit_char_plain[OF d(1)] by (simp add: atoi_def)
qed

lemma atoi_sprintf_d: "atoi (sprintf_d i) = i"
proof (cases "i < 0")
  case True
  have "read_digits 0 (nat_text (nat (- i))) = nat (- i)"
    using read_digits_text[of 0 _ "[]"] by simp
  then show ?thesis using True by (simp add: sprintf_d_def atoi_def is_space_def)
next
  case False
  then show ?thesis by (simp add: sprintf_d_def atoi_text)
qed

end
