(* ===== verification/Two_Sided_Client.thy ===== *)
theory Two_Sided_Client
  imports Verbs
begin

text \<open>
  \<open>RdmaTwoSidedClientOp\<close> (\<open>rdma_two_sided_client_op.cpp\<close>, \<open>.h\<close>): the sending end of a link. The
  application fills \<open>buffer\<close> and sets \<open>can_send\<close>; the completion-queue thread, on each message from
  the server, spins until the flag is set, posts one RDMA write with immediate of \<open>buf_len\<close> bytes,
  clears the flag, counts the write and posts the next receive. The completion handler is cut at
  its spin loop (\<open>_enter\<close> before it, \<open>_send\<close>, \<open>_clear\<close>, \<open>_finish\<close> after it), because other threads
  run in between; \<open>client_on_completion\<close> composes the pieces for a thread that is not interrupted.
\<close>

section \<open>State\<close>

record client_context =
  cc_buf_ptr :: nat
  cc_buffer :: mem
  cc_buf_len :: nat
  can_send :: bool
  cc_buf_prepared :: bool
  cc_buf_registered :: bool
  buf_write_counter :: int
  cc_buffer_mr :: "ibv_mr option"
  cc_msg_ptr :: nat
  cc_msg :: message
  cc_msg_mr :: "ibv_mr option"
  peer_addr :: "64 word"
  peer_rkey :: "32 word"

definition zero_message :: message where
  "zero_message = \<lparr>msg_id = 0, msg_addr = 0, msg_rkey = 0\<rparr>"

definition zero_client_context :: client_context where
  "zero_client_context = \<lparr>cc_buf_ptr = 0, cc_buffer = (\<lambda>_. 0), cc_buf_len = 0, can_send = False,
     cc_buf_prepared = False, cc_buf_registered = False, buf_write_counter = 0,
     cc_buffer_mr = None, cc_msg_ptr = 0, cc_msg = zero_message, cc_msg_mr = None,
     peer_addr = 0, peer_rkey = 0\<rparr>"

section \<open>Posting work\<close>

definition write_request :: "nat \<Rightarrow> 32 word \<Rightarrow> client_context \<Rightarrow> ibv_mr option \<Rightarrow> send_wr" where
  "write_request cid len ctx mr =
     zero_send_wr\<lparr>swr_id := cid, swr_opcode := IBV_WR_RDMA_WRITE_WITH_IMM, swr_signaled := True,
       swr_imm := htonl len, swr_remote_addr := peer_addr ctx, swr_rkey := peer_rkey ctx,
       swr_sges := (case mr of None \<Rightarrow> []
                    | Some m \<Rightarrow> [\<lparr>sge_addr = word_of_nat (cc_buf_ptr ctx), sge_length = len,
                                  sge_lkey = mr_lkey m\<rparr>])\<rparr>"

definition client_write_remote ::
    "'w verbs \<Rightarrow> nat \<Rightarrow> 32 word \<Rightarrow> client_context \<Rightarrow> 'w \<Rightarrow> 'w result" where
  "client_write_remote V cid len ctx w =
     bindr (if len = 0 then Inr None
            else case cc_buffer_mr ctx of None \<Rightarrow> Inl Null_deref | Some m \<Rightarrow> Inr (Some m)) (\<lambda>mr.
     bindr (TEST_NZ V (Post_send cid (write_request cid len ctx mr)) w) (\<lambda>(r, w').
     Inr w'))"

definition client_post_receive :: "'w verbs \<Rightarrow> nat \<Rightarrow> client_context \<Rightarrow> 'w \<Rightarrow> 'w result" where
  "client_post_receive V cid ctx w =
     (case cc_msg_mr ctx of
        None \<Rightarrow> Inl Null_deref
      | Some m \<Rightarrow>
          bindr (TEST_NZ V (Post_recv cid
              \<lparr>rwr_id = cid,
               rwr_sges = [\<lparr>sge_addr = word_of_nat (cc_msg_ptr ctx),
                            sge_length = word_of_nat MESSAGE_SZ, sge_lkey = mr_lkey m\<rparr>]\<rparr>) w)
            (\<lambda>(r, w'). Inr w'))"

text \<open>The \<open>size_t\<close> length is passed as \<open>uint32_t\<close>.\<close>

definition client_send_next_chunk ::
    "'w verbs \<Rightarrow> nat \<Rightarrow> client_context \<Rightarrow> 'w \<Rightarrow> (client_context \<times> 'w) result" where
  "client_send_next_chunk V cid ctx w =
     bindr (client_write_remote V cid (word_of_nat (cc_buf_len ctx)) ctx w) (\<lambda>w'.
     Inr (ctx\<lparr>cc_buf_prepared := False\<rparr>, w'))"

definition client_on_pre_conn ::
    "'w verbs \<Rightarrow> nat \<Rightarrow> nat \<Rightarrow> client_context \<Rightarrow> 'w \<Rightarrow> (client_context \<times> 'w) result" where
  "client_on_pre_conn V cid pd ctx w =
     (let (r1, w1) = V (Memalign BUFFER_SIZE) w;
          ctx1 = (if r_code r1 = 0 then ctx\<lparr>cc_buf_ptr := r_handle r1\<rparr> else ctx) in
      bindr (TEST_Z V (Reg_mr pd (cc_buf_ptr ctx1) BUFFER_SIZE [LOCAL_WRITE]) w1) (\<lambda>(r2, w2).
      let ctx2 = ctx1\<lparr>cc_buffer_mr := Some (r_mr r2)\<rparr>;
          (r3, w3) = V (Memalign MESSAGE_SZ) w2;
          ctx3 = (if r_code r3 = 0 then ctx2\<lparr>cc_msg_ptr := r_handle r3\<rparr> else ctx2) in
      bindr (TEST_Z V (Reg_mr pd (cc_msg_ptr ctx3) MESSAGE_SZ [LOCAL_WRITE, REMOTE_WRITE]) w3)
        (\<lambda>(r4, w4).
      let ctx4 = ctx3\<lparr>cc_msg_mr := Some (r_mr r4), cc_buf_registered := True\<rparr> in
      bindr (client_post_receive V cid ctx4 w4) (\<lambda>w5. Inr (ctx4, w5)))))"

section \<open>Completions\<close>

text \<open>Where the handler is after its \<open>_enter\<close> part: spinning on \<open>can_send\<close>, or returned.\<close>

datatype client_next = Spin | Return

definition client_on_completion_enter ::
    "'w verbs \<Rightarrow> ibv_wc \<Rightarrow> client_context \<Rightarrow> 'w \<Rightarrow>
       (client_next \<times> client_context \<times> 'w) result" where
  "client_on_completion_enter V wc ctx w =
     (let cid = wc_id wc in
      if opcode_recv_bit (wc_opcode wc) then
        if msg_id (cc_msg ctx) = MSG_MR then
          Inr (Spin, ctx\<lparr>peer_addr := msg_addr (cc_msg ctx), peer_rkey := msg_rkey (cc_msg ctx)\<rparr>, w)
        else if msg_id (cc_msg ctx) = MSG_READY then Inr (Spin, ctx, w)
        else if msg_id (cc_msg ctx) = MSG_DONE then Inr (Return, ctx, rc_disconnect V cid w)
        else bindr (client_post_receive V cid ctx w) (\<lambda>w'. Inr (Return, ctx, w'))
      else Inr (Return, ctx, w))"

definition client_on_completion_send ::
    "'w verbs \<Rightarrow> nat \<Rightarrow> client_context \<Rightarrow> 'w \<Rightarrow> (client_context \<times> 'w) result" where
  "client_on_completion_send V cid ctx w = client_send_next_chunk V cid ctx w"

definition client_on_completion_clear :: "client_context \<Rightarrow> client_context" where
  "client_on_completion_clear ctx = ctx\<lparr>can_send := False\<rparr>"

definition client_on_completion_finish ::
    "'w verbs \<Rightarrow> nat \<Rightarrow> client_context \<Rightarrow> 'w \<Rightarrow> (client_context \<times> 'w) result" where
  "client_on_completion_finish V cid ctx w =
     (let ctx' = ctx\<lparr>buf_write_counter := buf_write_counter ctx + 1\<rparr> in
      bindr (client_post_receive V cid ctx' w) (\<lambda>w'. Inr (ctx', w')))"

text \<open>
  The handler run without interruption. The flag of the result says whether it returned; it does
  not return when it finds \<open>can_send\<close> unset, since no other thread runs.
\<close>

definition client_on_completion ::
    "'w verbs \<Rightarrow> ibv_wc \<Rightarrow> client_context \<Rightarrow> 'w \<Rightarrow> (bool \<times> client_context \<times> 'w) result" where
  "client_on_completion V wc ctx w =
     bindr (client_on_completion_enter V wc ctx w) (\<lambda>(nx, ctx1, w1).
     case nx of
       Return \<Rightarrow> Inr (True, ctx1, w1)
     | Spin \<Rightarrow>
         if \<not> can_send ctx1 then Inr (False, ctx1, w1)
         else bindr (client_on_completion_send V (wc_id wc) ctx1 w1) (\<lambda>(ctx2, w2).
              bindr (client_on_completion_finish V (wc_id wc) (client_on_completion_clear ctx2) w2)
                (\<lambda>(ctx3, w3). Inr (True, ctx3, w3))))"

section \<open>Connection management\<close>

definition client_build_params :: conn_param where
  "client_build_params =
     \<lparr>initiator_depth = 1, responder_resources = 1, retry_count = 7, rnr_retry_count = 7\<rparr>"

definition client_build_qp_attr :: "rdma_context \<Rightarrow> qp_attr" where
  "client_build_qp_attr s_ctx =
     \<lparr>qp_send_cq = cx_cq s_ctx, qp_recv_cq = cx_cq s_ctx, qp_reliable = True,
      max_send_wr = 10, max_recv_wr = 10, max_send_sge = 1, max_recv_sge = 1\<rparr>"

definition client_build_context ::
    "'w verbs \<Rightarrow> nat \<Rightarrow> rdma_context option \<Rightarrow> 'w \<Rightarrow> (rdma_context \<times> 'w) result" where
  "client_build_context V verbs s_ctx w =
     (case s_ctx of
        Some c \<Rightarrow>
          if cx_ctx c \<noteq> verbs then rc_die ''cannot handle events in more than one context.''
          else Inr (c, w)
      | None \<Rightarrow>
          bindr (TEST_Z V (Alloc_pd verbs) w) (\<lambda>(r1, w1).
          bindr (TEST_Z V (Create_comp_channel verbs) w1) (\<lambda>(r2, w2).
          bindr (TEST_Z V (Create_cq verbs 10 (r_handle r2)) w2) (\<lambda>(r3, w3).
          bindr (TEST_NZ V (Req_notify_cq (r_handle r3)) w3) (\<lambda>(r4, w4).
          bindr (TEST_NZ V (Pthread_create (r_handle r2)) w4) (\<lambda>(r5, w5).
          Inr (\<lparr>cx_ctx = verbs, cx_pd = r_handle r1, cx_cq = r_handle r3,
                cx_comp_channel = r_handle r2\<rparr>, w5)))))))"

definition client_build_connection ::
    "'w verbs \<Rightarrow> nat \<Rightarrow> nat \<Rightarrow> rdma_context option \<Rightarrow> 'w \<Rightarrow> (rdma_context \<times> 'w) result" where
  "client_build_connection V cid verbs s_ctx w =
     bindr (client_build_context V verbs s_ctx w) (\<lambda>(c, w1).
     bindr (TEST_NZ V (Create_qp cid (cx_pd c) (client_build_qp_attr c)) w1) (\<lambda>(r, w2).
     Inr (c, w2)))"

text \<open>One pass of \<open>client_event_loop\<close> on an event that was retrieved and acknowledged.\<close>

type_synonym 'w client_obj = "rdma_context option \<times> client_context \<times> 'w"

definition client_handle_event ::
    "'w verbs \<Rightarrow> bool \<Rightarrow> cm_event \<Rightarrow> 'w client_obj \<Rightarrow> (bool \<times> 'w client_obj) result" where
  "client_handle_event V exit_on_disconnect ev st =
     (let (s_ctx, ctx, w) = st; cid = ev_id ev in
      case ev_event ev of
        RDMA_CM_EVENT_ADDR_RESOLVED \<Rightarrow>
          bindr (client_build_connection V cid (ev_verbs ev) s_ctx w) (\<lambda>(c, w1).
          bindr (client_on_pre_conn V cid (cx_pd c) ctx w1) (\<lambda>(ctx', w2).
          bindr (TEST_NZ V (Resolve_route cid TIMEOUT_IN_MS) w2) (\<lambda>(r, w3).
          Inr (True, Some c, ctx', w3))))
      | RDMA_CM_EVENT_ROUTE_RESOLVED \<Rightarrow>
          bindr (TEST_NZ V (Connect cid client_build_params) w) (\<lambda>(r, w1).
          Inr (True, s_ctx, ctx, w1))
      | RDMA_CM_EVENT_CONNECT_REQUEST \<Rightarrow>
          bindr (client_build_connection V cid (ev_verbs ev) s_ctx w) (\<lambda>(c, w1).
          bindr (client_on_pre_conn V cid (cx_pd c) ctx w1) (\<lambda>(ctx', w2).
          bindr (TEST_NZ V (Accept cid client_build_params) w2) (\<lambda>(r, w3).
          Inr (True, Some c, ctx', w3))))
      | RDMA_CM_EVENT_ESTABLISHED \<Rightarrow> Inr (True, s_ctx, ctx, w)
      | RDMA_CM_EVENT_DISCONNECTED \<Rightarrow>
          (let (r1, w1) = V (Destroy_qp cid) w; (r2, w2) = V (Destroy_id cid) w1 in
           Inr (\<not> exit_on_disconnect, s_ctx, ctx, w2))
      | RDMA_CM_EVENT_OTHER n \<Rightarrow> rc_die ''unknown event'')"

partial_function (option) client_event_loop ::
    "'w verbs \<Rightarrow> nat \<Rightarrow> bool \<Rightarrow> 'w client_obj \<Rightarrow> ('w client_obj result) option" where
  "client_event_loop V ec exit_on_disconnect st =
     (let (s_ctx, ctx, w) = st; (r, w1) = V (Get_cm_event ec) w in
      if r_code r \<noteq> 0 then Some (Inr (s_ctx, ctx, w1))
      else let (r', w2) = V Ack_cm_event w1 in
        case client_handle_event V exit_on_disconnect (r_event r) (s_ctx, ctx, w2) of
          Inl e \<Rightarrow> Some (Inl e)
        | Inr (continue, st') \<Rightarrow>
            if continue then client_event_loop V ec exit_on_disconnect st' else Some (Inr st'))"

text \<open>\<open>rc_client_loop\<close> up to the event loop, and what follows it.\<close>

definition rc_client_open ::
    "'w verbs \<Rightarrow> string \<Rightarrow> string \<Rightarrow> 'w \<Rightarrow> (nat \<times> nat \<times> 'w) result" where
  "rc_client_open V host port w =
     bindr (TEST_NZ V (Getaddrinfo host port) w) (\<lambda>(r1, w1).
     bindr (TEST_Z V Create_event_channel w1) (\<lambda>(r2, w2).
     bindr (TEST_NZ V (Create_id (r_handle r2)) w2) (\<lambda>(r3, w3).
     bindr (TEST_NZ V (Resolve_addr (r_handle r3) TIMEOUT_IN_MS) w3) (\<lambda>(r4, w4).
     let (r5, w5) = V Freeaddrinfo w4 in
     Inr (r_handle r2, r_handle r3, w5)))))"

definition rc_client_loop ::
    "'w verbs \<Rightarrow> string \<Rightarrow> string \<Rightarrow> client_context \<Rightarrow> 'w \<Rightarrow>
       ((client_context \<times> 'w) result) option" where
  "rc_client_loop V host port ctx w =
     (case rc_client_open V host port w of
        Inl e \<Rightarrow> Some (Inl e)
      | Inr (ec, conn, w1) \<Rightarrow>
          (case client_event_loop V ec True (None, ctx, w1) of
             None \<Rightarrow> None
           | Some (Inl e) \<Rightarrow> Some (Inl e)
           | Some (Inr (s_ctx, ctx', w2)) \<Rightarrow>
               let (r, w3) = V (Destroy_event_channel ec) w2 in Some (Inr (ctx', w3))))"

end
