(* ===== verification/Two_Sided_Server.thy ===== *)
theory Two_Sided_Server
  imports Verbs
begin

text \<open>
  \<open>RdmaTwoSidedServerOp\<close> (\<open>rdma_two_sided_server_op.cpp\<close>, \<open>.h\<close>): the receiving end of a link. Once
  a client is connected the server tells it where the buffer is (\<open>MSG_MR\<close>); on each RDMA write with
  immediate it posts the next receive, stores the length, counts the message, spins until the
  application has set \<open>can_recv\<close>, and answers \<open>MSG_READY\<close>. The completion handler is cut at the spin
  loop. The handler never clears \<open>can_recv\<close>: that is the code, and \<open>Link\<close> shows what it means.
\<close>

section \<open>State\<close>

record conn_context =
  sc_buf_ptr :: nat
  sc_buffer :: mem
  sc_buf_len :: nat
  can_recv :: bool
  buf_recv_counter :: int
  sc_buf_prepared :: bool
  sc_buf_registered :: bool
  sc_buffer_mr :: "ibv_mr option"
  sc_msg_ptr :: nat
  sc_msg :: message
  sc_msg_mr :: "ibv_mr option"

definition zero_conn_context :: conn_context where
  "zero_conn_context = \<lparr>sc_buf_ptr = 0, sc_buffer = (\<lambda>_. 0), sc_buf_len = 0, can_recv = False,
     buf_recv_counter = 0, sc_buf_prepared = False, sc_buf_registered = False,
     sc_buffer_mr = None, sc_msg_ptr = 0, sc_msg = \<lparr>msg_id = 0, msg_addr = 0, msg_rkey = 0\<rparr>,
     sc_msg_mr = None\<rparr>"

section \<open>Posting work\<close>

definition message_request :: "nat \<Rightarrow> conn_context \<Rightarrow> ibv_mr \<Rightarrow> send_wr" where
  "message_request cid ctx m =
     zero_send_wr\<lparr>swr_id := cid, swr_opcode := IBV_WR_SEND, swr_signaled := True,
       swr_sges := [\<lparr>sge_addr = word_of_nat (sc_msg_ptr ctx), sge_length = word_of_nat MESSAGE_SZ,
                     sge_lkey = mr_lkey m\<rparr>]\<rparr>"

definition server_send_message :: "'w verbs \<Rightarrow> nat \<Rightarrow> conn_context \<Rightarrow> 'w \<Rightarrow> 'w result" where
  "server_send_message V cid ctx w =
     (case sc_msg_mr ctx of
        None \<Rightarrow> Inl Null_deref
      | Some m \<Rightarrow>
          bindr (TEST_NZ V (Post_send cid (message_request cid ctx m)) w) (\<lambda>(r, w'). Inr w'))"

definition server_post_receive :: "'w verbs \<Rightarrow> nat \<Rightarrow> 'w \<Rightarrow> 'w result" where
  "server_post_receive V cid w =
     bindr (TEST_NZ V (Post_recv cid \<lparr>rwr_id = cid, rwr_sges = []\<rparr>) w) (\<lambda>(r, w'). Inr w')"

definition server_on_pre_conn ::
    "'w verbs \<Rightarrow> nat \<Rightarrow> nat \<Rightarrow> conn_context \<Rightarrow> 'w \<Rightarrow> (conn_context \<times> 'w) result" where
  "server_on_pre_conn V cid pd ctx w =
     (let (r1, w1) = V (Memalign BUFFER_SIZE) w;
          ctx1 = (if r_code r1 = 0 then ctx\<lparr>sc_buf_ptr := r_handle r1\<rparr> else ctx) in
      bindr (TEST_Z V (Reg_mr pd (sc_buf_ptr ctx1) BUFFER_SIZE [LOCAL_WRITE, REMOTE_WRITE]) w1)
        (\<lambda>(r2, w2).
      let ctx2 = ctx1\<lparr>sc_buffer_mr := Some (r_mr r2)\<rparr>;
          (r3, w3) = V (Memalign MESSAGE_SZ) w2;
          ctx3 = (if r_code r3 = 0 then ctx2\<lparr>sc_msg_ptr := r_handle r3\<rparr> else ctx2) in
      bindr (TEST_Z V (Reg_mr pd (sc_msg_ptr ctx3) MESSAGE_SZ [LOCAL_WRITE, REMOTE_WRITE]) w3)
        (\<lambda>(r4, w4).
      let ctx4 = ctx3\<lparr>sc_msg_mr := Some (r_mr r4), sc_buf_registered := True\<rparr> in
      bindr (server_post_receive V cid w4) (\<lambda>w5. Inr (ctx4, w5)))))"

definition server_on_connection ::
    "'w verbs \<Rightarrow> nat \<Rightarrow> conn_context \<Rightarrow> 'w \<Rightarrow> (conn_context \<times> 'w) result" where
  "server_on_connection V cid ctx w =
     (case sc_buffer_mr ctx of
        None \<Rightarrow> Inl Null_deref
      | Some m \<Rightarrow>
          let ctx' = ctx\<lparr>sc_msg := \<lparr>msg_id = MSG_MR, msg_addr = word_of_nat (mr_addr m),
                                    msg_rkey = mr_rkey m\<rparr>\<rparr> in
          bindr (server_send_message V cid ctx' w) (\<lambda>w'. Inr (ctx', w')))"

section \<open>Completions\<close>

definition set_msg_id :: "int \<Rightarrow> conn_context \<Rightarrow> conn_context" where
  "set_msg_id i ctx = ctx\<lparr>sc_msg := (sc_msg ctx)\<lparr>msg_id := i\<rparr>\<rparr>"

text \<open>
  The part before the spin loop; \<open>Some z\<close> means the handler now spins on \<open>can_recv\<close>, with \<open>z\<close> for
  the branch of a zero length, and \<open>None\<close> that it returned.
\<close>

definition server_on_completion_enter ::
    "'w verbs \<Rightarrow> ibv_wc \<Rightarrow> conn_context \<Rightarrow> 'w \<Rightarrow> (bool option \<times> conn_context \<times> 'w) result" where
  "server_on_completion_enter V wc ctx w =
     (if wc_opcode wc = IBV_WC_RECV_RDMA_WITH_IMM then
        let size = ntohl (wc_imm wc);
            ctx1 = (if size = 0 then set_msg_id MSG_READY ctx else ctx) in
        bindr (server_post_receive V (wc_id wc) w) (\<lambda>w1.
        Inr (Some (size = 0),
             ctx1\<lparr>sc_buf_len := unat size, buf_recv_counter := buf_recv_counter ctx + 1\<rparr>, w1))
      else Inr (None, ctx, w))"

text \<open>The part after the spin loop.\<close>

definition server_on_completion_reply ::
    "'w verbs \<Rightarrow> nat \<Rightarrow> bool \<Rightarrow> conn_context \<Rightarrow> 'w \<Rightarrow> (conn_context \<times> 'w) result" where
  "server_on_completion_reply V cid z ctx w =
     (let ctx' = (if z then ctx else set_msg_id MSG_READY ctx) in
      bindr (server_send_message V cid ctx' w) (\<lambda>w'. Inr (ctx', w')))"

text \<open>The handler without interruption; the flag says whether it returned.\<close>

definition server_on_completion ::
    "'w verbs \<Rightarrow> ibv_wc \<Rightarrow> conn_context \<Rightarrow> 'w \<Rightarrow> (bool \<times> conn_context \<times> 'w) result" where
  "server_on_completion V wc ctx w =
     bindr (server_on_completion_enter V wc ctx w) (\<lambda>(nx, ctx1, w1).
     case nx of
       None \<Rightarrow> Inr (True, ctx1, w1)
     | Some z \<Rightarrow>
         if \<not> can_recv ctx1 then Inr (False, ctx1, w1)
         else bindr (server_on_completion_reply V (wc_id wc) z ctx1 w1) (\<lambda>(ctx2, w2).
              Inr (True, ctx2, w2)))"

definition server_on_disconnect :: "'w verbs \<Rightarrow> conn_context \<Rightarrow> 'w \<Rightarrow> 'w result" where
  "server_on_disconnect V ctx w =
     (case (sc_buffer_mr ctx, sc_msg_mr ctx) of
        (Some b, Some m) \<Rightarrow>
          let (r1, w1) = V (Dereg_mr b) w; (r2, w2) = V (Dereg_mr m) w1;
              (r3, w3) = V (Free (sc_buf_ptr ctx)) w2; (r4, w4) = V (Free (sc_msg_ptr ctx)) w3 in
          Inr w4
      | _ \<Rightarrow> Inl Null_deref)"

section \<open>Connection management\<close>

definition server_build_params :: conn_param where
  "server_build_params =
     \<lparr>initiator_depth = 1, responder_resources = 1, retry_count = 7, rnr_retry_count = 7\<rparr>"

definition server_build_qp_attr :: "rdma_context \<Rightarrow> qp_attr" where
  "server_build_qp_attr s_ctx =
     \<lparr>qp_send_cq = cx_cq s_ctx, qp_recv_cq = cx_cq s_ctx, qp_reliable = True,
      max_send_wr = 10, max_recv_wr = 10, max_send_sge = 1, max_recv_sge = 1\<rparr>"

definition server_build_context ::
    "'w verbs \<Rightarrow> nat \<Rightarrow> rdma_context option \<Rightarrow> 'w \<Rightarrow> (rdma_context \<times> 'w) result" where
  "server_build_context V verbs s_ctx w =
     (case s_ctx of
        Some c \<Rightarrow>
          if cx_ctx c \<noteq> verbs then rc_die ''cannot handle events in more than one context.''
          else Inr (c, w)
      | None \<Rightarrow>
          bindr (TEST_Z V (Alloc_pd verbs) w) (\<lambda>(r1, w1).
          bindr (TEST_Z V (Create_comp_channel verbs) w1) (\<lambda>(r2, w2).
          bindr (TEST_Z V (Create_cq verbs 10 (r_handle r2)) w2) (\<lambda>(r3, w3).
          bindr (TEST_NZ V (Req_notify_cq (r_handle r3)) w3) (\<lambda>(r4, w4).
          bindr (TEST_NZ V (Pthread_create (r_handle r2)) w4) (\<lambda>(r5, w5).
          Inr (\<lparr>cx_ctx = verbs, cx_pd = r_handle r1, cx_cq = r_handle r3,
                cx_comp_channel = r_handle r2\<rparr>, w5)))))))"

definition server_build_connection ::
    "'w verbs \<Rightarrow> nat \<Rightarrow> nat \<Rightarrow> rdma_context option \<Rightarrow> 'w \<Rightarrow> (rdma_context \<times> 'w) result" where
  "server_build_connection V cid verbs s_ctx w =
     bindr (server_build_context V verbs s_ctx w) (\<lambda>(c, w1).
     bindr (TEST_NZ V (Create_qp cid (cx_pd c) (server_build_qp_attr c)) w1) (\<lambda>(r, w2).
     Inr (c, w2)))"

type_synonym 'w server_obj = "rdma_context option \<times> conn_context \<times> 'w"

definition server_handle_event ::
    "'w verbs \<Rightarrow> bool \<Rightarrow> cm_event \<Rightarrow> 'w server_obj \<Rightarrow> (bool \<times> 'w server_obj) result" where
  "server_handle_event V exit_on_disconnect ev st =
     (let (s_ctx, ctx, w) = st; cid = ev_id ev in
      case ev_event ev of
        RDMA_CM_EVENT_ADDR_RESOLVED \<Rightarrow>
          bindr (server_build_connection V cid (ev_verbs ev) s_ctx w) (\<lambda>(c, w1).
          bindr (server_on_pre_conn V cid (cx_pd c) ctx w1) (\<lambda>(ctx', w2).
          bindr (TEST_NZ V (Resolve_route cid TIMEOUT_IN_MS) w2) (\<lambda>(r, w3).
          Inr (True, Some c, ctx', w3))))
      | RDMA_CM_EVENT_ROUTE_RESOLVED \<Rightarrow>
          bindr (TEST_NZ V (Connect cid server_build_params) w) (\<lambda>(r, w1).
          Inr (True, s_ctx, ctx, w1))
      | RDMA_CM_EVENT_CONNECT_REQUEST \<Rightarrow>
          bindr (server_build_connection V cid (ev_verbs ev) s_ctx w) (\<lambda>(c, w1).
          bindr (server_on_pre_conn V cid (cx_pd c) ctx w1) (\<lambda>(ctx', w2).
          bindr (TEST_NZ V (Accept cid server_build_params) w2) (\<lambda>(r, w3).
          Inr (True, Some c, ctx', w3))))
      | RDMA_CM_EVENT_ESTABLISHED \<Rightarrow>
          bindr (server_on_connection V cid ctx w) (\<lambda>(ctx', w1). Inr (True, s_ctx, ctx', w1))
      | RDMA_CM_EVENT_DISCONNECTED \<Rightarrow>
          (let (r1, w1) = V (Destroy_qp cid) w in
           bindr (server_on_disconnect V ctx w1) (\<lambda>w2.
           let (r2, w3) = V (Destroy_id cid) w2 in
           Inr (\<not> exit_on_disconnect, s_ctx, ctx, w3)))
      | RDMA_CM_EVENT_OTHER n \<Rightarrow> rc_die ''unknown event'')"

partial_function (option) server_event_loop ::
    "'w verbs \<Rightarrow> nat \<Rightarrow> bool \<Rightarrow> 'w server_obj \<Rightarrow> ('w server_obj result) option" where
  "server_event_loop V ec exit_on_disconnect st =
     (let (s_ctx, ctx, w) = st; (r, w1) = V (Get_cm_event ec) w in
      if r_code r \<noteq> 0 then Some (Inr (s_ctx, ctx, w1))
      else let (r', w2) = V Ack_cm_event w1 in
        case server_handle_event V exit_on_disconnect (r_event r) (s_ctx, ctx, w2) of
          Inl e \<Rightarrow> Some (Inl e)
        | Inr (continue, st') \<Rightarrow>
            if continue then server_event_loop V ec exit_on_disconnect st' else Some (Inr st'))"

definition rc_server_open :: "'w verbs \<Rightarrow> int \<Rightarrow> 'w \<Rightarrow> (nat \<times> nat \<times> 'w) result" where
  "rc_server_open V port w =
     bindr (TEST_Z V Create_event_channel w) (\<lambda>(r1, w1).
     bindr (TEST_NZ V (Create_id (r_handle r1)) w1) (\<lambda>(r2, w2).
     bindr (TEST_NZ V (Bind_addr (r_handle r2) port) w2) (\<lambda>(r3, w3).
     bindr (TEST_NZ V (Listen (r_handle r2) 10) w3) (\<lambda>(r4, w4).
     Inr (r_handle r1, r_handle r2, w4)))))"

definition rc_server_loop ::
    "'w verbs \<Rightarrow> int \<Rightarrow> conn_context \<Rightarrow> 'w \<Rightarrow> ((conn_context \<times> 'w) result) option" where
  "rc_server_loop V port ctx w =
     (case rc_server_open V port w of
        Inl e \<Rightarrow> Some (Inl e)
      | Inr (ec, listener, w1) \<Rightarrow>
          (case server_event_loop V ec False (None, ctx, w1) of
             None \<Rightarrow> None
           | Some (Inl e) \<Rightarrow> Some (Inl e)
           | Some (Inr (s_ctx, ctx', w2)) \<Rightarrow>
               let (r3, w3) = V (Destroy_id listener) w2;
                   (r4, w4) = V (Destroy_event_channel ec) w3 in
               Some (Inr (ctx', w4))))"

end
