(* ===== verification/Param_Server.thy ===== *)
theory Param_Server
  imports Partition Block_Wire SGD C_Strings Two_Sided_Client Two_Sided_Server
begin

text \<open>
  \<open>ps.cpp\<close>, the parameter server: its globals, the parts of \<open>main\<close> before and inside the iteration
  loop, the guards \<open>CanMerge\<close> and \<open>CanSend\<close>, and one pass of the loops of the application threads
  \<open>rdma_sendTd\<close> and \<open>rdma_recvTd\<close>. A pass that the code ends by sleeping leaves the state as it was.
  The connection contexts \<open>c_ctx[i]\<close> and \<open>s_ctx[i]\<close> of thread \<open>i\<close> are arguments of its passes: a
  thread touches no other.
\<close>

section \<open>Globals\<close>

record ps_state =
  Pblocks :: "nat \<Rightarrow> Block"
  Qblocks :: "nat \<Rightarrow> Block"
  ps_heap :: heap
  worker_num :: int
  recved_iter :: "nat \<Rightarrow> int"
  to_send_iter :: "nat \<Rightarrow> int"
  worker_pidx :: "nat \<Rightarrow> int"
  worker_qidx :: "nat \<Rightarrow> int"
  ps_iter_t :: int
  ps_completed_iter :: int
  ps_local_ports :: "nat \<Rightarrow> int"
  ps_remote_ports :: "nat \<Rightarrow> int"

text \<open>The initialised globals; \<open>mem_bytes\<close> is the memory the process may allocate.\<close>

definition ps_globals :: "nat \<Rightarrow> ps_state" where
  "ps_globals mem_bytes =
     \<lparr>Pblocks = (\<lambda>_. zero_block), Qblocks = (\<lambda>_. zero_block), ps_heap = fresh_heap mem_bytes,
      worker_num = WORKER_NUM, recved_iter = (\<lambda>_. 0), to_send_iter = (\<lambda>_. 0),
      worker_pidx = (\<lambda>_. 0), worker_qidx = (\<lambda>_. 0), ps_iter_t = 0, ps_completed_iter = - 1,
      ps_local_ports = (\<lambda>i. if i < 4 then 4411 + int i else 0),
      ps_remote_ports = (\<lambda>i. if i < 4 then 5511 + int i else 0)\<rparr>"

section \<open>Guards\<close>

text \<open>The loop of \<open>CanMerge\<close> from index \<open>i\<close> on, \<open>n\<close> indices left.\<close>

fun CanMerge_from :: "int \<Rightarrow> (nat \<Rightarrow> int) \<Rightarrow> nat \<Rightarrow> nat \<Rightarrow> bool" where
  "CanMerge_from coming_iter r_iter i 0 = True"
| "CanMerge_from coming_iter r_iter i (Suc n) =
     (if coming_iter > r_iter i + 1 then False else CanMerge_from coming_iter r_iter (Suc i) n)"

definition CanMerge :: "int \<Rightarrow> (nat \<Rightarrow> int) \<Rightarrow> int \<Rightarrow> bool" where
  "CanMerge coming_iter r_iter len = CanMerge_from coming_iter r_iter 0 (nat len)"

definition CanSend :: "int \<Rightarrow> int \<Rightarrow> bool" where
  "CanSend to_send completed_age = (if to_send \<le> completed_age then True else False)"

lemma CanMerge_from_iff:
  "CanMerge_from c r i n \<longleftrightarrow> (\<forall>j. i \<le> j \<and> j < i + n \<longrightarrow> c \<le> r j + 1)"
proof (induction n arbitrary: i)
  case 0
  then show ?case by simp
next
  case (Suc n)
  have "(\<forall>j. i \<le> j \<and> j < i + Suc n \<longrightarrow> c \<le> r j + 1) \<longleftrightarrow>
        c \<le> r i + 1 \<and> (\<forall>j. Suc i \<le> j \<and> j < Suc i + n \<longrightarrow> c \<le> r j + 1)"
    by (metis Suc_le_eq add_Suc add_Suc_right le_eq_less_or_eq less_add_Suc1 order_refl)
  then show ?case by (auto simp: Suc.IH)
qed

lemma CanMerge_iff: "CanMerge c r len \<longleftrightarrow> (\<forall>j<nat len. c \<le> r j + 1)"
  by (simp add: CanMerge_def CanMerge_from_iff)

section \<open>Start of \<open>main\<close>\<close>

definition ps_ports :: "ps_state \<Rightarrow> ps_state" where
  "ps_ports st =
     st\<lparr>ps_local_ports := (\<lambda>i. if i < CAP then 10000 + int i else ps_local_ports st i),
        ps_remote_ports := (\<lambda>i. if i < CAP then 20000 + int i else ps_remote_ports st i)\<rparr>"

definition ps_InitContext ::
    "(nat \<Rightarrow> client_context) \<times> (nat \<Rightarrow> conn_context) \<Rightarrow>
     (nat \<Rightarrow> client_context) \<times> (nat \<Rightarrow> conn_context)" where
  "ps_InitContext ctxs =
     ((\<lambda>i. if i < CAP
           then (fst ctxs i)\<lparr>cc_buf_prepared := False, cc_buf_registered := False,
                             buf_write_counter := 0\<rparr>
           else fst ctxs i),
      (\<lambda>i. if i < CAP
           then (snd ctxs i)\<lparr>sc_buf_prepared := False, sc_buf_registered := False,
                             buf_recv_counter := 0\<rparr>
           else snd ctxs i))"

definition ps_worker_init :: "nat \<Rightarrow> ps_state \<Rightarrow> ps_state result" where
  "ps_worker_init i st =
     bindr (index_in CAP (int i)) (\<lambda>k.
     Inr (st\<lparr>recved_iter := (recved_iter st)(k := - 1),
             to_send_iter := (to_send_iter st)(k := 0),
             worker_qidx := (worker_qidx st)(k := int i),
             worker_pidx := (worker_pidx st)(k := int i)\<rparr>))"

text \<open>\<open>for (j = 0; j < ele_num; j++) eles[j] = v\<close>.\<close>

definition ps_fill :: "nat \<Rightarrow> int \<Rightarrow> double \<Rightarrow> heap \<Rightarrow> heap result" where
  "ps_fill p n v h = for_up (\<lambda>j h. heap_set h p (int j) v) 0 (nat n) h"

definition ps_fill_worker :: "fp \<Rightarrow> nat \<Rightarrow> ps_state \<Rightarrow> ps_state result" where
  "ps_fill_worker F i st =
     bindr (index_in CAP (int i)) (\<lambda>k.
     let v = fp_mul F (fp_of_int F (int i)) lit_0_1 in
     bindr (ps_fill (eles (Pblocks st k)) (ele_num (Pblocks st k)) v (ps_heap st)) (\<lambda>h1.
     bindr (ps_fill (eles (Qblocks st k)) (ele_num (Qblocks st k)) (fp_add F v lit_1_0) h1) (\<lambda>h2.
     Inr (st\<lparr>ps_heap := h2\<rparr>))))"

text \<open>
  \<open>main\<close> up to the iteration loop. \<open>argv\<close> holds the arguments after the program name. The threads
  it starts on the way are the cluster's other steps.
\<close>

definition ps_main_args :: "string list \<Rightarrow> ps_state \<Rightarrow> ps_state" where
  "ps_main_args argv st =
     (case argv of [a] \<Rightarrow> st\<lparr>worker_num := atoi a\<rparr> | _ \<Rightarrow> st)"

definition ps_main_setup :: "int \<Rightarrow> int \<Rightarrow> int \<Rightarrow> fp \<Rightarrow> string list \<Rightarrow> ps_state \<Rightarrow> ps_state result" where
  "ps_main_setup n m k F argv st0 =
     (let st1 = ps_main_args argv (ps_ports st0) in
      bindr (for_up ps_worker_init 0 (nat (worker_num st1)) st1) (\<lambda>st2.
      bindr (partitionBlock n k (worker_num st2) (Pblocks st2) (ps_heap st2)) (\<lambda>(Ps, h1).
      bindr (partitionBlock m k (worker_num st2) (Qblocks st2) h1) (\<lambda>(Qs, h2).
      let st3 = st2\<lparr>Pblocks := Ps, Qblocks := Qs, ps_heap := h2\<rparr> in
      bindr (for_up (ps_fill_worker F) 0 (nat (worker_num st3)) st3) (\<lambda>st4.
      Inr (st4\<lparr>ps_iter_t := 0\<rparr>))))))"

section \<open>The iteration loop of \<open>main\<close>\<close>

datatype 's main_next = Running 's | Exited int 's

definition ps_main_pass :: "ps_state \<Rightarrow> ps_state main_next" where
  "ps_main_pass st =
     (if CanMerge (ps_iter_t st) (recved_iter st) (worker_num st) = False then Running st
      else let st' = st\<lparr>ps_completed_iter := ps_iter_t st, ps_iter_t := ps_iter_t st + 1\<rparr> in
           if ps_iter_t st' = 1200 then Exited 0 st' else Running st')"

section \<open>The application threads\<close>

text \<open>
  A pass of a thread tests its guard, works on blocks and buffers, stores the word by which the other
  threads learn of it, and finishes. The work is a definition of its own.
\<close>

definition ps_send_fill ::
    "nat \<Rightarrow> ps_state \<Rightarrow> client_context \<Rightarrow> (ps_state \<times> client_context) result" where
  "ps_send_fill i st c_ctx =
     bindr (index_in CAP (worker_pidx st i)) (\<lambda>pbid.
     bindr (index_in CAP (worker_qidx st i)) (\<lambda>qbid.
     let Ps = (Pblocks st)(pbid := (Pblocks st pbid)\<lparr>data_age := to_send_iter st i\<rparr>);
         Qs = (Qblocks st)(qbid := (Qblocks st qbid)\<lparr>data_age := to_send_iter st i\<rparr>) in
     bindr (guardr (cc_buf_ptr c_ctx \<noteq> 0) Null_deref) (\<lambda>_.
     bindr (pack_blocks (ps_heap st) (Ps pbid) (Qs qbid) (cc_buffer c_ctx)) (\<lambda>(m, total_len).
     Inr (st\<lparr>Pblocks := Ps, Qblocks := Qs\<rparr>,
          c_ctx\<lparr>cc_buffer := m, cc_buf_len := total_len, cc_buf_prepared := True\<rparr>)))))"

text \<open>One pass of \<open>rdma_sendTd(i)\<close>, the wait for the registered buffer included.\<close>

definition ps_rdma_sendTd ::
    "nat \<Rightarrow> ps_state \<Rightarrow> client_context \<Rightarrow> (ps_state \<times> client_context) result" where
  "ps_rdma_sendTd i st c_ctx =
     (if cc_buf_registered c_ctx = False then Inr (st, c_ctx)
      else if CanSend (to_send_iter st i) (ps_completed_iter st) = False then Inr (st, c_ctx)
      else
        bindr (ps_send_fill i st c_ctx) (\<lambda>(st1, c1).
        Inr (st1\<lparr>to_send_iter := (to_send_iter st1)(i := to_send_iter st1 i + 1)\<rparr>,
             c1\<lparr>can_send := True\<rparr>)))"

text \<open>Copying a received header into a global block: all fields but \<open>eles\<close> and, before the data, the age.\<close>

definition ps_store_header :: "Block \<Rightarrow> Block \<Rightarrow> Block" where
  "ps_store_header dst pb =
     dst\<lparr>block_id := block_id pb, sta_idx := sta_idx pb, height := height pb,
         ele_num := ele_num pb, isP := isP pb\<rparr>"

text \<open>
  Copying a message out of the buffer, in the two halves of the code: first the header, the elements and
  the age of the \<open>P\<close> block, whose size the local \<open>p_total\<close> keeps; then the same for the \<open>Q\<close> block behind
  it, and the mark that the buffer has been read.
\<close>

definition ps_recv_P :: "ps_state \<Rightarrow> conn_context \<Rightarrow> (ps_state \<times> nat) result" where
  "ps_recv_P st s_ctx =
     (let buf = sc_buffer s_ctx in
      bindr (guardr (sc_buf_ptr s_ctx \<noteq> 0) Null_deref) (\<lambda>_.
      bindr (buf_block buf 0) (\<lambda>pb.
      bindr (index_in CAP (block_id pb)) (\<lambda>p_idx.
      let data_sz = sz_doubles (ele_num pb);
          P1 = ps_store_header (Pblocks st p_idx) pb in
      bindr (buf_get buf BLOCK_SZ data_sz) (\<lambda>ps.
      bindr (heap_write (ps_heap st) (eles P1) ps) (\<lambda>h1.
      let P2 = P1\<lparr>data_age := data_age pb\<rparr>; p_total = sz_add BLOCK_SZ data_sz in
      Inr (st\<lparr>Pblocks := (Pblocks st)(p_idx := P2), ps_heap := h1\<rparr>, p_total)))))))"

definition ps_recv_Q :: "nat \<Rightarrow> ps_state \<Rightarrow> conn_context \<Rightarrow> (ps_state \<times> conn_context) result" where
  "ps_recv_Q p_total st s_ctx =
     (let buf = sc_buffer s_ctx in
      bindr (buf_block buf p_total) (\<lambda>qb.
      bindr (index_in CAP (block_id qb)) (\<lambda>q_idx.
      let Q1 = ps_store_header (Qblocks st q_idx) qb in
      bindr (buf_get buf (sz_add p_total BLOCK_SZ) (sz_doubles (ele_num qb))) (\<lambda>qs.
      bindr (heap_write (ps_heap st) (eles Q1) qs) (\<lambda>h2.
      let Q2 = Q1\<lparr>data_age := data_age qb\<rparr> in
      Inr (st\<lparr>Qblocks := (Qblocks st)(q_idx := Q2), ps_heap := h2\<rparr>,
           s_ctx\<lparr>sc_buf_prepared := False\<rparr>))))))"

definition ps_recv_copy :: "ps_state \<Rightarrow> conn_context \<Rightarrow> (ps_state \<times> conn_context) result" where
  "ps_recv_copy st s_ctx =
     bindr (ps_recv_P st s_ctx) (\<lambda>(st1, p_total). ps_recv_Q p_total st1 s_ctx)"

lemma ps_recv_copy_unfold:
  "ps_recv_copy st s_ctx =
     (let buf = sc_buffer s_ctx in
      bindr (guardr (sc_buf_ptr s_ctx \<noteq> 0) Null_deref) (\<lambda>_.
      bindr (buf_block buf 0) (\<lambda>pb.
      bindr (index_in CAP (block_id pb)) (\<lambda>p_idx.
      let data_sz = sz_doubles (ele_num pb);
          P1 = ps_store_header (Pblocks st p_idx) pb in
      bindr (buf_get buf BLOCK_SZ data_sz) (\<lambda>ps.
      bindr (heap_write (ps_heap st) (eles P1) ps) (\<lambda>h1.
      let P2 = P1\<lparr>data_age := data_age pb\<rparr>; p_total = sz_add BLOCK_SZ data_sz in
      bindr (buf_block buf p_total) (\<lambda>qb.
      bindr (index_in CAP (block_id qb)) (\<lambda>q_idx.
      let Q1 = ps_store_header (Qblocks st q_idx) qb in
      bindr (buf_get buf (sz_add p_total BLOCK_SZ) (sz_doubles (ele_num qb))) (\<lambda>qs.
      bindr (heap_write h1 (eles Q1) qs) (\<lambda>h2.
      let Q2 = Q1\<lparr>data_age := data_age qb\<rparr> in
      Inr (st\<lparr>Pblocks := (Pblocks st)(p_idx := P2), Qblocks := (Qblocks st)(q_idx := Q2),
              ps_heap := h2\<rparr>,
           s_ctx\<lparr>sc_buf_prepared := False\<rparr>)))))))))))"
  by (simp add: ps_recv_copy_def ps_recv_P_def ps_recv_Q_def bindr_assoc Let_def)

text \<open>One pass of \<open>rdma_recvTd(i)\<close>.\<close>

definition ps_rdma_recvTd ::
    "nat \<Rightarrow> ps_state \<Rightarrow> conn_context \<Rightarrow> (ps_state \<times> conn_context) result" where
  "ps_rdma_recvTd i st s_ctx =
     (if sc_buf_registered s_ctx = False then Inr (st, s_ctx)
      else if recved_iter st i + 1 > buf_recv_counter s_ctx - 1 then Inr (st, s_ctx)
      else
        bindr (ps_recv_copy st s_ctx) (\<lambda>(st1, c1).
        Inr (st1\<lparr>recved_iter := (recved_iter st1)(i := recved_iter st1 i + 1)\<rparr>,
             c1\<lparr>can_recv := True\<rparr>)))"

section \<open>The transport threads\<close>

definition ps_remote_ips :: "int \<Rightarrow> string option" where
  "ps_remote_ips i = (if 0 \<le> i \<and> i < 4 then Some ''12.12.11.13'' else None)"

text \<open>Host and port of \<open>rdma_sendTd_loop(i)\<close>; the address is taken modulo \<open>WORKER_NUM\<close>.\<close>

definition ps_rdma_sendTd_loop_args :: "ps_state \<Rightarrow> int \<Rightarrow> (string option \<times> string) result" where
  "ps_rdma_sendTd_loop_args st i =
     bindr (c_mod i WORKER_NUM) (\<lambda>mapped.
     bindr (index_in CAP mapped) (\<lambda>k.
     bindr (index_in CAP i) (\<lambda>j.
     Inr (ps_remote_ips (int k), sprintf_d (ps_remote_ports st j)))))"

definition ps_rdma_recvTd_loop_args :: "ps_state \<Rightarrow> int \<Rightarrow> string result" where
  "ps_rdma_recvTd_loop_args st i =
     bindr (index_in CAP i) (\<lambda>j. Inr (sprintf_d (ps_local_ports st j)))"

section \<open>What the passes do\<close>

text \<open>The pair of lane \<open>i\<close> with the age stamped, as \<open>rdma_sendTd(i)\<close> packs it.\<close>

definition ps_stamp :: "nat \<Rightarrow> ps_state \<Rightarrow> ps_state" where
  "ps_stamp i st =
     st\<lparr>Pblocks := (Pblocks st)(nat (worker_pidx st i) :=
          (Pblocks st (nat (worker_pidx st i)))\<lparr>data_age := to_send_iter st i\<rparr>),
        Qblocks := (Qblocks st)(nat (worker_qidx st i) :=
          (Qblocks st (nat (worker_qidx st i)))\<lparr>data_age := to_send_iter st i\<rparr>)\<rparr>"

lemma ps_send_ok:
  assumes "cc_buf_registered c" "cc_buf_ptr c \<noteq> 0" "CanSend (to_send_iter st i) (ps_completed_iter st)"
    and "worker_pidx st i = int p" "worker_qidx st i = int q" "p < CAP" "q < CAP"
    and "pack_blocks (ps_heap st) (Pblocks (ps_stamp i st) p) (Qblocks (ps_stamp i st) q)
           (cc_buffer c) = Inr (m, len)"
  shows "ps_rdma_sendTd i st c =
     Inr ((ps_stamp i st)\<lparr>to_send_iter := (to_send_iter st)(i := to_send_iter st i + 1)\<rparr>,
          c\<lparr>cc_buffer := m, cc_buf_len := len, cc_buf_prepared := True, can_send := True\<rparr>)"
  using assms by (simp add: ps_rdma_sendTd_def ps_send_fill_def ps_stamp_def Let_def)

definition ps_received ::
    "nat \<Rightarrow> (Block \<times> double list) \<times> (Block \<times> double list) \<Rightarrow> ps_state \<Rightarrow> ps_state" where
  "ps_received i msg st =
     (let ((pb, ps), (qb, qs)) = msg; p = nat (block_id pb); q = nat (block_id qb) in
      st\<lparr>Pblocks := (Pblocks st)(p := (ps_store_header (Pblocks st p) pb)\<lparr>data_age := data_age pb\<rparr>),
         Qblocks := (Qblocks st)(q := (ps_store_header (Qblocks st q) qb)\<lparr>data_age := data_age qb\<rparr>),
         ps_heap := (ps_heap st)\<lparr>h_arr := (h_arr (ps_heap st))
           (eles (Pblocks st p) \<mapsto> ps, eles (Qblocks st q) \<mapsto> qs)\<rparr>,
         recved_iter := (recved_iter st)(i := recved_iter st i + 1)\<rparr>)"

text \<open>The same without the last store: what the copying leaves.\<close>

definition ps_copied :: "(Block \<times> double list) \<times> (Block \<times> double list) \<Rightarrow> ps_state \<Rightarrow> ps_state" where
  "ps_copied msg st =
     (let ((pb, ps), (qb, qs)) = msg; p = nat (block_id pb); q = nat (block_id qb) in
      st\<lparr>Pblocks := (Pblocks st)(p := (ps_store_header (Pblocks st p) pb)\<lparr>data_age := data_age pb\<rparr>),
         Qblocks := (Qblocks st)(q := (ps_store_header (Qblocks st q) qb)\<lparr>data_age := data_age qb\<rparr>),
         ps_heap := (ps_heap st)\<lparr>h_arr := (h_arr (ps_heap st))
           (eles (Pblocks st p) \<mapsto> ps, eles (Qblocks st q) \<mapsto> qs)\<rparr>\<rparr>)"

lemma ps_received_copied:
  "ps_received i msg st =
     (ps_copied msg st)\<lparr>recved_iter := (recved_iter st)(i := recved_iter st i + 1)\<rparr>"
  by (simp add: ps_received_def ps_copied_def Let_def split: prod.splits)

lemma ps_copied_recved: "recved_iter (ps_copied msg st) = recved_iter st"
  by (simp add: ps_copied_def Let_def split: prod.splits)

definition ps_recv_ready :: "nat \<Rightarrow> ps_state \<Rightarrow> conn_context \<Rightarrow> bool" where
  "ps_recv_ready i st c \<longleftrightarrow>
     sc_buf_registered c \<and> recved_iter st i + 2 \<le> buf_recv_counter c \<and> sc_buf_ptr c \<noteq> 0"

text \<open>The array at \<open>p\<close> has the size that a received header announces.\<close>

definition array_fits :: "heap \<Rightarrow> nat \<Rightarrow> Block \<Rightarrow> bool" where
  "array_fits h p b \<longleftrightarrow> (\<exists>xs. h_arr h p = Some xs \<and> int (length xs) = ele_num b)"

text \<open>What each half leaves, and that the two together are the copying.\<close>

definition ps_copied_P :: "Block \<times> double list \<Rightarrow> ps_state \<Rightarrow> ps_state" where
  "ps_copied_P m st =
     (let (pb, ps) = m; p = nat (block_id pb) in
      st\<lparr>Pblocks := (Pblocks st)(p := (ps_store_header (Pblocks st p) pb)\<lparr>data_age := data_age pb\<rparr>),
         ps_heap := (ps_heap st)\<lparr>h_arr := (h_arr (ps_heap st))(eles (Pblocks st p) \<mapsto> ps)\<rparr>\<rparr>)"

definition ps_copied_Q :: "Block \<times> double list \<Rightarrow> ps_state \<Rightarrow> ps_state" where
  "ps_copied_Q m st =
     (let (qb, qs) = m; q = nat (block_id qb) in
      st\<lparr>Qblocks := (Qblocks st)(q := (ps_store_header (Qblocks st q) qb)\<lparr>data_age := data_age qb\<rparr>),
         ps_heap := (ps_heap st)\<lparr>h_arr := (h_arr (ps_heap st))(eles (Qblocks st q) \<mapsto> qs)\<rparr>\<rparr>)"

lemma ps_copied_halves: "ps_copied (mP, mQ) st = ps_copied_Q mQ (ps_copied_P mP st)"
  by (simp add: ps_copied_def ps_copied_P_def ps_copied_Q_def Let_def split_beta)

lemma copy_block:
  assumes b: "length bs = sz_doubles (ele_num B)" "block_ok B" and f: "array_fits h a B"
  shows "heap_write h a bs = Inr (h\<lparr>h_arr := (h_arr h)(a \<mapsto> bytes_doubles bs)\<rparr>)"
proof -
  obtain xs where x: "h_arr h a = Some xs" "int (length xs) = ele_num B" using f by (auto simp: array_fits_def)
  have n: "0 \<le> ele_num B" "nat (ele_num B) = length xs" using x(2) by linarith+
  have "sz_doubles (ele_num B) = 8 * length xs"
    using sz_doubles_nonneg[OF n(1) block_ok_ele[OF b(2)]] n(2) by simp
  then show ?thesis using heap_write_bytes[OF x(1), of bs] b(1) by simp
qed

lemma ps_recv_P_ok:
  assumes r: "sc_buf_ptr c \<noteq> 0" and m: "read_blocks (sc_buffer c) = Inr ((pb, ps), mQ)"
    and p: "block_id pb = int p" "p < CAP" "array_fits (ps_heap st) (eles (Pblocks st p)) pb"
  shows "ps_recv_P st c = Inr (ps_copied_P (pb, ps) st, sz_add BLOCK_SZ (sz_doubles (ele_num pb)))"
proof -
  obtain qb qs where "mQ = (qb, qs)" by (cases mQ)
  with m obtain bp where b: "buf_block (sc_buffer c) 0 = Inr pb"
    "buf_get (sc_buffer c) BLOCK_SZ (sz_doubles (ele_num pb)) = Inr bp" "ps = bytes_doubles bp"
    "length bp = sz_doubles (ele_num pb)" "block_ok pb"
    using read_blocks_parts by metis
  show ?thesis
    using r b p copy_block[OF b(4,5) p(3)]
    by (simp add: ps_recv_P_def ps_copied_P_def ps_store_header_def Let_def)
qed

lemma ps_recv_Q_ok:
  assumes m: "read_blocks (sc_buffer c) = Inr ((pb, ps), (qb, qs))"
    and q: "block_id qb = int q" "q < CAP" "array_fits (ps_heap st) (eles (Qblocks st q)) qb"
  shows "ps_recv_Q (sz_add BLOCK_SZ (sz_doubles (ele_num pb))) st c =
     Inr (ps_copied_Q (qb, qs) st, c\<lparr>sc_buf_prepared := False\<rparr>)"
proof -
  from m obtain bq where b: "buf_block (sc_buffer c) (sz_add BLOCK_SZ (sz_doubles (ele_num pb))) = Inr qb"
    "buf_get (sc_buffer c) (sz_add (sz_add BLOCK_SZ (sz_doubles (ele_num pb))) BLOCK_SZ)
       (sz_doubles (ele_num qb)) = Inr bq"
    "qs = bytes_doubles bq" "length bq = sz_doubles (ele_num qb)" "block_ok qb"
    using read_blocks_parts by metis
  show ?thesis
    using b q copy_block[OF b(4,5) q(3)]
    by (simp add: ps_recv_Q_def ps_copied_Q_def ps_store_header_def Let_def)
qed

lemma ps_copy_ok:
  assumes r: "sc_buf_ptr c \<noteq> 0" and m: "read_blocks (sc_buffer c) = Inr ((pb, ps), (qb, qs))"
    and p: "block_id pb = int p" "p < CAP" "array_fits (ps_heap st) (eles (Pblocks st p)) pb"
    and q: "block_id qb = int q" "q < CAP" "array_fits (ps_heap st) (eles (Qblocks st q)) qb"
    and d: "eles (Pblocks st p) \<noteq> eles (Qblocks st q)"
  shows "ps_recv_copy st c = Inr (ps_copied ((pb, ps), (qb, qs)) st, c\<lparr>sc_buf_prepared := False\<rparr>)"
proof -
  have "array_fits (ps_heap (ps_copied_P (pb, ps) st)) (eles (Qblocks (ps_copied_P (pb, ps) st) q)) qb"
    using q(3) d p(1) by (auto simp: array_fits_def ps_copied_P_def Let_def)
  from ps_recv_Q_ok[OF m q(1,2) this] ps_recv_P_ok[OF r m p] show ?thesis
    by (simp add: ps_recv_copy_def ps_copied_halves)
qed

lemma ps_recv_ok:
  assumes r: "ps_recv_ready i st c" and m: "read_blocks (sc_buffer c) = Inr ((pb, ps), (qb, qs))"
    and p: "block_id pb = int p" "p < CAP" "array_fits (ps_heap st) (eles (Pblocks st p)) pb"
    and q: "block_id qb = int q" "q < CAP" "array_fits (ps_heap st) (eles (Qblocks st q)) qb"
    and d: "eles (Pblocks st p) \<noteq> eles (Qblocks st q)"
  shows "ps_rdma_recvTd i st c =
     Inr (ps_received i ((pb, ps), (qb, qs)) st, c\<lparr>sc_buf_prepared := False, can_recv := True\<rparr>)"
  using r ps_copy_ok[OF _ m p q d]
  by (simp add: ps_rdma_recvTd_def ps_recv_ready_def ps_received_copied ps_copied_recved)

lemma ps_recv_ready_iff:
  assumes "ps_rdma_recvTd i st c = Inr (st', c')"
  shows "(st' = st \<and> c' = c) \<or> ps_recv_ready i st c"
  using assms by (auto simp: ps_rdma_recvTd_def ps_recv_copy_unfold ps_recv_ready_def result_elims split: if_splits)

end
