(* ===== verification/Worker.thy ===== *)
theory Worker
  imports Partition Block_Wire SGD C_Strings Two_Sided_Client Two_Sided_Server
begin

text \<open>
  \<open>worker.cpp\<close> (built from the copy \<open>worker.cu\<close>): one worker process. Its globals, the start of
  \<open>main\<close>, the guards \<open>CanCompute\<close> and \<open>CanSend\<close>, and one pass of the loops of \<open>main\<close>,
  \<open>rdma_sendTd\<close> and \<open>rdma_recvTd\<close>. A pass that ends by sleeping leaves the state as it was.
\<close>

section \<open>Globals\<close>

record worker_state =
  Pblock :: Block
  Qblock :: Block
  wk_heap :: heap
  thread_id :: int
  wk_iter_t :: int
  recved_age :: int
  to_send_age :: int
  wk_completed_iter :: int
  wk_rnd_pos :: nat
  wk_local_ports :: "nat \<Rightarrow> int"
  wk_remote_ports :: "nat \<Rightarrow> int"

definition wk_globals :: "nat \<Rightarrow> worker_state" where
  "wk_globals mem_bytes =
     \<lparr>Pblock = zero_block, Qblock = zero_block, wk_heap = fresh_heap mem_bytes, thread_id = - 1,
      wk_iter_t = 0, recved_age = - 1, to_send_age = 0, wk_completed_iter = - 1, wk_rnd_pos = 0,
      wk_local_ports = (\<lambda>i. if i < 4 then 5511 + int i else 0),
      wk_remote_ports = (\<lambda>i. if i < 4 then 4411 + int i else 0)\<rparr>"

section \<open>Guards\<close>

definition CanCompute :: "int \<Rightarrow> int \<Rightarrow> bool" where
  "CanCompute coming_iter rcv_age = (if coming_iter \<le> rcv_age then True else False)"

definition wk_CanSend :: "int \<Rightarrow> int \<Rightarrow> bool" where
  "wk_CanSend to_send completed_age = (if to_send = completed_age then True else False)"

section \<open>\<open>main\<close>\<close>

definition wk_ports :: "worker_state \<Rightarrow> worker_state" where
  "wk_ports st =
     st\<lparr>wk_local_ports := (\<lambda>i. if i < CAP then 20000 + int i else wk_local_ports st i),
        wk_remote_ports := (\<lambda>i. if i < CAP then 10000 + int i else wk_remote_ports st i)\<rparr>"

definition wk_InitContext ::
    "(nat \<Rightarrow> client_context) \<times> (nat \<Rightarrow> conn_context) \<Rightarrow>
     (nat \<Rightarrow> client_context) \<times> (nat \<Rightarrow> conn_context)" where
  "wk_InitContext ctxs =
     ((\<lambda>i. if i < CAP then (fst ctxs i)\<lparr>cc_buf_registered := False, buf_write_counter := 0\<rparr>
           else fst ctxs i),
      (\<lambda>i. if i < CAP then (snd ctxs i)\<lparr>sc_buf_registered := False, buf_recv_counter := 0\<rparr>
           else snd ctxs i))"

text \<open>
  \<open>argv\<close> holds the arguments after the program name; without one, \<open>atoi\<close> reads the null pointer
  that ends \<open>argv\<close>. The second argument is parsed into a local that nothing reads.
\<close>

definition wk_main_setup :: "string list \<Rightarrow> worker_state \<Rightarrow> worker_state result" where
  "wk_main_setup argv st =
     (let st1 = wk_ports st in
      case argv of
        [] \<Rightarrow> Inl Null_deref
      | a # _ \<Rightarrow> Inr (st1\<lparr>thread_id := atoi a, wk_iter_t := 0\<rparr>))"

text \<open>
  The product \<open>row_len * col_len\<close> that \<open>main\<close> computes before each call of \<open>FakeSubMF\<close> and never
  reads; the product wraps.
\<close>

definition wk_sgd_size :: "worker_state \<Rightarrow> int" where
  "wk_sgd_size st = wrap32 (height (Pblock st) * height (Qblock st))"

text \<open>
  As at the server, a pass tests its guard, works, stores the word that tells the other threads, and
  finishes.
\<close>

definition wk_compute :: "fp \<Rightarrow> (nat \<Rightarrow> int) \<Rightarrow> worker_state \<Rightarrow> worker_state result" where
  "wk_compute F rnd st =
     (let unused = wk_sgd_size st in
      bindr (FakeSubMF F rnd (Pblock st) (Qblock st) (wk_rnd_pos st, wk_heap st)) (\<lambda>(pos, h).
      Inr (st\<lparr>wk_heap := h, wk_rnd_pos := pos\<rparr>)))"

definition wk_main_pass :: "fp \<Rightarrow> (nat \<Rightarrow> int) \<Rightarrow> worker_state \<Rightarrow> worker_state result" where
  "wk_main_pass F rnd st =
     (if CanCompute (wk_iter_t st) (recved_age st) = True then
        bindr (wk_compute F rnd st) (\<lambda>st1.
        Inr (st1\<lparr>wk_completed_iter := wk_iter_t st1, wk_iter_t := wk_iter_t st1 + 1\<rparr>))
      else Inr st)"

section \<open>The application threads\<close>

definition wk_send_fill ::
    "worker_state \<Rightarrow> client_context \<Rightarrow> client_context result" where
  "wk_send_fill st c_ctx =
     bindr (guardr (cc_buf_ptr c_ctx \<noteq> 0) Null_deref) (\<lambda>_.
     bindr (pack_blocks (wk_heap st) (Pblock st) (Qblock st) (cc_buffer c_ctx)) (\<lambda>(m, total_len).
     Inr (c_ctx\<lparr>cc_buffer := m, cc_buf_len := total_len\<rparr>)))"

text \<open>One pass of \<open>rdma_sendTd\<close>. Unlike the server's it does not wait for the buffer.\<close>

definition wk_rdma_sendTd ::
    "worker_state \<Rightarrow> client_context \<Rightarrow> (worker_state \<times> client_context) result" where
  "wk_rdma_sendTd st c_ctx =
     (if wk_CanSend (to_send_age st) (wk_completed_iter st) = True then
        bindr (wk_send_fill st c_ctx) (\<lambda>c1.
        Inr (st\<lparr>to_send_age := to_send_age st + 1\<rparr>, c1\<lparr>can_send := True\<rparr>))
      else Inr (st, c_ctx))"

text \<open>Copying a received header: the fields the worker copies, \<open>isP\<close> and the age not among them.\<close>

definition wk_store_header :: "Block \<Rightarrow> Block \<Rightarrow> Block" where
  "wk_store_header dst pb =
     dst\<lparr>block_id := block_id pb, sta_idx := sta_idx pb, height := height pb,
         ele_num := ele_num pb\<rparr>"

text \<open>Copying a message out of the buffer: every message allocates two new arrays.\<close>

definition wk_recv_copy :: "worker_state \<Rightarrow> conn_context \<Rightarrow> worker_state result" where
  "wk_recv_copy st s_ctx =
     (let buf = sc_buffer s_ctx in
      bindr (guardr (sc_buf_ptr s_ctx \<noteq> 0) Null_deref) (\<lambda>_.
      bindr (buf_block buf 0) (\<lambda>pb.
      let (p1, h1) = malloc_doubles (ele_num pb) (wk_heap st);
          P1 = (wk_store_header (Pblock st) pb)\<lparr>eles := p1\<rparr>;
          p_sz = sz_doubles (ele_num P1) in
      bindr (buf_get buf BLOCK_SZ p_sz) (\<lambda>ps.
      bindr (heap_write h1 p1 ps) (\<lambda>h2.
      let P2 = P1\<lparr>data_age := data_age pb\<rparr>; p_total = sz_add BLOCK_SZ p_sz in
      bindr (buf_block buf p_total) (\<lambda>qb.
      let (p3, h3) = malloc_doubles (ele_num qb) h2;
          Q1 = (wk_store_header (Qblock st) qb)\<lparr>eles := p3\<rparr>;
          q_sz = sz_doubles (ele_num Q1) in
      bindr (buf_get buf (sz_add p_total BLOCK_SZ) q_sz) (\<lambda>qs.
      bindr (heap_write h3 p3 qs) (\<lambda>h4.
      let Q2 = Q1\<lparr>data_age := data_age qb\<rparr> in
      Inr (st\<lparr>Pblock := P2, Qblock := Q2, wk_heap := h4\<rparr>)))))))))"

text \<open>One pass of \<open>rdma_recvTd\<close>.\<close>

definition wk_rdma_recvTd ::
    "worker_state \<Rightarrow> conn_context \<Rightarrow> (worker_state \<times> conn_context) result" where
  "wk_rdma_recvTd st s_ctx =
     (if sc_buf_registered s_ctx = False then Inr (st, s_ctx)
      else if recved_age st + 1 \<ge> buf_recv_counter s_ctx then Inr (st, s_ctx)
      else
        bindr (wk_recv_copy st s_ctx) (\<lambda>st1.
        Inr (st1\<lparr>recved_age := recved_age st1 + 1\<rparr>, s_ctx\<lparr>can_recv := True\<rparr>)))"

section \<open>The transport threads\<close>

definition wk_remote_ips :: "int \<Rightarrow> string option" where
  "wk_remote_ips i = (if 0 \<le> i \<and> i < 4 then Some ''12.12.11.13'' else None)"

text \<open>Host and port of \<open>rdma_sendTd_loop\<close>; the address is taken at the thread's own index.\<close>

definition wk_rdma_sendTd_loop_args :: "worker_state \<Rightarrow> int \<Rightarrow> (string option \<times> string) result" where
  "wk_rdma_sendTd_loop_args st i =
     bindr (index_in CAP i) (\<lambda>k. Inr (wk_remote_ips i, sprintf_d (wk_remote_ports st k)))"

definition wk_rdma_recvTd_loop_args :: "worker_state \<Rightarrow> int \<Rightarrow> string result" where
  "wk_rdma_recvTd_loop_args st i =
     bindr (index_in CAP i) (\<lambda>k. Inr (sprintf_d (wk_local_ports st k)))"

section \<open>What the passes do\<close>

text \<open>Sending: the pair is packed behind the guard; the header of P carries the worker's own copy.\<close>

lemma wk_send_ok:
  assumes "wk_CanSend (to_send_age st) (wk_completed_iter st)" and "cc_buf_ptr c \<noteq> 0"
    and "pack_blocks (wk_heap st) (Pblock st) (Qblock st) (cc_buffer c) = Inr (m, len)"
  shows "wk_rdma_sendTd st c =
     Inr (st\<lparr>to_send_age := to_send_age st + 1\<rparr>,
          c\<lparr>cc_buffer := m, cc_buf_len := len, can_send := True\<rparr>)"
  using assms by (simp add: wk_rdma_sendTd_def wk_send_fill_def)

text \<open>Receiving: both arrays are fresh copies of what the buffer holds.\<close>

definition wk_received ::
    "(Block \<times> double list) \<times> (Block \<times> double list) \<Rightarrow> worker_state \<Rightarrow> worker_state" where
  "wk_received msg st =
     (let ((pb, ps), (qb, qs)) = msg; h = wk_heap st in
      st\<lparr>Pblock := (wk_store_header (Pblock st) pb)\<lparr>eles := h_next h, data_age := data_age pb\<rparr>,
         Qblock := (wk_store_header (Qblock st) qb)\<lparr>eles := Suc (h_next h), data_age := data_age qb\<rparr>,
         wk_heap := heap_new (heap_new h ps) qs, recved_age := recved_age st + 1\<rparr>)"

definition wk_recv_ready :: "worker_state \<Rightarrow> conn_context \<Rightarrow> bool" where
  "wk_recv_ready st c \<longleftrightarrow>
     sc_buf_registered c \<and> recved_age st + 1 < buf_recv_counter c \<and> sc_buf_ptr c \<noteq> 0"

lemma wk_recv_ok:
  assumes r: "wk_recv_ready st c" and m: "read_blocks (sc_buffer c) = Inr ((pb, ps), (qb, qs))"
    and n: "0 \<le> ele_num pb" "0 \<le> ele_num qb"
    and a: "8 * nat (ele_num pb) + 8 * nat (ele_num qb) \<le> h_avail (wk_heap st)"
  shows "wk_rdma_recvTd st c =
     Inr (wk_received ((pb, ps), (qb, qs)) st, c\<lparr>can_recv := True\<rparr>)"
proof -
  obtain bp bq where b: "buf_block (sc_buffer c) 0 = Inr pb"
    "buf_get (sc_buffer c) BLOCK_SZ (sz_doubles (ele_num pb)) = Inr bp" "ps = bytes_doubles bp"
    "buf_block (sc_buffer c) (sz_add BLOCK_SZ (sz_doubles (ele_num pb))) = Inr qb"
    "buf_get (sc_buffer c) (sz_add (sz_add BLOCK_SZ (sz_doubles (ele_num pb))) BLOCK_SZ)
       (sz_doubles (ele_num qb)) = Inr bq"
    "qs = bytes_doubles bq" "length bp = sz_doubles (ele_num pb)" "length bq = sz_doubles (ele_num qb)"
    "block_ok pb" "block_ok qb"
    using read_blocks_parts[OF m] by blast
  have z: "sz_doubles (ele_num pb) = 8 * nat (ele_num pb)" "sz_doubles (ele_num qb) = 8 * nat (ele_num qb)"
    using b n by (simp_all add: sz_doubles_nonneg block_ok_ele)
  obtain h1 where h1: "malloc_doubles (ele_num pb) (wk_heap st) = (h_next (wk_heap st), h1)"
    "heap_write h1 (h_next (wk_heap st)) bp = Inr (heap_new (wk_heap st) ps)"
    using malloc_then_write[OF n(1) block_ok_ele[OF b(9)], of "wk_heap st" bp] a b z by auto
  have "8 * nat (ele_num qb) \<le> h_avail (heap_new (wk_heap st) ps)" using a b z by simp
  then obtain h3 where h3: "malloc_doubles (ele_num qb) (heap_new (wk_heap st) ps) =
      (Suc (h_next (wk_heap st)), h3)"
    "heap_write h3 (Suc (h_next (wk_heap st))) bq = Inr (heap_new (heap_new (wk_heap st) ps) qs)"
    using malloc_then_write[OF n(2) block_ok_ele[OF b(10)], of "heap_new (wk_heap st) ps" bq] b z
    by auto
  show ?thesis
    using r b h1 h3
    by (simp add: wk_rdma_recvTd_def wk_recv_copy_def wk_recv_ready_def wk_received_def wk_store_header_def Let_def)
qed

text \<open>
  Conversely, a pass over a message with non-empty arrays that returns had memory for both: with no
  memory left the first store goes through a null pointer.
\<close>

lemma wk_recv_no_memory:
  assumes r: "wk_recv_ready st c" and m: "read_blocks (sc_buffer c) = Inr ((pb, ps), (qb, qs))"
    and n: "0 < ele_num pb" "0 < ele_num qb" and h: "heap_ok (wk_heap st)"
    and a: "h_avail (wk_heap st) < 8 * nat (ele_num pb) + 8 * nat (ele_num qb)"
  shows "wk_rdma_recvTd st c = Inl Null_deref"
proof -
  obtain bp bq where b: "buf_block (sc_buffer c) 0 = Inr pb"
    "buf_get (sc_buffer c) BLOCK_SZ (sz_doubles (ele_num pb)) = Inr bp" "ps = bytes_doubles bp"
    "buf_block (sc_buffer c) (sz_add BLOCK_SZ (sz_doubles (ele_num pb))) = Inr qb"
    "buf_get (sc_buffer c) (sz_add (sz_add BLOCK_SZ (sz_doubles (ele_num pb))) BLOCK_SZ)
       (sz_doubles (ele_num qb)) = Inr bq"
    "qs = bytes_doubles bq" "length bp = sz_doubles (ele_num pb)" "length bq = sz_doubles (ele_num qb)"
    "block_ok pb" "block_ok qb"
    using read_blocks_parts[OF m] by blast
  have n0: "0 \<le> ele_num pb" "0 \<le> ele_num qb" using n by simp_all
  have z: "sz_doubles (ele_num pb) = 8 * nat (ele_num pb)" "sz_doubles (ele_num qb) = 8 * nat (ele_num qb)"
    using b n0 by (simp_all add: sz_doubles_nonneg block_ok_ele)
  have ne: "bp \<noteq> []" "bq \<noteq> []" using b z n by auto
  show ?thesis
  proof (cases "8 * nat (ele_num pb) \<le> h_avail (wk_heap st)")
    case False
    then have "malloc_doubles (ele_num pb) (wk_heap st) = (0, wk_heap st)"
      using malloc_fails[OF n0(1) block_ok_ele[OF b(9)]] by simp
    then show ?thesis
      using r b heap_write_null[OF h ne(1)]
      by (simp add: wk_rdma_recvTd_def wk_recv_copy_def wk_recv_ready_def wk_store_header_def Let_def)
  next
    case True
    then obtain h1 where h1: "malloc_doubles (ele_num pb) (wk_heap st) = (h_next (wk_heap st), h1)"
      "heap_write h1 (h_next (wk_heap st)) bp = Inr (heap_new (wk_heap st) ps)"
      using malloc_then_write[OF n0(1) block_ok_ele[OF b(9)], of "wk_heap st" bp] b z by auto
    have "8 * length ps = 8 * nat (ele_num pb)" using b(3,7) z(1) by simp
    then have "h_avail (heap_new (wk_heap st) ps) < 8 * nat (ele_num qb)"
      using a True unfolding heap_new_simps by linarith
    then have "malloc_doubles (ele_num qb) (heap_new (wk_heap st) ps) = (0, heap_new (wk_heap st) ps)"
      using malloc_fails[OF n0(2) block_ok_ele[OF b(10)]] by simp
    then show ?thesis
      using r b h1 heap_write_null[OF heap_ok_new[OF h] ne(2)]
      by (simp add: wk_rdma_recvTd_def wk_recv_copy_def wk_recv_ready_def wk_store_header_def Let_def)
  qed
qed

lemma wk_recv_returns:
  assumes "wk_rdma_recvTd st c = Inr (st', c')" and "wk_recv_ready st c"
    and "read_blocks (sc_buffer c) = Inr ((pb, ps), (qb, qs))"
    and "0 < ele_num pb" "0 < ele_num qb" "heap_ok (wk_heap st)"
  shows "st' = wk_received ((pb, ps), (qb, qs)) st \<and>
     8 * nat (ele_num pb) + 8 * nat (ele_num qb) \<le> h_avail (wk_heap st)"
proof (cases "8 * nat (ele_num pb) + 8 * nat (ele_num qb) \<le> h_avail (wk_heap st)")
  case True
  then show ?thesis using wk_recv_ok[OF assms(2,3) _ _ True] assms(1,4,5) by simp
next
  case False
  then show ?thesis using wk_recv_no_memory[OF assms(2-6)] assms(1) by simp
qed

lemma wk_recv_ready_iff:
  assumes "wk_rdma_recvTd st c = Inr (st', c')"
  shows "(st' = st \<and> c' = c) \<or> wk_recv_ready st c"
  using assms by (auto simp: wk_rdma_recvTd_def wk_recv_copy_def wk_recv_ready_def result_elims split: if_splits)

end
