(* ===== verification/Link.thy ===== *)
theory Link
  imports Two_Sided_Client Two_Sided_Server Block_Wire
begin

text \<open>
  One direction of communication: a two-sided client (the sender), a two-sided server (the
  receiver), their completion-queue threads with program counters at the points where the handlers
  wait or write shared flags, and the network between them. The network and the adapters are the
  parameter \<open>F\<close>: how calls are answered, which posted work is carried out next, and what it does to
  memory. \<open>rc_fabric\<close> states what the code relies on, the documented behaviour of a reliable
  connection: posted work is carried out once, in order. The step relation composes the handlers
  of \<open>Two_Sided_Client\<close> and \<open>Two_Sided_Server\<close>; the applications may change their flags and
  buffers at any time.
\<close>

section \<open>The network\<close>

record 'w fabric =
  f_verbs :: "'w verbs"
  f_next_write :: "'w \<Rightarrow> (send_wr \<times> 'w) option"
  f_next_send :: "'w \<Rightarrow> (send_wr \<times> 'w) option"
  f_land :: "send_wr \<Rightarrow> mem \<Rightarrow> ibv_mr \<Rightarrow> mem \<Rightarrow> mem"

text \<open>
  \<open>pw w\<close> and \<open>pm w\<close> are the writes and messages that are posted and not yet carried out. The last
  law is the effect of an RDMA write with one scatter element at the start of the region that the
  request names by address and key.
\<close>

definition rc_posts :: "'w fabric \<Rightarrow> ('w \<Rightarrow> send_wr list) \<Rightarrow> ('w \<Rightarrow> send_wr list) \<Rightarrow> bool" where
  "rc_posts F pw pm \<longleftrightarrow>
     (\<forall>c wr w r w'. f_verbs F (Post_send c wr) w = (r, w') \<and> r_code r = 0 \<longrightarrow>
        (swr_opcode wr = IBV_WR_RDMA_WRITE_WITH_IMM \<longrightarrow> pw w' = pw w @ [wr] \<and> pm w' = pm w) \<and>
        (swr_opcode wr = IBV_WR_SEND \<longrightarrow> pm w' = pm w @ [wr] \<and> pw w' = pw w)) \<and>
     (\<forall>c wr w r w'. f_verbs F (Post_recv c wr) w = (r, w') \<longrightarrow> pw w' = pw w \<and> pm w' = pm w)"

definition rc_delivers :: "'w fabric \<Rightarrow> ('w \<Rightarrow> send_wr list) \<Rightarrow> ('w \<Rightarrow> send_wr list) \<Rightarrow> bool" where
  "rc_delivers F pw pm \<longleftrightarrow>
     (\<forall>w x w'. f_next_write F w = Some (x, w') \<longrightarrow> pw w = x # pw w' \<and> pm w' = pm w) \<and>
     (\<forall>w x w'. f_next_send F w = Some (x, w') \<longrightarrow> pm w = x # pm w' \<and> pw w' = pw w)"

definition rc_lands :: "'w fabric \<Rightarrow> bool" where
  "rc_lands F \<longleftrightarrow>
     (\<forall>wr e src mr dst. swr_sges wr = [e] \<and> swr_remote_addr wr = word_of_nat (mr_addr mr) \<and>
        swr_rkey wr = mr_rkey mr \<and> unat (sge_length e) \<le> mr_length mr \<longrightarrow>
        f_land F wr src mr dst = put_bytes dst 0 (get_bytes src 0 (unat (sge_length e))))"

definition rc_fabric :: "'w fabric \<Rightarrow> ('w \<Rightarrow> send_wr list) \<Rightarrow> ('w \<Rightarrow> send_wr list) \<Rightarrow> bool" where
  "rc_fabric F pw pm \<longleftrightarrow> rc_posts F pw pm \<and> rc_delivers F pw pm \<and> rc_lands F"

section \<open>The link\<close>

datatype client_pc = CIdle | CSpin | CPosted | CCleared
datatype server_pc = SIdle | SSpin bool

record 'w link =
  lk_cl :: client_context
  lk_cpc :: client_pc
  lk_sv :: conn_context
  lk_spc :: server_pc
  lk_wcs :: "ibv_wc list"
  lk_net :: 'w
  lk_cid :: nat
  lk_sid :: nat

text \<open>The completion of a message at the client, and of a write with immediate at the server.\<close>

definition recv_wc :: "nat \<Rightarrow> ibv_wc" where
  "recv_wc c = \<lparr>wc_id = c, wc_status = 0, wc_opcode = IBV_WC_RECV, wc_imm = 0\<rparr>"

definition imm_wc :: "nat \<Rightarrow> send_wr \<Rightarrow> ibv_wc" where
  "imm_wc c wr = \<lparr>wc_id = c, wc_status = 0, wc_opcode = IBV_WC_RECV_RDMA_WITH_IMM,
     wc_imm = swr_imm wr\<rparr>"

inductive link_step :: "'w fabric \<Rightarrow> 'w link \<Rightarrow> 'w link \<Rightarrow> bool" for F where
  msg_arrives:
    "lk_cpc l = CIdle \<Longrightarrow> f_next_send F (lk_net l) = Some (wr, n1) \<Longrightarrow>
     client_on_completion_enter (f_verbs F) (recv_wc (lk_cid l))
       ((lk_cl l)\<lparr>cc_msg := sc_msg (lk_sv l)\<rparr>) n1 = Inr (nx, cl', n2) \<Longrightarrow>
     link_step F l (l\<lparr>lk_cl := cl', lk_cpc := (if nx = Spin then CSpin else CIdle),
                      lk_net := n2\<rparr>)"
| write_posted:
    "lk_cpc l = CSpin \<Longrightarrow> can_send (lk_cl l) \<Longrightarrow>
     client_on_completion_send (f_verbs F) (lk_cid l) (lk_cl l) (lk_net l) = Inr (cl', n') \<Longrightarrow>
     link_step F l (l\<lparr>lk_cl := cl', lk_cpc := CPosted, lk_net := n'\<rparr>)"
| flag_cleared:
    "lk_cpc l = CPosted \<Longrightarrow>
     link_step F l (l\<lparr>lk_cl := client_on_completion_clear (lk_cl l), lk_cpc := CCleared\<rparr>)"
| write_counted:
    "lk_cpc l = CCleared \<Longrightarrow>
     client_on_completion_finish (f_verbs F) (lk_cid l) (lk_cl l) (lk_net l) = Inr (cl', n') \<Longrightarrow>
     link_step F l (l\<lparr>lk_cl := cl', lk_cpc := CIdle, lk_net := n'\<rparr>)"
| write_lands:
    "f_next_write F (lk_net l) = Some (wr, n') \<Longrightarrow> sc_buffer_mr (lk_sv l) = Some mr \<Longrightarrow>
     link_step F l (l\<lparr>lk_sv := (lk_sv l)\<lparr>sc_buffer :=
                        f_land F wr (cc_buffer (lk_cl l)) mr (sc_buffer (lk_sv l))\<rparr>,
                      lk_wcs := lk_wcs l @ [imm_wc (lk_sid l) wr], lk_net := n'\<rparr>)"
| write_received:
    "lk_spc l = SIdle \<Longrightarrow> lk_wcs l = wc # wcs \<Longrightarrow> wc_status wc = 0 \<Longrightarrow>
     server_on_completion_enter (f_verbs F) wc (lk_sv l) (lk_net l) = Inr (nx, sv', n') \<Longrightarrow>
     link_step F l (l\<lparr>lk_sv := sv', lk_wcs := wcs, lk_net := n',
                      lk_spc := (case nx of None \<Rightarrow> SIdle | Some z \<Rightarrow> SSpin z)\<rparr>)"
| ready_sent:
    "lk_spc l = SSpin z \<Longrightarrow> can_recv (lk_sv l) \<Longrightarrow>
     server_on_completion_reply (f_verbs F) (lk_sid l) z (lk_sv l) (lk_net l) = Inr (sv', n') \<Longrightarrow>
     link_step F l (l\<lparr>lk_sv := sv', lk_spc := SIdle, lk_net := n'\<rparr>)"

text \<open>
  What the applications may do to the two contexts: fill the buffer and set the flags. Everything
  the transport relies on is left alone.
\<close>

definition app_cl :: "client_context \<Rightarrow> client_context \<Rightarrow> bool" where
  "app_cl c c' \<longleftrightarrow>
     c' = c\<lparr>cc_buffer := cc_buffer c', cc_buf_len := cc_buf_len c', can_send := can_send c',
            cc_buf_prepared := cc_buf_prepared c'\<rparr> \<and> (can_send c \<longrightarrow> can_send c')"

definition app_sv :: "conn_context \<Rightarrow> conn_context \<Rightarrow> bool" where
  "app_sv c c' \<longleftrightarrow>
     c' = c\<lparr>can_recv := can_recv c', sc_buf_prepared := sc_buf_prepared c'\<rparr>"

inductive link_run :: "'w fabric \<Rightarrow> 'w link \<Rightarrow> 'w link \<Rightarrow> bool" for F where
  transport: "link_step F l l' \<Longrightarrow> link_run F l l'"
| sender_app: "app_cl (lk_cl l) cl' \<Longrightarrow> link_run F l (l\<lparr>lk_cl := cl'\<rparr>)"
| receiver_app: "app_sv (lk_sv l) sv' \<Longrightarrow> link_run F l (l\<lparr>lk_sv := sv'\<rparr>)"

text \<open>
  The link right after the connection is established: both buffers are registered, the server has
  posted \<open>MSG_MR\<close> (\<open>server_on_connection\<close>), nothing else is under way.
\<close>

definition link_start ::
    "('w \<Rightarrow> send_wr list) \<Rightarrow> ('w \<Rightarrow> send_wr list) \<Rightarrow> 'w link \<Rightarrow> bool" where
  "link_start pw pm l \<longleftrightarrow>
     lk_cpc l = CIdle \<and> lk_spc l = SIdle \<and> lk_wcs l = [] \<and> pw (lk_net l) = [] \<and>
     length (pm (lk_net l)) = 1 \<and> can_send (lk_cl l) = False \<and>
     buf_write_counter (lk_cl l) = 0 \<and> buf_recv_counter (lk_sv l) = 0 \<and>
     (\<exists>m. sc_buffer_mr (lk_sv l) = Some m \<and> mr_length m = BUFFER_SIZE \<and>
        sc_msg (lk_sv l) = \<lparr>msg_id = MSG_MR, msg_addr = word_of_nat (mr_addr m),
                            msg_rkey = mr_rkey m\<rparr>) \<and>
     cc_buf_registered (lk_cl l) \<and> sc_buf_registered (lk_sv l)"

section \<open>Flow control\<close>

text \<open>
  The token of a link: a message under way, the sender allowed to post, a write under way, a
  completion not yet handled, or the receiver holding the buffer.
\<close>

definition link_token :: "('w \<Rightarrow> send_wr list) \<Rightarrow> ('w \<Rightarrow> send_wr list) \<Rightarrow> 'w link \<Rightarrow> nat" where
  "link_token pw pm l =
     length (pm (lk_net l)) + (if lk_cpc l = CSpin then 1 else 0) + length (pw (lk_net l)) +
     length (lk_wcs l) + (if lk_spc l = SIdle then 0 else 1)"

text \<open>How many writes were ever posted, and those plus the one the set flag announces.\<close>

definition link_posts :: "'w link \<Rightarrow> int" where
  "link_posts l =
     buf_write_counter (lk_cl l) + (if lk_cpc l = CPosted \<or> lk_cpc l = CCleared then 1 else 0)"

definition link_claims :: "'w link \<Rightarrow> int" where
  "link_claims l = link_posts l + (if can_send (lk_cl l) \<and> lk_cpc l \<noteq> CPosted then 1 else 0)"

definition link_inv :: "('w \<Rightarrow> send_wr list) \<Rightarrow> ('w \<Rightarrow> send_wr list) \<Rightarrow> 'w link \<Rightarrow> bool" where
  "link_inv pw pm l \<longleftrightarrow>
     link_token pw pm l = 1 \<and>
     link_posts l = buf_recv_counter (lk_sv l) + int (length (lk_wcs l)) + int (length (pw (lk_net l))) \<and>
     (msg_id (sc_msg (lk_sv l)) = MSG_MR \<or> msg_id (sc_msg (lk_sv l)) = MSG_READY) \<and>
     (\<forall>wc\<in>set (lk_wcs l). wc_opcode wc = IBV_WC_RECV_RDMA_WITH_IMM \<and> wc_status wc = 0)"

lemmas link_inv_defs = link_inv_def link_token_def link_posts_def

lemma link_inv_start: "link_start pw pm l \<Longrightarrow> link_inv pw pm l"
  by (auto simp: link_start_def link_inv_defs)

subsection \<open>What the handlers do to the network and the counters\<close>

lemma client_post_receive_net:
  assumes "rc_fabric F pw pm" and "client_post_receive (f_verbs F) c cl w = Inr w'"
  shows "pw w' = pw w \<and> pm w' = pm w"
proof -
  obtain wr r where "f_verbs F (Post_recv c wr) w = (r, w')"
    using assms(2) by (auto simp: client_post_receive_def result_elims call_elims split: option.splits)
  then show ?thesis using assms(1) by (auto simp: rc_fabric_def rc_posts_def)
qed

lemma server_post_receive_net:
  assumes "rc_fabric F pw pm" and "server_post_receive (f_verbs F) c w = Inr w'"
  shows "pw w' = pw w \<and> pm w' = pm w"
proof -
  obtain wr r where "f_verbs F (Post_recv c wr) w = (r, w')"
    using assms(2) by (auto simp: server_post_receive_def result_elims call_elims)
  then show ?thesis using assms(1) by (auto simp: rc_fabric_def rc_posts_def)
qed

lemma server_send_message_net:
  assumes "rc_fabric F pw pm" and "server_send_message (f_verbs F) c sv w = Inr w'"
  shows "pw w' = pw w \<and> length (pm w') = Suc (length (pm w))"
proof -
  obtain m r where "f_verbs F (Post_send c (message_request c sv m)) w = (r, w')" "r_code r = 0"
    using assms(2) by (auto simp: server_send_message_def result_elims call_elims split: option.splits)
  moreover have "swr_opcode (message_request c sv m) = IBV_WR_SEND"
    by (simp add: message_request_def)
  ultimately have "pm w' = pm w @ [message_request c sv m]" "pw w' = pw w"
    using assms(1) unfolding rc_fabric_def rc_posts_def by blast+
  then show ?thesis by simp
qed

lemma client_write_remote_net:
  assumes "rc_fabric F pw pm" and "client_write_remote (f_verbs F) c len cl w = Inr w'"
  shows "\<exists>mr. pw w' = pw w @ [write_request c len cl mr] \<and> pm w' = pm w \<and>
           (mr = None \<longleftrightarrow> len = 0)"
proof -
  obtain mr r where mr: "f_verbs F (Post_send c (write_request c len cl mr)) w = (r, w')"
    "r_code r = 0" "mr = None \<longleftrightarrow> len = 0"
    using assms(2)
    by (auto simp: client_write_remote_def result_elims call_elims split: if_splits option.splits)
  moreover have "swr_opcode (write_request c len cl mr) = IBV_WR_RDMA_WRITE_WITH_IMM"
    by (simp add: write_request_def)
  ultimately have "pw w' = pw w @ [write_request c len cl mr]" "pm w' = pm w"
    using assms(1) unfolding rc_fabric_def rc_posts_def by blast+
  then show ?thesis using mr(3) by blast
qed

lemma client_send_effect:
  assumes "rc_fabric F pw pm" and "client_on_completion_send (f_verbs F) c cl w = Inr (cl', w')"
  shows "cl' = cl\<lparr>cc_buf_prepared := False\<rparr> \<and> pm w' = pm w \<and>
     (\<exists>mr. pw w' = pw w @ [write_request c (word_of_nat (cc_buf_len cl)) cl mr] \<and>
           (mr = None \<longleftrightarrow> (word_of_nat (cc_buf_len cl) :: 32 word) = 0))"
  using assms client_write_remote_net[OF assms(1), of c "word_of_nat (cc_buf_len cl)" cl w]
  by (auto simp: client_on_completion_send_def client_send_next_chunk_def result_elims)

lemma client_finish_effect:
  assumes "rc_fabric F pw pm" and "client_on_completion_finish (f_verbs F) c cl w = Inr (cl', w')"
  shows "cl' = cl\<lparr>buf_write_counter := buf_write_counter cl + 1\<rparr> \<and> pw w' = pw w \<and> pm w' = pm w"
  using assms client_post_receive_net[OF assms(1)]
  by (auto simp: client_on_completion_finish_def result_elims Let_def)

lemma client_enter_effect:
  assumes "client_on_completion_enter V (recv_wc c) cl w = Inr (nx, cl', w')"
    and "msg_id (cc_msg cl) = MSG_MR \<or> msg_id (cc_msg cl) = MSG_READY"
  shows "nx = Spin \<and> w' = w \<and>
     cl' = (if msg_id (cc_msg cl) = MSG_MR
            then cl\<lparr>peer_addr := msg_addr (cc_msg cl), peer_rkey := msg_rkey (cc_msg cl)\<rparr> else cl)"
  using assms by (auto simp: client_on_completion_enter_def recv_wc_def msg_ids)

lemma server_enter_effect:
  assumes "rc_fabric F pw pm" and "server_on_completion_enter (f_verbs F) wc sv w = Inr (nx, sv', w')"
    and "wc_opcode wc = IBV_WC_RECV_RDMA_WITH_IMM"
  shows "nx = Some (ntohl (wc_imm wc) = 0) \<and> pw w' = pw w \<and> pm w' = pm w \<and>
     sv' = (if ntohl (wc_imm wc) = 0 then set_msg_id MSG_READY sv else sv)
             \<lparr>sc_buf_len := unat (ntohl (wc_imm wc)), buf_recv_counter := buf_recv_counter sv + 1\<rparr>"
  using assms server_post_receive_net[OF assms(1)]
  by (auto simp: server_on_completion_enter_def result_elims Let_def)

lemma server_reply_effect:
  assumes "rc_fabric F pw pm"
    and "server_on_completion_reply (f_verbs F) c z sv w = Inr (sv', w')"
  shows "pw w' = pw w \<and> length (pm w') = Suc (length (pm w)) \<and>
     sv' = (if z then sv else set_msg_id MSG_READY sv)"
  using assms server_send_message_net[OF assms(1)]
  by (auto simp: server_on_completion_reply_def result_elims Let_def)

lemma set_msg_id_simps [simp]:
  "buf_recv_counter (set_msg_id i sv) = buf_recv_counter sv"
  "msg_id (sc_msg (set_msg_id i sv)) = i"
  "sc_buffer (set_msg_id i sv) = sc_buffer sv"
  "sc_buffer_mr (set_msg_id i sv) = sc_buffer_mr sv"
  "msg_addr (sc_msg (set_msg_id i sv)) = msg_addr (sc_msg sv)"
  "msg_rkey (sc_msg (set_msg_id i sv)) = msg_rkey (sc_msg sv)"
  "can_recv (set_msg_id i sv) = can_recv sv"
  "sc_buf_registered (set_msg_id i sv) = sc_buf_registered sv"
  "sc_buf_ptr (set_msg_id i sv) = sc_buf_ptr sv"
  by (simp_all add: set_msg_id_def)

lemma rc_delivers_net:
  assumes "rc_fabric F pw pm"
  shows "f_next_write F w = Some (x, w') \<Longrightarrow> pw w = x # pw w' \<and> pm w' = pm w"
    and "f_next_send F w = Some (x, w') \<Longrightarrow> pm w = x # pm w' \<and> pw w' = pw w"
  using assms by (auto simp: rc_fabric_def rc_delivers_def)

subsection \<open>Preservation\<close>

lemma link_inv_step:
  assumes F: "rc_fabric F pw pm" and "link_step F l l'" and "link_inv pw pm l"
  shows "link_inv pw pm l'"
  using assms(2,3)
proof (cases rule: link_step.cases)
  case (msg_arrives wr n1 nx cl' n2)
  have "nx = Spin \<and> n2 = n1 \<and> buf_write_counter cl' = buf_write_counter (lk_cl l)"
    using client_enter_effect[OF msg_arrives(4)] assms(3) by (auto simp: link_inv_def)
  then show ?thesis
    using assms(3) msg_arrives rc_delivers_net(2)[OF F msg_arrives(3)]
    by (auto simp: link_inv_defs)
next
  case (write_posted cl' n')
  then show ?thesis
    using assms(3) client_send_effect[OF F write_posted(4)] by (auto simp: link_inv_defs)
next
  case flag_cleared
  then show ?thesis
    using assms(3) by (auto simp: link_inv_defs client_on_completion_clear_def)
next
  case (write_counted cl' n')
  then show ?thesis
    using assms(3) client_finish_effect[OF F write_counted(3)] by (auto simp: link_inv_defs)
next
  case (write_lands wr n' mr)
  then show ?thesis
    using assms(3) rc_delivers_net(1)[OF F write_lands(2)] by (auto simp: link_inv_defs imm_wc_def)
next
  case (write_received wc wcs nx sv' n')
  then have "wc_opcode wc = IBV_WC_RECV_RDMA_WITH_IMM" using assms(3) by (auto simp: link_inv_def)
  then show ?thesis
    using assms(3) write_received server_enter_effect[OF F write_received(5)]
    by (auto simp: link_inv_defs)
next
  case (ready_sent z sv' n')
  then show ?thesis
    using assms(3) server_reply_effect[OF F ready_sent(4)] by (auto simp: link_inv_defs)
qed

lemma link_claims_step:
  assumes F: "rc_fabric F pw pm" and "link_step F l l'" and "link_inv pw pm l"
  shows "link_claims l' = link_claims l"
  using assms(2)
proof (cases rule: link_step.cases)
  case (msg_arrives wr n1 nx cl' n2)
  then show ?thesis
    using client_enter_effect[OF msg_arrives(4)] assms(3)
    by (auto simp: link_inv_def link_claims_def link_posts_def)
next
  case (write_posted cl' n')
  then show ?thesis
    using client_send_effect[OF F write_posted(4)] by (auto simp: link_claims_def link_posts_def)
next
  case (write_counted cl' n')
  then show ?thesis
    using client_finish_effect[OF F write_counted(3)] by (auto simp: link_claims_def link_posts_def)
qed (auto simp: link_claims_def link_posts_def client_on_completion_clear_def)

lemma link_step_recv_mono:
  assumes "rc_fabric F pw pm" and "link_step F l l'" and "link_inv pw pm l"
  shows "buf_recv_counter (lk_sv l) \<le> buf_recv_counter (lk_sv l')"
  using assms(2)
proof (cases rule: link_step.cases)
  case (write_received wc wcs nx sv' n')
  then have "wc_opcode wc = IBV_WC_RECV_RDMA_WITH_IMM" using assms(3) by (auto simp: link_inv_def)
  then show ?thesis using write_received server_enter_effect[OF assms(1) write_received(5)] by auto
next
  case (ready_sent z sv' n')
  then show ?thesis using server_reply_effect[OF assms(1) ready_sent(4)] by auto
qed auto

lemma app_cl_simps:
  assumes "app_cl c c'"
  shows "buf_write_counter c' = buf_write_counter c" "cc_buf_registered c' = cc_buf_registered c"
    "peer_addr c' = peer_addr c" "peer_rkey c' = peer_rkey c" "cc_msg c' = cc_msg c"
    "cc_buffer_mr c' = cc_buffer_mr c" "cc_msg_mr c' = cc_msg_mr c" "cc_buf_ptr c' = cc_buf_ptr c"
    "cc_msg_ptr c' = cc_msg_ptr c"
proof -
  have e: "c' = c\<lparr>cc_buffer := cc_buffer c', cc_buf_len := cc_buf_len c', can_send := can_send c',
            cc_buf_prepared := cc_buf_prepared c'\<rparr>"
    using assms by (simp add: app_cl_def)
  show "buf_write_counter c' = buf_write_counter c" "cc_buf_registered c' = cc_buf_registered c"
    "peer_addr c' = peer_addr c" "peer_rkey c' = peer_rkey c" "cc_msg c' = cc_msg c"
    "cc_buffer_mr c' = cc_buffer_mr c" "cc_msg_mr c' = cc_msg_mr c" "cc_buf_ptr c' = cc_buf_ptr c"
    "cc_msg_ptr c' = cc_msg_ptr c"
    by (subst e, simp)+
qed

lemma app_sv_simps:
  assumes "app_sv c c'"
  shows "buf_recv_counter c' = buf_recv_counter c" "sc_buffer c' = sc_buffer c"
    "sc_msg c' = sc_msg c" "sc_buffer_mr c' = sc_buffer_mr c"
    "sc_buf_registered c' = sc_buf_registered c" "sc_buf_ptr c' = sc_buf_ptr c"
    "sc_msg_mr c' = sc_msg_mr c"
proof -
  have e: "c' = c\<lparr>can_recv := can_recv c', sc_buf_prepared := sc_buf_prepared c'\<rparr>"
    using assms by (simp add: app_sv_def)
  show "buf_recv_counter c' = buf_recv_counter c" "sc_buffer c' = sc_buffer c"
    "sc_msg c' = sc_msg c" "sc_buffer_mr c' = sc_buffer_mr c"
    "sc_buf_registered c' = sc_buf_registered c" "sc_buf_ptr c' = sc_buf_ptr c"
    "sc_msg_mr c' = sc_msg_mr c"
    by (subst e, simp)+
qed

lemma link_inv_app_cl: "link_inv pw pm l \<Longrightarrow> app_cl (lk_cl l) cl' \<Longrightarrow> link_inv pw pm (l\<lparr>lk_cl := cl'\<rparr>)"
  by (auto simp: link_inv_defs app_cl_simps)

lemma link_inv_app_sv: "link_inv pw pm l \<Longrightarrow> app_sv (lk_sv l) sv' \<Longrightarrow> link_inv pw pm (l\<lparr>lk_sv := sv'\<rparr>)"
  by (auto simp: link_inv_defs app_sv_simps)

lemma link_claims_app_cl:
  "app_cl (lk_cl l) cl' \<Longrightarrow> link_claims (l\<lparr>lk_cl := cl'\<rparr>) \<le> link_claims l + 1"
  by (auto simp: link_claims_def link_posts_def app_cl_simps)

lemma link_claims_app_sv: "link_claims (l\<lparr>lk_sv := sv'\<rparr>) = link_claims l"
  by (simp add: link_claims_def link_posts_def)

lemma link_posts_le_claims: "link_posts l \<le> link_claims l"
  by (simp add: link_claims_def)

lemma link_recv_le_posts: "link_inv pw pm l \<Longrightarrow> buf_recv_counter (lk_sv l) \<le> link_posts l"
  by (simp add: link_inv_def)

lemma link_run_inv:
  "rc_fabric F pw pm \<Longrightarrow> link_run F l l' \<Longrightarrow> link_inv pw pm l \<Longrightarrow> link_inv pw pm l'"
  by (auto elim!: link_run.cases intro: link_inv_step link_inv_app_cl link_inv_app_sv)

interpretation link: inv_system "link_start pw pm" "link_run F"
  "\<lambda>l. rc_fabric F pw pm \<longrightarrow> link_inv pw pm l"
  for pw pm :: "'w \<Rightarrow> send_wr list" and F :: "'w fabric"
  by unfold_locales (auto intro: link_inv_start link_run_inv)

end
