(* ===== verification/Cluster.thy ===== *)
theory Cluster
  imports Param_Server Worker Link
begin

text \<open>
  The running system: the parameter server, its workers, and for each worker a link down and a link
  up. A step is one pass of an application thread or one step of a transport thread or of the
  network, in any order. The invariant orders the counters of each lane in one chain, which forces
  the server and all workers into lockstep; mutual exclusion of the threads that share blocks and
  buffers follows from the chain.
\<close>

section \<open>The system\<close>

record 'w cluster =
  cl_ps :: ps_state
  cl_exit :: "int option"
  cl_wk :: "nat \<Rightarrow> worker_state"
  cl_down :: "nat \<Rightarrow> 'w link"
  cl_up :: "nat \<Rightarrow> 'w link"

definition lanes :: "'w cluster \<Rightarrow> nat" where
  "lanes s = nat (worker_num (cl_ps s))"

definition set_down :: "nat \<Rightarrow> 'w link \<Rightarrow> 'w cluster \<Rightarrow> 'w cluster" where
  "set_down i l s = s\<lparr>cl_down := (cl_down s)(i := l)\<rparr>"

definition set_up :: "nat \<Rightarrow> 'w link \<Rightarrow> 'w cluster \<Rightarrow> 'w cluster" where
  "set_up i l s = s\<lparr>cl_up := (cl_up s)(i := l)\<rparr>"

definition set_wk :: "nat \<Rightarrow> worker_state \<Rightarrow> 'w cluster \<Rightarrow> 'w cluster" where
  "set_wk i w s = s\<lparr>cl_wk := (cl_wk s)(i := w)\<rparr>"

lemmas set_defs = set_down_def set_up_def set_wk_def

text \<open>When the server's process has ended, its threads and its ends of the links stop.\<close>

inductive cluster_step ::
    "'w fabric \<Rightarrow> fp \<Rightarrow> (nat \<Rightarrow> nat \<Rightarrow> int) \<Rightarrow> 'w cluster \<Rightarrow> 'w cluster \<Rightarrow> bool" for F fpo rnd where
  ps_main:
    "cl_exit s = None \<Longrightarrow> ps_main_pass (cl_ps s) = Running st' \<Longrightarrow>
     cluster_step F fpo rnd s (s\<lparr>cl_ps := st'\<rparr>)"
| ps_exit:
    "cl_exit s = None \<Longrightarrow> ps_main_pass (cl_ps s) = Exited c st' \<Longrightarrow>
     cluster_step F fpo rnd s (s\<lparr>cl_ps := st', cl_exit := Some c\<rparr>)"
| ps_send:
    "cl_exit s = None \<Longrightarrow> i < lanes s \<Longrightarrow>
     ps_rdma_sendTd i (cl_ps s) (lk_cl (cl_down s i)) = Inr (st', c') \<Longrightarrow>
     cluster_step F fpo rnd s (set_down i ((cl_down s i)\<lparr>lk_cl := c'\<rparr>) (s\<lparr>cl_ps := st'\<rparr>))"
| ps_recv:
    "cl_exit s = None \<Longrightarrow> i < lanes s \<Longrightarrow>
     ps_rdma_recvTd i (cl_ps s) (lk_sv (cl_up s i)) = Inr (st', c') \<Longrightarrow>
     cluster_step F fpo rnd s (set_up i ((cl_up s i)\<lparr>lk_sv := c'\<rparr>) (s\<lparr>cl_ps := st'\<rparr>))"
| wk_main:
    "i < lanes s \<Longrightarrow> wk_main_pass fpo (rnd i) (cl_wk s i) = Inr w' \<Longrightarrow>
     cluster_step F fpo rnd s (set_wk i w' s)"
| wk_send:
    "i < lanes s \<Longrightarrow> wk_rdma_sendTd (cl_wk s i) (lk_cl (cl_up s i)) = Inr (w', c') \<Longrightarrow>
     cluster_step F fpo rnd s (set_up i ((cl_up s i)\<lparr>lk_cl := c'\<rparr>) (set_wk i w' s))"
| wk_recv:
    "i < lanes s \<Longrightarrow> wk_rdma_recvTd (cl_wk s i) (lk_sv (cl_down s i)) = Inr (w', c') \<Longrightarrow>
     cluster_step F fpo rnd s (set_down i ((cl_down s i)\<lparr>lk_sv := c'\<rparr>) (set_wk i w' s))"
| down_link:
    "cl_exit s = None \<Longrightarrow> i < lanes s \<Longrightarrow> link_step F (cl_down s i) l' \<Longrightarrow>
     cluster_step F fpo rnd s (set_down i l' s)"
| up_link:
    "cl_exit s = None \<Longrightarrow> i < lanes s \<Longrightarrow> link_step F (cl_up s i) l' \<Longrightarrow>
     cluster_step F fpo rnd s (set_up i l' s)"

text \<open>The counters after the setup of the programs, with every link just established.\<close>

definition ps_fresh :: "ps_state \<Rightarrow> bool" where
  "ps_fresh st \<longleftrightarrow> ps_iter_t st = 0 \<and> ps_completed_iter st = - 1 \<and>
     (\<forall>i<nat (worker_num st). recved_iter st i = - 1 \<and> to_send_iter st i = 0 \<and>
        worker_pidx st i = int i \<and> worker_qidx st i = int i)"

definition wk_fresh :: "worker_state \<Rightarrow> bool" where
  "wk_fresh w \<longleftrightarrow> wk_iter_t w = 0 \<and> recved_age w = - 1 \<and> to_send_age w = 0 \<and>
     wk_completed_iter w = - 1"

definition cluster_start ::
    "('w \<Rightarrow> send_wr list) \<Rightarrow> ('w \<Rightarrow> send_wr list) \<Rightarrow> 'w cluster \<Rightarrow> bool" where
  "cluster_start pw pm s \<longleftrightarrow>
     cl_exit s = None \<and> ps_fresh (cl_ps s) \<and>
     (\<forall>i<lanes s. wk_fresh (cl_wk s i) \<and> link_start pw pm (cl_down s i) \<and>
        link_start pw pm (cl_up s i))"

section \<open>What a pass does to the counters\<close>

lemma ps_send_effect:
  assumes "ps_rdma_sendTd i st c = Inr (st', c')"
  shows "(st' = st \<and> c' = c) \<or>
     (to_send_iter st i \<le> ps_completed_iter st \<and> app_cl c c' \<and> can_send c' \<and>
      to_send_iter st' = (to_send_iter st)(i := to_send_iter st i + 1) \<and>
      recved_iter st' = recved_iter st \<and> ps_iter_t st' = ps_iter_t st \<and>
      ps_completed_iter st' = ps_completed_iter st \<and> worker_num st' = worker_num st \<and>
      worker_pidx st' = worker_pidx st \<and> worker_qidx st' = worker_qidx st \<and>
      ps_heap st' = ps_heap st)"
  using assms
  by (auto simp: ps_rdma_sendTd_def ps_send_fill_def CanSend_def app_cl_def result_elims Let_def split: if_splits)

lemma ps_recv_effect:
  assumes "ps_rdma_recvTd i st c = Inr (st', c')"
  shows "(st' = st \<and> c' = c) \<or>
     (recved_iter st i + 2 \<le> buf_recv_counter c \<and> app_sv c c' \<and> can_recv c' \<and>
      recved_iter st' = (recved_iter st)(i := recved_iter st i + 1) \<and>
      to_send_iter st' = to_send_iter st \<and> ps_iter_t st' = ps_iter_t st \<and>
      ps_completed_iter st' = ps_completed_iter st \<and> worker_num st' = worker_num st \<and>
      worker_pidx st' = worker_pidx st \<and> worker_qidx st' = worker_qidx st)"
  using assms
  by (auto simp: ps_rdma_recvTd_def ps_recv_copy_unfold app_sv_def result_elims Let_def split: if_splits)

lemma wk_main_effect:
  assumes "wk_main_pass fpo r w = Inr w'"
  shows "w' = w \<or>
     (wk_iter_t w \<le> recved_age w \<and> wk_iter_t w' = wk_iter_t w + 1 \<and>
      wk_completed_iter w' = wk_iter_t w \<and> recved_age w' = recved_age w \<and>
      to_send_age w' = to_send_age w \<and> Pblock w' = Pblock w \<and> Qblock w' = Qblock w)"
  using assms by (auto simp: wk_main_pass_def wk_compute_def CanCompute_def result_elims Let_def split: if_splits)

lemma wk_send_effect:
  assumes "wk_rdma_sendTd w c = Inr (w', c')"
  shows "(w' = w \<and> c' = c) \<or>
     (to_send_age w = wk_completed_iter w \<and> app_cl c c' \<and> can_send c' \<and>
      w' = w\<lparr>to_send_age := to_send_age w + 1\<rparr>)"
  using assms
  by (auto simp: wk_rdma_sendTd_def wk_send_fill_def wk_CanSend_def app_cl_def result_elims split: if_splits)

lemma wk_recv_effect:
  assumes "wk_rdma_recvTd w c = Inr (w', c')"
  shows "(w' = w \<and> c' = c) \<or>
     (recved_age w + 2 \<le> buf_recv_counter c \<and> app_sv c c' \<and> can_recv c' \<and>
      recved_age w' = recved_age w + 1 \<and> wk_iter_t w' = wk_iter_t w \<and>
      wk_completed_iter w' = wk_completed_iter w \<and> to_send_age w' = to_send_age w)"
  using assms
  by (auto simp: wk_rdma_recvTd_def wk_recv_copy_def app_sv_def result_elims Let_def split_beta split: if_splits)

lemma ps_main_effect:
  "ps_main_pass st = Running st' \<Longrightarrow> st' = st \<or>
     ((\<forall>i<nat (worker_num st). ps_iter_t st \<le> recved_iter st i + 1) \<and> ps_iter_t st + 1 \<noteq> 1200 \<and>
      st' = st\<lparr>ps_completed_iter := ps_iter_t st, ps_iter_t := ps_iter_t st + 1\<rparr>)"
  "ps_main_pass st = Exited c st' \<Longrightarrow>
     (\<forall>i<nat (worker_num st). ps_iter_t st \<le> recved_iter st i + 1) \<and> ps_iter_t st + 1 = 1200 \<and>
     c = 0 \<and> st' = st\<lparr>ps_completed_iter := ps_iter_t st, ps_iter_t := ps_iter_t st + 1\<rparr>"
  by (auto simp: ps_main_pass_def CanMerge_iff Let_def split: if_splits)

section \<open>The invariant\<close>

text \<open>One lane: the iteration of the server, its counters for this worker, the links, the worker.\<close>

definition lane_inv ::
    "('w \<Rightarrow> send_wr list) \<Rightarrow> ('w \<Rightarrow> send_wr list) \<Rightarrow> int \<Rightarrow> int \<Rightarrow> int \<Rightarrow>
     'w link \<Rightarrow> worker_state \<Rightarrow> 'w link \<Rightarrow> bool" where
  "lane_inv pw pm it ri ts dn w up \<longleftrightarrow>
     it \<le> ri + 2 \<and> ts \<le> it \<and> link_claims dn \<le> ts \<and>
     recved_age w + 1 \<le> buf_recv_counter (lk_sv dn) \<and> wk_iter_t w \<le> recved_age w + 1 \<and>
     wk_completed_iter w = wk_iter_t w - 1 \<and> to_send_age w \<le> wk_iter_t w \<and>
     link_claims up \<le> to_send_age w \<and> ri + 1 \<le> buf_recv_counter (lk_sv up) \<and>
     link_inv pw pm dn \<and> link_inv pw pm up"

definition cluster_inv ::
    "('w \<Rightarrow> send_wr list) \<Rightarrow> ('w \<Rightarrow> send_wr list) \<Rightarrow> 'w cluster \<Rightarrow> bool" where
  "cluster_inv pw pm s \<longleftrightarrow>
     ps_completed_iter (cl_ps s) = ps_iter_t (cl_ps s) - 1 \<and> 0 \<le> ps_iter_t (cl_ps s) \<and>
     ps_iter_t (cl_ps s) \<le> 1200 \<and>
     (cl_exit s = None \<longrightarrow> ps_iter_t (cl_ps s) < 1200) \<and>
     (cl_exit s \<noteq> None \<longrightarrow> ps_iter_t (cl_ps s) = 1200 \<and> cl_exit s = Some 0) \<and>
     (\<forall>i<lanes s. lane_inv pw pm (ps_iter_t (cl_ps s)) (recved_iter (cl_ps s) i)
        (to_send_iter (cl_ps s) i) (cl_down s i) (cl_wk s i) (cl_up s i))"

lemma link_start_claims: "link_start pw pm l \<Longrightarrow> link_claims l = 0"
  by (simp add: link_start_def link_claims_def link_posts_def)

lemma link_start_counter: "link_start pw pm l \<Longrightarrow> buf_recv_counter (lk_sv l) = 0"
  by (simp add: link_start_def)

lemma cluster_inv_start: "cluster_start pw pm s \<Longrightarrow> cluster_inv pw pm s"
  by (auto simp: cluster_start_def cluster_inv_def lane_inv_def ps_fresh_def wk_fresh_def lanes_def
      link_start_claims link_start_counter link_inv_start)

lemma lane_ps_send:
  assumes "lane_inv pw pm it ri ts dn w up" and "ts < it" and "app_cl (lk_cl dn) c'"
  shows "lane_inv pw pm it ri (ts + 1) (dn\<lparr>lk_cl := c'\<rparr>) w up"
  using assms link_claims_app_cl[OF assms(3)] link_inv_app_cl[OF _ assms(3)]
  by (auto simp: lane_inv_def)

lemma lane_ps_recv:
  assumes "lane_inv pw pm it ri ts dn w up" and "ri + 2 \<le> buf_recv_counter (lk_sv up)"
    and "app_sv (lk_sv up) c'"
  shows "lane_inv pw pm it (ri + 1) ts dn w (up\<lparr>lk_sv := c'\<rparr>)"
  using assms link_claims_app_sv[of c' up] link_inv_app_sv[OF _ assms(3)] app_sv_simps(1)[OF assms(3)]
  by (auto simp: lane_inv_def)

lemma lane_wk_send:
  assumes "lane_inv pw pm it ri ts dn w up" and "to_send_age w = wk_completed_iter w"
    and "app_cl (lk_cl up) c'"
  shows "lane_inv pw pm it ri ts dn (w\<lparr>to_send_age := to_send_age w + 1\<rparr>) (up\<lparr>lk_cl := c'\<rparr>)"
  using assms link_claims_app_cl[OF assms(3)] link_inv_app_cl[OF _ assms(3)]
  by (auto simp: lane_inv_def)

lemma lane_wk_recv:
  assumes "lane_inv pw pm it ri ts dn w up" and "recved_age w + 2 \<le> buf_recv_counter (lk_sv dn)"
    and "app_sv (lk_sv dn) c'" and "recved_age w' = recved_age w + 1"
    and "wk_iter_t w' = wk_iter_t w" "wk_completed_iter w' = wk_completed_iter w"
    "to_send_age w' = to_send_age w"
  shows "lane_inv pw pm it ri ts (dn\<lparr>lk_sv := c'\<rparr>) w' up"
  using assms link_claims_app_sv[of c' dn] link_inv_app_sv[OF _ assms(3)] app_sv_simps(1)[OF assms(3)]
  by (auto simp: lane_inv_def)

lemma lane_wk_main:
  assumes "lane_inv pw pm it ri ts dn w up" and "wk_main_pass fpo r w = Inr w'"
  shows "lane_inv pw pm it ri ts dn w' up"
  using assms(1) wk_main_effect[OF assms(2)] by (auto simp: lane_inv_def)

lemma lane_links:
  assumes F: "rc_fabric F pw pm" and I: "lane_inv pw pm it ri ts dn w up"
  shows "link_step F dn l' \<Longrightarrow> lane_inv pw pm it ri ts l' w up"
    and "link_step F up l' \<Longrightarrow> lane_inv pw pm it ri ts dn w l'"
  using I link_inv_step[OF F] link_claims_step[OF F] link_step_recv_mono[OF F]
  by (fastforce simp: lane_inv_def)+

lemma lane_main:
  assumes "lane_inv pw pm it ri ts dn w up" and "it \<le> ri + 1"
  shows "lane_inv pw pm (it + 1) ri ts dn w up"
  using assms by (auto simp: lane_inv_def)

lemma cluster_step_lanes: "cluster_step F fpo rnd s t \<Longrightarrow> lanes t = lanes s"
  by (auto elim!: cluster_step.cases dest!: ps_send_effect ps_recv_effect ps_main_effect
      simp: lanes_def set_defs)

lemma cluster_inv_lane:
  "cluster_inv pw pm s \<Longrightarrow> i < lanes s \<Longrightarrow>
   lane_inv pw pm (ps_iter_t (cl_ps s)) (recved_iter (cl_ps s) i) (to_send_iter (cl_ps s) i)
     (cl_down s i) (cl_wk s i) (cl_up s i)"
  by (simp add: cluster_inv_def)

lemma cluster_inv_next:
  "cluster_inv pw pm s \<Longrightarrow> i < lanes s \<Longrightarrow> ps_iter_t (cl_ps s) \<le> recved_iter (cl_ps s) i + 1 \<Longrightarrow>
   lane_inv pw pm (ps_iter_t (cl_ps s) + 1) (recved_iter (cl_ps s) i) (to_send_iter (cl_ps s) i)
     (cl_down s i) (cl_wk s i) (cl_up s i)"
  by (intro lane_main cluster_inv_lane)

lemma cluster_inv_update:
  assumes "cluster_inv pw pm s" and "lanes t = lanes s" and "cl_exit t = cl_exit s"
    and "ps_iter_t (cl_ps t) = ps_iter_t (cl_ps s)"
    and "ps_completed_iter (cl_ps t) = ps_completed_iter (cl_ps s)"
    and "\<And>j. j < lanes s \<Longrightarrow> j \<noteq> i \<Longrightarrow> recved_iter (cl_ps t) j = recved_iter (cl_ps s) j \<and>
       to_send_iter (cl_ps t) j = to_send_iter (cl_ps s) j \<and> cl_down t j = cl_down s j \<and>
       cl_wk t j = cl_wk s j \<and> cl_up t j = cl_up s j"
    and "i < lanes s \<Longrightarrow> lane_inv pw pm (ps_iter_t (cl_ps s)) (recved_iter (cl_ps t) i)
       (to_send_iter (cl_ps t) i) (cl_down t i) (cl_wk t i) (cl_up t i)"
  shows "cluster_inv pw pm t"
proof -
  have "lane_inv pw pm (ps_iter_t (cl_ps s)) (recved_iter (cl_ps t) j)
       (to_send_iter (cl_ps t) j) (cl_down t j) (cl_wk t j) (cl_up t j)" if "j < lanes s" for j
    using assms(6)[OF that] assms(7) cluster_inv_lane[OF assms(1) that] that by (cases "j = i") auto
  then show ?thesis using assms(1-5) by (simp add: cluster_inv_def)
qed

lemma cluster_inv_step:
  assumes F: "rc_fabric F pw pm" and st: "cluster_step F fpo rnd s t" and I: "cluster_inv pw pm s"
  shows "cluster_inv pw pm t"
  using st
proof (cases rule: cluster_step.cases)
  case (ps_main st')
  then show ?thesis
    using I ps_main_effect(1)[OF ps_main(3)] cluster_inv_next[OF I]
    by (auto simp: cluster_inv_def lanes_def)
next
  case (ps_exit c st')
  then show ?thesis
    using I ps_main_effect(2)[OF ps_exit(3)] cluster_inv_next[OF I]
    by (auto simp: cluster_inv_def lanes_def)
next
  case (ps_send i st' c')
  have c: "ps_completed_iter (cl_ps s) = ps_iter_t (cl_ps s) - 1" using I by (simp add: cluster_inv_def)
  show ?thesis
    using ps_send ps_send_effect[OF ps_send(4)] c cluster_inv_lane[OF I ps_send(3)]
    by (intro cluster_inv_update[OF I, of _ i]) (auto simp: lanes_def set_defs intro: lane_ps_send)
next
  case (ps_recv i st' c')
  then show ?thesis
    using ps_recv_effect[OF ps_recv(4)] cluster_inv_lane[OF I ps_recv(3)]
    by (intro cluster_inv_update[OF I, of _ i]) (auto simp: lanes_def set_defs intro: lane_ps_recv)
next
  case (wk_main i w')
  then show ?thesis
    using cluster_inv_lane[OF I wk_main(2)]
    by (intro cluster_inv_update[OF I, of _ i]) (auto simp: lanes_def set_defs intro: lane_wk_main)
next
  case (wk_send i w' c')
  then show ?thesis
    using wk_send_effect[OF wk_send(3)] cluster_inv_lane[OF I wk_send(2)]
    by (intro cluster_inv_update[OF I, of _ i]) (auto simp: lanes_def set_defs intro: lane_wk_send)
next
  case (wk_recv i w' c')
  then show ?thesis
    using wk_recv_effect[OF wk_recv(3)] cluster_inv_lane[OF I wk_recv(2)]
    by (intro cluster_inv_update[OF I, of _ i]) (auto simp: lanes_def set_defs intro: lane_wk_recv)
next
  case (down_link i l')
  then show ?thesis
    using lane_links(1)[OF F cluster_inv_lane[OF I down_link(3)]]
    by (intro cluster_inv_update[OF I, of _ i]) (auto simp: lanes_def set_defs)
next
  case (up_link i l')
  then show ?thesis
    using lane_links(2)[OF F cluster_inv_lane[OF I up_link(3)]]
    by (intro cluster_inv_update[OF I, of _ i]) (auto simp: lanes_def set_defs)
qed

interpretation cluster: inv_system "cluster_start pw pm" "cluster_step F fpo rnd"
  "\<lambda>s. rc_fabric F pw pm \<longrightarrow> cluster_inv pw pm s"
  for pw pm :: "'w \<Rightarrow> send_wr list" and F :: "'w fabric" and fpo rnd
  by unfold_locales (auto intro: cluster_inv_start cluster_inv_step)

section \<open>Consequences of the chain\<close>

lemma lane_chain:
  assumes "lane_inv pw pm it ri ts dn w up"
  shows "ri + 1 \<le> buf_recv_counter (lk_sv up)"
    and "buf_recv_counter (lk_sv up) + int (length (lk_wcs up)) + int (length (pw (lk_net up))) =
         link_posts up"
    and "link_posts up \<le> link_claims up" and "link_claims up \<le> to_send_age w"
    and "to_send_age w \<le> wk_iter_t w" and "wk_iter_t w \<le> recved_age w + 1"
    and "wk_completed_iter w = wk_iter_t w - 1"
    and "recved_age w + 1 \<le> buf_recv_counter (lk_sv dn)"
    and "buf_recv_counter (lk_sv dn) + int (length (lk_wcs dn)) + int (length (pw (lk_net dn))) =
         link_posts dn"
    and "link_posts dn \<le> link_claims dn" and "link_claims dn \<le> ts" and "ts \<le> it" and "it \<le> ri + 2"
  using assms link_posts_le_claims[of up] link_posts_le_claims[of dn]
  by (auto simp: lane_inv_def link_inv_def)

text \<open>A link whose every claimed write was received has nothing under way.\<close>

lemma link_settled:
  assumes "link_inv pw pm l" and "link_claims l \<le> buf_recv_counter (lk_sv l)"
  shows "pw (lk_net l) = [] \<and> lk_wcs l = [] \<and> (can_send (lk_cl l) \<longrightarrow> lk_cpc l = CPosted)"
proof -
  have le: "link_posts l \<le> link_claims l" by (rule link_posts_le_claims)
  have e: "link_posts l = buf_recv_counter (lk_sv l) + int (length (lk_wcs l)) + int (length (pw (lk_net l)))"
    using assms(1) by (simp add: link_inv_def)
  then have "int (length (lk_wcs l)) + int (length (pw (lk_net l))) \<le> 0" using le assms(2) by linarith
  then have "lk_wcs l = [] \<and> pw (lk_net l) = []" by (simp only: no_lengths)
  moreover have "link_claims l = link_posts l" using le e assms(2) by linarith
  ultimately show ?thesis by (auto simp: link_claims_def split: if_splits)
qed

lemma reach_lane:
  assumes "rc_fabric F pw pm" and "cluster_start pw pm s0"
    and "(cluster_step F fpo rnd)\<^sup>*\<^sup>* s0 s" and "i < lanes s"
  shows "lane_inv pw pm (ps_iter_t (cl_ps s)) (recved_iter (cl_ps s) i) (to_send_iter (cl_ps s) i)
     (cl_down s i) (cl_wk s i) (cl_up s i)"
    and "ps_completed_iter (cl_ps s) = ps_iter_t (cl_ps s) - 1"
proof -
  have "cluster_inv pw pm s" using cluster.inv_reach[OF assms(2,3)] assms(1) by blast
  then show "lane_inv pw pm (ps_iter_t (cl_ps s)) (recved_iter (cl_ps s) i) (to_send_iter (cl_ps s) i)
     (cl_down s i) (cl_wk s i) (cl_up s i)"
    and "ps_completed_iter (cl_ps s) = ps_iter_t (cl_ps s) - 1"
    using assms(4) by (auto simp: cluster_inv_def)
qed

text \<open>A chain of eight counters whose ends differ by at most one has at most one gap.\<close>

lemma one_gap:
  fixes a b c d e f g h :: int
  assumes "a \<le> b" "b \<le> c" "c \<le> d" "d \<le> e" "e \<le> f" "f \<le> g" "g \<le> h" "h \<le> a + 1"
    and M: "\<not> M \<or> h \<le> a"
  shows "length (filter (\<lambda>b. b) [M, g < h, a < b, e < f, d < e, c < d]) \<le> 1"
proof -
  have "M \<Longrightarrow> \<not> g < h \<and> \<not> a < b \<and> \<not> e < f \<and> \<not> d < e \<and> \<not> c < d" using assms by linarith
  moreover have "g < h \<Longrightarrow> \<not> a < b \<and> \<not> e < f \<and> \<not> d < e \<and> \<not> c < d" using assms by linarith
  moreover have "a < b \<Longrightarrow> \<not> e < f \<and> \<not> d < e \<and> \<not> c < d" using assms by linarith
  moreover have "e < f \<Longrightarrow> \<not> d < e \<and> \<not> c < d" using assms by linarith
  moreover have "d < e \<Longrightarrow> \<not> c < d" using assms by linarith
  ultimately show ?thesis by simp
qed

text \<open>When the server has left its loop.\<close>

lemma reach_exit:
  assumes "rc_fabric F pw pm" and "cluster_start pw pm s0"
    and "(cluster_step F fpo rnd)\<^sup>*\<^sup>* s0 s"
  shows "cl_exit s = None \<and> 0 \<le> ps_iter_t (cl_ps s) \<and> ps_iter_t (cl_ps s) < 1200 \<or>
     cl_exit s = Some 0 \<and> ps_iter_t (cl_ps s) = 1200"
  using cluster.inv_reach[OF assms(2,3)] assms(1) by (auto simp: cluster_inv_def)

lemma reach_inv:
  assumes "rc_fabric F pw pm" and "cluster_start pw pm s0"
    and "(cluster_step F fpo rnd)\<^sup>*\<^sup>* s0 s"
  shows "cluster_inv pw pm s"
  using cluster.inv_reach[OF assms(2,3)] assms(1) by blast

end
