(* ===== verification/Link_Data.thy ===== *)
theory Link_Data
  imports Link
begin

text \<open>
  What the buffers of a link hold. \<open>X k m len\<close> says that \<open>m\<close> with length \<open>len\<close> is the \<open>k\<close>-th message
  of the sending application; \<open>f\<close> counts the messages it has filled in so far. The invariant
  \<open>link_data\<close> ties the sender's buffer to message \<open>f\<close>, the receiver's buffer to the last message that
  landed, and every posted write to the region the server announced. It is kept by every step of the
  transport as long as the sender does not refill while a write is under way.
\<close>

section \<open>The invariant\<close>

definition link_landed :: "'w link \<Rightarrow> int" where
  "link_landed l = buf_recv_counter (lk_sv l) + int (length (lk_wcs l))"

definition agrees :: "mem \<Rightarrow> mem \<Rightarrow> nat \<Rightarrow> bool" where
  "agrees m m' len \<longleftrightarrow> get_bytes m 0 len = get_bytes m' 0 len"

text \<open>The region of the server, as its own context and its message describe it.\<close>

definition link_region :: "ibv_mr \<Rightarrow> 'w link \<Rightarrow> bool" where
  "link_region mr l \<longleftrightarrow>
     sc_buffer_mr (lk_sv l) = Some mr \<and> mr_length mr = BUFFER_SIZE \<and>
     msg_addr (sc_msg (lk_sv l)) = word_of_nat (mr_addr mr) \<and>
     msg_rkey (sc_msg (lk_sv l)) = mr_rkey mr \<and>
     (msg_id (sc_msg (lk_sv l)) = MSG_MR \<or> 0 < buf_recv_counter (lk_sv l)) \<and>
     (lk_spc l = SIdle \<or> 0 < buf_recv_counter (lk_sv l))"

definition peer_known :: "ibv_mr \<Rightarrow> 'w link \<Rightarrow> bool" where
  "peer_known mr l \<longleftrightarrow>
     peer_addr (lk_cl l) = word_of_nat (mr_addr mr) \<and> peer_rkey (lk_cl l) = mr_rkey mr"

text \<open>A posted write moves the first \<open>len\<close> bytes into the region.\<close>

definition write_for :: "ibv_mr \<Rightarrow> nat \<Rightarrow> send_wr \<Rightarrow> bool" where
  "write_for mr len wr \<longleftrightarrow>
     (\<exists>e. swr_sges wr = [e] \<and> unat (sge_length e) = len) \<and>
     swr_remote_addr wr = word_of_nat (mr_addr mr) \<and> swr_rkey wr = mr_rkey mr \<and>
     unat (ntohl (swr_imm wr)) = len"

definition link_data ::
    "('w \<Rightarrow> send_wr list) \<Rightarrow> (int \<Rightarrow> mem \<Rightarrow> nat \<Rightarrow> bool) \<Rightarrow> ibv_mr \<Rightarrow> int \<Rightarrow> 'w link \<Rightarrow> bool" where
  "link_data pw X mr f l \<longleftrightarrow>
     link_region mr l \<and>
     ((lk_cpc l = CSpin \<or> 0 < link_posts l) \<longrightarrow> peer_known mr l) \<and>
     (\<forall>wr\<in>set (pw (lk_net l)). write_for mr (cc_buf_len (lk_cl l)) wr) \<and>
     (0 < f \<longrightarrow> X f (cc_buffer (lk_cl l)) (cc_buf_len (lk_cl l))) \<and>
     (0 < link_landed l \<longrightarrow>
        (\<exists>m len. X (link_landed l) m len \<and> agrees (sc_buffer (lk_sv l)) m len)) \<and>
     0 \<le> buf_recv_counter (lk_sv l)"

definition message_sizes :: "(int \<Rightarrow> mem \<Rightarrow> nat \<Rightarrow> bool) \<Rightarrow> bool" where
  "message_sizes X \<longleftrightarrow> (\<forall>k m len. X k m len \<longrightarrow> 0 < len \<and> len \<le> BUFFER_SIZE)"

section \<open>Start and application steps\<close>

lemma link_start_data:
  "link_start pw pm l \<Longrightarrow> \<exists>mr. link_data pw X mr 0 l"
  by (auto simp: link_start_def link_data_def link_region_def link_landed_def link_posts_def)

lemma link_data_fill:
  assumes "link_data pw X mr f l" and "app_cl (lk_cl l) cl'" and "pw (lk_net l) = []"
    and "X (f + 1) (cc_buffer cl') (cc_buf_len cl')"
  shows "link_data pw X mr (f + 1) (l\<lparr>lk_cl := cl'\<rparr>)"
  using assms
  by (auto simp: link_data_def link_region_def peer_known_def link_landed_def link_posts_def app_cl_simps)

lemma link_data_app_sv:
  assumes "link_data pw X mr f l" and "app_sv (lk_sv l) sv'"
  shows "link_data pw X mr f (l\<lparr>lk_sv := sv'\<rparr>)"
  using assms
  by (auto simp: link_data_def link_region_def peer_known_def link_landed_def link_posts_def app_sv_simps)

section \<open>Transport steps\<close>

lemma unat_small_len:
  assumes "len \<le> BUFFER_SIZE"
  shows "unat (word_of_nat len :: 32 word) = len"
  using assms by (simp add: BUFFER_SIZE_def unsigned_of_nat take_bit_nat_eq_self)

lemma write_request_for:
  assumes "peer_known mr l" and "0 < len" "len \<le> BUFFER_SIZE"
    and "x = None \<longleftrightarrow> (word_of_nat len :: 32 word) = 0"
  shows "write_for mr len (write_request c (word_of_nat len) (lk_cl l) x)"
proof -
  have "(word_of_nat len :: 32 word) \<noteq> 0"
    using unat_small_len[OF assms(3)] assms(2) by (metis less_irrefl unsigned_0)
  then obtain m where "x = Some m" using assms(4) by auto
  then show ?thesis
    using assms(1) unat_small_len[OF assms(3)]
    by (auto simp: write_for_def write_request_def peer_known_def)
qed

lemma lands_agrees:
  assumes F: "rc_fabric F pw pm" and w: "write_for mr len wr" and "len \<le> mr_length mr"
  shows "agrees (f_land F wr src mr dst) src len"
proof -
  obtain e where e: "swr_sges wr = [e]" "unat (sge_length e) = len"
    "swr_remote_addr wr = word_of_nat (mr_addr mr)" "swr_rkey wr = mr_rkey mr"
    using w by (auto simp: write_for_def)
  then have "f_land F wr src mr dst = put_bytes dst 0 (get_bytes src 0 len)"
    using F assms(3) by (auto simp: rc_fabric_def rc_lands_def)
  then show ?thesis by (simp add: agrees_def get_put_same)
qed

lemma link_data_step:
  assumes F: "rc_fabric F pw pm" and st: "link_step F l l'" and I: "link_inv pw pm l"
    and D: "link_data pw X mr f l" and sz: "message_sizes X"
    and c: "link_claims l \<le> f" and one: "pw (lk_net l) \<noteq> [] \<Longrightarrow> link_posts l = f"
  shows "link_data pw X mr f l'"
  using st
proof (cases rule: link_step.cases)
  case (msg_arrives wr n1 nx cl' n2)
  let ?c = "(lk_cl l)\<lparr>cc_msg := sc_msg (lk_sv l)\<rparr>"
  have e: "nx = Spin" "n2 = n1" "cl' = (if msg_id (sc_msg (lk_sv l)) = MSG_MR
       then ?c\<lparr>peer_addr := msg_addr (sc_msg (lk_sv l)), peer_rkey := msg_rkey (sc_msg (lk_sv l))\<rparr> else ?c)"
    using client_enter_effect[OF msg_arrives(4)] I by (auto simp: link_inv_def)
  have "msg_id (sc_msg (lk_sv l)) = MSG_MR \<or> 0 < link_posts l"
    using D link_recv_le_posts[OF I] by (auto simp: link_data_def link_region_def)
  then show ?thesis
    using D msg_arrives rc_delivers_net(2)[OF F msg_arrives(3)] e
    by (auto simp: link_data_def link_region_def peer_known_def link_landed_def link_posts_def)
next
  case (write_posted cl' n')
  obtain x where e: "cl' = (lk_cl l)\<lparr>cc_buf_prepared := False\<rparr>"
    "pw n' = pw (lk_net l) @ [write_request (lk_cid l) (word_of_nat (cc_buf_len (lk_cl l))) (lk_cl l) x]"
    "x = None \<longleftrightarrow> (word_of_nat (cc_buf_len (lk_cl l)) :: 32 word) = 0"
    using client_send_effect[OF F write_posted(4)] by auto
  have "0 \<le> link_posts l" using D link_recv_le_posts[OF I] by (auto simp: link_data_def)
  then have "0 < f" using c write_posted by (auto simp: link_claims_def)
  then have "0 < cc_buf_len (lk_cl l)" "cc_buf_len (lk_cl l) \<le> BUFFER_SIZE" and p: "peer_known mr l"
    using D sz write_posted by (auto simp: link_data_def message_sizes_def)
  then have w: "write_for mr (cc_buf_len (lk_cl l))
      (write_request (lk_cid l) (word_of_nat (cc_buf_len (lk_cl l))) (lk_cl l) x)"
    using e(3) by (intro write_request_for)
  show ?thesis
    using D write_posted e(1,2) w p
    by (auto simp: link_data_def link_region_def peer_known_def link_landed_def)
next
  case flag_cleared
  then show ?thesis
    using D by (auto simp: link_data_def link_region_def peer_known_def link_landed_def
        link_posts_def client_on_completion_clear_def)
next
  case (write_counted cl' n')
  then show ?thesis
    using D client_finish_effect[OF F write_counted(3)]
    by (auto simp: link_data_def link_region_def peer_known_def link_landed_def link_posts_def)
next
  case (write_lands wr n' mr')
  have q: "pw (lk_net l) = wr # pw n'" using rc_delivers_net(1)[OF F write_lands(2)] by simp
  then have f: "link_posts l = f" using one by simp
  have "length (pw (lk_net l)) \<le> 1" using I by (auto simp: link_inv_def link_token_def)
  then have n: "pw n' = []" "lk_wcs l = []" "pw (lk_net l) = [wr]"
    using q I by (auto simp: link_inv_def link_token_def)
  have mr: "mr' = mr" "mr_length mr = BUFFER_SIZE" using D write_lands
    by (auto simp: link_data_def link_region_def)
  have l: "f = buf_recv_counter (lk_sv l) + 1" using I n f by (auto simp: link_inv_def)
  then have "0 < f" using D by (auto simp: link_data_def)
  then have X: "X f (cc_buffer (lk_cl l)) (cc_buf_len (lk_cl l))" using D by (simp add: link_data_def)
  then have "cc_buf_len (lk_cl l) \<le> mr_length mr" using sz mr by (auto simp: message_sizes_def)
  moreover have "write_for mr (cc_buf_len (lk_cl l)) wr" using D q by (auto simp: link_data_def)
  ultimately have "agrees (f_land F wr (cc_buffer (lk_cl l)) mr (sc_buffer (lk_sv l)))
      (cc_buffer (lk_cl l)) (cc_buf_len (lk_cl l))"
    using lands_agrees[OF F] by blast
  moreover have "link_posts l' = link_posts l" "link_landed l' = f"
    using write_lands(1) n l by (simp_all add: link_posts_def link_landed_def)
  ultimately show ?thesis
    using D X write_lands(1) n mr
    by (auto simp: link_data_def link_region_def peer_known_def)
next
  case (write_received wc wcs nx sv' n')
  then have "wc_opcode wc = IBV_WC_RECV_RDMA_WITH_IMM" using I by (auto simp: link_inv_def)
  from server_enter_effect[OF F write_received(5) this]
  have e: "pw n' = pw (lk_net l)" "sc_buffer sv' = sc_buffer (lk_sv l)"
    "sc_buffer_mr sv' = sc_buffer_mr (lk_sv l)"
    "buf_recv_counter sv' = buf_recv_counter (lk_sv l) + 1"
    "msg_addr (sc_msg sv') = msg_addr (sc_msg (lk_sv l))"
    "msg_rkey (sc_msg sv') = msg_rkey (sc_msg (lk_sv l))" by auto
  have "link_landed l' = link_landed l" "link_posts l' = link_posts l"
    using write_received e by (simp_all add: link_landed_def link_posts_def)
  then show ?thesis
    using D write_received e by (auto simp: link_data_def link_region_def peer_known_def)
next
  case (ready_sent z sv' n')
  from server_reply_effect[OF F ready_sent(4)]
  have e: "pw n' = pw (lk_net l)" "sc_buffer sv' = sc_buffer (lk_sv l)"
    "sc_buffer_mr sv' = sc_buffer_mr (lk_sv l)"
    "buf_recv_counter sv' = buf_recv_counter (lk_sv l)"
    "msg_addr (sc_msg sv') = msg_addr (sc_msg (lk_sv l))"
    "msg_rkey (sc_msg sv') = msg_rkey (sc_msg (lk_sv l))"
    "msg_id (sc_msg sv') = msg_id (sc_msg (lk_sv l)) \<or> \<not> z" by auto
  have "link_landed l' = link_landed l" "link_posts l' = link_posts l"
    using ready_sent e by (simp_all add: link_landed_def link_posts_def)
  then show ?thesis
    using D ready_sent e by (auto simp: link_data_def link_region_def peer_known_def)
qed

end
