(* ===== verification/Dataflow.thy ===== *)
theory Dataflow
  imports Cluster Link_Data
begin

text \<open>
  What the running system computes. For each lane the reference is sequential: \<open>k\<close> runs of
  \<open>FakeSubMF\<close>, one after the other, on the lane's initial pair of arrays, with the worker's random
  numbers. The invariant says where the lane's data is and which round it has reached: on the
  server's heap, in the buffers of the two links, on the worker's heap. It rests on the lockstep of
  \<open>Cluster\<close>, which lets no buffer be refilled while a write is under way, and on the buffer invariant
  of \<open>Link_Data\<close>.
\<close>

section \<open>The reference\<close>

text \<open>The constants of a lane: its number, the heights and first rows of its blocks, where the
  server keeps the arrays, their initial contents, and the worker's random numbers.\<close>

record lane_spec =
  ls_id :: nat
  ls_hp :: int
  ls_hq :: int
  ls_sp :: int
  ls_sq :: int
  ls_p :: nat
  ls_q :: nat
  ls_init :: "double list \<times> double list"
  ls_rnd :: "nat \<Rightarrow> int"

primrec lane_ref :: "fp \<Rightarrow> lane_spec \<Rightarrow> nat \<Rightarrow> double list \<times> double list" where
  "lane_ref F L 0 = ls_init L"
| "lane_ref F L (Suc k) =
     sgd_run F (ls_rnd L) (ls_hp L) (ls_hq L) 90000 (180000 * k) (lane_ref F L k)"

definition spec_ok :: "lane_spec \<Rightarrow> bool" where
  "spec_ok L \<longleftrightarrow>
     ls_id L < CAP \<and> 0 < ls_hp L \<and> 0 < ls_hq L \<and> in_int32 (ls_hp L * K_dim) \<and>
     in_int32 (ls_hq L * K_dim) \<and> in_int32 (ls_sp L) \<and> in_int32 (ls_sq L) \<and>
     ls_p L < 2 ^ 64 \<and> ls_q L < 2 ^ 64 \<and>
     int (length (fst (ls_init L))) = ls_hp L * K_dim \<and>
     int (length (snd (ls_init L))) = ls_hq L * K_dim \<and> (\<forall>i. 0 \<le> ls_rnd L i)"

text \<open>No two blocks of the server share an array.\<close>

definition specs_ok :: "(nat \<Rightarrow> lane_spec) \<Rightarrow> nat \<Rightarrow> bool" where
  "specs_ok Ls n \<longleftrightarrow>
     (\<forall>i<n. spec_ok (Ls i) \<and> ls_id (Ls i) = i) \<and>
     (\<forall>i<n. \<forall>j<n. ls_p (Ls i) \<noteq> ls_q (Ls j) \<and>
        (i \<noteq> j \<longrightarrow> ls_p (Ls i) \<noteq> ls_p (Ls j) \<and> ls_q (Ls i) \<noteq> ls_q (Ls j)))"

lemma length_lane_ref:
  assumes "spec_ok L"
  shows "int (length (fst (lane_ref F L k))) = ls_hp L * K_dim"
    and "int (length (snd (lane_ref F L k))) = ls_hq L * K_dim"
  using assms by (induction k) (simp_all add: spec_ok_def)

section \<open>Where the data is\<close>

definition hdr :: "lane_spec \<Rightarrow> int \<Rightarrow> int \<Rightarrow> Block \<Rightarrow> bool" where
  "hdr L h s b \<longleftrightarrow> block_id b = int (ls_id L) \<and> height b = h \<and> ele_num b = h * K_dim \<and>
     sta_idx b = s \<and> in_int32 (data_age b)"

definition ps_holds :: "fp \<Rightarrow> lane_spec \<Rightarrow> ps_state \<Rightarrow> nat \<Rightarrow> bool" where
  "ps_holds F L st k \<longleftrightarrow>
     (let P = Pblocks st (ls_id L); Q = Qblocks st (ls_id L) in
      hdr L (ls_hp L) (ls_sp L) P \<and> hdr L (ls_hq L) (ls_sq L) Q \<and>
      eles P = ls_p L \<and> eles Q = ls_q L \<and>
      h_arr (ps_heap st) (ls_p L) = Some (fst (lane_ref F L k)) \<and>
      h_arr (ps_heap st) (ls_q L) = Some (snd (lane_ref F L k)))"

definition wk_holds :: "fp \<Rightarrow> lane_spec \<Rightarrow> worker_state \<Rightarrow> nat \<Rightarrow> bool" where
  "wk_holds F L w k \<longleftrightarrow>
     hdr L (ls_hp L) (ls_sp L) (Pblock w) \<and> hdr L (ls_hq L) (ls_sq L) (Qblock w) \<and>
     holds_arrs (wk_heap w) (eles (Pblock w)) (eles (Qblock w)) (lane_ref F L k)"

text \<open>A buffer into which the pair of round \<open>k\<close> was packed, with length \<open>len\<close>.\<close>

definition packed :: "fp \<Rightarrow> lane_spec \<Rightarrow> nat \<Rightarrow> mem \<Rightarrow> nat \<Rightarrow> bool" where
  "packed F L k m len \<longleftrightarrow>
     (\<exists>h P Q m0. pair_ok h P Q \<and> pack_blocks h P Q m0 = Inr (m, len) \<and>
        hdr L (ls_hp L) (ls_sp L) P \<and> hdr L (ls_hq L) (ls_sq L) Q \<and>
        (block_vals h P, block_vals h Q) = lane_ref F L k)"

definition worker_memory :: "worker_state \<Rightarrow> bool" where
  "worker_memory w \<longleftrightarrow>
     heap_ok (wk_heap w) \<and> h_next (wk_heap w) = Suc (2 * nat (recved_age w + 1)) \<and>
     - 1 \<le> recved_age w \<and> 0 \<le> wk_iter_t w \<and> 0 \<le> to_send_age w \<and>
     wk_rnd_pos w = 180000 * nat (wk_iter_t w)"

definition lane_data ::
    "('w \<Rightarrow> send_wr list) \<Rightarrow> fp \<Rightarrow> lane_spec \<Rightarrow> ibv_mr \<Rightarrow> ibv_mr \<Rightarrow> int \<Rightarrow> int \<Rightarrow> ps_state \<Rightarrow>
     'w link \<Rightarrow> worker_state \<Rightarrow> 'w link \<Rightarrow> bool" where
  "lane_data pw F L mrd mru ri ts ps dn w up \<longleftrightarrow>
     - 1 \<le> ri \<and> 0 \<le> ts \<and> ps_holds F L ps (nat (ri + 1)) \<and>
     link_data pw (\<lambda>k. packed F L (nat (k - 1))) mrd ts dn \<and>
     link_data pw (\<lambda>k. packed F L (nat k)) mru (to_send_age w) up \<and>
     worker_memory w \<and> (0 \<le> recved_age w \<longrightarrow> wk_holds F L w (nat (wk_iter_t w)))"

lemma packed_sizes: "message_sizes (\<lambda>k. packed F L (g k))"
proof -
  have "0 < len \<and> len \<le> BUFFER_SIZE" if "packed F L k m len" for k m len
    using that pack_blocks_len by (fastforce simp: packed_def pair_total_def BLOCK_SZ_def)
  then show ?thesis by (simp add: message_sizes_def)
qed

text \<open>What a receiver reads whose buffer agrees with a packed one.\<close>

lemma packed_read:
  assumes "packed F L k m len" and "agrees m2 m len"
  shows "\<exists>P Q. read_blocks m2 = Inr ((P, fst (lane_ref F L k)), (Q, snd (lane_ref F L k))) \<and>
     hdr L (ls_hp L) (ls_sp L) P \<and> hdr L (ls_hq L) (ls_sq L) Q"
proof -
  obtain h P Q m0 where a: "pair_ok h P Q" "pack_blocks h P Q m0 = Inr (m, len)"
    "hdr L (ls_hp L) (ls_sp L) P" "hdr L (ls_hq L) (ls_sq L) Q"
    "(block_vals h P, block_vals h Q) = lane_ref F L k"
    using assms(1) by (auto simp: packed_def)
  then have "read_blocks m2 = Inr (pair_view (h, P, Q))"
    using block_port.put_get[of "(h, P, Q)" m0 m len m2] assms(2)
    by (simp add: pair_ok'_def put_pair_def agrees_def)
  then show ?thesis using a(3,4) by (simp add: pair_view_def flip: a(5))
qed

lemma hdr_ok:
  assumes "spec_ok L" and "hdr L h s b" and "(h = ls_hp L \<and> s = ls_sp L) \<or> (h = ls_hq L \<and> s = ls_sq L)"
    and "eles b < 2 ^ 64"
  shows "block_ok b"
proof -
  have "0 < h" "in_int32 (h * K_dim)" "in_int32 s" using assms by (auto simp: spec_ok_def)
  moreover from this have "in_int32 h" by (auto simp: int32_defs K_dim_def)
  moreover have "in_int32 (int (ls_id L))" using assms(1) by (auto simp: spec_ok_def int32_defs CAP_def)
  ultimately show ?thesis using assms by (auto simp: block_ok_def block_ints_ok_def hdr_def)
qed

text \<open>Packing from a heap that holds the pair of round \<open>k\<close>.\<close>

lemma packed_intro:
  assumes ok: "spec_ok L" and pk: "pack_blocks h P Q m0 = Inr (m, len)"
    and P: "hdr L (ls_hp L) (ls_sp L) P" "eles P < 2 ^ 64" "h_arr h (eles P) = Some (fst (lane_ref F L k))"
    and Q: "hdr L (ls_hq L) (ls_sq L) Q" "eles Q < 2 ^ 64" "h_arr h (eles Q) = Some (snd (lane_ref F L k))"
  shows "packed F L k m len"
proof -
  have "pair_ok h P Q"
    using P Q hdr_ok[OF ok P(1)] hdr_ok[OF ok Q(1)] length_lane_ref[OF ok, of F k]
    by (auto simp: pair_ok_def block_sized_def hdr_def)
  moreover have "(block_vals h P, block_vals h Q) = lane_ref F L k"
    using P Q by (simp add: block_vals_def)
  ultimately show ?thesis using pk P(1) Q(1) unfolding packed_def by blast
qed

section \<open>Consequences of lockstep for one lane\<close>

lemma lane_tight:
  assumes "lane_inv pw pm it ri ts dn w up"
  shows "pw (lk_net dn) \<noteq> [] \<Longrightarrow> link_posts dn = ts"
    and "pw (lk_net up) \<noteq> [] \<Longrightarrow> link_posts up = to_send_age w"
    and "ts < it \<Longrightarrow> pw (lk_net dn) = [] \<and> ts = ri + 1"
    and "to_send_age w < wk_iter_t w \<Longrightarrow> pw (lk_net up) = [] \<and> wk_iter_t w = to_send_age w + 1"
    and "recved_age w + 2 \<le> buf_recv_counter (lk_sv dn) \<Longrightarrow>
      link_landed dn = recved_age w + 2 \<and> wk_iter_t w = recved_age w + 1"
    and "ri + 2 \<le> buf_recv_counter (lk_sv up) \<Longrightarrow> link_landed up = ri + 2"
proof -
  note c = lane_chain[OF assms]
  have len: "1 \<le> int (length xs)" if "xs \<noteq> []" for xs :: "send_wr list"
    using that by (cases xs) auto
  show "pw (lk_net dn) \<noteq> [] \<Longrightarrow> link_posts dn = ts" using c len[of "pw (lk_net dn)"] by linarith
  show "pw (lk_net up) \<noteq> [] \<Longrightarrow> link_posts up = to_send_age w"
    using c len[of "pw (lk_net up)"] by linarith
  have nil: "int (length xs) \<le> 0 \<Longrightarrow> xs = []" for xs :: "send_wr list" by simp
  show "ts < it \<Longrightarrow> pw (lk_net dn) = [] \<and> ts = ri + 1"
    using c by (intro conjI nil) linarith+
  show "to_send_age w < wk_iter_t w \<Longrightarrow> pw (lk_net up) = [] \<and> wk_iter_t w = to_send_age w + 1"
    using c by (intro conjI nil) linarith+
  show "recved_age w + 2 \<le> buf_recv_counter (lk_sv dn) \<Longrightarrow>
      link_landed dn = recved_age w + 2 \<and> wk_iter_t w = recved_age w + 1"
    using c by (auto simp: link_landed_def)
  show "ri + 2 \<le> buf_recv_counter (lk_sv up) \<Longrightarrow> link_landed up = ri + 2"
    using c by (auto simp: link_landed_def)
qed

section \<open>The steps of a lane\<close>

lemma ps_send_detail:
  assumes "ps_rdma_sendTd i st c = Inr (st', c')"
  shows "(st' = st \<and> c' = c) \<or>
     (to_send_iter st i \<le> ps_completed_iter st \<and>
      (\<exists>p q m len. worker_pidx st i = int p \<and> worker_qidx st i = int q \<and>
         pack_blocks (ps_heap st) (Pblocks (ps_stamp i st) p) (Qblocks (ps_stamp i st) q)
           (cc_buffer c) = Inr (m, len) \<and>
         st' = (ps_stamp i st)\<lparr>to_send_iter := (to_send_iter st)(i := to_send_iter st i + 1)\<rparr> \<and>
         c' = c\<lparr>cc_buffer := m, cc_buf_len := len, cc_buf_prepared := True, can_send := True\<rparr>))"
  using assms
  by (auto simp: ps_rdma_sendTd_def ps_send_fill_def CanSend_def result_elims Let_def index_in_eq_Inr ps_stamp_def
      split: if_splits)

lemma ps_holds_stamp:
  assumes "ps_holds F L st k" and "worker_pidx st i = int i" "worker_qidx st i = int i"
    and "in_int32 (to_send_iter st i)"
  shows "ps_holds F L (ps_stamp i st) k"
  using assms by (auto simp: ps_holds_def ps_stamp_def hdr_def Let_def)

lemma ps_holds_cong:
  "ps_holds F L st k \<Longrightarrow> Pblocks st' = Pblocks st \<Longrightarrow> Qblocks st' = Qblocks st \<Longrightarrow>
   ps_heap st' = ps_heap st \<Longrightarrow> ps_holds F L st' k"
  by (simp add: ps_holds_def)

lemma data_ps_send:
  assumes ok: "spec_ok L" and L: "ls_id L = i"
    and idx: "worker_pidx ps i = int i" "worker_qidx ps i = int i"
    and I: "lane_inv pw pm it ri (to_send_iter ps i) dn w up"
    and D: "lane_data pw F L mrd mru ri (to_send_iter ps i) ps dn w up"
    and it: "ps_completed_iter ps = it - 1" "it \<le> 1200"
    and s: "ps_rdma_sendTd i ps (lk_cl dn) = Inr (ps', c')"
  shows "lane_data pw F L mrd mru ri (to_send_iter ps' i) ps' (dn\<lparr>lk_cl := c'\<rparr>) w up"
proof (cases "ps' = ps \<and> c' = lk_cl dn")
  case True
  then show ?thesis using D by simp
next
  case False
  let ?ts = "to_send_iter ps i"
  obtain m len where g: "?ts \<le> it - 1" and
    pk: "pack_blocks (ps_heap ps) (Pblocks (ps_stamp i ps) i) (Qblocks (ps_stamp i ps) i)
           (cc_buffer (lk_cl dn)) = Inr (m, len)" and
    ps': "ps' = (ps_stamp i ps)\<lparr>to_send_iter := (to_send_iter ps)(i := ?ts + 1)\<rparr>" and
    c': "c' = (lk_cl dn)\<lparr>cc_buffer := m, cc_buf_len := len, cc_buf_prepared := True, can_send := True\<rparr>"
    using ps_send_detail[OF s] False idx it by auto
  have t: "pw (lk_net dn) = []" "?ts = ri + 1" using lane_tight(3)[OF I] g by auto
  have "0 \<le> ?ts" using D by (simp add: lane_data_def)
  then have "in_int32 ?ts" using g it by (simp add: int32_defs)
  then have h: "ps_holds F L (ps_stamp i ps) (nat ?ts)"
    using D idx t(2) by (intro ps_holds_stamp) (simp_all add: lane_data_def)
  then have "packed F L (nat ?ts) m len"
    using pk ok L by (intro packed_intro[OF ok pk]) (auto simp: ps_holds_def ps_stamp_def Let_def spec_ok_def)
  moreover have "app_cl (lk_cl dn) c'" by (simp add: c' app_cl_def)
  ultimately have "link_data pw (\<lambda>k. packed F L (nat (k - 1))) mrd (?ts + 1) (dn\<lparr>lk_cl := c'\<rparr>)"
    using D t(1) by (intro link_data_fill) (auto simp: lane_data_def c')
  moreover have "to_send_iter ps' i = ?ts + 1" by (simp add: ps')
  moreover have "ps_holds F L ps' (nat (ri + 1))"
    using h unfolding t(2) by (auto simp: ps' intro: ps_holds_cong)
  ultimately show ?thesis
    using D by (simp add: lane_data_def)
qed

text \<open>A server that may receive finds the pair of the next round in its buffer, and stores it.\<close>

lemma ps_recv_value:
  assumes ok: "spec_ok L" and L: "ls_id L = i" "ls_p L \<noteq> ls_q L"
    and I: "lane_inv pw pm it (recved_iter ps i) ts dn w up"
    and D: "lane_data pw F L mrd mru (recved_iter ps i) ts ps dn w up"
    and rdy: "ps_recv_ready i ps (lk_sv up)"
  shows "\<exists>P Q. hdr L (ls_hp L) (ls_sp L) P \<and> hdr L (ls_hq L) (ls_sq L) Q \<and>
     ps_rdma_recvTd i ps (lk_sv up) =
       Inr (ps_received i ((P, fst (lane_ref F L (nat (recved_iter ps i + 2)))),
              (Q, snd (lane_ref F L (nat (recved_iter ps i + 2))))) ps,
            (lk_sv up)\<lparr>sc_buf_prepared := False, can_recv := True\<rparr>)"
proof -
  let ?ri = "recved_iter ps i"
  have ld: "link_landed up = ?ri + 2" using lane_tight(6)[OF I] rdy by (simp add: ps_recv_ready_def)
  have "- 1 \<le> ?ri" using D by (simp add: lane_data_def)
  then obtain m len where "packed F L (nat (?ri + 2)) m len" "agrees (sc_buffer (lk_sv up)) m len"
    using D ld by (auto simp: lane_data_def link_data_def)
  from packed_read[OF this] obtain P Q where
    rd: "read_blocks (sc_buffer (lk_sv up)) =
      Inr ((P, fst (lane_ref F L (nat (?ri + 2)))), (Q, snd (lane_ref F L (nat (?ri + 2)))))" and
    hd: "hdr L (ls_hp L) (ls_sp L) P" "hdr L (ls_hq L) (ls_sq L) Q" by blast
  have h: "ps_holds F L ps (nat (?ri + 1))" using D by (simp add: lane_data_def)
  have "ps_rdma_recvTd i ps (lk_sv up) =
     Inr (ps_received i ((P, fst (lane_ref F L (nat (?ri + 2)))), (Q, snd (lane_ref F L (nat (?ri + 2))))) ps,
          (lk_sv up)\<lparr>sc_buf_prepared := False, can_recv := True\<rparr>)"
    using rdy rd
  proof (rule ps_recv_ok)
    show "block_id P = int i" "block_id Q = int i" using hd L by (simp_all add: hdr_def)
    show "i < CAP" "i < CAP" using ok L by (simp_all add: spec_ok_def)
    show "array_fits (ps_heap ps) (eles (Pblocks ps i)) P" "array_fits (ps_heap ps) (eles (Qblocks ps i)) Q"
      using h L hd length_lane_ref[OF ok] by (auto simp: ps_holds_def array_fits_def hdr_def Let_def)
    show "eles (Pblocks ps i) \<noteq> eles (Qblocks ps i)" using h L by (auto simp: ps_holds_def Let_def)
  qed
  then show ?thesis using hd by blast
qed

lemma data_ps_recv:
  assumes ok: "spec_ok L" and L: "ls_id L = i" "ls_p L \<noteq> ls_q L"
    and I: "lane_inv pw pm it (recved_iter ps i) ts dn w up"
    and D: "lane_data pw F L mrd mru (recved_iter ps i) ts ps dn w up"
    and s: "ps_rdma_recvTd i ps (lk_sv up) = Inr (ps', c')"
  shows "lane_data pw F L mrd mru (recved_iter ps' i) ts ps' dn w (up\<lparr>lk_sv := c'\<rparr>) \<and>
     (\<forall>L' k. ls_id L' \<noteq> i \<and> {ls_p L', ls_q L'} \<inter> {ls_p L, ls_q L} = {} \<and> ps_holds F L' ps k \<longrightarrow>
        ps_holds F L' ps' k)"
proof (cases "ps' = ps \<and> c' = lk_sv up")
  case True
  then show ?thesis using D by simp
next
  case False
  let ?ri = "recved_iter ps i"
  have "ps_recv_ready i ps (lk_sv up)" using ps_recv_ready_iff[OF s] False by blast
  from ps_recv_value[OF ok L I D this] s obtain P Q where
    hd: "hdr L (ls_hp L) (ls_sp L) P" "hdr L (ls_hq L) (ls_sq L) Q" and
    e: "ps' = ps_received i ((P, fst (lane_ref F L (nat (?ri + 2)))),
       (Q, snd (lane_ref F L (nat (?ri + 2))))) ps"
    "c' = (lk_sv up)\<lparr>sc_buf_prepared := False, can_recv := True\<rparr>" by auto
  have h: "ps_holds F L ps (nat (?ri + 1))" using D by (simp add: lane_data_def)
  have id: "nat (block_id P) = i" "nat (block_id Q) = i" using hd L by (simp_all add: hdr_def)
  have own: "ps_holds F L ps' (nat (?ri + 2))"
    using h L hd id by (auto simp: e(1) ps_holds_def ps_received_def hdr_def ps_store_header_def Let_def)
  have "ps_holds F L' ps' k"
    if "ls_id L' \<noteq> i" "{ls_p L', ls_q L'} \<inter> {ls_p L, ls_q L} = {}" "ps_holds F L' ps k" for L' k
    using h L that id by (auto simp: e(1) ps_holds_def ps_received_def Let_def)
  moreover have "app_sv (lk_sv up) c'" by (simp add: e(2) app_sv_def)
  moreover have "recved_iter ps' i = ?ri + 1" by (simp add: e(1) ps_received_def Let_def)
  ultimately show ?thesis
    using D own link_data_app_sv[of pw "\<lambda>k. packed F L (nat k)" mru "to_send_age w" up c']
    by (auto simp: lane_data_def add.assoc)
qed

text \<open>A worker that may receive finds the pair of its next round in its buffer.\<close>

lemma wk_recv_message:
  assumes I: "lane_inv pw pm it ri ts dn w up"
    and D: "lane_data pw F L mrd mru ri ts ps dn w up" and rdy: "wk_recv_ready w (lk_sv dn)"
  shows "\<exists>P Q. hdr L (ls_hp L) (ls_sp L) P \<and> hdr L (ls_hq L) (ls_sq L) Q \<and>
     read_blocks (sc_buffer (lk_sv dn)) =
       Inr ((P, fst (lane_ref F L (nat (wk_iter_t w)))), (Q, snd (lane_ref F L (nat (wk_iter_t w)))))"
proof -
  let ?r = "recved_age w"
  have ld: "link_landed dn = ?r + 2" "wk_iter_t w = ?r + 1"
    using lane_tight(5)[OF I] rdy by (simp_all add: wk_recv_ready_def)
  have "- 1 \<le> ?r" using D by (simp add: lane_data_def worker_memory_def)
  then have "0 < link_landed dn" using ld by simp
  then have "\<exists>m len. packed F L (nat (link_landed dn - 1)) m len \<and> agrees (sc_buffer (lk_sv dn)) m len"
    using D unfolding lane_data_def link_data_def by blast
  moreover have "link_landed dn - 1 = wk_iter_t w" using ld by simp
  ultimately obtain m len where "packed F L (nat (wk_iter_t w)) m len" "agrees (sc_buffer (lk_sv dn)) m len"
    by auto
  from packed_read[OF this] show ?thesis by blast
qed

lemma data_wk_recv:
  assumes ok: "spec_ok L" and I: "lane_inv pw pm it ri ts dn w up"
    and D: "lane_data pw F L mrd mru ri ts ps dn w up"
    and s: "wk_rdma_recvTd w (lk_sv dn) = Inr (w', c')"
  shows "lane_data pw F L mrd mru ri ts ps (dn\<lparr>lk_sv := c'\<rparr>) w' up"
proof (cases "w' = w \<and> c' = lk_sv dn")
  case True
  then show ?thesis using D by simp
next
  case False
  let ?k = "nat (wk_iter_t w)"
  have rdy: "wk_recv_ready w (lk_sv dn)" using wk_recv_ready_iff[OF s] False by blast
  from wk_recv_message[OF I D this] obtain P Q where
    rd: "read_blocks (sc_buffer (lk_sv dn)) =
      Inr ((P, fst (lane_ref F L ?k)), (Q, snd (lane_ref F L ?k)))" and
    hd: "hdr L (ls_hp L) (ls_sp L) P" "hdr L (ls_hq L) (ls_sq L) Q" by blast
  have ld: "wk_iter_t w = recved_age w + 1"
    using lane_tight(5)[OF I] rdy by (simp add: wk_recv_ready_def)
  have mem: "worker_memory w" using D by (simp add: lane_data_def)
  have pos: "0 < ele_num P" "0 < ele_num Q" using hd ok by (simp_all add: hdr_def spec_ok_def K_dim_def)
  have "heap_ok (wk_heap w)" using mem by (simp add: worker_memory_def)
  from wk_recv_returns[OF s rdy rd pos this]
  have e: "w' = wk_received ((P, fst (lane_ref F L ?k)), (Q, snd (lane_ref F L ?k))) w" by blast
  have "app_sv (lk_sv dn) c'" using wk_recv_effect[OF s] False by blast
  then have "link_data pw (\<lambda>k. packed F L (nat (k - 1))) mrd ts (dn\<lparr>lk_sv := c'\<rparr>)"
    using D by (intro link_data_app_sv) (auto simp: lane_data_def)
  moreover have "wk_holds F L w' (nat (wk_iter_t w'))"
    using hd by (auto simp: e wk_received_def wk_holds_def hdr_def wk_store_header_def
        holds_arrs_def Let_def)
  moreover have "worker_memory w'"
    using mem by (auto simp: e worker_memory_def wk_received_def Let_def heap_ok_new)
  ultimately show ?thesis using D by (auto simp: lane_data_def e wk_received_def Let_def)
qed

lemma wk_send_detail:
  assumes "wk_rdma_sendTd w c = Inr (w', c')"
  shows "(w' = w \<and> c' = c) \<or>
     (to_send_age w = wk_completed_iter w \<and>
      (\<exists>m len. pack_blocks (wk_heap w) (Pblock w) (Qblock w) (cc_buffer c) = Inr (m, len) \<and>
         w' = w\<lparr>to_send_age := to_send_age w + 1\<rparr> \<and>
         c' = c\<lparr>cc_buffer := m, cc_buf_len := len, can_send := True\<rparr>))"
proof (cases "wk_CanSend (to_send_age w) (wk_completed_iter w)")
  case True
  then have "to_send_age w = wk_completed_iter w" by (simp add: wk_CanSend_def split: if_splits)
  moreover have "\<exists>m len. pack_blocks (wk_heap w) (Pblock w) (Qblock w) (cc_buffer c) = Inr (m, len) \<and>
         w' = w\<lparr>to_send_age := to_send_age w + 1\<rparr> \<and>
         c' = c\<lparr>cc_buffer := m, cc_buf_len := len, can_send := True\<rparr>"
    using assms True by (auto simp: wk_rdma_sendTd_def wk_send_fill_def result_elims)
  ultimately show ?thesis by blast
next
  case False
  then show ?thesis using assms by (simp add: wk_rdma_sendTd_def wk_send_fill_def)
qed

text \<open>The worker's addresses stay small: two arrays per message, at most 1200 messages.\<close>

lemma worker_addresses:
  assumes mem: "worker_memory w" and "recved_age w + 1 \<le> 1200" and "h_arr (wk_heap w) a \<noteq> None"
  shows "a < 2 ^ 64"
proof -
  have "a < h_next (wk_heap w)" using mem assms(3) by (auto simp: worker_memory_def heap_ok_def)
  moreover have "h_next (wk_heap w) \<le> 2401" using mem assms(2) by (simp add: worker_memory_def)
  ultimately show ?thesis by simp
qed

lemma data_wk_send:
  assumes ok: "spec_ok L" and I: "lane_inv pw pm it ri ts dn w up" and it: "it \<le> 1200"
    and D: "lane_data pw F L mrd mru ri ts ps dn w up"
    and s: "wk_rdma_sendTd w (lk_cl up) = Inr (w', c')"
  shows "lane_data pw F L mrd mru ri ts ps dn w' (up\<lparr>lk_cl := c'\<rparr>)"
proof (cases "w' = w \<and> c' = lk_cl up")
  case True
  then show ?thesis using D by simp
next
  case False
  obtain m len where g: "to_send_age w = wk_completed_iter w" and
    pk: "pack_blocks (wk_heap w) (Pblock w) (Qblock w) (cc_buffer (lk_cl up)) = Inr (m, len)" and
    e: "w' = w\<lparr>to_send_age := to_send_age w + 1\<rparr>"
       "c' = (lk_cl up)\<lparr>cc_buffer := m, cc_buf_len := len, can_send := True\<rparr>"
    using wk_send_detail[OF s] False by blast
  note c = lane_chain[OF I]
  have t: "pw (lk_net up) = []" "wk_iter_t w = to_send_age w + 1" using lane_tight(4)[OF I] g c by auto
  have mem: "worker_memory w" using D by (simp add: lane_data_def)
  then have "0 \<le> recved_age w" using t c by (auto simp: worker_memory_def)
  then have h: "wk_holds F L w (nat (to_send_age w + 1))" using D t by (simp add: lane_data_def)
  have bnd: "a < 2 ^ 64" if "h_arr (wk_heap w) a \<noteq> None" for a
    using worker_addresses[OF mem _ that] c it by linarith
  have "packed F L (nat (to_send_age w + 1)) m len"
    using h bnd[of "eles (Pblock w)"] bnd[of "eles (Qblock w)"]
    by (intro packed_intro[OF ok pk]) (auto simp: wk_holds_def holds_arrs_def)
  moreover have "app_cl (lk_cl up) c'" by (simp add: e app_cl_def)
  ultimately have "link_data pw (\<lambda>k. packed F L (nat k)) mru (to_send_age w + 1) (up\<lparr>lk_cl := c'\<rparr>)"
    using D t(1) by (intro link_data_fill) (auto simp: lane_data_def e)
  then show ?thesis using D by (auto simp: lane_data_def e(1) worker_memory_def wk_holds_def)
qed

text \<open>A worker that may compute does, and turns the pair of its round into the next one.\<close>

lemma wk_main_value:
  assumes ok: "spec_ok L" and D: "lane_data pw F L mrd mru ri ts ps dn w up"
    and g: "wk_iter_t w \<le> recved_age w"
  shows "wk_main_pass F (ls_rnd L) w = Inr (w\<lparr>
      wk_heap := set_arrs (wk_heap w) (eles (Pblock w)) (eles (Qblock w))
        (lane_ref F L (Suc (nat (wk_iter_t w)))),
      wk_rnd_pos := wk_rnd_pos w + 180000, wk_completed_iter := wk_iter_t w,
      wk_iter_t := wk_iter_t w + 1\<rparr>)"
proof -
  let ?k = "nat (wk_iter_t w)"
  have mem: "worker_memory w" using D by (simp add: lane_data_def)
  then have n: "0 \<le> recved_age w" using g by (auto simp: worker_memory_def)
  then have h: "wk_holds F L w ?k" using D by (simp add: lane_data_def)
  have len: "nat (ls_hp L) * nat K_dim = length (fst (lane_ref F L ?k))"
    "nat (ls_hq L) * nat K_dim = length (snd (lane_ref F L ?k))"
    using length_lane_ref[OF ok, of F ?k] ok by (auto simp: spec_ok_def K_dim_def nat_mult_distrib)
  have "FakeSubMF F (ls_rnd L) (Pblock w) (Qblock w) (wk_rnd_pos w, wk_heap w) =
     Inr (wk_rnd_pos w + 180000, set_arrs (wk_heap w) (eles (Pblock w)) (eles (Qblock w))
       (sgd_run F (ls_rnd L) (height (Pblock w)) (height (Qblock w)) 90000 (wk_rnd_pos w)
          (lane_ref F L ?k)))"
    using h ok len by (intro FakeSubMF_ok) (auto simp: wk_holds_def hdr_def spec_ok_def)
  then show ?thesis
    using g h mem by (simp add: wk_main_pass_def wk_compute_def CanCompute_def Let_def wk_holds_def hdr_def worker_memory_def)
qed

lemma heap_ok_set_arrs:
  assumes "heap_ok h" and "holds_arrs h p q arrs"
  shows "heap_ok (set_arrs h p q arrs')"
  using assms by (auto simp: heap_ok_def holds_arrs_def set_arrs_def)

lemma data_wk_main:
  assumes ok: "spec_ok L" and D: "lane_data pw F L mrd mru ri ts ps dn w up"
    and s: "wk_main_pass F (ls_rnd L) w = Inr w'"
  shows "lane_data pw F L mrd mru ri ts ps dn w' up"
proof (cases "w' = w")
  case True
  then show ?thesis using D by simp
next
  case False
  let ?k = "nat (wk_iter_t w)"
  have g: "wk_iter_t w \<le> recved_age w" using wk_main_effect[OF s] False by blast
  from wk_main_value[OF ok D g] s
  have e: "w' = w\<lparr>
      wk_heap := set_arrs (wk_heap w) (eles (Pblock w)) (eles (Qblock w)) (lane_ref F L (Suc ?k)),
      wk_rnd_pos := wk_rnd_pos w + 180000, wk_completed_iter := wk_iter_t w,
      wk_iter_t := wk_iter_t w + 1\<rparr>" by simp
  have mem: "worker_memory w" using D by (simp add: lane_data_def)
  then have n: "0 \<le> recved_age w" "0 \<le> wk_iter_t w" using g by (auto simp: worker_memory_def)
  then have h: "wk_holds F L w ?k" using D by (simp add: lane_data_def)
  have S: "nat (wk_iter_t w + 1) = Suc ?k" using n by simp
  have "heap_ok (wk_heap w')"
    using mem h heap_ok_set_arrs unfolding e by (fastforce simp: worker_memory_def wk_holds_def)
  then have "worker_memory w'"
    using mem n by (auto simp: e worker_memory_def S set_arrs_def)
  moreover have "wk_holds F L w' (nat (wk_iter_t w'))"
    using h by (auto simp: e wk_holds_def S holds_arrs_def set_arrs_def simp del: lane_ref.simps)
  ultimately show ?thesis using D by (auto simp: lane_data_def e)
qed

lemma data_links:
  assumes F: "rc_fabric Fb pw pm" and I: "lane_inv pw pm it ri ts dn w up"
    and D: "lane_data pw F L mrd mru ri ts ps dn w up"
  shows "link_step Fb dn l' \<Longrightarrow> lane_data pw F L mrd mru ri ts ps l' w up"
    and "link_step Fb up l' \<Longrightarrow> lane_data pw F L mrd mru ri ts ps dn w l'"
proof -
  have i: "link_inv pw pm dn" "link_inv pw pm up" "link_claims dn \<le> ts" "link_claims up \<le> to_send_age w"
    using I by (simp_all add: lane_inv_def)
  show "link_step Fb dn l' \<Longrightarrow> lane_data pw F L mrd mru ri ts ps l' w up"
    using D link_data_step[OF F _ i(1) _ packed_sizes i(3) lane_tight(1)[OF I]]
    by (auto simp: lane_data_def)
  show "link_step Fb up l' \<Longrightarrow> lane_data pw F L mrd mru ri ts ps dn w l'"
    using D link_data_step[OF F _ i(2) _ packed_sizes i(4) lane_tight(2)[OF I]]
    by (auto simp: lane_data_def)
qed

section \<open>The whole system\<close>

definition cluster_data ::
    "('w \<Rightarrow> send_wr list) \<Rightarrow> fp \<Rightarrow> (nat \<Rightarrow> lane_spec) \<Rightarrow> 'w cluster \<Rightarrow> bool" where
  "cluster_data pw F Ls s \<longleftrightarrow>
     (\<forall>i<lanes s. worker_pidx (cl_ps s) i = int i \<and> worker_qidx (cl_ps s) i = int i \<and>
        (\<exists>mrd mru. lane_data pw F (Ls i) mrd mru (recved_iter (cl_ps s) i) (to_send_iter (cl_ps s) i)
           (cl_ps s) (cl_down s i) (cl_wk s i) (cl_up s i)))"

text \<open>The blocks at the start: the server's hold the initial pairs, the workers have nothing yet.\<close>

definition data_start :: "fp \<Rightarrow> (nat \<Rightarrow> lane_spec) \<Rightarrow> 'w cluster \<Rightarrow> bool" where
  "data_start F Ls s \<longleftrightarrow>
     (\<forall>i<lanes s. ps_holds F (Ls i) (cl_ps s) 0 \<and> heap_ok (wk_heap (cl_wk s i)) \<and>
        h_next (wk_heap (cl_wk s i)) = 1 \<and> wk_rnd_pos (cl_wk s i) = 0)"

lemma cluster_data_start:
  assumes "cluster_start pw pm s" and "data_start F Ls s"
  shows "cluster_data pw F Ls s"
proof -
  have "worker_pidx (cl_ps s) i = int i \<and> worker_qidx (cl_ps s) i = int i \<and>
        (\<exists>mrd mru. lane_data pw F (Ls i) mrd mru (recved_iter (cl_ps s) i) (to_send_iter (cl_ps s) i)
           (cl_ps s) (cl_down s i) (cl_wk s i) (cl_up s i))" if i: "i < lanes s" for i
  proof -
    have l: "link_start pw pm (cl_down s i)" "link_start pw pm (cl_up s i)"
      and f: "ps_fresh (cl_ps s)" "wk_fresh (cl_wk s i)"
      using assms(1) i by (auto simp: cluster_start_def)
    obtain mrd where "link_data pw (\<lambda>k. packed F (Ls i) (nat (k - 1))) mrd 0 (cl_down s i)"
      using link_start_data[OF l(1)] by blast
    moreover obtain mru where "link_data pw (\<lambda>k. packed F (Ls i) (nat k)) mru 0 (cl_up s i)"
      using link_start_data[OF l(2)] by blast
    ultimately show ?thesis
      using f assms(2) i
      by (auto simp: ps_fresh_def wk_fresh_def lanes_def data_start_def lane_data_def worker_memory_def)
  qed
  then show ?thesis by (simp add: cluster_data_def)
qed

lemma cluster_data_update:
  assumes "cluster_data pw F Ls s" and "lanes t = lanes s"
    and "\<And>j. j < lanes s \<Longrightarrow> worker_pidx (cl_ps t) j = worker_pidx (cl_ps s) j \<and>
       worker_qidx (cl_ps t) j = worker_qidx (cl_ps s) j"
    and "\<And>j. j < lanes s \<Longrightarrow> j \<noteq> i \<Longrightarrow> recved_iter (cl_ps t) j = recved_iter (cl_ps s) j \<and>
       to_send_iter (cl_ps t) j = to_send_iter (cl_ps s) j \<and> cl_down t j = cl_down s j \<and>
       cl_wk t j = cl_wk s j \<and> cl_up t j = cl_up s j \<and>
       (\<forall>k. ps_holds F (Ls j) (cl_ps s) k \<longrightarrow> ps_holds F (Ls j) (cl_ps t) k)"
    and "\<And>mrd mru. i < lanes s \<Longrightarrow>
       lane_data pw F (Ls i) mrd mru (recved_iter (cl_ps s) i) (to_send_iter (cl_ps s) i)
         (cl_ps s) (cl_down s i) (cl_wk s i) (cl_up s i) \<Longrightarrow>
       lane_data pw F (Ls i) mrd mru (recved_iter (cl_ps t) i) (to_send_iter (cl_ps t) i)
         (cl_ps t) (cl_down t i) (cl_wk t i) (cl_up t i)"
  shows "cluster_data pw F Ls t"
proof -
  have "\<exists>mrd mru. lane_data pw F (Ls j) mrd mru (recved_iter (cl_ps t) j) (to_send_iter (cl_ps t) j)
           (cl_ps t) (cl_down t j) (cl_wk t j) (cl_up t j)" if j: "j < lanes s" for j
  proof -
    obtain mrd mru where d: "lane_data pw F (Ls j) mrd mru (recved_iter (cl_ps s) j)
        (to_send_iter (cl_ps s) j) (cl_ps s) (cl_down s j) (cl_wk s j) (cl_up s j)"
      using assms(1) j by (auto simp: cluster_data_def)
    show ?thesis
    proof (cases "j = i")
      case True
      then show ?thesis using assms(5)[of mrd mru] d j by blast
    next
      case False
      then show ?thesis using assms(4)[OF j False] d by (auto simp: lane_data_def)
    qed
  qed
  then show ?thesis using assms(1-3) by (simp add: cluster_data_def)
qed

lemma cluster_data_lane:
  "cluster_data pw F Ls s \<Longrightarrow> i < lanes s \<Longrightarrow>
   worker_pidx (cl_ps s) i = int i \<and> worker_qidx (cl_ps s) i = int i"
  by (simp add: cluster_data_def)

lemma specs_lane:
  "specs_ok Ls n \<Longrightarrow> i < n \<Longrightarrow> spec_ok (Ls i) \<and> ls_id (Ls i) = i \<and> ls_p (Ls i) \<noteq> ls_q (Ls i)"
  by (simp add: specs_ok_def)

lemma specs_apart:
  assumes "specs_ok Ls n" and "i < n" "j < n" "j \<noteq> i"
  shows "ls_id (Ls j) \<noteq> i \<and> {ls_p (Ls j), ls_q (Ls j)} \<inter> {ls_p (Ls i), ls_q (Ls i)} = {}"
proof -
  have "ls_id (Ls j) = j" "ls_p (Ls j) \<noteq> ls_q (Ls i)" "ls_p (Ls i) \<noteq> ls_q (Ls j)"
    "ls_p (Ls j) \<noteq> ls_p (Ls i)" "ls_q (Ls j) \<noteq> ls_q (Ls i)"
    using assms unfolding specs_ok_def by blast+
  then show ?thesis using assms(4) by auto
qed

lemma ps_holds_other_send:
  assumes "ps_rdma_sendTd i st c = Inr (st', c')" and "worker_pidx st i = int i"
    "worker_qidx st i = int i" and "ls_id L \<noteq> i" and "ps_holds F L st k"
  shows "ps_holds F L st' k"
  using ps_send_detail[OF assms(1)] assms(2-)
  by (auto simp: ps_holds_def ps_stamp_def Let_def)

lemma cluster_data_step:
  assumes F: "rc_fabric Fb pw pm" and sp: "specs_ok Ls (lanes s)" and I: "cluster_inv pw pm s"
    and D: "cluster_data pw F Ls s" and st: "cluster_step Fb F (\<lambda>i. ls_rnd (Ls i)) s t"
  shows "cluster_data pw F Ls t"
  using st
proof (cases rule: cluster_step.cases)
  case (ps_main st')
  then have e: "st' = cl_ps s \<or>
      st' = (cl_ps s)\<lparr>ps_completed_iter := ps_iter_t (cl_ps s), ps_iter_t := ps_iter_t (cl_ps s) + 1\<rparr>"
    using ps_main_effect(1)[OF ps_main(3)] by blast
  then show ?thesis
    using D ps_main(1) by (intro cluster_data_update[OF D, of _ "lanes s"])
      (auto simp: lanes_def elim: ps_holds_cong)
next
  case (ps_exit c st')
  then have e: "st' =
      (cl_ps s)\<lparr>ps_completed_iter := ps_iter_t (cl_ps s), ps_iter_t := ps_iter_t (cl_ps s) + 1\<rparr>"
    using ps_main_effect(2)[OF ps_exit(3)] by blast
  then show ?thesis
    using D ps_exit(1) by (intro cluster_data_update[OF D, of _ "lanes s"])
      (auto simp: lanes_def elim: ps_holds_cong)
next
  case (ps_send i st' c')
  note L = specs_lane[OF sp ps_send(3)] and ix = cluster_data_lane[OF D ps_send(3)]
  have it: "ps_completed_iter (cl_ps s) = ps_iter_t (cl_ps s) - 1" "ps_iter_t (cl_ps s) \<le> 1200"
    using I by (auto simp: cluster_inv_def)
  have "ps_holds F (Ls j) st' k" if "j < lanes s" "j \<noteq> i" "ps_holds F (Ls j) (cl_ps s) k" for j k
    using ps_holds_other_send[OF ps_send(4)] ix specs_apart[OF sp ps_send(3) that(1,2)] that by blast
  moreover have "lane_data pw F (Ls i) mrd mru (recved_iter st' i) (to_send_iter st' i) st'
      ((cl_down s i)\<lparr>lk_cl := c'\<rparr>) (cl_wk s i) (cl_up s i)"
    if "lane_data pw F (Ls i) mrd mru (recved_iter (cl_ps s) i) (to_send_iter (cl_ps s) i)
         (cl_ps s) (cl_down s i) (cl_wk s i) (cl_up s i)" for mrd mru
    using data_ps_send[OF _ _ _ _ cluster_inv_lane[OF I ps_send(3)] that it ps_send(4)] L ix
      ps_send_effect[OF ps_send(4)] by auto
  ultimately show ?thesis
    using ps_send(1,3) ps_send_effect[OF ps_send(4)]
    by (intro cluster_data_update[OF D, of _ i]) (auto simp: lanes_def set_defs)
next
  case (ps_recv i st' c')
  note L = specs_lane[OF sp ps_recv(3)]
  obtain mrd mru where d: "lane_data pw F (Ls i) mrd mru (recved_iter (cl_ps s) i)
      (to_send_iter (cl_ps s) i) (cl_ps s) (cl_down s i) (cl_wk s i) (cl_up s i)"
    using D ps_recv(3) by (auto simp: cluster_data_def)
  note r = data_ps_recv[OF _ _ _ cluster_inv_lane[OF I ps_recv(3)] _ ps_recv(4)]
  have "ps_holds F (Ls j) st' k" if "j < lanes s" "j \<noteq> i" "ps_holds F (Ls j) (cl_ps s) k" for j k
    using r[OF _ _ _ d] L specs_apart[OF sp ps_recv(3) that(1,2)] that(3) by blast
  moreover have "lane_data pw F (Ls i) mrd mru (recved_iter st' i) (to_send_iter st' i) st'
      (cl_down s i) (cl_wk s i) ((cl_up s i)\<lparr>lk_sv := c'\<rparr>)"
    if "lane_data pw F (Ls i) mrd mru (recved_iter (cl_ps s) i) (to_send_iter (cl_ps s) i)
         (cl_ps s) (cl_down s i) (cl_wk s i) (cl_up s i)" for mrd mru
    using r[OF _ _ _ that] L ps_recv_effect[OF ps_recv(4)] by auto
  ultimately show ?thesis
    using ps_recv(1,3) ps_recv_effect[OF ps_recv(4)]
    by (intro cluster_data_update[OF D, of _ i]) (auto simp: lanes_def set_defs)
next
  case (wk_main i w')
  then show ?thesis
    using data_wk_main[OF _ _ wk_main(3)] specs_lane[OF sp wk_main(2)]
    by (intro cluster_data_update[OF D, of _ i]) (auto simp: lanes_def set_defs)
next
  case (wk_send i w' c')
  have "ps_iter_t (cl_ps s) \<le> 1200" using I by (auto simp: cluster_inv_def)
  then show ?thesis
    using wk_send data_wk_send[OF _ cluster_inv_lane[OF I wk_send(2)] _ _ wk_send(3)]
      specs_lane[OF sp wk_send(2)]
    by (intro cluster_data_update[OF D, of _ i]) (auto simp: lanes_def set_defs)
next
  case (wk_recv i w' c')
  then show ?thesis
    using data_wk_recv[OF _ cluster_inv_lane[OF I wk_recv(2)] _ wk_recv(3)] specs_lane[OF sp wk_recv(2)]
    by (intro cluster_data_update[OF D, of _ i]) (auto simp: lanes_def set_defs)
next
  case (down_link i l')
  then show ?thesis
    using data_links(1)[OF F cluster_inv_lane[OF I down_link(3)]]
    by (intro cluster_data_update[OF D, of _ i]) (auto simp: lanes_def set_defs)
next
  case (up_link i l')
  then show ?thesis
    using data_links(2)[OF F cluster_inv_lane[OF I up_link(3)]]
    by (intro cluster_data_update[OF D, of _ i]) (auto simp: lanes_def set_defs)
qed

interpretation dataflow: inv_system
  "\<lambda>s. cluster_start pw pm s \<and> data_start F Ls s \<and> lanes s = n"
  "cluster_step Fb F (\<lambda>i. ls_rnd (Ls i))"
  "\<lambda>s. rc_fabric Fb pw pm \<and> specs_ok Ls n \<longrightarrow>
       cluster_inv pw pm s \<and> cluster_data pw F Ls s \<and> lanes s = n"
  for pw pm :: "'w \<Rightarrow> send_wr list" and Fb :: "'w fabric" and F Ls n
  by unfold_locales
    (auto intro: cluster_inv_start cluster_data_start cluster_inv_step cluster_data_step
      simp: cluster_step_lanes)

lemma reach_data:
  assumes "rc_fabric Fb pw pm" and "cluster_start pw pm s0" and "data_start F Ls s0"
    and "specs_ok Ls (lanes s0)" and "(cluster_step Fb F (\<lambda>i. ls_rnd (Ls i)))\<^sup>*\<^sup>* s0 s" and "i < lanes s0"
  shows "\<exists>mrd mru. lane_data pw F (Ls i) mrd mru (recved_iter (cl_ps s) i) (to_send_iter (cl_ps s) i)
           (cl_ps s) (cl_down s i) (cl_wk s i) (cl_up s i)"
proof -
  have "cluster_data pw F Ls s" and "lanes s = lanes s0"
    using dataflow.inv_reach[where pw = pw and pm = pm and F = F and Ls = Ls and n = "lanes s0",
        OF _ assms(5)] assms(1-4) by blast+
  then show ?thesis using assms(6) by (auto simp: cluster_data_def)
qed

end
