(* ===== verification/Link_Progress.thy ===== *)
theory Link_Progress
  imports Link
begin

text \<open>
  When a link can move. The network is now also live: it accepts posted work and carries out what is
  pending. For each point where the token of a link can be there is a step of the transport that
  moves it on; the two spin loops wait for the applications only.
\<close>

section \<open>Live networks and ready links\<close>

definition rc_live :: "'w fabric \<Rightarrow> ('w \<Rightarrow> send_wr list) \<Rightarrow> ('w \<Rightarrow> send_wr list) \<Rightarrow> bool" where
  "rc_live F pw pm \<longleftrightarrow>
     (\<forall>c wr w. r_code (fst (f_verbs F (Post_send c wr) w)) = 0) \<and>
     (\<forall>c wr w. r_code (fst (f_verbs F (Post_recv c wr) w)) = 0) \<and>
     (\<forall>w. pw w \<noteq> [] \<longrightarrow> f_next_write F w \<noteq> None) \<and> (\<forall>w. pm w \<noteq> [] \<longrightarrow> f_next_send F w \<noteq> None)"

text \<open>What \<open>client_on_pre_conn\<close> and \<open>server_on_pre_conn\<close> set up and nothing changes afterwards.\<close>

definition client_ready :: "client_context \<Rightarrow> bool" where
  "client_ready c \<longleftrightarrow> cc_msg_mr c \<noteq> None \<and> cc_buffer_mr c \<noteq> None \<and> cc_buf_ptr c \<noteq> 0 \<and>
     cc_buf_registered c"

definition server_ready :: "conn_context \<Rightarrow> bool" where
  "server_ready s \<longleftrightarrow> sc_msg_mr s \<noteq> None \<and> sc_buffer_mr s \<noteq> None \<and> sc_buf_ptr s \<noteq> 0 \<and>
     sc_buf_registered s"

definition link_ready :: "'w link \<Rightarrow> bool" where
  "link_ready l \<longleftrightarrow> client_ready (lk_cl l) \<and> server_ready (lk_sv l)"

lemmas ready_defs = client_ready_def server_ready_def link_ready_def

lemma app_ready:
  "app_cl c c' \<Longrightarrow> client_ready c \<Longrightarrow> client_ready c'"
  "app_sv s s' \<Longrightarrow> server_ready s \<Longrightarrow> server_ready s'"
  by (simp_all add: ready_defs app_cl_simps app_sv_simps)

text \<open>The transport never writes \<open>can_recv\<close> and keeps the registrations.\<close>

lemma link_step_static:
  assumes F: "rc_fabric F pw pm" and st: "link_step F l l'" and I: "link_inv pw pm l"
  shows "can_recv (lk_sv l') = can_recv (lk_sv l) \<and> (link_ready l \<longrightarrow> link_ready l')"
  using st
proof (cases rule: link_step.cases)
  case (msg_arrives wr n1 nx cl' n2)
  then show ?thesis
    using client_enter_effect[OF msg_arrives(4)] I by (auto simp: link_inv_def ready_defs)
next
  case (write_posted cl' n')
  then show ?thesis using client_send_effect[OF F write_posted(4)] by (auto simp: ready_defs)
next
  case (write_counted cl' n')
  then show ?thesis using client_finish_effect[OF F write_counted(3)] by (auto simp: ready_defs)
next
  case (write_received wc wcs nx sv' n')
  then have "wc_opcode wc = IBV_WC_RECV_RDMA_WITH_IMM" using I by (auto simp: link_inv_def)
  then show ?thesis
    using write_received server_enter_effect[OF F write_received(5)]
    by (auto simp: ready_defs set_msg_id_def)
next
  case (ready_sent z sv' n')
  then show ?thesis
    using server_reply_effect[OF F ready_sent(4)] by (auto simp: ready_defs set_msg_id_def)
qed (auto simp: ready_defs client_on_completion_clear_def)

section \<open>Calls of a live network succeed\<close>

lemma live_calls:
  assumes "rc_live F pw pm"
  shows "TEST_NZ (f_verbs F) (Post_send c wr) w = Inr (f_verbs F (Post_send c wr) w)"
    and "TEST_NZ (f_verbs F) (Post_recv c rr) w = Inr (f_verbs F (Post_recv c rr) w)"
  using assms by (auto simp: rc_live_def intro!: TEST_NZ_ok)

lemma live_post_receive:
  assumes "rc_live F pw pm" and "client_ready cl"
  shows "\<exists>w'. client_post_receive (f_verbs F) c cl w = Inr w'"
proof -
  obtain m where "cc_msg_mr cl = Some m" using assms(2) by (auto simp: client_ready_def)
  then show ?thesis by (simp add: client_post_receive_def live_calls(2)[OF assms(1)] split_beta)
qed

lemma live_write_remote:
  assumes "rc_live F pw pm" and "client_ready cl"
  shows "\<exists>w'. client_write_remote (f_verbs F) c len cl w = Inr w'"
proof -
  obtain m where "cc_buffer_mr cl = Some m" using assms(2) by (auto simp: client_ready_def)
  then show ?thesis by (simp add: client_write_remote_def live_calls(1)[OF assms(1)] split_beta)
qed

lemma live_send_message:
  assumes "rc_live F pw pm" and "server_ready sv"
  shows "\<exists>w'. server_send_message (f_verbs F) c sv w = Inr w'"
proof -
  obtain m where "sc_msg_mr sv = Some m" using assms(2) by (auto simp: server_ready_def)
  then show ?thesis by (simp add: server_send_message_def live_calls(1)[OF assms(1)] split_beta)
qed

section \<open>The enabled steps\<close>

text \<open>\<open>same_ends l l'\<close>: the step left the counters of both ends, and the flags, alone.\<close>

definition same_ends :: "'w link \<Rightarrow> 'w link \<Rightarrow> bool" where
  "same_ends l l' \<longleftrightarrow> can_send (lk_cl l') = can_send (lk_cl l) \<and>
     buf_recv_counter (lk_sv l') = buf_recv_counter (lk_sv l) \<and> link_posts l' = link_posts l"

lemma arrive_enabled:
  assumes F: "rc_fabric F pw pm" "rc_live F pw pm" and I: "link_inv pw pm l"
    and c: "lk_cpc l = CIdle" "pm (lk_net l) \<noteq> []"
  shows "\<exists>l'. link_step F l l' \<and> lk_cpc l' = CSpin \<and> same_ends l l' \<and> lk_sv l' = lk_sv l \<and>
     lk_spc l' = lk_spc l"
proof -
  obtain wr n1 where n: "f_next_send F (lk_net l) = Some (wr, n1)"
    using F(2) c(2) unfolding rc_live_def by (metis not_Some_eq surj_pair)
  let ?c = "(lk_cl l)\<lparr>cc_msg := sc_msg (lk_sv l)\<rparr>"
  obtain cl' where e: "client_on_completion_enter (f_verbs F) (recv_wc (lk_cid l)) ?c n1 =
      Inr (Spin, cl', n1)" "can_send cl' = can_send (lk_cl l)"
      "buf_write_counter cl' = buf_write_counter (lk_cl l)"
    using I by (auto simp: link_inv_def client_on_completion_enter_def recv_wc_def msg_ids)
  show ?thesis
    by (rule exI, rule conjI, rule link_step.msg_arrives[OF c(1) n e(1)])
      (use e c in \<open>simp add: same_ends_def link_posts_def\<close>)
qed

lemma post_enabled:
  assumes F: "rc_fabric F pw pm" "rc_live F pw pm" and R: "link_ready l"
    and c: "lk_cpc l = CSpin" "can_send (lk_cl l)"
  shows "\<exists>l'. link_step F l l' \<and> lk_cpc l' = CPosted \<and> can_send (lk_cl l') \<and> lk_sv l' = lk_sv l \<and>
     link_posts l' = link_posts l + 1 \<and> lk_spc l' = lk_spc l \<and> pw (lk_net l') \<noteq> []"
proof -
  have "client_ready (lk_cl l)" using R by (simp add: link_ready_def)
  then obtain n' where "client_write_remote (f_verbs F) (lk_cid l)
      (word_of_nat (cc_buf_len (lk_cl l))) (lk_cl l) (lk_net l) = Inr n'"
    using live_write_remote[OF F(2)] by blast
  then have s: "client_on_completion_send (f_verbs F) (lk_cid l) (lk_cl l) (lk_net l) =
      Inr ((lk_cl l)\<lparr>cc_buf_prepared := False\<rparr>, n')"
    by (simp add: client_on_completion_send_def client_send_next_chunk_def)
  have p: "pw n' \<noteq> []" using client_send_effect[OF F(1) s] by auto
  show ?thesis
    by (intro exI conjI, rule link_step.write_posted[OF c s]) (use c p in \<open>simp_all add: link_posts_def\<close>)
qed

lemma clear_enabled:
  "lk_cpc l = CPosted \<Longrightarrow> \<exists>l'. link_step F l l' \<and> lk_cpc l' = CCleared \<and> \<not> can_send (lk_cl l') \<and>
     lk_sv l' = lk_sv l \<and> link_posts l' = link_posts l \<and> lk_net l' = lk_net l"
  by (intro exI conjI, rule link_step.flag_cleared)
    (simp_all add: client_on_completion_clear_def link_posts_def)

lemma count_enabled:
  assumes F: "rc_live F pw pm" and R: "link_ready l" and c: "lk_cpc l = CCleared"
  shows "\<exists>l'. link_step F l l' \<and> lk_cpc l' = CIdle \<and> same_ends l l' \<and> lk_sv l' = lk_sv l"
proof -
  let ?c = "(lk_cl l)\<lparr>buf_write_counter := buf_write_counter (lk_cl l) + 1\<rparr>"
  have "client_ready ?c" using R by (simp add: ready_defs)
  then obtain n' where "client_post_receive (f_verbs F) (lk_cid l) ?c (lk_net l) = Inr n'"
    using live_post_receive[OF F] by blast
  then have s: "client_on_completion_finish (f_verbs F) (lk_cid l) (lk_cl l) (lk_net l) = Inr (?c, n')"
    by (simp add: client_on_completion_finish_def Let_def)
  show ?thesis
    by (intro exI conjI, rule link_step.write_counted[OF c s])
      (use c in \<open>simp_all add: same_ends_def link_posts_def\<close>)
qed

lemma land_enabled:
  assumes F: "rc_live F pw pm" and R: "link_ready l" and c: "pw (lk_net l) \<noteq> []"
  shows "\<exists>l'. link_step F l l' \<and> lk_wcs l' \<noteq> [] \<and> same_ends l l' \<and> lk_cl l' = lk_cl l \<and>
     lk_cpc l' = lk_cpc l"
proof -
  obtain wr n' where n: "f_next_write F (lk_net l) = Some (wr, n')"
    using F c unfolding rc_live_def by (metis not_Some_eq surj_pair)
  obtain mr where m: "sc_buffer_mr (lk_sv l) = Some mr" using R by (auto simp: ready_defs)
  show ?thesis
    by (intro exI conjI, rule link_step.write_lands[OF n m]) (simp_all add: same_ends_def link_posts_def)
qed

lemma receive_enabled:
  assumes F: "rc_live F pw pm" and I: "link_inv pw pm l" and c: "lk_wcs l \<noteq> []"
  shows "\<exists>l'. link_step F l l' \<and> buf_recv_counter (lk_sv l') = buf_recv_counter (lk_sv l) + 1 \<and>
     lk_cl l' = lk_cl l \<and> lk_cpc l' = lk_cpc l \<and> lk_spc l' \<noteq> SIdle"
proof -
  obtain wc wcs where w: "lk_wcs l = wc # wcs" using c by (cases "lk_wcs l") auto
  then have o: "wc_opcode wc = IBV_WC_RECV_RDMA_WITH_IMM" "wc_status wc = 0" "lk_spc l = SIdle"
    using I by (auto simp: link_inv_def link_token_def split: if_splits)
  obtain sv' n' where e: "server_on_completion_enter (f_verbs F) wc (lk_sv l) (lk_net l) =
      Inr (Some (ntohl (wc_imm wc) = 0), sv', n')"
      "buf_recv_counter sv' = buf_recv_counter (lk_sv l) + 1"
    using o(1) live_calls(2)[OF F]
    by (simp add: server_on_completion_enter_def server_post_receive_def Let_def split_beta)
  show ?thesis
    by (intro exI conjI, rule link_step.write_received[OF o(3) w o(2) e(1)]) (use e in simp_all)
qed

lemma reply_enabled:
  assumes F: "rc_live F pw pm" and R: "link_ready l" and c: "lk_spc l \<noteq> SIdle" "can_recv (lk_sv l)"
  shows "\<exists>l'. link_step F l l' \<and> lk_spc l' = SIdle \<and> same_ends l l' \<and> lk_cl l' = lk_cl l"
proof -
  obtain z where z: "lk_spc l = SSpin z" using c(1) by (cases "lk_spc l") auto
  let ?s = "if z then lk_sv l else set_msg_id MSG_READY (lk_sv l)"
  have "server_ready ?s" using R by (auto simp: ready_defs set_msg_id_def)
  then obtain n' where "server_send_message (f_verbs F) (lk_sid l) ?s (lk_net l) = Inr n'"
    using live_send_message[OF F] by blast
  then have s: "server_on_completion_reply (f_verbs F) (lk_sid l) z (lk_sv l) (lk_net l) = Inr (?s, n')"
    by (simp add: server_on_completion_reply_def Let_def)
  show ?thesis
    by (intro exI conjI, rule link_step.ready_sent[OF z c(2) s])
      (simp_all add: same_ends_def link_posts_def)
qed

text \<open>
  A posted write that was not yet received moves; and a filled buffer moves, provided the receiver's
  flag is set whenever its handler spins.
\<close>

lemma transfer_moves:
  assumes F: "rc_live F pw pm" and I: "link_inv pw pm l" and R: "link_ready l"
    and c: "buf_recv_counter (lk_sv l) < link_posts l"
  shows "\<exists>l'. link_step F l l' \<and> l' \<noteq> l"
proof (cases "lk_wcs l = []")
  case True
  then have "pw (lk_net l) \<noteq> []" using I c by (auto simp: link_inv_def)
  from land_enabled[OF F R this] show ?thesis using True by metis
next
  case False
  from receive_enabled[OF F I this] show ?thesis by (metis add_cancel_right_right zero_neq_one)
qed

lemma fill_moves:
  assumes F: "rc_fabric F pw pm" "rc_live F pw pm" and I: "link_inv pw pm l" and R: "link_ready l"
    and c: "link_posts l < link_claims l" "buf_recv_counter (lk_sv l) = link_posts l"
    and flag: "lk_spc l \<noteq> SIdle \<Longrightarrow> can_recv (lk_sv l)"
  shows "\<exists>l'. link_step F l l' \<and> l' \<noteq> l"
proof -
  have cs: "can_send (lk_cl l)" "lk_cpc l \<noteq> CPosted" using c(1) by (auto simp: link_claims_def split: if_splits)
  have "int (length (lk_wcs l)) + int (length (pw (lk_net l))) = 0"
    using I c(2) by (simp add: link_inv_def)
  then have n: "pw (lk_net l) = []" "lk_wcs l = []" by (simp_all add: add_nonneg_eq_0_iff)
  show ?thesis
  proof (cases "lk_cpc l")
    case CIdle
    show ?thesis
    proof (cases "lk_spc l = SIdle")
      case True
      then have "pm (lk_net l) \<noteq> []" using I n CIdle by (auto simp: link_inv_def link_token_def)
      from arrive_enabled[OF F I CIdle this] show ?thesis using CIdle by (metis client_pc.distinct(1))
    next
      case False
      from reply_enabled[OF F(2) R False flag[OF False]] show ?thesis using False by metis
    qed
  next
    case CSpin
    from post_enabled[OF F R CSpin cs(1)] show ?thesis using CSpin by (metis client_pc.distinct(7))
  next
    case CPosted
    then show ?thesis using cs by simp
  next
    case CCleared
    from count_enabled[OF F(2) R CCleared] show ?thesis using CCleared by (metis client_pc.distinct(5))
  qed
qed

end
