(* ===== verification/Progress.thy ===== *)
theory Progress
  imports Dataflow Link_Progress
begin

text \<open>
  When the whole system can move. On a live network, with memory for the next message, some thread
  can make a real step, unless a lane has lost an update: the flag \<open>can_send\<close> that an application set
  for a new message was cleared by the completion thread for the previous one. Such a lane never
  recovers, and with it the server never finishes.
\<close>

section \<open>Lost updates\<close>

text \<open>A filled buffer that no set flag and no posted write announces.\<close>

definition lane_lost :: "'w cluster \<Rightarrow> nat \<Rightarrow> bool" where
  "lane_lost s i \<longleftrightarrow>
     link_claims (cl_down s i) < to_send_iter (cl_ps s) i \<or>
     link_claims (cl_up s i) < to_send_age (cl_wk s i)"

lemma lost_tight:
  assumes "cluster_inv pw pm s" and "i < lanes s" and "lane_lost s i"
  shows "ps_iter_t (cl_ps s) = recved_iter (cl_ps s) i + 2 \<and>
     to_send_iter (cl_ps s) i = ps_iter_t (cl_ps s) \<and>
     buf_recv_counter (lk_sv (cl_up s i)) \<le> recved_iter (cl_ps s) i + 1 \<and>
     buf_recv_counter (lk_sv (cl_down s i)) \<le> recved_age (cl_wk s i) + 1 \<and>
     to_send_age (cl_wk s i) = wk_iter_t (cl_wk s i) \<and>
     recved_age (cl_wk s i) < wk_iter_t (cl_wk s i)"
  using lane_chain[OF cluster_inv_lane[OF assms(1,2)]] assms(3)
  unfolding lane_lost_def by (elim disjE) (intro conjI; linarith)+

lemma lost_step:
  assumes F: "rc_fabric Fb pw pm" and I: "cluster_inv pw pm s" and i: "i < lanes s"
    and L: "lane_lost s i" and st: "cluster_step Fb F rnd s t"
  shows "lane_lost t i \<and> ps_iter_t (cl_ps t) = ps_iter_t (cl_ps s) \<and> cl_exit t = cl_exit s"
proof -
  note tight = lost_tight[OF I i L]
  have c: "ps_completed_iter (cl_ps s) = ps_iter_t (cl_ps s) - 1"
    "wk_completed_iter (cl_wk s i) = wk_iter_t (cl_wk s i) - 1"
    using I lane_chain(7)[OF cluster_inv_lane[OF I i]] by (auto simp: cluster_inv_def)
  have claims: "link_step Fb (cl_down s j) l' \<Longrightarrow> link_claims l' = link_claims (cl_down s j)"
    "link_step Fb (cl_up s j) l' \<Longrightarrow> link_claims l' = link_claims (cl_up s j)"
    if "j < lanes s" for j l'
    using link_claims_step[OF F] cluster_inv_lane[OF I that] by (auto simp: lane_inv_def)
  show ?thesis
    using st
  proof (cases rule: cluster_step.cases)
    case (ps_main st')
    then show ?thesis
      using ps_main_effect(1)[OF ps_main(3)] tight i L by (auto simp: lanes_def lane_lost_def)
  next
    case (ps_exit c st')
    then show ?thesis
      using ps_main_effect(2)[OF ps_exit(3)] tight i by (auto simp: lanes_def)
  next
    case (ps_send j st' c')
    then show ?thesis
      using ps_send_effect[OF ps_send(4)] tight i L c
      by (cases "j = i") (auto simp: lane_lost_def set_defs)
  next
    case (ps_recv j st' c')
    then show ?thesis
      using ps_recv_effect[OF ps_recv(4)] tight L
      by (cases "j = i") (auto simp: lane_lost_def set_defs link_claims_def link_posts_def)
  next
    case (wk_main j w')
    then show ?thesis
      using wk_main_effect[OF wk_main(3)] tight L
      by (cases "j = i") (auto simp: lane_lost_def set_defs)
  next
    case (wk_send j w' c')
    then show ?thesis
      using wk_send_effect[OF wk_send(3)] tight L c
      by (cases "j = i") (auto simp: lane_lost_def set_defs)
  next
    case (wk_recv j w' c')
    then show ?thesis
      using wk_recv_effect[OF wk_recv(3)] tight L
      by (cases "j = i") (auto simp: lane_lost_def set_defs link_claims_def link_posts_def)
  next
    case (down_link j l')
    then show ?thesis
      using claims(1)[OF down_link(3,4)] L by (cases "j = i") (auto simp: lane_lost_def set_defs)
  next
    case (up_link j l')
    then show ?thesis
      using claims(2)[OF up_link(3,4)] L by (cases "j = i") (auto simp: lane_lost_def set_defs)
  qed
qed

lemma lost_steps:
  assumes F: "rc_fabric Fb pw pm" and st: "(cluster_step Fb F rnd)\<^sup>*\<^sup>* s t"
    and "cluster_inv pw pm s" "i < lanes s" "lane_lost s i"
  shows "lane_lost t i \<and> ps_iter_t (cl_ps t) = ps_iter_t (cl_ps s) \<and> cl_exit t = cl_exit s \<and>
     cluster_inv pw pm t \<and> lanes t = lanes s"
  using st assms(3-)
proof (induction rule: rtranclp_induct)
  case base
  then show ?case by simp
next
  case (step t u)
  then show ?case
    using lost_step[OF F, of t i F rnd u] cluster_inv_step[OF F] cluster_step_lanes by metis
qed

section \<open>Ready systems\<close>

text \<open>
  The links are set up, and a receiver whose application has received before has its flag set, since
  nothing ever clears it.
\<close>

definition lane_ready :: "int \<Rightarrow> 'w link \<Rightarrow> worker_state \<Rightarrow> 'w link \<Rightarrow> bool" where
  "lane_ready ri dn w up \<longleftrightarrow> link_ready dn \<and> link_ready up \<and>
     (0 \<le> recved_age w \<longrightarrow> can_recv (lk_sv dn)) \<and> (0 \<le> ri \<longrightarrow> can_recv (lk_sv up))"

definition cluster_ready :: "'w cluster \<Rightarrow> bool" where
  "cluster_ready s \<longleftrightarrow>
     (\<forall>i<lanes s. lane_ready (recved_iter (cl_ps s) i) (cl_down s i) (cl_wk s i) (cl_up s i))"

definition links_ready :: "'w cluster \<Rightarrow> bool" where
  "links_ready s \<longleftrightarrow> (\<forall>i<lanes s. link_ready (cl_down s i) \<and> link_ready (cl_up s i))"

lemma cluster_ready_start:
  "cluster_start pw pm s \<Longrightarrow> links_ready s \<Longrightarrow> cluster_ready s"
  by (auto simp: cluster_ready_def links_ready_def lane_ready_def cluster_start_def ps_fresh_def
      wk_fresh_def lanes_def)

lemma cluster_ready_step:
  assumes F: "rc_fabric Fb pw pm" and I: "cluster_inv pw pm s" and R: "cluster_ready s"
    and st: "cluster_step Fb F rnd s t"
  shows "cluster_ready t"
proof -
  have r: "lane_ready (recved_iter (cl_ps s) j) (cl_down s j) (cl_wk s j) (cl_up s j)"
    if "j < lanes s" for j using R that by (simp add: cluster_ready_def)
  have ln: "lanes t = lanes s" using cluster_step_lanes[OF st] .
  have "lane_ready (recved_iter (cl_ps t) j) (cl_down t j) (cl_wk t j) (cl_up t j)" if j: "j < lanes s" for j
    using st
  proof (cases rule: cluster_step.cases)
    case (ps_main st')
    then show ?thesis using ps_main_effect(1)[OF ps_main(3)] r[OF j] by auto
  next
    case (ps_exit c st')
    then show ?thesis using ps_main_effect(2)[OF ps_exit(3)] r[OF j] by auto
  next
    case (ps_send k st' c')
    then show ?thesis
      using ps_send_effect[OF ps_send(4)] r[OF j]
      by (cases "k = j") (auto simp: set_defs lane_ready_def link_ready_def app_ready)
  next
    case (ps_recv k st' c')
    then show ?thesis
      using ps_recv_effect[OF ps_recv(4)] r[OF j]
      by (cases "k = j") (auto simp: set_defs lane_ready_def link_ready_def app_ready)
  next
    case (wk_main k w')
    then show ?thesis
      using wk_main_effect[OF wk_main(3)] r[OF j]
      by (cases "k = j") (auto simp: set_defs lane_ready_def)
  next
    case (wk_send k w' c')
    then show ?thesis
      using wk_send_effect[OF wk_send(3)] r[OF j]
      by (cases "k = j") (auto simp: set_defs lane_ready_def link_ready_def app_ready)
  next
    case (wk_recv k w' c')
    then show ?thesis
      using wk_recv_effect[OF wk_recv(3)] r[OF j]
      by (cases "k = j") (auto simp: set_defs lane_ready_def link_ready_def app_ready)
  next
    case (down_link k l')
    then have "link_inv pw pm (cl_down s k)" using cluster_inv_lane[OF I down_link(3)] by (simp add: lane_inv_def)
    from link_step_static[OF F down_link(4) this] show ?thesis
      using down_link(1) r[OF j] by (cases "k = j") (auto simp: set_defs lane_ready_def)
  next
    case (up_link k l')
    then have "link_inv pw pm (cl_up s k)" using cluster_inv_lane[OF I up_link(3)] by (simp add: lane_inv_def)
    from link_step_static[OF F up_link(4) this] show ?thesis
      using up_link(1) r[OF j] by (cases "k = j") (auto simp: set_defs lane_ready_def)
  qed
  then show ?thesis by (simp add: cluster_ready_def ln)
qed

text \<open>The invariant of a system that was set up, with everything proved about it so far.\<close>

definition system_start ::
    "('w \<Rightarrow> send_wr list) \<Rightarrow> ('w \<Rightarrow> send_wr list) \<Rightarrow> fp \<Rightarrow> (nat \<Rightarrow> lane_spec) \<Rightarrow> 'w cluster \<Rightarrow> bool" where
  "system_start pw pm F Ls s \<longleftrightarrow>
     cluster_start pw pm s \<and> data_start F Ls s \<and> specs_ok Ls (lanes s) \<and> links_ready s"

definition system_inv ::
    "('w \<Rightarrow> send_wr list) \<Rightarrow> ('w \<Rightarrow> send_wr list) \<Rightarrow> fp \<Rightarrow> (nat \<Rightarrow> lane_spec) \<Rightarrow> 'w cluster \<Rightarrow> bool" where
  "system_inv pw pm F Ls s \<longleftrightarrow>
     cluster_inv pw pm s \<and> cluster_data pw F Ls s \<and> specs_ok Ls (lanes s) \<and> cluster_ready s"

interpretation cluster_system: inv_system "system_start pw pm F Ls"
  "cluster_step Fb F (\<lambda>i. ls_rnd (Ls i))"
  "\<lambda>s. rc_fabric Fb pw pm \<longrightarrow> system_inv pw pm F Ls s"
  for pw pm :: "'w \<Rightarrow> send_wr list" and Fb :: "'w fabric" and F Ls
  by unfold_locales
    (auto simp: system_start_def system_inv_def cluster_step_lanes
      intro: cluster_inv_start cluster_data_start cluster_ready_start
        cluster_inv_step cluster_data_step cluster_ready_step)

section \<open>The enabled passes\<close>

text \<open>A pair of blocks of the lane fits the registered buffers.\<close>

definition lane_fits :: "lane_spec \<Rightarrow> bool" where
  "lane_fits L \<longleftrightarrow> 64 + 8 * (ls_hp L * K_dim + ls_hq L * K_dim) \<le> int BUFFER_SIZE"

text \<open>The worker has memory for one more message.\<close>

definition room_for_message :: "lane_spec \<Rightarrow> worker_state \<Rightarrow> bool" where
  "room_for_message L w \<longleftrightarrow>
     8 * nat (ls_hp L * K_dim) + 8 * nat (ls_hq L * K_dim) \<le> h_avail (wk_heap w)"

lemma pack_enabled:
  assumes ok: "spec_ok L" and f: "lane_fits L"
    and P: "hdr L (ls_hp L) (ls_sp L) P" "eles P < 2 ^ 64" "h_arr h (eles P) = Some (fst (lane_ref F L k))"
    and Q: "hdr L (ls_hq L) (ls_sq L) Q" "eles Q < 2 ^ 64" "h_arr h (eles Q) = Some (snd (lane_ref F L k))"
  shows "\<exists>m' len. pack_blocks h P Q m = Inr (m', len)"
proof -
  have p: "pair_ok h P Q"
    using P Q hdr_ok[OF ok P(1)] hdr_ok[OF ok Q(1)] length_lane_ref[OF ok, of F k]
    by (auto simp: pair_ok_def block_sized_def hdr_def)
  have "0 \<le> ele_num P" "0 \<le> ele_num Q" using p by (auto simp: pair_ok_def dest: block_sized_nonneg)
  then have "int (pair_total P Q) = 64 + 8 * (ele_num P + ele_num Q)"
    by (simp add: pair_total_def BLOCK_SZ_def)
  then have "pair_total P Q \<le> BUFFER_SIZE" using f P(1) Q(1) by (simp add: lane_fits_def hdr_def)
  then show ?thesis using pack_blocks_fits[OF p] by simp
qed

lemma ps_send_enabled:
  assumes ok: "spec_ok L" "lane_fits L" and L: "ls_id L = i"
    and idx: "worker_pidx ps i = int i" "worker_qidx ps i = int i"
    and D: "lane_data pw F L mrd mru ri (to_send_iter ps i) ps dn w up"
    and R: "client_ready (lk_cl dn)"
    and g: "to_send_iter ps i \<le> ps_completed_iter ps" "ps_completed_iter ps \<le> 1200"
  shows "\<exists>ps' c'. ps_rdma_sendTd i ps (lk_cl dn) = Inr (ps', c') \<and>
     to_send_iter ps' i = to_send_iter ps i + 1 \<and> can_send c'"
proof -
  have "0 \<le> to_send_iter ps i" using D by (simp add: lane_data_def)
  then have "in_int32 (to_send_iter ps i)" using g by (simp add: int32_defs)
  then have h: "ps_holds F L (ps_stamp i ps) (nat (ri + 1))"
    using D idx by (intro ps_holds_stamp) (simp_all add: lane_data_def)
  obtain m len where pk: "pack_blocks (ps_heap ps) (Pblocks (ps_stamp i ps) i) (Qblocks (ps_stamp i ps) i)
      (cc_buffer (lk_cl dn)) = Inr (m, len)"
    using pack_enabled[OF ok, of "Pblocks (ps_stamp i ps) i" "ps_heap ps" F "nat (ri + 1)"
        "Qblocks (ps_stamp i ps) i" "cc_buffer (lk_cl dn)"] h L ok
    by (auto simp: ps_holds_def Let_def spec_ok_def ps_stamp_def)
  have "i < CAP" using ok L by (auto simp: spec_ok_def)
  then have "ps_rdma_sendTd i ps (lk_cl dn) =
     Inr ((ps_stamp i ps)\<lparr>to_send_iter := (to_send_iter ps)(i := to_send_iter ps i + 1)\<rparr>,
          (lk_cl dn)\<lparr>cc_buffer := m, cc_buf_len := len, cc_buf_prepared := True, can_send := True\<rparr>)"
    using R g pk idx by (intro ps_send_ok) (auto simp: client_ready_def CanSend_def)
  then show ?thesis by simp
qed

lemma ps_recv_enabled:
  assumes ok: "spec_ok L" and L: "ls_id L = i" "ls_p L \<noteq> ls_q L"
    and I: "lane_inv pw pm it (recved_iter ps i) ts dn w up"
    and D: "lane_data pw F L mrd mru (recved_iter ps i) ts ps dn w up"
    and R: "server_ready (lk_sv up)" and g: "recved_iter ps i + 2 \<le> buf_recv_counter (lk_sv up)"
  shows "\<exists>ps' c'. ps_rdma_recvTd i ps (lk_sv up) = Inr (ps', c') \<and>
     recved_iter ps' i = recved_iter ps i + 1"
proof -
  have "ps_recv_ready i ps (lk_sv up)" using R g by (simp add: ps_recv_ready_def server_ready_def)
  from ps_recv_value[OF ok L I D this] show ?thesis by (auto simp: ps_received_def Let_def)
qed

lemma wk_recv_enabled:
  assumes ok: "spec_ok L" and I: "lane_inv pw pm it ri ts dn w up"
    and D: "lane_data pw F L mrd mru ri ts ps dn w up"
    and R: "server_ready (lk_sv dn)" and m: "room_for_message L w"
    and g: "recved_age w + 2 \<le> buf_recv_counter (lk_sv dn)"
  shows "\<exists>w' c'. wk_rdma_recvTd w (lk_sv dn) = Inr (w', c') \<and> recved_age w' = recved_age w + 1"
proof -
  have rdy: "wk_recv_ready w (lk_sv dn)" using R g by (simp add: wk_recv_ready_def server_ready_def)
  from wk_recv_message[OF I D this] obtain P Q where
    rd: "read_blocks (sc_buffer (lk_sv dn)) = Inr ((P, fst (lane_ref F L (nat (wk_iter_t w)))),
       (Q, snd (lane_ref F L (nat (wk_iter_t w)))))" and
    hd: "hdr L (ls_hp L) (ls_sp L) P" "hdr L (ls_hq L) (ls_sq L) Q" by blast
  have "0 \<le> ele_num P" "0 \<le> ele_num Q" using hd ok by (auto simp: hdr_def spec_ok_def K_dim_def)
  moreover have "8 * nat (ele_num P) + 8 * nat (ele_num Q) \<le> h_avail (wk_heap w)"
    using m hd by (simp add: room_for_message_def hdr_def)
  ultimately show ?thesis
    using wk_recv_ok[OF rdy rd] by (auto simp: wk_received_def Let_def)
qed

lemma wk_send_enabled:
  assumes ok: "spec_ok L" "lane_fits L" and I: "lane_inv pw pm it ri ts dn w up" and it: "it \<le> 1200"
    and D: "lane_data pw F L mrd mru ri ts ps dn w up" and R: "client_ready (lk_cl up)"
    and g: "to_send_age w = wk_completed_iter w"
  shows "\<exists>w' c'. wk_rdma_sendTd w (lk_cl up) = Inr (w', c') \<and>
     to_send_age w' = to_send_age w + 1 \<and> can_send c'"
proof -
  note c = lane_chain[OF I]
  have mem: "worker_memory w" using D by (simp add: lane_data_def)
  then have "0 \<le> recved_age w" using g c by (auto simp: worker_memory_def)
  then have h: "wk_holds F L w (nat (wk_iter_t w))" using D by (simp add: lane_data_def)
  have bnd: "a < 2 ^ 64" if "h_arr (wk_heap w) a \<noteq> None" for a
    using worker_addresses[OF mem _ that] c it by linarith
  obtain m len where "pack_blocks (wk_heap w) (Pblock w) (Qblock w) (cc_buffer (lk_cl up)) = Inr (m, len)"
    using pack_enabled[OF ok, of "Pblock w" "wk_heap w" F "nat (wk_iter_t w)" "Qblock w"
        "cc_buffer (lk_cl up)"] h bnd[of "eles (Pblock w)"] bnd[of "eles (Qblock w)"]
    by (auto simp: wk_holds_def holds_arrs_def)
  then have "wk_rdma_sendTd w (lk_cl up) = Inr (w\<lparr>to_send_age := to_send_age w + 1\<rparr>,
      (lk_cl up)\<lparr>cc_buffer := m, cc_buf_len := len, can_send := True\<rparr>)"
    using R g by (intro wk_send_ok) (auto simp: client_ready_def wk_CanSend_def)
  then show ?thesis by simp
qed

lemma ps_main_enabled:
  assumes "\<forall>i<nat (worker_num st). ps_iter_t st \<le> recved_iter st i + 1"
  shows "\<exists>st'. (ps_main_pass st = Running st' \<or> ps_main_pass st = Exited 0 st') \<and>
     ps_iter_t st' = ps_iter_t st + 1"
  using assms by (auto simp: ps_main_pass_def CanMerge_iff Let_def)

section \<open>Progress\<close>

lemma set_neq:
  "l' \<noteq> cl_down s i \<Longrightarrow> set_down i l' s \<noteq> s"
  "l' \<noteq> cl_up s i \<Longrightarrow> set_up i l' s \<noteq> s"
proof -
  have "cl_down (set_down i l' s) i = l'" "cl_up (set_up i l' s) i = l'" by (simp_all add: set_defs)
  then show "l' \<noteq> cl_down s i \<Longrightarrow> set_down i l' s \<noteq> s" "l' \<noteq> cl_up s i \<Longrightarrow> set_up i l' s \<noteq> s"
    by force+
qed

lemma counter_moves: "R s t \<Longrightarrow> (f t :: int) = f s + 1 \<Longrightarrow> \<exists>t. R s t \<and> t \<noteq> s"
  by (intro exI[of _ t]) auto

lemma lane_moves:
  assumes F: "rc_fabric Fb pw pm" "rc_live Fb pw pm" and S: "system_inv pw pm F Ls s"
    and x: "cl_exit s = None" and i: "i < lanes s" and ok: "lane_fits (Ls i)"
    and m: "room_for_message (Ls i) (cl_wk s i)" and L: "\<not> lane_lost s i"
    and behind: "ps_iter_t (cl_ps s) = recved_iter (cl_ps s) i + 2"
  shows "\<exists>t. cluster_step Fb F (\<lambda>i. ls_rnd (Ls i)) s t \<and> t \<noteq> s"
proof -
  let ?R = "cluster_step Fb F (\<lambda>i. ls_rnd (Ls i))"
  let ?ps = "cl_ps s" and ?dn = "cl_down s i" and ?w = "cl_wk s i" and ?up = "cl_up s i"
  have I: "cluster_inv pw pm s" and D: "cluster_data pw F Ls s" and sp: "specs_ok Ls (lanes s)"
    and R: "lane_ready (recved_iter ?ps i) ?dn ?w ?up"
    using S i by (auto simp: system_inv_def cluster_ready_def)
  note lane = cluster_inv_lane[OF I i] and ix = cluster_data_lane[OF D i] and spec = specs_lane[OF sp i]
  note c = lane_chain[OF lane]
  obtain mrd mru where d: "lane_data pw F (Ls i) mrd mru (recved_iter ?ps i) (to_send_iter ?ps i) ?ps ?dn ?w ?up"
    using D i by (auto simp: cluster_data_def)
  have it: "ps_completed_iter ?ps = ps_iter_t ?ps - 1" "ps_iter_t ?ps \<le> 1200"
    using I by (auto simp: cluster_inv_def)
  have li: "link_inv pw pm ?dn" "link_inv pw pm ?up" using lane by (simp_all add: lane_inv_def)
  have rdy: "client_ready (lk_cl ?dn)" "client_ready (lk_cl ?up)" "server_ready (lk_sv ?dn)"
    "server_ready (lk_sv ?up)" "link_ready ?dn" "link_ready ?up"
    using R by (simp_all add: lane_ready_def link_ready_def)
  have lost: "to_send_iter ?ps i \<le> link_claims ?dn" "to_send_age ?w \<le> link_claims ?up"
    using L by (auto simp: lane_lost_def)
  have dn: "\<exists>t. ?R s t \<and> t \<noteq> s" if "\<exists>l'. link_step Fb ?dn l' \<and> l' \<noteq> ?dn"
    using that cluster_step.down_link[OF x i] set_neq(1) by blast
  have up: "\<exists>t. ?R s t \<and> t \<noteq> s" if "\<exists>l'. link_step Fb ?up l' \<and> l' \<noteq> ?up"
    using that cluster_step.up_link[OF x i] set_neq(2) by blast
  consider (main) "recved_iter ?ps i + 2 \<le> buf_recv_counter (lk_sv ?up)"
    | (up_transfer) "buf_recv_counter (lk_sv ?up) < link_posts ?up"
    | (up_fill) "link_posts ?up < link_claims ?up" "buf_recv_counter (lk_sv ?up) = link_posts ?up"
    | (send) "to_send_age ?w < wk_iter_t ?w"
    | (compute) "wk_iter_t ?w \<le> recved_age ?w"
    | (recv) "recved_age ?w + 2 \<le> buf_recv_counter (lk_sv ?dn)"
    | (dn_transfer) "buf_recv_counter (lk_sv ?dn) < link_posts ?dn"
    | (dn_fill) "link_posts ?dn < link_claims ?dn" "buf_recv_counter (lk_sv ?dn) = link_posts ?dn"
    | (ps) "to_send_iter ?ps i < ps_iter_t ?ps"
    using c lost behind by linarith
  then show ?thesis
  proof cases
    case main
    from ps_recv_enabled[OF _ _ _ lane d rdy(4) this] spec obtain ps' c' where
      r: "ps_rdma_recvTd i ?ps (lk_sv ?up) = Inr (ps', c')" "recved_iter ps' i = recved_iter ?ps i + 1"
      by blast
    show ?thesis
      using r(2) by (intro counter_moves[where f = "\<lambda>s. recved_iter (cl_ps s) i"])
        (rule cluster_step.ps_recv[OF x i r(1)], simp add: set_defs)
  next
    case up_transfer
    from transfer_moves[OF F(2) li(2) rdy(6) this] show ?thesis by (rule up)
  next
    case up_fill
    have "can_recv (lk_sv ?up)" if "lk_spc ?up \<noteq> SIdle"
    proof -
      have "0 < buf_recv_counter (lk_sv ?up)"
        using d that by (simp add: lane_data_def link_data_def link_region_def)
      then have "0 \<le> recved_iter ?ps i" using c up_fill behind by linarith
      then show ?thesis using R by (simp add: lane_ready_def)
    qed
    from fill_moves[OF F li(2) rdy(6) up_fill this] show ?thesis by (rule up)
  next
    case send
    then have "to_send_age ?w = wk_completed_iter ?w" using c behind by linarith
    from wk_send_enabled[OF _ ok lane it(2) d rdy(2) this] spec obtain w' c' where
      r: "wk_rdma_sendTd ?w (lk_cl ?up) = Inr (w', c')" "to_send_age w' = to_send_age ?w + 1" by blast
    show ?thesis
      using r(2) by (intro counter_moves[where f = "\<lambda>s. to_send_age (cl_wk s i)"])
        (rule cluster_step.wk_send[OF i r(1)], simp add: set_defs)
  next
    case compute
    from wk_main_value[OF _ d this] spec obtain w' where
      r: "wk_main_pass F (ls_rnd (Ls i)) ?w = Inr w'" "wk_iter_t w' = wk_iter_t ?w + 1" by auto
    show ?thesis
      using r(2) by (intro counter_moves[where f = "\<lambda>s. wk_iter_t (cl_wk s i)"])
        (rule cluster_step.wk_main[where rnd = "\<lambda>i. ls_rnd (Ls i)", OF i r(1)], simp add: set_defs)
  next
    case recv
    from wk_recv_enabled[OF _ lane d rdy(3) m this] spec obtain w' c' where
      r: "wk_rdma_recvTd ?w (lk_sv ?dn) = Inr (w', c')" "recved_age w' = recved_age ?w + 1" by blast
    show ?thesis
      using r(2) by (intro counter_moves[where f = "\<lambda>s. recved_age (cl_wk s i)"])
        (rule cluster_step.wk_recv[OF i r(1)], simp add: set_defs)
  next
    case dn_transfer
    from transfer_moves[OF F(2) li(1) rdy(5) this] show ?thesis by (rule dn)
  next
    case dn_fill
    have "can_recv (lk_sv ?dn)" if "lk_spc ?dn \<noteq> SIdle"
    proof -
      have "0 < buf_recv_counter (lk_sv ?dn)"
        using d that by (simp add: lane_data_def link_data_def link_region_def)
      then have "0 \<le> recved_age ?w" using c dn_fill behind by linarith
      then show ?thesis using R by (simp add: lane_ready_def)
    qed
    from fill_moves[OF F li(1) rdy(5) dn_fill this] show ?thesis by (rule dn)
  next
    case ps
    then have "to_send_iter ?ps i \<le> ps_completed_iter ?ps" "ps_completed_iter ?ps \<le> 1200" using it by auto
    from ps_send_enabled[OF _ ok _ _ _ d rdy(1) this] spec ix obtain ps' c' where
      r: "ps_rdma_sendTd i ?ps (lk_cl ?dn) = Inr (ps', c')" "to_send_iter ps' i = to_send_iter ?ps i + 1"
      by blast
    show ?thesis
      using r(2) by (intro counter_moves[where f = "\<lambda>s. to_send_iter (cl_ps s) i"])
        (rule cluster_step.ps_send[OF x i r(1)], simp add: set_defs)
  qed
qed

lemma system_moves:
  assumes F: "rc_fabric Fb pw pm" "rc_live Fb pw pm" and S: "system_inv pw pm F Ls s"
    and x: "cl_exit s = None"
    and l: "\<forall>i<lanes s. lane_fits (Ls i) \<and> room_for_message (Ls i) (cl_wk s i) \<and> \<not> lane_lost s i"
  shows "\<exists>t. cluster_step Fb F (\<lambda>i. ls_rnd (Ls i)) s t \<and> t \<noteq> s"
proof (cases "\<exists>i<lanes s. ps_iter_t (cl_ps s) = recved_iter (cl_ps s) i + 2")
  case True
  then show ?thesis using lane_moves[OF F S x] l by blast
next
  case False
  have "ps_iter_t (cl_ps s) \<le> recved_iter (cl_ps s) i + 1" if "i < lanes s" for i
    using False that lane_chain(13)[OF cluster_inv_lane[of pw pm s i]] S unfolding system_inv_def
    by fastforce
  then obtain st' where "ps_main_pass (cl_ps s) = Running st' \<or> ps_main_pass (cl_ps s) = Exited 0 st'"
    and n: "ps_iter_t st' = ps_iter_t (cl_ps s) + 1"
    using ps_main_enabled[of "cl_ps s"] by (auto simp: lanes_def)
  then show ?thesis
  proof (elim disjE)
    assume "ps_main_pass (cl_ps s) = Running st'"
    show ?thesis
      using n by (intro counter_moves[where f = "\<lambda>s. ps_iter_t (cl_ps s)"])
        (rule cluster_step.ps_main[OF x \<open>ps_main_pass (cl_ps s) = Running st'\<close>], simp)
  next
    assume "ps_main_pass (cl_ps s) = Exited 0 st'"
    show ?thesis
      using n by (intro counter_moves[where f = "\<lambda>s. ps_iter_t (cl_ps s)"])
        (rule cluster_step.ps_exit[OF x \<open>ps_main_pass (cl_ps s) = Exited 0 st'\<close>], simp)
  qed
qed

end
