(* ===== verification/Server_Setup.thy ===== *)
theory Server_Setup
  imports Param_Server
begin

text \<open>
  What \<open>main\<close> of the parameter server has established when its iteration loop starts: the counters
  of the lanes, the blocks of both matrices with arrays of their own, and the initial values
  \<open>i * 0.1\<close> and \<open>i * 0.1 + 1\<close> in them.
\<close>

section \<open>The loops\<close>

lemma ps_worker_init_loop:
  assumes "W \<le> CAP"
  shows "for_up ps_worker_init 0 W st =
     Inr (st\<lparr>recved_iter := (\<lambda>i. if i < W then - 1 else recved_iter st i),
             to_send_iter := (\<lambda>i. if i < W then 0 else to_send_iter st i),
             worker_qidx := (\<lambda>i. if i < W then int i else worker_qidx st i),
             worker_pidx := (\<lambda>i. if i < W then int i else worker_pidx st i)\<rparr>)"
proof -
  let ?I = "\<lambda>j s. s = st\<lparr>recved_iter := (\<lambda>i. if i < j then - 1 else recved_iter st i),
             to_send_iter := (\<lambda>i. if i < j then 0 else to_send_iter st i),
             worker_qidx := (\<lambda>i. if i < j then int i else worker_qidx st i),
             worker_pidx := (\<lambda>i. if i < j then int i else worker_pidx st i)\<rparr>"
  have "\<exists>s. for_up ps_worker_init 0 W st = Inr s \<and> ?I (0 + W) s"
  proof (rule for_up_inv)
    fix j s
    assume "0 \<le> j" "j < 0 + W" "?I j s"
    then show "\<exists>s'. ps_worker_init j s = Inr s' \<and> ?I (Suc j) s'"
      using assms by (auto simp: ps_worker_init_def fun_eq_iff less_Suc_eq)
  qed simp
  then show ?thesis by simp
qed

lemma ps_fill_ok:
  assumes "h_arr h p = Some xs" and "int (length xs) = n"
  shows "ps_fill p n v h = Inr (h\<lparr>h_arr := (h_arr h)(p \<mapsto> replicate (nat n) v)\<rparr>)"
proof -
  let ?I = "\<lambda>j g. g = h\<lparr>h_arr := (h_arr h)(p \<mapsto> replicate j v @ drop j xs)\<rparr>"
  have "\<exists>g. for_up (\<lambda>j g. heap_set g p (int j) v) 0 (nat n) h = Inr g \<and> ?I (0 + nat n) g"
  proof (rule for_up_inv)
    fix j g
    assume j: "0 \<le> j" "j < 0 + nat n" and g: "?I j g"
    have l: "j < length xs" using j assms by simp
    have "(replicate j v @ drop j xs)[j := v] = replicate (Suc j) v @ drop (Suc j) xs"
      using l by (intro nth_equalityI) (auto simp: nth_append nth_list_update nth_Cons' replicate_app_Cons_same less_Suc_eq)
    moreover have "heap_set g p (int j) v =
        Inr (g\<lparr>h_arr := (h_arr g)(p \<mapsto> (replicate j v @ drop j xs)[j := v])\<rparr>)"
      using g l by (simp add: heap_set_def arr_set_ok)
    ultimately show "\<exists>g'. heap_set g p (int j) v = Inr g' \<and> ?I (Suc j) g'" using g by simp
  next
    have "(h_arr h)(p \<mapsto> xs) = h_arr h" using assms(1) by (auto simp: fun_eq_iff)
    then show "?I 0 h" by simp
  qed
  moreover have "drop (nat n) xs = []" using assms(2) by simp
  ultimately show ?thesis by (simp add: ps_fill_def)
qed

text \<open>The initial values of the blocks of worker \<open>i\<close>.\<close>

definition init_p :: "fp \<Rightarrow> nat \<Rightarrow> double" where
  "init_p F i = fp_mul F (fp_of_int F (int i)) lit_0_1"

definition init_q :: "fp \<Rightarrow> nat \<Rightarrow> double" where
  "init_q F i = fp_add F (init_p F i) lit_1_0"

text \<open>The arrays of the blocks below \<open>W\<close>: one per block, of the announced sizes.\<close>

definition blocks_apart :: "nat \<Rightarrow> (nat \<Rightarrow> Block) \<Rightarrow> (nat \<Rightarrow> Block) \<Rightarrow> bool" where
  "blocks_apart W Ps Qs \<longleftrightarrow>
     (\<forall>i<W. \<forall>j<W. eles (Ps i) \<noteq> eles (Qs j) \<and>
        (i \<noteq> j \<longrightarrow> eles (Ps i) \<noteq> eles (Ps j) \<and> eles (Qs i) \<noteq> eles (Qs j)))"

definition filled :: "fp \<Rightarrow> nat \<Rightarrow> heap \<Rightarrow> Block \<Rightarrow> Block \<Rightarrow> bool" where
  "filled F i h P Q \<longleftrightarrow>
     h_arr h (eles P) = Some (replicate (nat (ele_num P)) (init_p F i)) \<and>
     h_arr h (eles Q) = Some (replicate (nat (ele_num Q)) (init_q F i))"

definition fill_inv :: "fp \<Rightarrow> nat \<Rightarrow> ps_state \<Rightarrow> nat \<Rightarrow> ps_state \<Rightarrow> bool" where
  "fill_inv F W st j s \<longleftrightarrow>
     s = st\<lparr>ps_heap := ps_heap s\<rparr> \<and>
     (\<forall>i<j. filled F i (ps_heap s) (Pblocks st i) (Qblocks st i)) \<and>
     (\<forall>i<W. block_sized (ps_heap s) (Pblocks st i) \<and> block_sized (ps_heap s) (Qblocks st i))"

lemma ps_fill_worker_step:
  assumes a: "blocks_apart W (Pblocks st) (Qblocks st)" and W: "W \<le> CAP" and j: "j < W"
    and I: "fill_inv F W st j s"
  shows "\<exists>s'. ps_fill_worker F j s = Inr s' \<and> fill_inv F W st (Suc j) s'"
proof -
  let ?P = "Pblocks st j" and ?Q = "Qblocks st j"
  have s: "s = st\<lparr>ps_heap := ps_heap s\<rparr>"
    and sz: "block_sized (ps_heap s) ?P" "block_sized (ps_heap s) ?Q"
    using I j by (auto simp: fill_inv_def)
  obtain xs ys where x: "h_arr (ps_heap s) (eles ?P) = Some xs" "int (length xs) = ele_num ?P"
    and y: "h_arr (ps_heap s) (eles ?Q) = Some ys" "int (length ys) = ele_num ?Q"
    using sz by (auto simp: block_sized_def)
  let ?h1 = "(ps_heap s)\<lparr>h_arr := (h_arr (ps_heap s))(eles ?P \<mapsto> replicate (nat (ele_num ?P)) (init_p F j))\<rparr>"
  let ?h2 = "?h1\<lparr>h_arr := (h_arr ?h1)(eles ?Q \<mapsto> replicate (nat (ele_num ?Q)) (init_q F j))\<rparr>"
  have n: "0 \<le> ele_num ?P" "0 \<le> ele_num ?Q" using x(2) y(2) by linarith+
  have d: "eles ?P \<noteq> eles ?Q" using a j by (simp add: blocks_apart_def)
  have "ps_fill (eles ?P) (ele_num ?P) (init_p F j) (ps_heap s) = Inr ?h1"
    using ps_fill_ok[OF x] by simp
  moreover have "ps_fill (eles ?Q) (ele_num ?Q) (init_q F j) ?h1 = Inr ?h2"
    using ps_fill_ok[of ?h1 "eles ?Q" ys "ele_num ?Q" "init_q F j"] y d by simp
  moreover have "Pblocks s = Pblocks st" "Qblocks s = Qblocks st" by (subst s, simp)+
  ultimately have r: "ps_fill_worker F j s = Inr (s\<lparr>ps_heap := ?h2\<rparr>)"
    using W j by (simp add: ps_fill_worker_def init_p_def init_q_def Let_def)
  have "filled F i ?h2 (Pblocks st i) (Qblocks st i)" if "i < Suc j" for i
  proof (cases "i = j")
    case True
    then show ?thesis using d by (simp add: filled_def)
  next
    case False
    then have "i < j" "i < W" using that j by simp_all
    moreover have "filled F i (ps_heap s) (Pblocks st i) (Qblocks st i)"
      using I \<open>i < j\<close> by (simp add: fill_inv_def)
    moreover have "eles (Pblocks st i) \<noteq> eles ?P" "eles (Pblocks st i) \<noteq> eles ?Q"
      "eles (Qblocks st i) \<noteq> eles ?P" "eles (Qblocks st i) \<noteq> eles ?Q"
      using a j False \<open>i < W\<close> unfolding blocks_apart_def by metis+
    ultimately show ?thesis by (simp add: filled_def)
  qed
  moreover have "block_sized ?h2 (Pblocks st i) \<and> block_sized ?h2 (Qblocks st i)" if i: "i < W" for i
  proof (cases "i = j")
    case True
    then show ?thesis using d n by (simp add: block_sized_def)
  next
    case False
    have "eles (Pblocks st i) \<noteq> eles ?P" "eles (Pblocks st i) \<noteq> eles ?Q"
      "eles (Qblocks st i) \<noteq> eles ?P" "eles (Qblocks st i) \<noteq> eles ?Q"
      using a j False i unfolding blocks_apart_def by metis+
    then show ?thesis using I i by (simp add: fill_inv_def block_sized_def)
  qed
  moreover have "s\<lparr>ps_heap := g\<rparr> = st\<lparr>ps_heap := g\<rparr>" for g by (subst s) simp
  ultimately have "fill_inv F W st (Suc j) (s\<lparr>ps_heap := ?h2\<rparr>)"
    unfolding fill_inv_def by (intro conjI) simp_all
  then show ?thesis using r by blast
qed

lemma ps_fill_workers:
  assumes "blocks_apart W (Pblocks st) (Qblocks st)" and "W \<le> CAP"
    and "\<forall>i<W. block_sized (ps_heap st) (Pblocks st i) \<and> block_sized (ps_heap st) (Qblocks st i)"
  shows "\<exists>s. for_up (ps_fill_worker F) 0 W st = Inr s \<and> fill_inv F W st W s"
  using for_up_inv[of 0 W "fill_inv F W st" "ps_fill_worker F" st]
    ps_fill_worker_step[OF assms(1,2)] assms(3)
  by (auto simp: fill_inv_def)

section \<open>The whole setup\<close>

definition setup_ok :: "int \<Rightarrow> int \<Rightarrow> int \<Rightarrow> int \<Rightarrow> nat \<Rightarrow> bool" where
  "setup_ok n m k W bytes \<longleftrightarrow>
     part_sizes_ok n k W \<and> part_sizes_ok m k W \<and> 8 * nat (n * k) + 8 * nat (m * k) \<le> bytes"

text \<open>The block of row range \<open>i\<close> of a matrix with \<open>rc\<close> rows cut for \<open>W\<close> workers.\<close>

definition setup_block :: "int \<Rightarrow> int \<Rightarrow> int \<Rightarrow> nat \<Rightarrow> Block \<Rightarrow> bool" where
  "setup_block rc k W i b \<longleftrightarrow> part_header rc k (part_hgt rc W) i b"

lemma ps_main_setup_ok:
  assumes ok: "setup_ok n m k (atoi a) bytes"
  shows "\<exists>st. ps_main_setup n m k F [a] (ps_globals bytes) = Inr st \<and>
     worker_num st = atoi a \<and> ps_iter_t st = 0 \<and> ps_completed_iter st = - 1 \<and>
     (\<forall>i. int i < atoi a \<longrightarrow> recved_iter st i = - 1 \<and> to_send_iter st i = 0 \<and>
        worker_pidx st i = int i \<and> worker_qidx st i = int i \<and>
        setup_block n k (atoi a) i (Pblocks st i) \<and> setup_block m k (atoi a) i (Qblocks st i) \<and>
        eles (Pblocks st i) = 1 + i \<and> eles (Qblocks st i) = 1 + nat (atoi a) + i \<and>
        filled F i (ps_heap st) (Pblocks st i) (Qblocks st i))"
proof -
  let ?W = "nat (atoi a)" and ?g = "ps_globals bytes"
  have n: "part_sizes_ok n k (atoi a)" and m: "part_sizes_ok m k (atoi a)"
    and b: "8 * nat (n * k) + 8 * nat (m * k) \<le> bytes" using ok by (simp_all add: setup_ok_def)
  have W: "1 \<le> atoi a" "?W \<le> CAP" "\<And>i. int i < atoi a \<longleftrightarrow> i < ?W"
    using n by (auto simp: part_sizes_ok_def)
  define st1 where "st1 = ps_main_args [a] (ps_ports ?g)"
  define st2 where "st2 = st1\<lparr>recved_iter := (\<lambda>i. if i < ?W then - 1 else recved_iter st1 i),
             to_send_iter := (\<lambda>i. if i < ?W then 0 else to_send_iter st1 i),
             worker_qidx := (\<lambda>i. if i < ?W then int i else worker_qidx st1 i),
             worker_pidx := (\<lambda>i. if i < ?W then int i else worker_pidx st1 i)\<rparr>"
  have w: "worker_num st1 = atoi a" "worker_num st2 = atoi a" "ps_heap st2 = fresh_heap bytes"
    "ps_completed_iter st2 = - 1"
    by (simp_all add: st1_def st2_def ps_main_args_def ps_ports_def ps_globals_def)
  have l1: "for_up ps_worker_init 0 ?W st1 = Inr st2"
    using ps_worker_init_loop[OF W(2)] by (simp add: st2_def)
  have fh: "h_avail (fresh_heap bytes) = bytes" "h_next (fresh_heap bytes) = 1"
    by (simp_all add: fresh_heap_def)
  obtain Ps h1 where p: "partitionBlock n k (atoi a) (Pblocks st2) (fresh_heap bytes) = Inr (Ps, h1)"
    and pm: "\<forall>i. int i < atoi a \<longrightarrow> eles (Ps i) = h_next (fresh_heap bytes) + i \<and> block_sized h1 (Ps i)"
    and pn: "h_next h1 = h_next (fresh_heap bytes) + ?W"
      "h_avail h1 + 8 * nat (n * k) = h_avail (fresh_heap bytes)"
    using partition_memory[OF n, of "fresh_heap bytes" "Pblocks st2"] b fh(1) by auto
  have ph: "part_header n k (part_hgt n (atoi a)) i (Ps i)" if "int i < atoi a" for i
    using partition_headers[OF n, of "Pblocks st2" "fresh_heap bytes"] p that by fastforce
  have "8 * nat (m * k) \<le> h_avail h1" using pn(2) fh(1) b by linarith
  then obtain Qs h2 where q: "partitionBlock m k (atoi a) (Qblocks st2) h1 = Inr (Qs, h2)"
    and qm: "\<forall>i. int i < atoi a \<longrightarrow> eles (Qs i) = h_next h1 + i \<and> block_sized h2 (Qs i)"
    and qk: "\<forall>x<h_next h1. h_arr h2 x = h_arr h1 x"
    using partition_memory[OF m, of h1 "Qblocks st2"] by auto
  have qh: "part_header m k (part_hgt m (atoi a)) i (Qs i)" if "int i < atoi a" for i
    using partition_headers[OF m, of "Qblocks st2" h1] q that by fastforce
  define st3 where "st3 = st2\<lparr>Pblocks := Ps, Qblocks := Qs, ps_heap := h2\<rparr>"
  have e: "eles (Ps i) = 1 + i" "eles (Qs i) = 1 + ?W + i" if "i < ?W" for i
    using pm qm pn(1) fh(2) that by (simp_all add: W(3))
  have "blocks_apart ?W (Pblocks st3) (Qblocks st3)" using e by (auto simp: blocks_apart_def st3_def)
  moreover have "block_sized h2 (Ps i) \<and> block_sized h2 (Qs i)" if "i < ?W" for i
  proof -
    have "eles (Ps i) < h_next h1" using e(1)[OF that] pn(1) fh(2) that by simp
    then have "h_arr h2 (eles (Ps i)) = h_arr h1 (eles (Ps i))" using qk by blast
    moreover have "block_sized h1 (Ps i)" "block_sized h2 (Qs i)" using pm qm that W(3) by blast+
    ultimately show ?thesis by (simp add: block_sized_def)
  qed
  ultimately obtain s where s: "for_up (ps_fill_worker F) 0 ?W st3 = Inr s" "fill_inv F ?W st3 ?W s"
    using ps_fill_workers[of ?W st3 F] W(2) by (auto simp: st3_def)
  have s3: "s = st3\<lparr>ps_heap := ps_heap s\<rparr>" "\<forall>i<?W. filled F i (ps_heap s) (Ps i) (Qs i)"
    using s(2) by (auto simp: fill_inv_def st3_def)
  have f: "worker_num s = atoi a" "Pblocks s = Ps" "Qblocks s = Qs" "ps_completed_iter s = - 1"
    "recved_iter s = recved_iter st2" "to_send_iter s = to_send_iter st2"
    "worker_pidx s = worker_pidx st2" "worker_qidx s = worker_qidx st2"
    by (subst s3(1), simp add: st3_def w)+
  have "ps_main_setup n m k F [a] ?g = Inr (s\<lparr>ps_iter_t := 0\<rparr>)"
    using l1 p q s(1) w by (simp add: ps_main_setup_def Let_def flip: st1_def st3_def)
  then show ?thesis
    using f s3(2) ph qh e by (auto simp: W(3) setup_block_def st2_def)
qed

end
