(* ===== verification/System.thy ===== *)
theory System
  imports Progress Server_Setup
begin

text \<open>
  The system as the programs start it: the server has run \<open>main\<close> up to its iteration loop with the
  number of workers as its argument, each worker has run \<open>main\<close> up to its loop, and the connections
  are established. Such a system satisfies the start conditions of the invariants of \<open>Cluster\<close>,
  \<open>Dataflow\<close> and \<open>Progress\<close>.
\<close>

section \<open>The lanes of a partition\<close>

definition setup_spec ::
    "fp \<Rightarrow> int \<Rightarrow> int \<Rightarrow> int \<Rightarrow> (nat \<Rightarrow> nat \<Rightarrow> int) \<Rightarrow> nat \<Rightarrow> lane_spec" where
  "setup_spec F n m W rnd i =
     (let hp = part_rows n (part_hgt n W) i; hq = part_rows m (part_hgt m W) i in
      \<lparr>ls_id = i, ls_hp = hp, ls_hq = hq, ls_sp = int i * part_hgt n W, ls_sq = int i * part_hgt m W,
       ls_p = 1 + i, ls_q = 1 + nat W + i,
       ls_init = (replicate (nat (hp * K_dim)) (init_p F i), replicate (nat (hq * K_dim)) (init_q F i)),
       ls_rnd = rnd i\<rparr>)"

text \<open>Every worker has at least one row of each matrix.\<close>

definition no_empty_block :: "int \<Rightarrow> int \<Rightarrow> int \<Rightarrow> bool" where
  "no_empty_block n m W \<longleftrightarrow>
     (\<forall>i<nat W. 0 < part_rows n (part_hgt n W) i \<and> 0 < part_rows m (part_hgt m W) i)"

lemma part_rows_int32:
  assumes "part_sizes_ok rc K_dim W" and "i < nat W"
  shows "in_int32 (part_rows rc (part_hgt rc W) i * K_dim)" and "in_int32 (int i * part_hgt rc W)"
proof -
  have b: "0 \<le> rc" "1 \<le> W" "in_int32 (rc + W)" "in_int32 (part_hgt rc W * K_dim)"
    using assms(1) by (auto simp: part_sizes_ok_def)
  note h = part_hgt_bounds[OF b(1,2)]
  have "part_rows rc (part_hgt rc W) i * K_dim \<le> part_hgt rc W * K_dim"
    using part_rows_bounds(2)[OF b(1) h(1)] by (intro mult_right_mono) (auto simp: K_dim_def)
  moreover have "0 \<le> part_rows rc (part_hgt rc W) i * K_dim"
    using part_rows_bounds(1)[OF b(1) h(1)] by (simp add: K_dim_def)
  ultimately show "in_int32 (part_rows rc (part_hgt rc W) i * K_dim)" using b by (auto simp: int32_defs)
  have "int i * part_hgt rc W \<le> W * part_hgt rc W" using assms(2) h(1) by (intro mult_right_mono) auto
  moreover have "0 \<le> int i * part_hgt rc W" using h(1) by simp
  ultimately show "in_int32 (int i * part_hgt rc W)" using b h(2) by (auto simp: int32_defs)
qed

lemma setup_specs_ok:
  assumes "part_sizes_ok n K_dim W" "part_sizes_ok m K_dim W" and "no_empty_block n m W"
    and "\<forall>i j. 0 \<le> rnd i j"
  shows "specs_ok (setup_spec F n m W rnd) (nat W)"
proof -
  have W: "nat W \<le> CAP" using assms(1) unfolding part_sizes_ok_def by linarith
  have "spec_ok (setup_spec F n m W rnd i)" if i: "i < nat W" for i
    using assms(3,4) i W part_rows_int32[OF assms(1) i] part_rows_int32[OF assms(2) i]
    by (auto simp: spec_ok_def setup_spec_def no_empty_block_def Let_def K_dim_def CAP_def)
  then show ?thesis by (auto simp: specs_ok_def setup_spec_def Let_def)
qed

section \<open>Deployment\<close>

definition deployed ::
    "('w \<Rightarrow> send_wr list) \<Rightarrow> ('w \<Rightarrow> send_wr list) \<Rightarrow> fp \<Rightarrow> int \<Rightarrow> int \<Rightarrow> string \<Rightarrow> nat \<Rightarrow>
     'w cluster \<Rightarrow> bool" where
  "deployed pw pm F n m a bytes s \<longleftrightarrow>
     ps_main_setup n m K_dim F [a] (ps_globals bytes) = Inr (cl_ps s) \<and> cl_exit s = None \<and>
     (\<forall>i<lanes s. (\<exists>args mem. wk_main_setup args (wk_globals mem) = Inr (cl_wk s i)) \<and>
        link_start pw pm (cl_down s i) \<and> link_start pw pm (cl_up s i) \<and>
        link_ready (cl_down s i) \<and> link_ready (cl_up s i))"

lemma wk_setup_fresh:
  assumes "wk_main_setup args (wk_globals mem) = Inr w"
  shows "wk_fresh w \<and> wk_heap w = fresh_heap mem \<and> wk_rnd_pos w = 0"
  using assms
  by (auto simp: wk_main_setup_def wk_ports_def wk_globals_def wk_fresh_def Let_def split: list.splits)

lemma deployed_lanes:
  assumes "setup_ok n m K_dim (atoi a) bytes" and "deployed pw pm F n m a bytes s"
  shows "lanes s = nat (atoi a)"
  using ps_main_setup_ok[OF assms(1), of F] assms(2) by (auto simp: deployed_def lanes_def)

lemma deployed_start:
  assumes ok: "setup_ok n m K_dim (atoi a) bytes" and ne: "no_empty_block n m (atoi a)"
    and rnd: "\<forall>i j. 0 \<le> rnd i j" and D: "deployed pw pm F n m a bytes s"
  shows "system_start pw pm F (setup_spec F n m (atoi a) rnd) s"
proof -
  let ?Ls = "setup_spec F n m (atoi a) rnd"
  have l: "lanes s = nat (atoi a)" using deployed_lanes[OF ok D] .
  have i: "int i < atoi a \<longleftrightarrow> i < lanes s" for i using l by linarith
  have ps: "worker_num (cl_ps s) = atoi a \<and> ps_iter_t (cl_ps s) = 0 \<and> ps_completed_iter (cl_ps s) = - 1 \<and>
     (\<forall>i<lanes s. recved_iter (cl_ps s) i = - 1 \<and> to_send_iter (cl_ps s) i = 0 \<and>
        worker_pidx (cl_ps s) i = int i \<and> worker_qidx (cl_ps s) i = int i \<and>
        setup_block n K_dim (atoi a) i (Pblocks (cl_ps s) i) \<and>
        setup_block m K_dim (atoi a) i (Qblocks (cl_ps s) i) \<and>
        eles (Pblocks (cl_ps s) i) = 1 + i \<and> eles (Qblocks (cl_ps s) i) = 1 + nat (atoi a) + i \<and>
        filled F i (ps_heap (cl_ps s)) (Pblocks (cl_ps s) i) (Qblocks (cl_ps s) i))"
    using ps_main_setup_ok[OF ok, of F] D by (auto simp: deployed_def i)
  have wk: "wk_fresh (cl_wk s i) \<and> heap_ok (wk_heap (cl_wk s i)) \<and> h_next (wk_heap (cl_wk s i)) = 1 \<and>
      wk_rnd_pos (cl_wk s i) = 0" if j: "i < lanes s" for i
  proof -
    obtain args mem where "wk_main_setup args (wk_globals mem) = Inr (cl_wk s i)"
      using D j unfolding deployed_def by blast
    from wk_setup_fresh[OF this] show ?thesis by (simp add: heap_ok_fresh) (simp add: fresh_heap_def)
  qed
  have "ps_holds F (?Ls i) (cl_ps s) 0" if "i < lanes s" for i
  proof -
    have "block_id (Pblocks (cl_ps s) i) = int i" "block_id (Qblocks (cl_ps s) i) = int i"
      using ps that by (auto simp: setup_block_def part_header_def)
    then show ?thesis
      using ps that
      by (auto simp: ps_holds_def setup_spec_def hdr_def Let_def setup_block_def part_header_def
          filled_def int32_defs)
  qed
  moreover have "specs_ok ?Ls (lanes s)"
    using setup_specs_ok[OF _ _ ne rnd] ok l by (simp add: setup_ok_def)
  moreover have "ps_fresh (cl_ps s)" using ps l by (simp add: ps_fresh_def lanes_def)
  ultimately show ?thesis
    using D wk by (auto simp: system_start_def cluster_start_def data_start_def links_ready_def deployed_def)
qed

text \<open>The facts about a reachable state of a deployed system.\<close>

lemma deployed_reach:
  assumes "rc_fabric Fb pw pm" and "setup_ok n m K_dim (atoi a) bytes" "no_empty_block n m (atoi a)"
    and "\<forall>i j. 0 \<le> rnd i j" "deployed pw pm F n m a bytes s0"
    and "(cluster_step Fb F rnd)\<^sup>*\<^sup>* s0 s"
  shows "system_inv pw pm F (setup_spec F n m (atoi a) rnd) s" and "lanes s = nat (atoi a)"
proof -
  have e: "(\<lambda>i. ls_rnd (setup_spec F n m (atoi a) rnd i)) = rnd"
    by (simp add: setup_spec_def Let_def)
  show "system_inv pw pm F (setup_spec F n m (atoi a) rnd) s"
    using cluster_system.inv_reach[OF deployed_start[OF assms(2-5)], of Fb s] assms(1,6)
    by (simp add: e)
  have "lanes s = lanes s0" using assms(6)
    by (induction rule: rtranclp_induct) (auto simp: cluster_step_lanes)
  then show "lanes s = nat (atoi a)" using deployed_lanes[OF assms(2,5)] by simp
qed

text \<open>
  A state \<open>s\<close> of a run: the network is a reliable connection, the sizes fit \<open>int\<close> and the server's
  memory, every worker has rows, \<open>random\<close> is not negative, and \<open>s\<close> is reached from a deployed system.
\<close>

definition system_run ::
    "'w fabric \<Rightarrow> ('w \<Rightarrow> send_wr list) \<Rightarrow> ('w \<Rightarrow> send_wr list) \<Rightarrow> fp \<Rightarrow> int \<Rightarrow> int \<Rightarrow> string \<Rightarrow> nat \<Rightarrow>
     (nat \<Rightarrow> nat \<Rightarrow> int) \<Rightarrow> 'w cluster \<Rightarrow> bool" where
  "system_run Fb pw pm F n m a bytes rnd s \<longleftrightarrow>
     rc_fabric Fb pw pm \<and> setup_ok n m K_dim (atoi a) bytes \<and> no_empty_block n m (atoi a) \<and>
     (\<forall>i j. 0 \<le> rnd i j) \<and>
     (\<exists>s0. deployed pw pm F n m a bytes s0 \<and> (cluster_step Fb F rnd)\<^sup>*\<^sup>* s0 s)"

lemma run_inv:
  assumes "system_run Fb pw pm F n m a bytes rnd s"
  shows "system_inv pw pm F (setup_spec F n m (atoi a) rnd) s" and "lanes s = nat (atoi a)"
    and "rc_fabric Fb pw pm" and "(\<lambda>i. ls_rnd (setup_spec F n m (atoi a) rnd i)) = rnd"
proof -
  have h: "rc_fabric Fb pw pm" "setup_ok n m K_dim (atoi a) bytes" "no_empty_block n m (atoi a)"
    "\<forall>i j. 0 \<le> rnd i j" using assms unfolding system_run_def by blast+
  obtain s0 where "deployed pw pm F n m a bytes s0" "(cluster_step Fb F rnd)\<^sup>*\<^sup>* s0 s"
    using assms unfolding system_run_def by blast
  from deployed_reach[OF h this] show
    "system_inv pw pm F (setup_spec F n m (atoi a) rnd) s" "lanes s = nat (atoi a)" .
  show "rc_fabric Fb pw pm" by (rule h(1))
  show "(\<lambda>i. ls_rnd (setup_spec F n m (atoi a) rnd i)) = rnd" by (simp add: setup_spec_def Let_def)
qed

end
