(* ===== verification/Simulation.thy ===== *)
theory Simulation
  imports Prelude
begin

text \<open>
  Two contracts of transition systems that the link and the whole system fulfil: a forward simulation
  with stuttering by an abstract system, and a bounded amount of work, where every step that changes
  the state does exactly one unit.
\<close>

section \<open>Simulation\<close>

locale simulation = inv_system init step inv
  for init :: "'s \<Rightarrow> bool" and step :: "'s \<Rightarrow> 's \<Rightarrow> bool" and inv :: "'s \<Rightarrow> bool" +
  fixes spec_init :: "'a \<Rightarrow> bool"
    and spec_step :: "'a \<Rightarrow> 'a \<Rightarrow> bool"
    and abstraction :: "'s \<Rightarrow> 'a"
  assumes sim_init: "init s \<Longrightarrow> spec_init (abstraction s)"
    and sim_step: "inv s \<Longrightarrow> step s t \<Longrightarrow> spec_step\<^sup>=\<^sup>= (abstraction s) (abstraction t)"
begin

lemma sim_steps: "step\<^sup>*\<^sup>* s t \<Longrightarrow> inv s \<Longrightarrow> spec_step\<^sup>*\<^sup>* (abstraction s) (abstraction t)"
proof (induction rule: rtranclp_induct)
  case base
  then show ?case by simp
next
  case (step t u)
  have "spec_step\<^sup>=\<^sup>= (abstraction t) (abstraction u)"
    using sim_step[OF inv_steps[OF step.hyps(1) step.prems] step.hyps(2)] .
  then show ?case using step.IH[OF step.prems] by (auto intro: rtranclp.rtrancl_into_rtrancl)
qed

lemma sim_reach:
  assumes "init s" and "step\<^sup>*\<^sup>* s t"
  shows "\<exists>a. spec_init a \<and> spec_step\<^sup>*\<^sup>* a (abstraction t)"
  using sim_init[OF assms(1)] sim_steps[OF assms(2) inv_init[OF assms(1)]] by blast

text \<open>An invariant of the abstract system holds of the abstraction of every reachable state.\<close>

lemma sim_inv:
  assumes "init s" and "step\<^sup>*\<^sup>* s t" and "inv_system spec_init spec_step J"
  shows "J (abstraction t)"
  using sim_reach[OF assms(1,2)] inv_system.inv_reach[OF assms(3)] by blast

end

section \<open>Bounded work\<close>

definition moves :: "('s \<Rightarrow> 's \<Rightarrow> bool) \<Rightarrow> 's \<Rightarrow> 's \<Rightarrow> bool" where
  "moves step s t \<longleftrightarrow> step s t \<and> t \<noteq> s"

lemma steps_moves: "step\<^sup>*\<^sup>* s t \<Longrightarrow> \<exists>k. (moves step ^^ k) s t"
proof (induction rule: rtranclp_induct)
  case base
  then show ?case by (intro exI[of _ 0]) simp
next
  case (step t u)
  then obtain k where k: "(moves step ^^ k) s t" by blast
  show ?case
  proof (cases "u = t")
    case False
    then have "(moves step ^^ Suc k) s u" using k step.hyps(2) by (auto simp: moves_def)
    then show ?thesis by blast
  qed (use k in blast)
qed

locale bounded_work = inv_system init step inv
  for init :: "'s \<Rightarrow> bool" and step :: "'s \<Rightarrow> 's \<Rightarrow> bool" and inv :: "'s \<Rightarrow> bool" +
  fixes work :: "'s \<Rightarrow> int" and limit :: int
  assumes work_step: "inv s \<Longrightarrow> step s t \<Longrightarrow> t = s \<or> work t = work s + 1"
    and work_le: "inv s \<Longrightarrow> work s \<le> limit"
begin

lemma work_moves:
  assumes "inv s" and "(moves step ^^ k) s t"
  shows "inv t \<and> work t = work s + int k"
  using assms(2)
proof (induction k arbitrary: t)
  case 0
  then show ?case using assms(1) by simp
next
  case (Suc k)
  then obtain u where u: "(moves step ^^ k) s u" "moves step u t" by auto
  then show ?case
    using Suc.IH[OF u(1)] work_step[of u t] inv_step[of u t] by (auto simp: moves_def)
qed

lemma moves_bounded: "inv s \<Longrightarrow> (moves step ^^ k) s t \<Longrightarrow> int k \<le> limit - work s"
  using work_moves[of s k t] work_le[of t] by auto

lemma no_endless_moves: "inv (f 0) \<Longrightarrow> \<exists>k. \<not> moves step (f k) (f (Suc k))"
proof (rule ccontr)
  assume I: "inv (f 0)" and "\<nexists>k. \<not> moves step (f k) (f (Suc k))"
  then have all: "moves step (f k) (f (Suc k))" for k by blast
  have "(moves step ^^ k) (f 0) (f k)" for k by (induction k) (use all in auto)
  from moves_bounded[OF I this[of "Suc (nat (limit - work (f 0)))"]] work_le[OF I] show False by simp
qed

text \<open>
  Whatever can move until it is done gets done: a goal that every state in \<open>G\<close> reaches in one step,
  or else leads to another state in \<open>G\<close>, is reached.
\<close>

lemma reaches_goal:
  assumes "inv s" and "G s"
    and move: "\<And>s. inv s \<Longrightarrow> G s \<Longrightarrow> \<exists>t. moves step s t \<and> (goal t \<or> G t)"
  shows "\<exists>t. step\<^sup>*\<^sup>* s t \<and> goal t"
  using assms(1,2)
proof (induction "nat (limit - work s)" arbitrary: s rule: less_induct)
  case less
  obtain t where t: "moves step s t" "goal t \<or> G t" using move[OF less.prems] by blast
  then have st: "step s t" "t \<noteq> s" by (simp_all add: moves_def)
  show ?case
  proof (cases "goal t")
    case True
    then show ?thesis using st by blast
  next
    case False
    have I: "inv t" using inv_step[OF less.prems(1) st(1)] .
    have "nat (limit - work t) < nat (limit - work s)"
      using work_step[OF less.prems(1) st(1)] st(2) work_le[OF I] by auto
    from less.hyps[OF this I] False t(2) obtain u where "step\<^sup>*\<^sup>* t u" "goal u" by blast
    then show ?thesis using st(1) by (meson converse_rtranclp_into_rtranclp)
  qed
qed

end

end
