(* ===== verification/Rounds.thy ===== *)
theory Rounds
  imports System Simulation
begin

text \<open>
  What the whole system promises: bulk-synchronous rounds. The abstract system has no network, no
  threads, no buffers and no worker memory. It has an iteration, for each worker the number of
  finished rounds and a pair of arrays, and three events: a worker's round is finished, which runs the
  SGD routine on its pair at once; the iteration advances, when every worker has finished the one
  before; and the 1200th advance ends the run. The deployed system is simulated by it.
\<close>

section \<open>The abstract system\<close>

record rounds =
  rd_lanes :: nat
  rd_iter :: nat
  rd_exit :: "int option"
  rd_done :: "nat \<Rightarrow> nat"
  rd_vals :: "nat \<Rightarrow> double list \<times> double list"

inductive round_step :: "fp \<Rightarrow> (nat \<Rightarrow> lane_spec) \<Rightarrow> rounds \<Rightarrow> rounds \<Rightarrow> bool" for F Ls where
  finish:
    "rd_exit r = None \<Longrightarrow> i < rd_lanes r \<Longrightarrow> rd_done r i < rd_iter r \<Longrightarrow>
     round_step F Ls r (r\<lparr>rd_done := (rd_done r)(i := Suc (rd_done r i)),
       rd_vals := (rd_vals r)(i := sgd_run F (ls_rnd (Ls i)) (ls_hp (Ls i)) (ls_hq (Ls i)) 90000
         (180000 * rd_done r i) (rd_vals r i))\<rparr>)"
| advance:
    "rd_exit r = None \<Longrightarrow> \<forall>i<rd_lanes r. rd_iter r \<le> rd_done r i \<Longrightarrow> Suc (rd_iter r) < 1200 \<Longrightarrow>
     round_step F Ls r (r\<lparr>rd_iter := Suc (rd_iter r)\<rparr>)"
| finished:
    "rd_exit r = None \<Longrightarrow> \<forall>i<rd_lanes r. rd_iter r \<le> rd_done r i \<Longrightarrow> Suc (rd_iter r) = 1200 \<Longrightarrow>
     round_step F Ls r (r\<lparr>rd_iter := 1200, rd_exit := Some 0\<rparr>)"

definition round_start :: "(nat \<Rightarrow> lane_spec) \<Rightarrow> nat \<Rightarrow> rounds" where
  "round_start Ls n = \<lparr>rd_lanes = n, rd_iter = 0, rd_exit = None, rd_done = (\<lambda>_. 0),
     rd_vals = (\<lambda>i. if i < n then ls_init (Ls i) else ([], []))\<rparr>"

section \<open>The abstraction\<close>

definition rounds_of :: "'w cluster \<Rightarrow> rounds" where
  "rounds_of s = (let st = cl_ps s in
     \<lparr>rd_lanes = lanes s, rd_iter = nat (ps_iter_t st), rd_exit = cl_exit s,
      rd_done = (\<lambda>i. if i < lanes s then nat (recved_iter st i + 1) else 0),
      rd_vals = (\<lambda>i. if i < lanes s
        then (block_vals (ps_heap st) (Pblocks st i), block_vals (ps_heap st) (Qblocks st i))
        else ([], []))\<rparr>)"

text \<open>In a system that keeps its invariants the values are those of the reference.\<close>

lemma rounds_of_eq:
  assumes "system_inv pw pm F Ls s"
  shows "rounds_of s =
     \<lparr>rd_lanes = lanes s, rd_iter = nat (ps_iter_t (cl_ps s)), rd_exit = cl_exit s,
      rd_done = (\<lambda>i. if i < lanes s then nat (recved_iter (cl_ps s) i + 1) else 0),
      rd_vals = (\<lambda>i. if i < lanes s
        then lane_ref F (Ls i) (nat (recved_iter (cl_ps s) i + 1)) else ([], []))\<rparr>"
proof -
  have "(block_vals (ps_heap (cl_ps s)) (Pblocks (cl_ps s) i),
        block_vals (ps_heap (cl_ps s)) (Qblocks (cl_ps s) i)) =
      lane_ref F (Ls i) (nat (recved_iter (cl_ps s) i + 1))" if i: "i < lanes s" for i
  proof -
    have "ls_id (Ls i) = i" "ps_holds F (Ls i) (cl_ps s) (nat (recved_iter (cl_ps s) i + 1))"
      using assms i by (auto simp: system_inv_def specs_ok_def cluster_data_def lane_data_def)
    then show ?thesis by (simp add: ps_holds_def block_vals_def Let_def)
  qed
  then show ?thesis by (auto simp: rounds_of_def Let_def)
qed

lemma recved_bound:
  assumes "system_inv pw pm F Ls s" and "i < lanes s"
  shows "- 1 \<le> recved_iter (cl_ps s) i"
  using assms by (auto simp: system_inv_def cluster_data_def lane_data_def)

lemma rounds_start:
  assumes "system_start pw pm F Ls s"
  shows "rounds_of s = round_start Ls (lanes s)"
proof -
  have "system_inv pw pm F Ls s"
    using assms cluster_inv_start cluster_data_start cluster_ready_start
    by (fastforce simp: system_start_def system_inv_def)
  from rounds_of_eq[OF this] show ?thesis
    using assms
    by (auto simp: round_start_def system_start_def cluster_start_def ps_fresh_def lanes_def)
qed

section \<open>The simulation\<close>

lemma rounds_finish:
  assumes I: "system_inv pw pm F Ls s" "system_inv pw pm F Ls t" and i: "i < lanes s"
    and x: "cl_exit s = None" and b: "recved_iter (cl_ps s) i + 2 \<le> ps_iter_t (cl_ps s)"
    and e: "lanes t = lanes s" "cl_exit t = None" "ps_iter_t (cl_ps t) = ps_iter_t (cl_ps s)"
      "recved_iter (cl_ps t) = (recved_iter (cl_ps s))(i := recved_iter (cl_ps s) i + 1)"
  shows "round_step F Ls (rounds_of s) (rounds_of t)"
proof -
  have r: "- 1 \<le> recved_iter (cl_ps s) i" using recved_bound[OF I(1) i] .
  then have n: "nat (2 + recved_iter (cl_ps s) i) = Suc (nat (recved_iter (cl_ps s) i + 1))" by simp
  let ?r = "rounds_of s"
  have "rounds_of t = ?r\<lparr>rd_done := (rd_done ?r)(i := Suc (rd_done ?r i)),
       rd_vals := (rd_vals ?r)(i := sgd_run F (ls_rnd (Ls i)) (ls_hp (Ls i)) (ls_hq (Ls i)) 90000
         (180000 * rd_done ?r i) (rd_vals ?r i))\<rparr>"
    using i by (auto simp: rounds_of_eq[OF I(1)] rounds_of_eq[OF I(2)] e x n fun_eq_iff)
  moreover have "rd_exit ?r = None" "i < rd_lanes ?r" "rd_done ?r i < rd_iter ?r"
    using i x b r by (auto simp: rounds_of_eq[OF I(1)])
  ultimately show ?thesis using round_step.finish[of ?r i F Ls] by simp
qed

lemma rounds_stutter:
  assumes "system_inv pw pm F Ls s" "system_inv pw pm F Ls t" and "lanes t = lanes s"
    and "cl_exit t = cl_exit s" "ps_iter_t (cl_ps t) = ps_iter_t (cl_ps s)"
    and "recved_iter (cl_ps t) = recved_iter (cl_ps s)"
  shows "rounds_of t = rounds_of s"
  using assms by (simp add: rounds_of_eq[OF assms(1)] rounds_of_eq[OF assms(2)] cong: if_cong)

lemma rounds_advance:
  assumes I: "system_inv pw pm F Ls s" "system_inv pw pm F Ls t" and x: "cl_exit s = None"
    and g: "\<forall>i<lanes s. ps_iter_t (cl_ps s) \<le> recved_iter (cl_ps s) i + 1"
    and e: "lanes t = lanes s" "ps_iter_t (cl_ps t) = ps_iter_t (cl_ps s) + 1"
      "recved_iter (cl_ps t) = recved_iter (cl_ps s)"
      "cl_exit t = (if ps_iter_t (cl_ps s) + 1 = 1200 then Some 0 else None)"
  shows "round_step F Ls (rounds_of s) (rounds_of t)"
proof -
  have it: "0 \<le> ps_iter_t (cl_ps s)" "ps_iter_t (cl_ps s) < 1200"
    using I(1) x by (auto simp: system_inv_def cluster_inv_def)
  have n: "nat (ps_iter_t (cl_ps s) + 1) = Suc (nat (ps_iter_t (cl_ps s)))" using it by simp
  let ?r = "rounds_of s"
  have all: "\<forall>i<rd_lanes ?r. rd_iter ?r \<le> rd_done ?r i" and x': "rd_exit ?r = None"
    using g x by (auto simp: rounds_of_eq[OF I(1)])
  show ?thesis
  proof (cases "ps_iter_t (cl_ps s) + 1 = 1200")
    case True
    then have "rounds_of t = ?r\<lparr>rd_iter := 1200, rd_exit := Some 0\<rparr>" and "Suc (rd_iter ?r) = 1200"
      using n by (simp_all add: rounds_of_eq[OF I(1)] rounds_of_eq[OF I(2)] e cong: if_cong)
    then show ?thesis using round_step.finished[OF x' all] by simp
  next
    case False
    then have "rounds_of t = ?r\<lparr>rd_iter := Suc (rd_iter ?r)\<rparr>" and "Suc (rd_iter ?r) < 1200"
      using n it x by (simp_all add: rounds_of_eq[OF I(1)] rounds_of_eq[OF I(2)] e cong: if_cong)
    then show ?thesis using round_step.advance[OF x' all] by simp
  qed
qed

lemma rounds_sim_step:
  assumes F: "rc_fabric Fb pw pm" and I: "system_inv pw pm F Ls s"
    and st: "cluster_step Fb F (\<lambda>i. ls_rnd (Ls i)) s t"
  shows "(round_step F Ls)\<^sup>=\<^sup>= (rounds_of s) (rounds_of t)"
proof -
  have J: "system_inv pw pm F Ls t"
    using cluster_system.inv_step[of Fb pw pm F Ls s t] I st F by blast
  have ln: "lanes t = lanes s" using cluster_step_lanes[OF st] .
  have stutter: "rounds_of t = rounds_of s"
    if "cl_exit t = cl_exit s" "ps_iter_t (cl_ps t) = ps_iter_t (cl_ps s)"
      "recved_iter (cl_ps t) = recved_iter (cl_ps s)"
    using rounds_stutter[OF I J ln that] .
  note adv = rounds_advance[OF I J _ _ ln] and fin = rounds_finish[OF I J _ _ _ ln]
  show ?thesis
    using st
  proof (cases rule: cluster_step.cases)
    case (ps_main st')
    then show ?thesis
      using ps_main_effect(1)[OF ps_main(3)] adv by (auto simp: lanes_def)
  next
    case (ps_exit c st')
    then show ?thesis
      using ps_main_effect(2)[OF ps_exit(3)] adv by (auto simp: lanes_def)
  next
    case (ps_recv i st' c')
    note c = lane_chain[OF cluster_inv_lane[of pw pm s i]]
    have b: "recved_iter (cl_ps s) i + 2 \<le> ps_iter_t (cl_ps s)"
      if "recved_iter (cl_ps s) i + 2 \<le> buf_recv_counter (lk_sv (cl_up s i))"
      using that c I ps_recv(3) unfolding system_inv_def by (smt (verit) of_nat_0_le_iff)
    show ?thesis
      using ps_recv(1,2,3) ps_recv_effect[OF ps_recv(4)] fin[OF ps_recv(3)] b stutter
      by (auto simp: set_defs)
  qed (use stutter in \<open>auto simp: set_defs dest!: ps_send_effect\<close>)
qed

interpretation rounds: simulation "\<lambda>s. rc_fabric Fb pw pm \<and> system_start pw pm F Ls s \<and> lanes s = n"
  "cluster_step Fb F (\<lambda>i. ls_rnd (Ls i))"
  "\<lambda>s. rc_fabric Fb pw pm \<and> system_inv pw pm F Ls s"
  "\<lambda>r. r = round_start Ls n" "round_step F Ls" rounds_of
  for pw pm :: "'w \<Rightarrow> send_wr list" and Fb :: "'w fabric" and F Ls n
proof (unfold_locales, goal_cases)
  case (1 s)
  then show ?case using cluster_system.inv_init[of pw pm F Ls s Fb] by simp
next
  case (2 s t)
  then show ?case using cluster_system.inv_step[of Fb pw pm F Ls s t] by simp
next
  case (3 s)
  then show ?case using rounds_start by blast
next
  case (4 s t)
  then show ?case using rounds_sim_step[of Fb pw pm F Ls s t] by simp
qed

text \<open>What the rounds keep, proved on the abstract system alone.\<close>

interpretation round_spec: inv_system "\<lambda>r. r = round_start Ls n" "round_step F Ls"
  "\<lambda>r. rd_lanes r = n \<and> rd_iter r \<le> 1200 \<and>
     (\<forall>i<n. rd_done r i \<le> rd_iter r \<and> rd_iter r \<le> Suc (rd_done r i) \<and>
        rd_vals r i = lane_ref F (Ls i) (rd_done r i)) \<and>
     (rd_exit r = None \<longrightarrow> rd_iter r < 1200) \<and>
     (rd_exit r \<noteq> None \<longrightarrow> rd_exit r = Some 0 \<and> rd_iter r = 1200 \<and> (\<forall>i<n. 1199 \<le> rd_done r i))"
  for F Ls n
  by unfold_locales (force simp: round_start_def, force elim!: round_step.cases)

end
