(* ===== verification/Completion.thy ===== *)
theory Completion
  imports System Simulation
begin

text \<open>
  When a run ends. Every step of the system that changes the state does one unit of a bounded amount of
  work, so no run goes on for ever; and a system in which no update is lost and every worker has
  memory for its remaining messages can be brought to the end of the server's loop. Only filling a
  buffer between the post of a write and the store that clears the flag loses an update.
\<close>

section \<open>Work\<close>

text \<open>
  The steps a link has made: messages that arrived, writes posted, flags cleared, writes counted,
  landed, received, and answered.
\<close>

definition link_work :: "'w link \<Rightarrow> int" where
  "link_work l =
     (link_posts l + (if lk_cpc l = CSpin then 1 else 0)) + link_posts l +
     (buf_write_counter (lk_cl l) + (if lk_cpc l = CCleared then 1 else 0)) +
     buf_write_counter (lk_cl l) +
     (buf_recv_counter (lk_sv l) + int (length (lk_wcs l))) + buf_recv_counter (lk_sv l) +
     (buf_recv_counter (lk_sv l) - (if lk_spc l = SIdle then 0 else 1))"

lemma link_work_step:
  assumes F: "rc_fabric F pw pm" and I: "link_inv pw pm l" and st: "link_step F l l'"
  shows "link_work l' = link_work l + 1"
  using st
proof (cases rule: link_step.cases)
  case (msg_arrives wr n1 nx cl' n2)
  then show ?thesis
    using client_enter_effect[OF msg_arrives(4)] I by (auto simp: link_inv_def link_work_def link_posts_def)
next
  case (write_posted cl' n')
  then show ?thesis
    using client_send_effect[OF F write_posted(4)] by (auto simp: link_work_def link_posts_def)
next
  case (write_counted cl' n')
  then show ?thesis
    using client_finish_effect[OF F write_counted(3)] by (auto simp: link_work_def link_posts_def)
next
  case (write_received wc wcs nx sv' n')
  then have "wc_opcode wc = IBV_WC_RECV_RDMA_WITH_IMM" using I by (auto simp: link_inv_def)
  then show ?thesis
    using write_received server_enter_effect[OF F write_received(5)]
    by (auto simp: link_work_def link_posts_def)
next
  case (ready_sent z sv' n')
  then show ?thesis
    using server_reply_effect[OF F ready_sent(4)] by (auto simp: link_work_def link_posts_def)
qed (auto simp: link_work_def link_posts_def client_on_completion_clear_def)

lemma link_work_app:
  "app_cl (lk_cl l) cl' \<Longrightarrow> link_work (l\<lparr>lk_cl := cl'\<rparr>) = link_work l"
  "app_sv (lk_sv l) sv' \<Longrightarrow> link_work (l\<lparr>lk_sv := sv'\<rparr>) = link_work l"
  by (simp_all add: link_work_def link_posts_def app_cl_simps app_sv_simps)

lemma link_work_le:
  assumes "link_inv pw pm l" and "link_posts l \<le> n"
  shows "link_work l \<le> 7 * n + 1"
  using assms by (auto simp: link_work_def link_inv_def link_posts_def split: if_splits)

definition lane_work :: "int \<Rightarrow> int \<Rightarrow> 'w link \<Rightarrow> worker_state \<Rightarrow> 'w link \<Rightarrow> int" where
  "lane_work ri ts dn w up =
     ri + ts + link_work dn + recved_age w + wk_iter_t w + to_send_age w + link_work up"

definition work_of :: "'w cluster \<Rightarrow> nat \<Rightarrow> int" where
  "work_of s i = lane_work (recved_iter (cl_ps s) i) (to_send_iter (cl_ps s) i) (cl_down s i)
     (cl_wk s i) (cl_up s i)"

definition cluster_work :: "'w cluster \<Rightarrow> int" where
  "cluster_work s = ps_iter_t (cl_ps s) + (\<Sum>i<lanes s. work_of s i)"

lemma lane_work_le:
  assumes I: "lane_inv pw pm it ri ts dn w up" and "it \<le> 1200"
  shows "lane_work ri ts dn w up \<le> 22800"
proof -
  note c = lane_chain[OF I]
  have l: "link_inv pw pm dn" "link_inv pw pm up" using I by (simp_all add: lane_inv_def)
  have p: "link_posts dn \<le> 1200" "link_posts up \<le> 1200" using c assms(2) by linarith+
  show ?thesis
    using link_work_le[OF l(1) p(1)] link_work_le[OF l(2) p(2)] c assms(2)
    unfolding lane_work_def by linarith
qed

lemma cluster_work_le:
  assumes "cluster_inv pw pm s"
  shows "cluster_work s \<le> 1200 + 22800 * int (lanes s)"
proof -
  have it: "ps_iter_t (cl_ps s) \<le> 1200" using assms by (simp add: cluster_inv_def)
  have "(\<Sum>i<lanes s. work_of s i) \<le> (\<Sum>i<lanes s. 22800)"
    by (rule sum_mono) (use lane_work_le[OF cluster_inv_lane[OF assms] it] in \<open>auto simp: work_of_def\<close>)
  then show ?thesis using it by (simp add: cluster_work_def)
qed

lemma cluster_work_start:
  assumes "cluster_start pw pm s"
  shows "cluster_work s = - 2 * int (lanes s)"
proof -
  have "work_of s i = - 2" if "i < lanes s" for i
    using assms that
    by (auto simp: cluster_start_def ps_fresh_def wk_fresh_def link_start_def lanes_def work_of_def
        lane_work_def link_work_def link_posts_def)
  then have "(\<Sum>i<lanes s. work_of s i) = (\<Sum>i<lanes s. - 2)" by (intro sum.cong) auto
  then show ?thesis using assms by (simp add: cluster_work_def cluster_start_def ps_fresh_def)
qed

text \<open>A step of one lane.\<close>

lemma work_at:
  assumes "i < lanes s" and "lanes t = lanes s" and "ps_iter_t (cl_ps t) = ps_iter_t (cl_ps s)"
    and "\<And>j. j \<noteq> i \<Longrightarrow> work_of t j = work_of s j" and "work_of t i = work_of s i + 1"
  shows "cluster_work t = cluster_work s + 1"
proof -
  have e: "(\<Sum>j\<in>{..<lanes s} - {i}. work_of t j) = (\<Sum>j\<in>{..<lanes s} - {i}. work_of s j)"
    by (rule sum.cong) (use assms(4) in auto)
  have "(\<Sum>j<lanes s. work_of t j) = work_of t i + (\<Sum>j\<in>{..<lanes s} - {i}. work_of t j)"
    "(\<Sum>j<lanes s. work_of s j) = work_of s i + (\<Sum>j\<in>{..<lanes s} - {i}. work_of s j)"
    using assms(1) by (simp_all add: sum.remove)
  then show ?thesis using e assms(2,3,5) by (simp add: cluster_work_def)
qed

lemma cluster_work_step:
  assumes F: "rc_fabric Fb pw pm" and I: "cluster_inv pw pm s" and st: "cluster_step Fb F rnd s t"
  shows "t = s \<or> cluster_work t = cluster_work s + 1"
proof -
  have ln: "lanes t = lanes s" using cluster_step_lanes[OF st] .
  have lw: "link_step Fb (cl_down s i) l' \<Longrightarrow> link_work l' = link_work (cl_down s i) + 1"
    "link_step Fb (cl_up s i) l' \<Longrightarrow> link_work l' = link_work (cl_up s i) + 1" if "i < lanes s" for i l'
    using link_work_step[OF F] cluster_inv_lane[OF I that] by (auto simp: lane_inv_def)
  show ?thesis
    using st
  proof (cases rule: cluster_step.cases)
    case (ps_main st')
    then show ?thesis
      using ps_main_effect(1)[OF ps_main(3)] by (auto simp: cluster_work_def work_of_def lanes_def)
  next
    case (ps_exit c st')
    then show ?thesis
      using ps_main_effect(2)[OF ps_exit(3)] by (auto simp: cluster_work_def work_of_def lanes_def)
  next
    case (ps_send i st' c')
    show ?thesis
    proof (cases "st' = cl_ps s \<and> c' = lk_cl (cl_down s i)")
      case True
      then show ?thesis using ps_send(1) by (simp add: set_defs)
    next
      case False
      then show ?thesis
        using ps_send_effect[OF ps_send(4)] ps_send(1) link_work_app(1)[of "cl_down s i" c']
        by (intro disjI2 work_at[OF ps_send(3) ln]) (auto simp: set_defs work_of_def lane_work_def)
    qed
  next
    case (ps_recv i st' c')
    show ?thesis
    proof (cases "st' = cl_ps s \<and> c' = lk_sv (cl_up s i)")
      case True
      then show ?thesis using ps_recv(1) by (simp add: set_defs)
    next
      case False
      then show ?thesis
        using ps_recv_effect[OF ps_recv(4)] ps_recv(1) link_work_app(2)[of "cl_up s i" c']
        by (intro disjI2 work_at[OF ps_recv(3) ln]) (auto simp: set_defs work_of_def lane_work_def)
    qed
  next
    case (wk_main i w')
    show ?thesis
    proof (cases "w' = cl_wk s i")
      case True
      then show ?thesis using wk_main(1) by (simp add: set_defs)
    next
      case False
      then show ?thesis
        using wk_main_effect[OF wk_main(3)] wk_main(1)
        by (intro disjI2 work_at[OF wk_main(2) ln]) (auto simp: set_defs work_of_def lane_work_def)
    qed
  next
    case (wk_send i w' c')
    show ?thesis
    proof (cases "w' = cl_wk s i \<and> c' = lk_cl (cl_up s i)")
      case True
      then show ?thesis using wk_send(1) by (simp add: set_defs)
    next
      case False
      then show ?thesis
        using wk_send_effect[OF wk_send(3)] wk_send(1) link_work_app(1)[of "cl_up s i" c']
        by (intro disjI2 work_at[OF wk_send(2) ln]) (auto simp: set_defs work_of_def lane_work_def)
    qed
  next
    case (wk_recv i w' c')
    show ?thesis
    proof (cases "w' = cl_wk s i \<and> c' = lk_sv (cl_down s i)")
      case True
      then show ?thesis using wk_recv(1) by (simp add: set_defs)
    next
      case False
      then show ?thesis
        using wk_recv_effect[OF wk_recv(3)] wk_recv(1) link_work_app(2)[of "cl_down s i" c']
        by (intro disjI2 work_at[OF wk_recv(2) ln]) (auto simp: set_defs work_of_def lane_work_def)
    qed
  next
    case (down_link i l')
    then show ?thesis
      using lw(1)[OF down_link(3,4)]
      by (intro disjI2 work_at[OF down_link(3) ln]) (auto simp: set_defs work_of_def lane_work_def)
  next
    case (up_link i l')
    then show ?thesis
      using lw(2)[OF up_link(3,4)]
      by (intro disjI2 work_at[OF up_link(3) ln]) (auto simp: set_defs work_of_def lane_work_def)
  qed
qed

interpretation cluster_work: bounded_work
  "\<lambda>s. rc_fabric Fb pw pm \<and> cluster_start pw pm s \<and> lanes s = n" "cluster_step Fb F rnd"
  "\<lambda>s. rc_fabric Fb pw pm \<and> cluster_inv pw pm s \<and> lanes s = n"
  cluster_work "1200 + 22800 * int n"
  for pw pm :: "'w \<Rightarrow> send_wr list" and Fb :: "'w fabric" and F rnd n
proof (unfold_locales, goal_cases)
  case (1 s)
  then show ?case using cluster_inv_start by blast
next
  case (2 s t)
  then show ?case using cluster_inv_step[of Fb pw pm F rnd s t] cluster_step_lanes[of Fb F rnd s t] by simp
next
  case (3 s t)
  then show ?case using cluster_work_step[of Fb pw pm s F rnd t] by simp
next
  case (4 s)
  then show ?case using cluster_work_le[of pw pm s] by auto
qed

section \<open>What loses an update\<close>

text \<open>An application fills a buffer at a moment when the completion thread will still clear the flag.\<close>

definition clearing :: "'w cluster \<Rightarrow> nat \<Rightarrow> bool" where
  "clearing s i \<longleftrightarrow> lk_cpc (cl_down s i) = CPosted \<or> lk_cpc (cl_up s i) = CPosted"

lemma lost_when_clearing:
  assumes F: "rc_fabric Fb pw pm" and I: "cluster_inv pw pm s" and i: "i < lanes s"
    and st: "cluster_step Fb F rnd s t" and L: "\<not> lane_lost s i" "lane_lost t i"
  shows "clearing s i"
proof (rule ccontr)
  assume C: "\<not> clearing s i"
  note lane = cluster_inv_lane[OF I i]
  note c = lane_chain[OF lane]
  have it: "ps_completed_iter (cl_ps s) = ps_iter_t (cl_ps s) - 1" using I by (simp add: cluster_inv_def)
  have not_lost: "to_send_iter (cl_ps s) i \<le> link_claims (cl_down s i)"
    "to_send_age (cl_wk s i) \<le> link_claims (cl_up s i)" using L(1) by (auto simp: lane_lost_def)
  have claims: "link_step Fb (cl_down s i) l' \<Longrightarrow> link_claims l' = link_claims (cl_down s i)"
    "link_step Fb (cl_up s i) l' \<Longrightarrow> link_claims l' = link_claims (cl_up s i)" for l'
    using link_claims_step[OF F] lane by (auto simp: lane_inv_def)
  have fill: "link_claims (l\<lparr>lk_cl := c'\<rparr>) = link_posts l + 1"
    if "app_cl (lk_cl l) c'" "can_send c'" "lk_cpc l \<noteq> CPosted" for l c'
    using that by (simp add: link_claims_def link_posts_def app_cl_simps)
  have sv: "link_claims (l\<lparr>lk_sv := x\<rparr>) = link_claims l" for l :: "'a link" and x
    by (rule link_claims_app_sv)
  have "\<not> lane_lost t i"
    using st
  proof (cases rule: cluster_step.cases)
    case (ps_main st')
    then show ?thesis using ps_main_effect(1)[OF ps_main(3)] L(1) by (auto simp: lane_lost_def)
  next
    case (ps_exit c st')
    then show ?thesis using ps_main_effect(2)[OF ps_exit(3)] L(1) by (auto simp: lane_lost_def)
  next
    case (ps_send j st' c')
    have "to_send_iter (cl_ps s) i \<le> link_posts (cl_down s i)"
      if "to_send_iter (cl_ps s) i \<le> ps_completed_iter (cl_ps s)" using that c it by linarith
    then show ?thesis
      using ps_send(1) ps_send_effect[OF ps_send(4)] not_lost C fill[of "cl_down s i" c']
      by (cases "j = i") (auto simp: lane_lost_def set_defs clearing_def)
  next
    case (ps_recv j st' c')
    then show ?thesis
      using ps_recv_effect[OF ps_recv(4)] not_lost
      by (cases "j = i") (auto simp: lane_lost_def set_defs sv)
  next
    case (wk_main j w')
    then show ?thesis
      using wk_main_effect[OF wk_main(3)] not_lost by (cases "j = i") (auto simp: lane_lost_def set_defs)
  next
    case (wk_send j w' c')
    have "to_send_age (cl_wk s i) \<le> link_posts (cl_up s i)"
      if "to_send_age (cl_wk s i) = wk_completed_iter (cl_wk s i)" using that c by linarith
    then show ?thesis
      using wk_send(1) wk_send_effect[OF wk_send(3)] not_lost C fill[of "cl_up s i" c']
      by (cases "j = i") (auto simp: lane_lost_def set_defs clearing_def)
  next
    case (wk_recv j w' c')
    then show ?thesis
      using wk_recv_effect[OF wk_recv(3)] not_lost
      by (cases "j = i") (auto simp: lane_lost_def set_defs sv)
  next
    case (down_link j l')
    then show ?thesis
      using claims(1) not_lost by (cases "j = i") (auto simp: lane_lost_def set_defs)
  next
    case (up_link j l')
    then show ?thesis
      using claims(2) not_lost by (cases "j = i") (auto simp: lane_lost_def set_defs)
  qed
  then show False using L(2) by simp
qed

text \<open>While a lane is clearing, its completion thread can go on, and loses nothing that was not lost.\<close>

lemma clear_first:
  assumes F: "rc_fabric Fb pw pm" and I: "cluster_inv pw pm s" and x: "cl_exit s = None"
    and i: "i < lanes s" and C: "clearing s i"
  shows "\<exists>t. cluster_step Fb F rnd s t \<and> t \<noteq> s \<and> cl_wk t = cl_wk s \<and> cl_exit t = None \<and>
     (\<forall>j<lanes s. lane_lost t j \<longrightarrow> lane_lost s j)"
proof -
  have li: "link_inv pw pm (cl_down s i)" "link_inv pw pm (cl_up s i)"
    using cluster_inv_lane[OF I i] by (simp_all add: lane_inv_def)
  from C consider "lk_cpc (cl_down s i) = CPosted" | "lk_cpc (cl_up s i) = CPosted"
    by (auto simp: clearing_def)
  then show ?thesis
  proof cases
    case 1
    from clear_enabled[OF this] obtain l' where l: "link_step Fb (cl_down s i) l'" "lk_cpc l' = CCleared"
      by blast
    have "l' \<noteq> cl_down s i" using l(2) 1 by auto
    then have "set_down i l' s \<noteq> s" by (rule set_neq)
    moreover have "lane_lost (set_down i l' s) j \<longrightarrow> lane_lost s j" for j
      using link_claims_step[OF F l(1) li(1)] by (auto simp: lane_lost_def set_defs)
    ultimately show ?thesis
      using cluster_step.down_link[OF x i l(1)] x by (intro exI[of _ "set_down i l' s"]) (simp add: set_defs)
  next
    case 2
    from clear_enabled[OF this] obtain l' where l: "link_step Fb (cl_up s i) l'" "lk_cpc l' = CCleared"
      by blast
    have "l' \<noteq> cl_up s i" using l(2) 2 by auto
    then have "set_up i l' s \<noteq> s" by (rule set_neq)
    moreover have "lane_lost (set_up i l' s) j \<longrightarrow> lane_lost s j" for j
      using link_claims_step[OF F l(1) li(2)] by (auto simp: lane_lost_def set_defs)
    ultimately show ?thesis
      using cluster_step.up_link[OF x i l(1)] x by (intro exI[of _ "set_up i l' s"]) (simp add: set_defs)
  qed
qed

section \<open>Memory for all messages\<close>

text \<open>A worker allocates two arrays per message and frees none; at most 1200 messages come.\<close>

definition message_bytes :: "lane_spec \<Rightarrow> nat" where
  "message_bytes L = 8 * nat (ls_hp L * K_dim) + 8 * nat (ls_hq L * K_dim)"

definition memory_left :: "lane_spec \<Rightarrow> worker_state \<Rightarrow> bool" where
  "memory_left L w \<longleftrightarrow> nat (1199 - recved_age w) * message_bytes L \<le> h_avail (wk_heap w)"

lemma memory_left_room:
  assumes "memory_left L w" and "recved_age w < 1199"
  shows "room_for_message L w"
proof -
  have "1 * message_bytes L \<le> nat (1199 - recved_age w) * message_bytes L"
    using assms(2) by (intro mult_le_mono1) auto
  then have "message_bytes L \<le> h_avail (wk_heap w)"
    using assms(1) unfolding memory_left_def by (metis le_trans nat_mult_1)
  then show ?thesis by (simp add: room_for_message_def message_bytes_def)
qed

lemma memory_left_recv:
  assumes ok: "spec_ok L" and I: "lane_inv pw pm it ri ts dn w up" and it: "it \<le> 1200"
    and D: "lane_data pw F L mrd mru ri ts ps dn w up"
    and s: "wk_rdma_recvTd w (lk_sv dn) = Inr (w', c')" and m: "memory_left L w"
  shows "memory_left L w'"
proof (cases "w' = w \<and> c' = lk_sv dn")
  case True
  then show ?thesis using m by simp
next
  case False
  let ?r = "lane_ref F L (nat (wk_iter_t w))"
  have rdy: "wk_recv_ready w (lk_sv dn)" using wk_recv_ready_iff[OF s] False by blast
  from wk_recv_message[OF I D this] obtain P Q where
    rd: "read_blocks (sc_buffer (lk_sv dn)) = Inr ((P, fst ?r), (Q, snd ?r))" and
    hd: "hdr L (ls_hp L) (ls_sp L) P" "hdr L (ls_hq L) (ls_sq L) Q" by blast
  have pos: "0 < ele_num P" "0 < ele_num Q" using hd ok by (simp_all add: hdr_def spec_ok_def K_dim_def)
  have "heap_ok (wk_heap w)" using D by (simp add: lane_data_def worker_memory_def)
  from wk_recv_returns[OF s rdy rd pos this]
  have e: "w' = wk_received ((P, fst ?r), (Q, snd ?r)) w" by blast
  have len: "length (fst ?r) = nat (ls_hp L * K_dim)" "length (snd ?r) = nat (ls_hq L * K_dim)"
    using length_lane_ref[OF ok, of F "nat (wk_iter_t w)"] by linarith+
  have a: "recved_age w' = recved_age w + 1" "h_avail (wk_heap w') = h_avail (wk_heap w) - message_bytes L"
    using len by (simp_all add: e wk_received_def Let_def message_bytes_def)
  have "recved_age w + 1 < buf_recv_counter (lk_sv dn)" using rdy by (simp add: wk_recv_ready_def)
  then have "recved_age w < 1199" using lane_chain[OF I] it by linarith
  then have "nat (1199 - recved_age w) = Suc (nat (1199 - recved_age w'))" using a by simp
  then show ?thesis using m a by (simp add: memory_left_def)
qed

lemma memory_left_main:
  assumes ok: "spec_ok L" and D: "lane_data pw F L mrd mru ri ts ps dn w up"
    and s: "wk_main_pass F (ls_rnd L) w = Inr w'" and m: "memory_left L w"
  shows "memory_left L w'"
proof (cases "w' = w")
  case True
  then show ?thesis using m by simp
next
  case False
  then have "wk_iter_t w \<le> recved_age w" using wk_main_effect[OF s] by blast
  from wk_main_value[OF ok D this] s m show ?thesis by (auto simp: memory_left_def set_arrs_def)
qed

lemma memory_left_step:
  assumes F: "rc_fabric Fb pw pm" and S: "system_inv pw pm F Ls s"
    and st: "cluster_step Fb F (\<lambda>i. ls_rnd (Ls i)) s t"
    and m: "\<forall>i<lanes s. memory_left (Ls i) (cl_wk s i)" and j: "j < lanes s"
  shows "memory_left (Ls j) (cl_wk t j)"
proof -
  have I: "cluster_inv pw pm s" and sp: "specs_ok Ls (lanes s)" using S by (simp_all add: system_inv_def)
  have it: "ps_iter_t (cl_ps s) \<le> 1200" using I by (simp add: cluster_inv_def)
  obtain mrd mru where d: "lane_data pw F (Ls j) mrd mru (recved_iter (cl_ps s) j) (to_send_iter (cl_ps s) j)
      (cl_ps s) (cl_down s j) (cl_wk s j) (cl_up s j)"
    using S j by (auto simp: system_inv_def cluster_data_def)
  have ok: "spec_ok (Ls j)" using specs_lane[OF sp j] by simp
  have mj: "memory_left (Ls j) (cl_wk s j)" using m j by blast
  show ?thesis
    using st
  proof (cases rule: cluster_step.cases)
    case (wk_main i w')
    then show ?thesis
      using memory_left_main[OF ok d _ mj] mj by (cases "i = j") (auto simp: set_defs)
  next
    case (wk_send i w' c')
    then show ?thesis
      using wk_send_effect[OF wk_send(3)] mj by (cases "i = j") (auto simp: set_defs memory_left_def)
  next
    case (wk_recv i w' c')
    then show ?thesis
      using memory_left_recv[OF ok cluster_inv_lane[OF I j] it d _ mj] mj
      by (cases "i = j") (auto simp: set_defs)
  qed (use mj in \<open>auto simp: set_defs\<close>)
qed

section \<open>Reaching the end\<close>

definition hopeful :: "(nat \<Rightarrow> lane_spec) \<Rightarrow> 'w cluster \<Rightarrow> bool" where
  "hopeful Ls s \<longleftrightarrow> cl_exit s = None \<and> (\<forall>i<lanes s. lane_fits (Ls i) \<and>
     memory_left (Ls i) (cl_wk s i) \<and> \<not> lane_lost s i)"

lemma hopeful_moves:
  assumes F: "rc_fabric Fb pw pm" "rc_live Fb pw pm" and S: "system_inv pw pm F Ls s"
    and H: "hopeful Ls s"
  shows "\<exists>t. moves (cluster_step Fb F (\<lambda>i. ls_rnd (Ls i))) s t \<and> (cl_exit t = Some 0 \<or> hopeful Ls t)"
proof -
  let ?R = "cluster_step Fb F (\<lambda>i. ls_rnd (Ls i))"
  have I: "cluster_inv pw pm s" using S by (simp add: system_inv_def)
  have x: "cl_exit s = None" using H by (simp add: hopeful_def)
  then have it: "ps_iter_t (cl_ps s) < 1200" using I by (simp add: cluster_inv_def)
  have room: "room_for_message (Ls i) (cl_wk s i)" if i: "i < lanes s" for i
  proof -
    have "recved_age (cl_wk s i) < 1199" using lane_chain[OF cluster_inv_lane[OF I i]] it by linarith
    then show ?thesis using H i memory_left_room by (auto simp: hopeful_def)
  qed
  have after: "cl_exit t = Some 0 \<or> hopeful Ls t"
    if st: "?R s t" and nl: "\<forall>i<lanes s. \<not> lane_lost t i" for t
  proof -
    have "cl_exit t = None \<or> cl_exit t = Some 0"
      using cluster_inv_step[OF F(1) st I] by (auto simp: cluster_inv_def)
    then show ?thesis
      using nl H memory_left_step[OF F(1) S st] cluster_step_lanes[OF st] by (auto simp: hopeful_def)
  qed
  show ?thesis
  proof (cases "\<exists>i<lanes s. clearing s i")
    case True
    then obtain i where "i < lanes s" "clearing s i" by blast
    from clear_first[OF F(1) I x this, of F "\<lambda>i. ls_rnd (Ls i)"] obtain t where
      t: "?R s t" "t \<noteq> s" "\<forall>j<lanes s. lane_lost t j \<longrightarrow> lane_lost s j" by blast
    then show ?thesis using after[OF t(1)] H by (auto simp: moves_def hopeful_def)
  next
    case False
    from system_moves[OF F S x] room H obtain t where t: "?R s t" "t \<noteq> s" by (auto simp: hopeful_def)
    then have "\<forall>i<lanes s. \<not> lane_lost t i"
      using False H lost_when_clearing[OF F(1) I _ t(1)] by (auto simp: hopeful_def)
    then show ?thesis using t after[OF t(1)] by (auto simp: moves_def)
  qed
qed

interpretation system_work: bounded_work
  "\<lambda>s. rc_fabric Fb pw pm \<and> system_start pw pm F Ls s \<and> lanes s = n"
  "cluster_step Fb F (\<lambda>i. ls_rnd (Ls i))"
  "\<lambda>s. rc_fabric Fb pw pm \<and> system_inv pw pm F Ls s \<and> lanes s = n"
  cluster_work "1200 + 22800 * int n"
  for pw pm :: "'w \<Rightarrow> send_wr list" and Fb :: "'w fabric" and F Ls n
proof (unfold_locales, goal_cases)
  case (1 s)
  then show ?case using cluster_system.inv_init[of pw pm F Ls s Fb] by simp
next
  case (2 s t)
  then show ?case
    using cluster_system.inv_step[of Fb pw pm F Ls s t] cluster_step_lanes[of Fb F _ s t] by simp
next
  case (3 s t)
  then show ?case using cluster_work_step[of Fb pw pm s F _ t] by (simp add: system_inv_def)
next
  case (4 s)
  then show ?case using cluster_work_le[of pw pm s] by (auto simp: system_inv_def)
qed

lemma hopeful_completes:
  assumes F: "rc_fabric Fb pw pm" "rc_live Fb pw pm" and S: "system_inv pw pm F Ls s"
    and H: "hopeful Ls s"
  shows "\<exists>t. (cluster_step Fb F (\<lambda>i. ls_rnd (Ls i)))\<^sup>*\<^sup>* s t \<and> cl_exit t = Some 0"
  using system_work.reaches_goal[where Fb = Fb and pw = pw and pm = pm and F = F and Ls = Ls
      and n = "lanes s" and s = s and G = "hopeful Ls" and goal = "\<lambda>t. cl_exit t = Some 0"]
    F S H hopeful_moves by blast

end
