(* ===== verification/Channel.thy ===== *)
theory Channel
  imports Link Simulation
begin

text \<open>
  What a link promises: it is a channel with one place. All of its handlers, flags, messages and
  completions come down to two events, a write that is posted and a write that is received, which
  alternate.
\<close>

record channel =
  ch_sent :: int
  ch_received :: int

inductive channel_step :: "channel \<Rightarrow> channel \<Rightarrow> bool" where
  put: "ch_received c = ch_sent c \<Longrightarrow> channel_step c (c\<lparr>ch_sent := ch_sent c + 1\<rparr>)"
| take: "ch_received c < ch_sent c \<Longrightarrow> channel_step c (c\<lparr>ch_received := ch_received c + 1\<rparr>)"

inductive_simps channel_step_iff: "channel_step c c'"

definition channel_start :: "channel \<Rightarrow> bool" where
  "channel_start c \<longleftrightarrow> ch_sent c = 0 \<and> ch_received c = 0"

definition channel_of :: "'w link \<Rightarrow> channel" where
  "channel_of l = \<lparr>ch_sent = link_posts l, ch_received = buf_recv_counter (lk_sv l)\<rparr>"

lemma channel_put: "r = p \<Longrightarrow> channel_step \<lparr>ch_sent = p, ch_received = r\<rparr> \<lparr>ch_sent = p + 1, ch_received = r\<rparr>"
  using channel_step.put[of "\<lparr>ch_sent = p, ch_received = r\<rparr>"] by simp

lemma channel_take: "r < p \<Longrightarrow> channel_step \<lparr>ch_sent = p, ch_received = r\<rparr> \<lparr>ch_sent = p, ch_received = r + 1\<rparr>"
  using channel_step.take[of "\<lparr>ch_sent = p, ch_received = r\<rparr>"] by simp

lemma channel_sim_step:
  assumes F: "rc_fabric F pw pm" and I: "link_inv pw pm l" and st: "link_step F l l'"
  shows "channel_step\<^sup>=\<^sup>= (channel_of l) (channel_of l')"
  using st
proof (cases rule: link_step.cases)
  case (msg_arrives wr n1 nx cl' n2)
  then show ?thesis
    using client_enter_effect[OF msg_arrives(4)] I
    by (auto simp: link_inv_def channel_of_def link_posts_def)
next
  case (write_posted cl' n')
  then have "buf_recv_counter (lk_sv l) = link_posts l"
    using I by (auto simp: link_inv_def link_token_def split: if_splits)
  moreover have "buf_write_counter cl' = buf_write_counter (lk_cl l)"
    using client_send_effect[OF F write_posted(4)] by simp
  ultimately show ?thesis
    using write_posted channel_put[of "buf_recv_counter (lk_sv l)" "link_posts l"]
    by (auto simp: channel_of_def link_posts_def)
next
  case (write_counted cl' n')
  then show ?thesis
    using client_finish_effect[OF F write_counted(3)] by (auto simp: channel_of_def link_posts_def)
next
  case (write_received wc wcs nx sv' n')
  then have "wc_opcode wc = IBV_WC_RECV_RDMA_WITH_IMM" using I by (auto simp: link_inv_def)
  from server_enter_effect[OF F write_received(5) this]
  have r: "buf_recv_counter sv' = buf_recv_counter (lk_sv l) + 1" by auto
  have "buf_recv_counter (lk_sv l) < link_posts l" using I write_received(3) by (auto simp: link_inv_def)
  from channel_take[OF this] show ?thesis
    using write_received(1) r by (auto simp: channel_of_def link_posts_def)
next
  case (ready_sent z sv' n')
  then show ?thesis
    using server_reply_effect[OF F ready_sent(4)] by (auto simp: channel_of_def link_posts_def)
qed (auto simp: channel_of_def link_posts_def client_on_completion_clear_def)

lemma channel_sim_run:
  assumes F: "rc_fabric F pw pm" and I: "link_inv pw pm l" and st: "link_run F l l'"
  shows "channel_step\<^sup>=\<^sup>= (channel_of l) (channel_of l')"
  using st
proof (cases rule: link_run.cases)
  case transport
  then show ?thesis by (rule channel_sim_step[OF F I])
qed (auto simp: channel_of_def link_posts_def app_cl_simps app_sv_simps)

lemma channel_of_start: "link_start pw pm l \<Longrightarrow> channel_start (channel_of l)"
  by (simp add: channel_of_def channel_start_def link_start_def link_posts_def)

interpretation channel: simulation "\<lambda>l. rc_fabric F pw pm \<and> link_start pw pm l" "link_run F"
  "\<lambda>l. rc_fabric F pw pm \<and> link_inv pw pm l" channel_start channel_step channel_of
  for pw pm :: "'w \<Rightarrow> send_wr list" and F :: "'w fabric"
  by unfold_locales
    (blast intro: link_inv_start link_run_inv channel_of_start | (elim conjE, rule channel_sim_run))+

text \<open>The two sides of a channel alternate.\<close>

interpretation channel_spec: inv_system channel_start channel_step
  "\<lambda>c. ch_received c \<le> ch_sent c \<and> ch_sent c \<le> ch_received c + 1 \<and> 0 \<le> ch_received c"
  by unfold_locales (auto simp: channel_start_def channel_step_iff)

end
