(* ===== verification/Threads.thy ===== *)
theory Threads
  imports System
begin

text \<open>
  The system's steps labelled with the thread that makes them, and what commutes by itself: steps that
  touch different parts of the state, passes of the server's threads for different lanes, and a pass
  that fills or gives back a buffer with the steps of the link, where the link has nothing to do with
  that buffer.
\<close>

section \<open>Steps with their threads\<close>

datatype agent =
    Main
  | Send nat
  | Recv nat
  | Compute nat
  | Wsend nat
  | Wrecv nat
  | Down nat
  | Up nat

fun application :: "agent \<Rightarrow> bool" where
  "application (Down i) = False"
| "application (Up i) = False"
| "application _ = True"

text \<open>The steps of \<open>cluster_step\<close>, but for the end of the server's process.\<close>

inductive agent_step ::
    "'w fabric \<Rightarrow> fp \<Rightarrow> (nat \<Rightarrow> nat \<Rightarrow> int) \<Rightarrow> agent \<Rightarrow> 'w cluster \<Rightarrow> 'w cluster \<Rightarrow> bool" for Fb F rnd where
  Main:
    "cl_exit s = None \<Longrightarrow> ps_main_pass (cl_ps s) = Running st' \<Longrightarrow>
     agent_step Fb F rnd Main s (s\<lparr>cl_ps := st'\<rparr>)"
| Send:
    "cl_exit s = None \<Longrightarrow> i < lanes s \<Longrightarrow>
     ps_rdma_sendTd i (cl_ps s) (lk_cl (cl_down s i)) = Inr (st', c') \<Longrightarrow>
     agent_step Fb F rnd (Send i) s (set_down i ((cl_down s i)\<lparr>lk_cl := c'\<rparr>) (s\<lparr>cl_ps := st'\<rparr>))"
| Recv:
    "cl_exit s = None \<Longrightarrow> i < lanes s \<Longrightarrow>
     ps_rdma_recvTd i (cl_ps s) (lk_sv (cl_up s i)) = Inr (st', c') \<Longrightarrow>
     agent_step Fb F rnd (Recv i) s (set_up i ((cl_up s i)\<lparr>lk_sv := c'\<rparr>) (s\<lparr>cl_ps := st'\<rparr>))"
| Compute:
    "i < lanes s \<Longrightarrow> wk_main_pass F (rnd i) (cl_wk s i) = Inr w' \<Longrightarrow>
     agent_step Fb F rnd (Compute i) s (set_wk i w' s)"
| Wsend:
    "i < lanes s \<Longrightarrow> wk_rdma_sendTd (cl_wk s i) (lk_cl (cl_up s i)) = Inr (w', c') \<Longrightarrow>
     agent_step Fb F rnd (Wsend i) s (set_up i ((cl_up s i)\<lparr>lk_cl := c'\<rparr>) (set_wk i w' s))"
| Wrecv:
    "i < lanes s \<Longrightarrow> wk_rdma_recvTd (cl_wk s i) (lk_sv (cl_down s i)) = Inr (w', c') \<Longrightarrow>
     agent_step Fb F rnd (Wrecv i) s (set_down i ((cl_down s i)\<lparr>lk_sv := c'\<rparr>) (set_wk i w' s))"
| Down:
    "cl_exit s = None \<Longrightarrow> i < lanes s \<Longrightarrow> link_step Fb (cl_down s i) l' \<Longrightarrow>
     agent_step Fb F rnd (Down i) s (set_down i l' s)"
| Up:
    "cl_exit s = None \<Longrightarrow> i < lanes s \<Longrightarrow> link_step Fb (cl_up s i) l' \<Longrightarrow>
     agent_step Fb F rnd (Up i) s (set_up i l' s)"

inductive_cases agent_stepE: "agent_step Fb F rnd x s t"

lemma cluster_step_agents:
  "cluster_step Fb F rnd s t \<longleftrightarrow> (\<exists>x. agent_step Fb F rnd x s t) \<or>
     (\<exists>c st'. cl_exit s = None \<and> ps_main_pass (cl_ps s) = Exited c st' \<and>
        t = s\<lparr>cl_ps := st', cl_exit := Some c\<rparr>)"
proof
  show "cluster_step Fb F rnd s t \<Longrightarrow> (\<exists>x. agent_step Fb F rnd x s t) \<or>
     (\<exists>c st'. cl_exit s = None \<and> ps_main_pass (cl_ps s) = Exited c st' \<and>
        t = s\<lparr>cl_ps := st', cl_exit := Some c\<rparr>)"
    by (erule cluster_step.cases) (blast intro: agent_step.intros)+
qed (auto elim!: agent_stepE intro: cluster_step.intros)

lemma agent_cluster_step: "agent_step Fb F rnd x s t \<Longrightarrow> cluster_step Fb F rnd s t"
  using cluster_step_agents by blast

section \<open>Parts of the state\<close>

datatype part = Server | Worker_at nat | Down_at nat | Up_at nat

fun touches :: "agent \<Rightarrow> part set" where
  "touches Main = {Server}"
| "touches (Send i) = {Server, Down_at i}"
| "touches (Recv i) = {Server, Up_at i}"
| "touches (Compute i) = {Worker_at i}"
| "touches (Wsend i) = {Worker_at i, Up_at i}"
| "touches (Wrecv i) = {Worker_at i, Down_at i}"
| "touches (Down i) = {Down_at i}"
| "touches (Up i) = {Up_at i}"

text \<open>The state \<open>s\<close> with the parts in \<open>A\<close> taken from \<open>t\<close>.\<close>

definition graft :: "part set \<Rightarrow> 'w cluster \<Rightarrow> 'w cluster \<Rightarrow> 'w cluster" where
  "graft A t s = s\<lparr>cl_ps := (if Server \<in> A then cl_ps t else cl_ps s),
     cl_wk := (\<lambda>i. if Worker_at i \<in> A then cl_wk t i else cl_wk s i),
     cl_down := (\<lambda>i. if Down_at i \<in> A then cl_down t i else cl_down s i),
     cl_up := (\<lambda>i. if Up_at i \<in> A then cl_up t i else cl_up s i)\<rparr>"

text \<open>\<open>s\<close> and \<open>s'\<close> agree on the parts in \<open>A\<close>, on the number of workers and on the end.\<close>

definition same_on :: "part set \<Rightarrow> 'w cluster \<Rightarrow> 'w cluster \<Rightarrow> bool" where
  "same_on A s s' \<longleftrightarrow> lanes s' = lanes s \<and> cl_exit s' = cl_exit s \<and>
     (Server \<in> A \<longrightarrow> cl_ps s' = cl_ps s) \<and> (\<forall>i. Worker_at i \<in> A \<longrightarrow> cl_wk s' i = cl_wk s i) \<and>
     (\<forall>i. Down_at i \<in> A \<longrightarrow> cl_down s' i = cl_down s i) \<and>
     (\<forall>i. Up_at i \<in> A \<longrightarrow> cl_up s' i = cl_up s i)"

lemma cluster_eqI:
  "cl_ps s = cl_ps t \<Longrightarrow> cl_exit s = cl_exit t \<Longrightarrow> cl_wk s = cl_wk t \<Longrightarrow> cl_down s = cl_down t \<Longrightarrow>
   cl_up s = cl_up t \<Longrightarrow> s = (t :: 'w cluster)"
  by simp

lemma graft_simps:
  "graft {Server} (t\<lparr>cl_ps := st\<rparr>) s = s\<lparr>cl_ps := st\<rparr>"
  "graft {Server, Down_at i} (set_down i l (t\<lparr>cl_ps := st\<rparr>)) s = set_down i l (s\<lparr>cl_ps := st\<rparr>)"
  "graft {Server, Up_at i} (set_up i l (t\<lparr>cl_ps := st\<rparr>)) s = set_up i l (s\<lparr>cl_ps := st\<rparr>)"
  "graft {Worker_at i} (set_wk i w t) s = set_wk i w s"
  "graft {Worker_at i, Up_at i} (set_up i l (set_wk i w t)) s = set_up i l (set_wk i w s)"
  "graft {Worker_at i, Down_at i} (set_down i l (set_wk i w t)) s = set_down i l (set_wk i w s)"
  "graft {Down_at i} (set_down i l t) s = set_down i l s"
  "graft {Up_at i} (set_up i l t) s = set_up i l s"
  by (auto simp: graft_def set_defs intro!: cluster_eqI)

lemma step_local:
  assumes "agent_step Fb F rnd x s t"
  shows "t = graft (touches x) t s"
    and "same_on (touches x) s s' \<Longrightarrow> agent_step Fb F rnd x s' (graft (touches x) t s')"
proof -
  show "t = graft (touches x) t s"
    using assms by cases (simp_all add: graft_simps)
  assume "same_on (touches x) s s'"
  with assms show "agent_step Fb F rnd x s' (graft (touches x) t s')"
  proof (cases rule: agent_step.cases)
    case (Main st')
    then show ?thesis using \<open>same_on _ _ _\<close> by (simp add: same_on_def graft_simps agent_step.Main)
  next
    case (Send i st' c')
    then show ?thesis using \<open>same_on _ _ _\<close> agent_step.Send[of s' i] by (simp add: same_on_def graft_simps)
  next
    case (Recv i st' c')
    then show ?thesis using \<open>same_on _ _ _\<close> agent_step.Recv[of s' i] by (simp add: same_on_def graft_simps)
  next
    case (Compute i w')
    then show ?thesis using \<open>same_on _ _ _\<close> by (simp add: same_on_def graft_simps agent_step.Compute)
  next
    case (Wsend i w' c')
    then show ?thesis using \<open>same_on _ _ _\<close> agent_step.Wsend[of i s'] by (simp add: same_on_def graft_simps)
  next
    case (Wrecv i w' c')
    then show ?thesis using \<open>same_on _ _ _\<close> agent_step.Wrecv[of i s'] by (simp add: same_on_def graft_simps)
  next
    case (Down i l')
    then show ?thesis using \<open>same_on _ _ _\<close> by (simp add: same_on_def graft_simps agent_step.Down)
  next
    case (Up i l')
    then show ?thesis using \<open>same_on _ _ _\<close> by (simp add: same_on_def graft_simps agent_step.Up)
  qed
qed

text \<open>Steps that touch different parts commute.\<close>

lemma graft_parts:
  "cl_ps (graft A t s) = (if Server \<in> A then cl_ps t else cl_ps s)"
  "cl_wk (graft A t s) = (\<lambda>i. if Worker_at i \<in> A then cl_wk t i else cl_wk s i)"
  "cl_down (graft A t s) = (\<lambda>i. if Down_at i \<in> A then cl_down t i else cl_down s i)"
  "cl_up (graft A t s) = (\<lambda>i. if Up_at i \<in> A then cl_up t i else cl_up s i)"
  "cl_exit (graft A t s) = cl_exit s"
  by (simp_all add: graft_def)

lemma graft_other:
  assumes "A \<inter> B = {}"
  shows "lanes (graft A t s) = lanes s \<Longrightarrow> same_on B s (graft A t s)"
    and "graft A t (graft B u s) = graft B u (graft A t s)"
  using assms
  by (auto simp: same_on_def graft_parts)
    (rule cluster_eqI; auto simp: graft_parts fun_eq_iff)

lemma apart_commute:
  assumes x: "agent_step Fb F rnd x s t" and y: "agent_step Fb F rnd y s u"
    and d: "touches x \<inter> touches y = {}" and ln: "lanes t = lanes s" "lanes u = lanes s"
  shows "\<exists>v. agent_step Fb F rnd y t v \<and> agent_step Fb F rnd x u v"
proof -
  note tx = step_local(1)[OF x] and uy = step_local(1)[OF y]
  have d': "touches y \<inter> touches x = {}" using d by blast
  have "same_on (touches y) s t" using graft_other(1)[OF d, of t s] ln(1) tx by simp
  from step_local(2)[OF y this] have "agent_step Fb F rnd y t (graft (touches y) u t)" .
  moreover have "same_on (touches x) s u" using graft_other(1)[OF d', of u s] ln(2) uy by simp
  from step_local(2)[OF x this] have "agent_step Fb F rnd x u (graft (touches x) t u)" .
  moreover have "graft (touches x) t u = graft (touches y) u t"
    using graft_other(2)[OF d, of t u s] by (simp only: tx[symmetric] uy[symmetric])
  ultimately show ?thesis by metis
qed

section \<open>Who is ready\<close>

fun ready :: "agent \<Rightarrow> 'w cluster \<Rightarrow> bool" where
  "ready Main s = (\<forall>i<lanes s. ps_iter_t (cl_ps s) \<le> recved_iter (cl_ps s) i + 1)"
| "ready (Send i) s = (to_send_iter (cl_ps s) i \<le> ps_completed_iter (cl_ps s))"
| "ready (Recv i) s = (recved_iter (cl_ps s) i + 2 \<le> buf_recv_counter (lk_sv (cl_up s i)))"
| "ready (Compute i) s = (wk_iter_t (cl_wk s i) \<le> recved_age (cl_wk s i))"
| "ready (Wsend i) s = (to_send_age (cl_wk s i) = wk_completed_iter (cl_wk s i))"
| "ready (Wrecv i) s = (recved_age (cl_wk s i) + 2 \<le> buf_recv_counter (lk_sv (cl_down s i)))"
| "ready _ s = True"

text \<open>A pass that changes something was ready.\<close>

lemma move_ready: "agent_step Fb F rnd x s t \<Longrightarrow> t \<noteq> s \<Longrightarrow> ready x s"
  by (erule agent_stepE)
    (auto simp: set_defs lanes_def dest!: ps_main_effect(1) ps_send_effect ps_recv_effect wk_main_effect
      wk_send_effect wk_recv_effect)

fun in_lane :: "nat \<Rightarrow> agent \<Rightarrow> bool" where
  "in_lane i Main = True"
| "in_lane i (Send j) = (j = i)"
| "in_lane i (Recv j) = (j = i)"
| "in_lane i (Compute j) = (j = i)"
| "in_lane i (Wsend j) = (j = i)"
| "in_lane i (Wrecv j) = (j = i)"
| "in_lane i (Down j) = (j = i)"
| "in_lane i (Up j) = (j = i)"

text \<open>Of the application threads of a lane, the server's main thread included, one at most is ready.\<close>

lemma one_ready:
  assumes I: "cluster_inv pw pm s" and i: "i < lanes s" and x: "application x" "in_lane i x" "ready x s"
    and y: "application y" "in_lane i y" "ready y s"
  shows "x = y"
proof -
  have it: "ps_completed_iter (cl_ps s) = ps_iter_t (cl_ps s) - 1" using I by (simp add: cluster_inv_def)
  note c = lane_chain[OF cluster_inv_lane[OF I i]]
  have b: "buf_recv_counter (lk_sv (cl_up s i)) \<le> to_send_age (cl_wk s i)"
    "buf_recv_counter (lk_sv (cl_down s i)) \<le> to_send_iter (cl_ps s) i" using c by linarith+
  note chain = c(1,5-8,12,13) b it
  have M: "ready Main s \<Longrightarrow> ps_iter_t (cl_ps s) \<le> recved_iter (cl_ps s) i + 1" using i by simp
  show ?thesis
    by (cases x; cases y; use x y in simp; (use chain M[simplified] i in \<open>auto\<close>)?)
qed

section \<open>Two threads of the server\<close>

definition ps_sent :: "nat \<Rightarrow> ps_state \<Rightarrow> ps_state" where
  "ps_sent i st = (ps_stamp i st)\<lparr>to_send_iter := (to_send_iter st)(i := to_send_iter st i + 1)\<rparr>"

lemma pack_cong:
  assumes "h_arr h (eles P) = h_arr h' (eles P)" and "h_arr h (eles Q) = h_arr h' (eles Q)"
  shows "pack_blocks h P Q m = pack_blocks h' P Q m"
proof -
  have "heap_read h (eles P) n = heap_read h' (eles P) n" "heap_read h (eles Q) n = heap_read h' (eles Q) n" for n
    using assms by (simp_all add: heap_read_def)
  then show ?thesis by (simp add: pack_blocks_def)
qed

text \<open>What the passes of lane \<open>i\<close> depend on is the same in both states.\<close>

definition same_lane :: "nat \<Rightarrow> ps_state \<Rightarrow> ps_state \<Rightarrow> bool" where
  "same_lane i st st' \<longleftrightarrow> to_send_iter st' i = to_send_iter st i \<and> recved_iter st' i = recved_iter st i \<and>
     ps_completed_iter st' = ps_completed_iter st \<and> worker_pidx st' i = int i \<and> worker_pidx st i = int i \<and>
     worker_qidx st' i = int i \<and> worker_qidx st i = int i \<and> Pblocks st' i = Pblocks st i \<and>
     Qblocks st' i = Qblocks st i \<and> i < CAP \<and>
     h_arr (ps_heap st') (eles (Pblocks st i)) = h_arr (ps_heap st) (eles (Pblocks st i)) \<and>
     h_arr (ps_heap st') (eles (Qblocks st i)) = h_arr (ps_heap st) (eles (Qblocks st i))"

lemma send_again:
  assumes s: "ps_rdma_sendTd i st c = Inr (st', c')" and g: "to_send_iter st i \<le> ps_completed_iter st"
    and l: "same_lane i st st2" and r: "cc_buf_registered c"
  shows "st' = ps_sent i st" and "ps_rdma_sendTd i st2 c = Inr (ps_sent i st2, c')"
proof -
  have k: "index_in CAP (int i) = Inr i" using l by (simp add: same_lane_def index_in_eq_Inr)
  have "pack_blocks (ps_heap st2) (Pblocks (ps_stamp i st) i) (Qblocks (ps_stamp i st) i) (cc_buffer c) =
      pack_blocks (ps_heap st) (Pblocks (ps_stamp i st) i) (Qblocks (ps_stamp i st) i) (cc_buffer c)"
    using l by (intro pack_cong) (simp_all add: same_lane_def ps_stamp_def)
  then show "st' = ps_sent i st" "ps_rdma_sendTd i st2 c = Inr (ps_sent i st2, c')"
    using s g l r k
    by (auto simp: ps_rdma_sendTd_def ps_send_fill_def CanSend_def same_lane_def ps_sent_def ps_stamp_def Let_def result_elims
        split: if_splits)
qed

text \<open>The message of lane \<open>i\<close>: two headers of the lane and two arrays of its sizes.\<close>

definition lane_message :: "nat \<Rightarrow> ps_state \<Rightarrow> (Block \<times> double list) \<times> (Block \<times> double list) \<Rightarrow> bool" where
  "lane_message i st msg \<longleftrightarrow> (case msg of ((P, ps), (Q, qs)) \<Rightarrow>
     block_id P = int i \<and> block_id Q = int i \<and> array_fits (ps_heap st) (eles (Pblocks st i)) P \<and>
     array_fits (ps_heap st) (eles (Qblocks st i)) Q \<and> eles (Pblocks st i) \<noteq> eles (Qblocks st i))"

lemma recv_again:
  assumes m: "read_blocks (sc_buffer c) = Inr msg" "lane_message i st msg" and r: "ps_recv_ready i st c"
    and l: "same_lane i st st2"
  shows "ps_rdma_recvTd i st c = Inr (ps_received i msg st, c\<lparr>sc_buf_prepared := False, can_recv := True\<rparr>)"
    and "ps_rdma_recvTd i st2 c = Inr (ps_received i msg st2, c\<lparr>sc_buf_prepared := False, can_recv := True\<rparr>)"
proof -
  obtain P ps Q qs where e: "msg = ((P, ps), (Q, qs))" by (metis surj_pair)
  note m' = m(1)[unfolded e]
  show "ps_rdma_recvTd i st c = Inr (ps_received i msg st, c\<lparr>sc_buf_prepared := False, can_recv := True\<rparr>)"
    using m(2) l unfolding e by (intro ps_recv_ok[OF r m', of i i]) (auto simp: lane_message_def same_lane_def)
  have r2: "ps_recv_ready i st2 c" using r l by (simp add: ps_recv_ready_def same_lane_def)
  show "ps_rdma_recvTd i st2 c = Inr (ps_received i msg st2, c\<lparr>sc_buf_prepared := False, can_recv := True\<rparr>)"
    using m(2) l unfolding e
    by (intro ps_recv_ok[OF r2 m', of i i]) (auto simp: lane_message_def same_lane_def array_fits_def)
qed

text \<open>The effects on two different lanes commute.\<close>

definition lanes_apart :: "nat \<Rightarrow> nat \<Rightarrow> ps_state \<Rightarrow> bool" where
  "lanes_apart i j st \<longleftrightarrow> i \<noteq> j \<and>
     {eles (Pblocks st i), eles (Qblocks st i)} \<inter> {eles (Pblocks st j), eles (Qblocks st j)} = {} \<and>
     worker_pidx st i = int i \<and> worker_qidx st i = int i \<and> worker_pidx st j = int j \<and>
     worker_qidx st j = int j"

lemma sent_sent: "lanes_apart i j st \<Longrightarrow> ps_sent i (ps_sent j st) = ps_sent j (ps_sent i st)"
  by (auto simp: lanes_apart_def ps_sent_def ps_stamp_def fun_upd_twist)

text \<open>What a message of lane \<open>j\<close> does.\<close>

lemma lane_messageE:
  assumes "lane_message j st msg"
  obtains P ps Q qs where "msg = ((P, ps), (Q, qs))" "block_id P = int j" "block_id Q = int j"
  using assms unfolding lane_message_def by (cases msg) (auto split: prod.splits)

lemma sent_received:
  assumes "lanes_apart i j st" and "lane_message j st msg"
  shows "ps_sent i (ps_received j msg st) = ps_received j msg (ps_sent i st)"
proof -
  from assms(2) obtain P ps Q qs where m: "msg = ((P, ps), (Q, qs))" "block_id P = int j" "block_id Q = int j"
    by (rule lane_messageE)
  have n: "i \<noteq> j" "worker_pidx st i = int i" "worker_qidx st i = int i"
    using assms(1) by (simp_all add: lanes_apart_def)
  show ?thesis
    using m(2,3) n by (simp add: ps_received_def ps_sent_def ps_stamp_def m(1) fun_upd_twist[OF n(1)])
qed

lemma received_received:
  assumes "lanes_apart i j st" and "lane_message i st mi" and "lane_message j st mj"
  shows "ps_received i mi (ps_received j mj st) = ps_received j mj (ps_received i mi st)"
proof -
  have h: "(h(a \<mapsto> x, b \<mapsto> y)) (c \<mapsto> z, d \<mapsto> w) = (h(c \<mapsto> z, d \<mapsto> w)) (a \<mapsto> x, b \<mapsto> y)"
    if "{a, b} \<inter> {c, d} = {}" for h :: "nat \<Rightarrow> double list option" and a b c d x y z w
    using that
    by (simp add: fun_upd_twist[of a c] fun_upd_twist[of a d] fun_upd_twist[of b c] fun_upd_twist[of b d])
  from assms(2) obtain P ps Q qs where m: "mi = ((P, ps), (Q, qs))" "block_id P = int i" "block_id Q = int i"
    by (rule lane_messageE)
  from assms(3) obtain P' ps' Q' qs' where
    m': "mj = ((P', ps'), (Q', qs'))" "block_id P' = int j" "block_id Q' = int j" by (rule lane_messageE)
  have n: "i \<noteq> j" "j \<noteq> i" using assms(1) by (auto simp: lanes_apart_def)
  have d: "{eles (Pblocks st j), eles (Qblocks st j)} \<inter> {eles (Pblocks st i), eles (Qblocks st i)} = {}"
    using assms(1) by (auto simp: lanes_apart_def)
  show ?thesis
    using n m(2,3) m'(2,3) by (simp add: ps_received_def m(1) m'(1) fun_upd_twist[OF n(1)] h[OF d])
qed

lemma sent_same: "lanes_apart i j st \<Longrightarrow> i < CAP \<Longrightarrow> same_lane i st (ps_sent j st)"
  by (simp add: lanes_apart_def same_lane_def ps_sent_def ps_stamp_def)

lemma received_same:
  assumes "lanes_apart i j st" and "i < CAP" and "lane_message j st msg"
  shows "same_lane i st (ps_received j msg st)"
proof -
  from assms(3) obtain P ps Q qs where m: "msg = ((P, ps), (Q, qs))" "block_id P = int j" "block_id Q = int j"
    by (rule lane_messageE)
  have n: "i \<noteq> j" "worker_pidx st i = int i" "worker_qidx st i = int i"
    "eles (Pblocks st i) \<noteq> eles (Pblocks st j)" "eles (Pblocks st i) \<noteq> eles (Qblocks st j)"
    "eles (Qblocks st i) \<noteq> eles (Pblocks st j)" "eles (Qblocks st i) \<noteq> eles (Qblocks st j)"
    using assms(1) by (auto simp: lanes_apart_def)
  show ?thesis
    using m(2,3) n assms(2) by (simp add: ps_received_def same_lane_def m(1))
qed

text \<open>The effects of a pass of the server's threads for lane \<open>i\<close> in the state \<open>st\<close>.\<close>

definition effects :: "nat \<Rightarrow> ps_state \<Rightarrow> (ps_state \<Rightarrow> ps_state) set" where
  "effects i st = insert (ps_sent i) {ps_received i msg | msg. lane_message i st msg}"

lemma effects_commute:
  "lanes_apart i j st \<Longrightarrow> f \<in> effects i st \<Longrightarrow> g \<in> effects j st \<Longrightarrow> f (g st) = g (f st)"
proof -
  assume A: "lanes_apart i j st" and f: "f \<in> effects i st" and g: "g \<in> effects j st"
  have A': "lanes_apart j i st" using A by (auto simp: lanes_apart_def)
  show "f (g st) = g (f st)"
    using f g sent_sent[OF A] sent_received[OF A] sent_received[OF A'] received_received[OF A]
    by (fastforce simp: effects_def)
qed

lemma effects_same: "lanes_apart i j st \<Longrightarrow> i < CAP \<Longrightarrow> g \<in> effects j st \<Longrightarrow> same_lane i st (g st)"
  by (auto simp: effects_def sent_same received_same)

lemma effects_lanes: "g \<in> effects j st \<Longrightarrow> worker_num (g st) = worker_num st"
  by (auto simp: effects_def ps_sent_def ps_stamp_def ps_received_def Let_def split: prod.splits)

section \<open>An application and its link\<close>

text \<open>
  Changes of a context that the transport does not see: \<open>fills\<close> leaves alone what the client's
  handlers read, but for the flag, and \<open>marks\<close> what the server's handlers read, but for the flag
  that they wait for, which stays set.
\<close>

definition fills :: "(client_context \<Rightarrow> client_context) \<Rightarrow> bool" where
  "fills g \<longleftrightarrow> (\<exists>m n p s. g = (\<lambda>c. c\<lparr>cc_buffer := m, cc_buf_len := n,
     cc_buf_prepared := p (cc_buf_prepared c), can_send := s (can_send c)\<rparr>))"

definition marks :: "(conn_context \<Rightarrow> conn_context) \<Rightarrow> bool" where
  "marks g \<longleftrightarrow> (\<exists>p r. g = (\<lambda>c. c\<lparr>sc_buf_prepared := p (sc_buf_prepared c),
     can_recv := can_recv c \<or> r\<rparr>))"

lemma fillsE:
  assumes "fills g"
  obtains m n p s where "g = (\<lambda>c. c\<lparr>cc_buffer := m, cc_buf_len := n,
     cc_buf_prepared := p (cc_buf_prepared c), can_send := s (can_send c)\<rparr>)"
  using assms unfolding fills_def by blast

lemma fillsI:
  "fills (\<lambda>c. c\<lparr>cc_buffer := m, cc_buf_len := n, can_send := True\<rparr>)"
  "fills (\<lambda>c. c\<lparr>cc_buffer := m, cc_buf_len := n, cc_buf_prepared := b, can_send := True\<rparr>)"
  "fills (\<lambda>c. c\<lparr>cc_buffer := m, cc_buf_len := n, cc_buf_prepared := b\<rparr>)"
  unfolding fills_def
  by (rule exI[of _ m], rule exI[of _ n], rule exI[of _ "\<lambda>b. b"], rule exI[of _ "\<lambda>_. True"], simp)
    (rule exI[of _ m], rule exI[of _ n], rule exI[of _ "\<lambda>_. b"], rule exI[of _ "\<lambda>_. True"], simp,
     rule exI[of _ m], rule exI[of _ n], rule exI[of _ "\<lambda>_. b"], rule exI[of _ "\<lambda>b. b"], simp)

lemma marksI:
  "marks (\<lambda>c. c\<lparr>can_recv := True\<rparr>)" "marks (\<lambda>c. c\<lparr>sc_buf_prepared := b, can_recv := True\<rparr>)"
  "marks (\<lambda>c. c\<lparr>sc_buf_prepared := b\<rparr>)" "marks (\<lambda>c. c)"
  unfolding marks_def
  by (rule exI[of _ "\<lambda>b. b"], rule exI[of _ True], simp)
    (rule exI[of _ "\<lambda>_. b"], rule exI[of _ True], simp,
     rule exI[of _ "\<lambda>_. b"], rule exI[of _ False], simp,
     rule exI[of _ "\<lambda>b. b"], rule exI[of _ False], simp)

lemma fill_simps:
  assumes "fills g"
  shows "(g c)\<lparr>cc_msg := m\<rparr> = g (c\<lparr>cc_msg := m\<rparr>)"
    and "(g c)\<lparr>peer_addr := a, peer_rkey := k\<rparr> = g (c\<lparr>peer_addr := a, peer_rkey := k\<rparr>)"
    and "(g c)\<lparr>buf_write_counter := i\<rparr> = g (c\<lparr>buf_write_counter := i\<rparr>)"
    and "cc_msg (g c) = cc_msg c" and "buf_write_counter (g c) = buf_write_counter c"
    and "cc_msg_mr (g c) = cc_msg_mr c" and "cc_msg_ptr (g c) = cc_msg_ptr c"
  using assms by (auto elim!: fillsE)

lemma fill_enter:
  assumes "fills g" and "client_on_completion_enter V (recv_wc c) cl w = Inr (Spin, cl', w')"
  shows "client_on_completion_enter V (recv_wc c) (g cl) w = Inr (Spin, g cl', w')"
  using assms(2) fill_simps[OF assms(1)]
  by (auto simp: client_on_completion_enter_def recv_wc_def result_elims split: if_splits)

lemma fill_finish:
  assumes "fills g" and "client_on_completion_finish V cid cl w = Inr (cl', w')"
  shows "client_on_completion_finish V cid (g cl) w = Inr (g cl', w')"
proof -
  have "client_post_receive V cid (g c) w = client_post_receive V cid c w" for c
    by (simp only: client_post_receive_def fill_simps[OF assms(1)])
  then show ?thesis
    using assms(2)
    by (simp add: client_on_completion_finish_def Let_def fill_simps[OF assms(1)] bindr_def split: sum.splits)
qed

lemma fill_link_commute:
  assumes F: "rc_fabric F pw pm" and I: "link_inv pw pm l" and st: "link_step F l l'" and g: "fills g"
    and q: "pw (lk_net l) = []" "can_send (lk_cl l) \<longrightarrow> lk_cpc l = CPosted"
    and nc: "lk_cpc l = CPosted \<and> lk_cpc l' = CCleared \<longrightarrow> (\<forall>c. can_send (g c) = can_send c)"
  shows "link_step F (l\<lparr>lk_cl := g (lk_cl l)\<rparr>) (l'\<lparr>lk_cl := g (lk_cl l')\<rparr>)"
proof -
  let ?l = "l\<lparr>lk_cl := g (lk_cl l)\<rparr>"
  show "link_step F ?l (l'\<lparr>lk_cl := g (lk_cl l')\<rparr>)"
    using st
  proof (cases rule: link_step.cases)
    case (msg_arrives wr n1 nx cl' n2)
    have e: "nx = Spin"
      using client_enter_effect[OF msg_arrives(4)] I by (auto simp: link_inv_def)
    have h: "client_on_completion_enter (f_verbs F) (recv_wc (lk_cid ?l))
        ((lk_cl ?l)\<lparr>cc_msg := sc_msg (lk_sv ?l)\<rparr>) n1 = Inr (nx, g cl', n2)"
      using fill_enter[OF g] msg_arrives(4) e by (simp add: fill_simps(1)[OF g])
    have a: "link_step F ?l (?l\<lparr>lk_cl := g cl', lk_cpc := (if nx = Spin then CSpin else CIdle), lk_net := n2\<rparr>)"
      using msg_arrives(2,3) h by (intro link_step.msg_arrives) simp_all
    have r: "l'\<lparr>lk_cl := g (lk_cl l')\<rparr> =
        ?l\<lparr>lk_cl := g cl', lk_cpc := (if nx = Spin then CSpin else CIdle), lk_net := n2\<rparr>"
      by (simp add: msg_arrives(1))
    show ?thesis unfolding r by (rule a)
  next
    case (write_posted cl' n')
    then show ?thesis using q(2) by simp
  next
    case flag_cleared
    then have "can_send (g ((lk_cl l)\<lparr>can_send := False\<rparr>)) = False" using nc by simp
    then have "g (client_on_completion_clear (lk_cl l)) = client_on_completion_clear (g (lk_cl l))"
      using g by (auto elim!: fillsE simp: client_on_completion_clear_def)
    then have r: "l'\<lparr>lk_cl := g (lk_cl l')\<rparr> =
        ?l\<lparr>lk_cl := client_on_completion_clear (lk_cl ?l), lk_cpc := CCleared\<rparr>"
      by (simp add: flag_cleared(1))
    have a: "link_step F ?l (?l\<lparr>lk_cl := client_on_completion_clear (lk_cl ?l), lk_cpc := CCleared\<rparr>)"
      using flag_cleared(2) by (intro link_step.flag_cleared) simp
    show ?thesis unfolding r by (rule a)
  next
    case (write_counted cl' n')
    have a: "link_step F ?l (?l\<lparr>lk_cl := g cl', lk_cpc := CIdle, lk_net := n'\<rparr>)"
      using write_counted(2) fill_finish[OF g write_counted(3)] by (intro link_step.write_counted) simp_all
    have r: "l'\<lparr>lk_cl := g (lk_cl l')\<rparr> = ?l\<lparr>lk_cl := g cl', lk_cpc := CIdle, lk_net := n'\<rparr>"
      by (simp add: write_counted(1))
    show ?thesis unfolding r by (rule a)
  next
    case (write_lands wr n' mr)
    then show ?thesis using q(1) rc_delivers_net(1)[OF F write_lands(2)] by simp
  next
    case (write_received wc wcs nx sv' n')
    have a: "link_step F ?l (?l\<lparr>lk_sv := sv', lk_wcs := wcs, lk_net := n',
        lk_spc := (case nx of None \<Rightarrow> SIdle | Some z \<Rightarrow> SSpin z)\<rparr>)"
      using write_received(2-5) by (intro link_step.write_received) simp_all
    have r: "l'\<lparr>lk_cl := g (lk_cl l')\<rparr> = ?l\<lparr>lk_sv := sv', lk_wcs := wcs, lk_net := n',
        lk_spc := (case nx of None \<Rightarrow> SIdle | Some z \<Rightarrow> SSpin z)\<rparr>"
      by (simp add: write_received(1))
    show ?thesis unfolding r by (rule a)
  next
    case (ready_sent z sv' n')
    have a: "link_step F ?l (?l\<lparr>lk_sv := sv', lk_spc := SIdle, lk_net := n'\<rparr>)"
      using ready_sent(2-4) by (intro link_step.ready_sent) simp_all
    have r: "l'\<lparr>lk_cl := g (lk_cl l')\<rparr> = ?l\<lparr>lk_sv := sv', lk_spc := SIdle, lk_net := n'\<rparr>"
      by (simp add: ready_sent(1))
    show ?thesis unfolding r by (rule a)
  qed
qed

text \<open>The link leaves the client's side alone, unless it posts.\<close>

lemma still_client:
  assumes F: "rc_fabric F pw pm" and I: "link_inv pw pm l" and st: "link_step F l l'"
    and q: "can_send (lk_cl l) \<longrightarrow> lk_cpc l = CPosted"
  shows "cc_buffer (lk_cl l') = cc_buffer (lk_cl l)" "cc_buf_registered (lk_cl l') = cc_buf_registered (lk_cl l)"
    "cc_buf_ptr (lk_cl l') = cc_buf_ptr (lk_cl l)" "cc_buf_len (lk_cl l') = cc_buf_len (lk_cl l)"
    "cc_buf_prepared (lk_cl l') = cc_buf_prepared (lk_cl l)"
proof -
  have "cc_buffer (lk_cl l') = cc_buffer (lk_cl l) \<and> cc_buf_registered (lk_cl l') = cc_buf_registered (lk_cl l) \<and>
      cc_buf_ptr (lk_cl l') = cc_buf_ptr (lk_cl l) \<and> cc_buf_len (lk_cl l') = cc_buf_len (lk_cl l) \<and>
      cc_buf_prepared (lk_cl l') = cc_buf_prepared (lk_cl l)"
    using st
  proof (cases rule: link_step.cases)
    case (msg_arrives wr n1 nx cl' n2)
    then show ?thesis using client_enter_effect[OF msg_arrives(4)] I by (auto simp: link_inv_def)
  next
    case (write_counted cl' n')
    then show ?thesis using client_finish_effect[OF F write_counted(3)] by simp
  qed (use q in \<open>simp_all add: client_on_completion_clear_def\<close>)
  then show "cc_buffer (lk_cl l') = cc_buffer (lk_cl l)" "cc_buf_registered (lk_cl l') = cc_buf_registered (lk_cl l)"
    "cc_buf_ptr (lk_cl l') = cc_buf_ptr (lk_cl l)" "cc_buf_len (lk_cl l') = cc_buf_len (lk_cl l)"
    "cc_buf_prepared (lk_cl l') = cc_buf_prepared (lk_cl l)" by blast+
qed

lemma mark_simps:
  assumes "marks g"
  shows "sc_buffer (g c) = sc_buffer c" "sc_buf_ptr (g c) = sc_buf_ptr c" "sc_msg (g c) = sc_msg c"
    "sc_buffer_mr (g c) = sc_buffer_mr c" "sc_msg_mr (g c) = sc_msg_mr c" "sc_msg_ptr (g c) = sc_msg_ptr c"
    "sc_buf_registered (g c) = sc_buf_registered c" "buf_recv_counter (g c) = buf_recv_counter c"
    "(g c)\<lparr>sc_buffer := m\<rparr> = g (c\<lparr>sc_buffer := m\<rparr>)" "(g c)\<lparr>sc_msg := x\<rparr> = g (c\<lparr>sc_msg := x\<rparr>)"
    "(g c)\<lparr>sc_buf_len := n, buf_recv_counter := k\<rparr> = g (c\<lparr>sc_buf_len := n, buf_recv_counter := k\<rparr>)"
    "set_msg_id z (g c) = g (set_msg_id z c)" "can_recv c \<Longrightarrow> can_recv (g c)"
  using assms by (auto simp: marks_def set_msg_id_def)

lemma mark_reply:
  assumes "marks g" and "server_on_completion_reply V cid z sv w = Inr (sv', w')"
  shows "server_on_completion_reply V cid z (g sv) w = Inr (g sv', w')"
proof -
  have "server_send_message V cid (g c) w = server_send_message V cid c w" for c
    by (simp only: server_send_message_def message_request_def mark_simps[OF assms(1)])
  then show ?thesis
    using assms(2)
    by (auto simp: server_on_completion_reply_def Let_def mark_simps[OF assms(1)] result_elims split: if_splits)
qed

lemma mark_enter:
  assumes "marks g" and "server_on_completion_enter V wc sv w = Inr (nx, sv', w')"
  shows "server_on_completion_enter V wc (g sv) w = Inr (nx, g sv', w')"
  using assms(2)
  by (auto simp: server_on_completion_enter_def Let_def mark_simps[OF assms(1)] result_elims split: if_splits)

lemma mark_link:
  assumes g: "marks g" and st: "link_step F l l'"
  shows "link_step F (l\<lparr>lk_sv := g (lk_sv l)\<rparr>) (l'\<lparr>lk_sv := g (lk_sv l')\<rparr>)"
proof -
  let ?l = "l\<lparr>lk_sv := g (lk_sv l)\<rparr>"
  show ?thesis
    using st
  proof (cases rule: link_step.cases)
    case (msg_arrives wr n1 nx cl' n2)
    have a: "link_step F ?l (?l\<lparr>lk_cl := cl', lk_cpc := (if nx = Spin then CSpin else CIdle), lk_net := n2\<rparr>)"
      using msg_arrives(2-4) by (intro link_step.msg_arrives) (simp_all add: mark_simps[OF g])
    have "l'\<lparr>lk_sv := g (lk_sv l')\<rparr> =
        ?l\<lparr>lk_cl := cl', lk_cpc := (if nx = Spin then CSpin else CIdle), lk_net := n2\<rparr>"
      by (simp add: msg_arrives(1))
    with a show ?thesis by (simp only:)
  next
    case (write_posted cl' n')
    have a: "link_step F ?l (?l\<lparr>lk_cl := cl', lk_cpc := CPosted, lk_net := n'\<rparr>)"
      using write_posted(2-4) by (intro link_step.write_posted) simp_all
    have "l'\<lparr>lk_sv := g (lk_sv l')\<rparr> = ?l\<lparr>lk_cl := cl', lk_cpc := CPosted, lk_net := n'\<rparr>"
      by (simp add: write_posted(1))
    with a show ?thesis by (simp only:)
  next
    case flag_cleared
    have a: "link_step F ?l (?l\<lparr>lk_cl := client_on_completion_clear (lk_cl ?l), lk_cpc := CCleared\<rparr>)"
      using flag_cleared(2) by (intro link_step.flag_cleared) simp
    have "l'\<lparr>lk_sv := g (lk_sv l')\<rparr> =
        ?l\<lparr>lk_cl := client_on_completion_clear (lk_cl ?l), lk_cpc := CCleared\<rparr>"
      by (simp add: flag_cleared(1))
    with a show ?thesis by (simp only:)
  next
    case (write_counted cl' n')
    have a: "link_step F ?l (?l\<lparr>lk_cl := cl', lk_cpc := CIdle, lk_net := n'\<rparr>)"
      using write_counted(2,3) by (intro link_step.write_counted) simp_all
    have "l'\<lparr>lk_sv := g (lk_sv l')\<rparr> = ?l\<lparr>lk_cl := cl', lk_cpc := CIdle, lk_net := n'\<rparr>"
      by (simp add: write_counted(1))
    with a show ?thesis by (simp only:)
  next
    case (write_lands wr n' mr)
    have a: "link_step F ?l (?l\<lparr>lk_sv := (lk_sv ?l)\<lparr>sc_buffer :=
        f_land F wr (cc_buffer (lk_cl ?l)) mr (sc_buffer (lk_sv ?l))\<rparr>,
        lk_wcs := lk_wcs ?l @ [imm_wc (lk_sid ?l) wr], lk_net := n'\<rparr>)"
      using write_lands(2,3) by (intro link_step.write_lands) (simp_all add: mark_simps[OF g])
    have "l'\<lparr>lk_sv := g (lk_sv l')\<rparr> = ?l\<lparr>lk_sv := (lk_sv ?l)\<lparr>sc_buffer :=
        f_land F wr (cc_buffer (lk_cl ?l)) mr (sc_buffer (lk_sv ?l))\<rparr>,
        lk_wcs := lk_wcs ?l @ [imm_wc (lk_sid ?l) wr], lk_net := n'\<rparr>"
      by (simp add: write_lands(1) mark_simps[OF g])
    with a show ?thesis by (simp only:)
  next
    case (write_received wc wcs nx sv' n')
    have a: "link_step F ?l (?l\<lparr>lk_sv := g sv', lk_wcs := wcs, lk_net := n',
        lk_spc := (case nx of None \<Rightarrow> SIdle | Some z \<Rightarrow> SSpin z)\<rparr>)"
      using write_received(2-4) mark_enter[OF g write_received(5)] by (intro link_step.write_received) simp_all
    have "l'\<lparr>lk_sv := g (lk_sv l')\<rparr> = ?l\<lparr>lk_sv := g sv', lk_wcs := wcs, lk_net := n',
        lk_spc := (case nx of None \<Rightarrow> SIdle | Some z \<Rightarrow> SSpin z)\<rparr>"
      by (simp add: write_received(1))
    with a show ?thesis by (simp only:)
  next
    case (ready_sent z sv' n')
    have a: "link_step F ?l (?l\<lparr>lk_sv := g sv', lk_spc := SIdle, lk_net := n'\<rparr>)"
      using ready_sent(2,3) mark_reply[OF g ready_sent(4)] by (intro link_step.ready_sent) (simp_all add: mark_simps[OF g])
    have "l'\<lparr>lk_sv := g (lk_sv l')\<rparr> = ?l\<lparr>lk_sv := g sv', lk_spc := SIdle, lk_net := n'\<rparr>"
      by (simp add: ready_sent(1))
    with a show ?thesis by (simp only:)
  qed
qed

text \<open>With nothing under way the receiver's buffer and counter stay as they are.\<close>

lemma quiet_link:
  assumes F: "rc_fabric F pw pm" and st: "link_step F l l'" and q: "pw (lk_net l) = []" "lk_wcs l = []"
  shows "sc_buffer (lk_sv l') = sc_buffer (lk_sv l)" "sc_buf_registered (lk_sv l') = sc_buf_registered (lk_sv l)"
    "sc_buf_ptr (lk_sv l') = sc_buf_ptr (lk_sv l)" "buf_recv_counter (lk_sv l') = buf_recv_counter (lk_sv l)"
proof -
  have "sc_buffer (lk_sv l') = sc_buffer (lk_sv l) \<and> sc_buf_registered (lk_sv l') = sc_buf_registered (lk_sv l) \<and>
      sc_buf_ptr (lk_sv l') = sc_buf_ptr (lk_sv l) \<and> buf_recv_counter (lk_sv l') = buf_recv_counter (lk_sv l)"
    using st
  proof (cases rule: link_step.cases)
    case (write_lands wr n' mr)
    then show ?thesis using q(1) rc_delivers_net(1)[OF F write_lands(2)] by simp
  next
    case (ready_sent z sv' n')
    then show ?thesis using server_reply_effect[OF F ready_sent(4)] by simp
  qed (use q in simp_all)
  then show "sc_buffer (lk_sv l') = sc_buffer (lk_sv l)" "sc_buf_registered (lk_sv l') = sc_buf_registered (lk_sv l)"
    "sc_buf_ptr (lk_sv l') = sc_buf_ptr (lk_sv l)" "buf_recv_counter (lk_sv l') = buf_recv_counter (lk_sv l)"
    by blast+
qed

subsection \<open>The passes as changes of a context\<close>

lemma ps_send_fills:
  assumes p: "ps_rdma_sendTd i st c = Inr (st', c')" and r: "cc_buf_registered c"
    and g: "to_send_iter st i \<le> ps_completed_iter st"
  obtains f where "fills f" "c' = f c"
    "\<And>c2. cc_buffer c2 = cc_buffer c \<Longrightarrow> cc_buf_registered c2 = cc_buf_registered c \<Longrightarrow>
      cc_buf_ptr c2 = cc_buf_ptr c \<Longrightarrow> ps_rdma_sendTd i st c2 = Inr (st', f c2)"
proof
  let ?f = "\<lambda>c :: client_context. c\<lparr>cc_buffer := cc_buffer c', cc_buf_len := cc_buf_len c', cc_buf_prepared := True, can_send := True\<rparr>"
  show "fills ?f" by (rule fillsI)
  show "c' = ?f c"
    using p r g by (auto simp: ps_rdma_sendTd_def ps_send_fill_def CanSend_def Let_def result_elims split: if_splits)
  show "ps_rdma_sendTd i st c2 = Inr (st', ?f c2)"
    if "cc_buffer c2 = cc_buffer c" "cc_buf_registered c2 = cc_buf_registered c" "cc_buf_ptr c2 = cc_buf_ptr c" for c2
    using p r g that by (auto simp: ps_rdma_sendTd_def ps_send_fill_def CanSend_def Let_def result_elims split: if_splits)
qed

lemma wk_send_fills:
  assumes p: "wk_rdma_sendTd w c = Inr (w', c')" and g: "to_send_age w = wk_completed_iter w"
  obtains f where "fills f" "c' = f c"
    "\<And>c2. cc_buffer c2 = cc_buffer c \<Longrightarrow> cc_buf_ptr c2 = cc_buf_ptr c \<Longrightarrow>
      wk_rdma_sendTd w c2 = Inr (w', f c2)"
proof
  let ?f = "\<lambda>c :: client_context. c\<lparr>cc_buffer := cc_buffer c', cc_buf_len := cc_buf_len c', can_send := True\<rparr>"
  show "fills ?f" by (rule fillsI)
  show "c' = ?f c" using p g by (auto simp: wk_rdma_sendTd_def wk_send_fill_def wk_CanSend_def result_elims)
  show "wk_rdma_sendTd w c2 = Inr (w', ?f c2)"
    if "cc_buffer c2 = cc_buffer c" "cc_buf_ptr c2 = cc_buf_ptr c" for c2
    using p g that by (auto simp: wk_rdma_sendTd_def wk_send_fill_def wk_CanSend_def result_elims)
qed

lemma ps_recv_marks:
  assumes p: "ps_rdma_recvTd i st c = Inr (st', c')" and r: "sc_buf_registered c"
    and g: "recved_iter st i + 2 \<le> buf_recv_counter c"
  obtains f where "marks f" "c' = f c"
    "\<And>c2. sc_buffer c2 = sc_buffer c \<Longrightarrow> sc_buf_registered c2 = sc_buf_registered c \<Longrightarrow>
      sc_buf_ptr c2 = sc_buf_ptr c \<Longrightarrow> buf_recv_counter c2 = buf_recv_counter c \<Longrightarrow>
      ps_rdma_recvTd i st c2 = Inr (st', f c2)"
proof
  let ?f = "\<lambda>c :: conn_context. c\<lparr>sc_buf_prepared := False, can_recv := True\<rparr>"
  show "marks ?f" by (rule marksI)
  show "c' = ?f c" using p r g by (auto simp: ps_rdma_recvTd_def ps_recv_copy_unfold Let_def result_elims split: if_splits)
  show "ps_rdma_recvTd i st c2 = Inr (st', ?f c2)"
    if "sc_buffer c2 = sc_buffer c" "sc_buf_registered c2 = sc_buf_registered c" "sc_buf_ptr c2 = sc_buf_ptr c"
      "buf_recv_counter c2 = buf_recv_counter c" for c2
    using p r g that by (auto simp: ps_rdma_recvTd_def ps_recv_copy_unfold Let_def result_elims split: if_splits)
qed

lemma wk_recv_marks:
  assumes p: "wk_rdma_recvTd w c = Inr (w', c')" and r: "sc_buf_registered c"
    and g: "recved_age w + 2 \<le> buf_recv_counter c"
  obtains f where "marks f" "c' = f c"
    "\<And>c2. sc_buffer c2 = sc_buffer c \<Longrightarrow> sc_buf_registered c2 = sc_buf_registered c \<Longrightarrow>
      sc_buf_ptr c2 = sc_buf_ptr c \<Longrightarrow> buf_recv_counter c2 = buf_recv_counter c \<Longrightarrow>
      wk_rdma_recvTd w c2 = Inr (w', f c2)"
proof
  let ?f = "\<lambda>c :: conn_context. c\<lparr>can_recv := True\<rparr>"
  show "marks ?f" by (rule marksI)
  show "c' = ?f c"
    using p r g by (auto simp: wk_rdma_recvTd_def wk_recv_copy_def Let_def split_beta result_elims split: if_splits)
  show "wk_rdma_recvTd w c2 = Inr (w', ?f c2)"
    if "sc_buffer c2 = sc_buffer c" "sc_buf_registered c2 = sc_buf_registered c" "sc_buf_ptr c2 = sc_buf_ptr c"
      "buf_recv_counter c2 = buf_recv_counter c" for c2
    using p r g that by (auto simp: wk_rdma_recvTd_def wk_recv_copy_def Let_def split_beta result_elims split: if_splits)
qed

end
