(* ===== verification/Races.thy ===== *)
theory Races
  imports Threads
begin

text \<open>
  Which steps can race in a running system. Two steps that touch different parts of the state commute;
  two application threads that would touch the same blocks or buffers are never both ready; and of
  what is left, a pass and the transport thread of its own link, only one pair does not commute:
  filling the buffer and clearing the flag. So it does not matter for any result that a pass of an
  application thread is one step of the model.
\<close>

section \<open>The passes of a running system\<close>

lemma lane_facts:
  assumes S: "system_inv pw pm F Ls s" and i: "i < lanes s"
  shows "i < CAP" and "client_ready (lk_cl (cl_down s i))" "server_ready (lk_sv (cl_up s i))"
    "server_ready (lk_sv (cl_down s i))" "client_ready (lk_cl (cl_up s i))"
    and "worker_pidx (cl_ps s) i = int i" "worker_qidx (cl_ps s) i = int i"
    and "eles (Pblocks (cl_ps s) i) = ls_p (Ls i)" "eles (Qblocks (cl_ps s) i) = ls_q (Ls i)"
proof -
  obtain k where "ps_holds F (Ls i) (cl_ps s) k"
    using S i unfolding system_inv_def cluster_data_def lane_data_def by blast
  then show "eles (Pblocks (cl_ps s) i) = ls_p (Ls i)" "eles (Qblocks (cl_ps s) i) = ls_q (Ls i)"
    using S i by (auto simp: system_inv_def specs_ok_def ps_holds_def Let_def)
  show "i < CAP" using S i by (auto simp: system_inv_def specs_ok_def spec_ok_def)
  show "client_ready (lk_cl (cl_down s i))" "server_ready (lk_sv (cl_up s i))"
    "server_ready (lk_sv (cl_down s i))" "client_ready (lk_cl (cl_up s i))"
    using S i by (auto simp: system_inv_def cluster_ready_def lane_ready_def link_ready_def)
  show "worker_pidx (cl_ps s) i = int i" "worker_qidx (cl_ps s) i = int i"
    using S i by (auto simp: system_inv_def cluster_data_def)
qed

lemma system_lanes_apart:
  assumes S: "system_inv pw pm F Ls s" and ij: "i < lanes s" "j < lanes s" "i \<noteq> j"
  shows "lanes_apart i j (cl_ps s)"
proof -
  have "specs_ok Ls (lanes s)" using S by (simp add: system_inv_def)
  from specs_apart[OF this ij(2,1,3)] show ?thesis
    using ij(3) lane_facts(6-9)[OF S ij(1)] lane_facts(6-9)[OF S ij(2)] by (auto simp: lanes_apart_def)
qed

lemma system_message:
  assumes S: "system_inv pw pm F Ls s" and i: "i < lanes s" and r: "ready (Recv i) s"
  obtains msg where "read_blocks (sc_buffer (lk_sv (cl_up s i))) = Inr msg" "lane_message i (cl_ps s) msg"
    "ps_recv_ready i (cl_ps s) (lk_sv (cl_up s i))"
    "snd (fst msg) = fst (lane_ref F (Ls i) (nat (recved_iter (cl_ps s) i + 2)))"
proof -
  let ?L = "Ls i" and ?ri = "recved_iter (cl_ps s) i" and ?up = "cl_up s i"
  have I: "cluster_inv pw pm s" and sp: "specs_ok Ls (lanes s)" using S by (simp_all add: system_inv_def)
  note L = specs_lane[OF sp i]
  obtain mrd mru where D: "lane_data pw F ?L mrd mru ?ri (to_send_iter (cl_ps s) i) (cl_ps s)
      (cl_down s i) (cl_wk s i) ?up"
    using S i by (auto simp: system_inv_def cluster_data_def)
  have rdy: "ps_recv_ready i (cl_ps s) (lk_sv ?up)"
    using lane_facts(3)[OF S i] r by (simp add: ps_recv_ready_def server_ready_def)
  have ld: "link_landed ?up = ?ri + 2"
    using lane_tight(6)[OF cluster_inv_lane[OF I i]] rdy by (simp add: ps_recv_ready_def)
  have "- 1 \<le> ?ri" using D by (simp add: lane_data_def)
  then obtain m len where "packed F ?L (nat (?ri + 2)) m len" "agrees (sc_buffer (lk_sv ?up)) m len"
    using D ld by (auto simp: lane_data_def link_data_def)
  from packed_read[OF this] obtain P Q where
    rd: "read_blocks (sc_buffer (lk_sv ?up)) =
      Inr ((P, fst (lane_ref F ?L (nat (?ri + 2)))), (Q, snd (lane_ref F ?L (nat (?ri + 2)))))" and
    hd: "hdr ?L (ls_hp ?L) (ls_sp ?L) P" "hdr ?L (ls_hq ?L) (ls_sq ?L) Q" by blast
  have "ps_holds F ?L (cl_ps s) (nat (?ri + 1))" using D by (simp add: lane_data_def)
  then have "lane_message i (cl_ps s) ((P, fst (lane_ref F ?L (nat (?ri + 2)))),
      (Q, snd (lane_ref F ?L (nat (?ri + 2)))))"
    using L hd length_lane_ref[of ?L F]
    by (auto simp: lane_message_def ps_holds_def array_fits_def hdr_def Let_def)
  then show thesis by (intro that[OF rd _ rdy]) simp_all
qed

text \<open>Where such a pass puts the context it has changed.\<close>

definition puts :: "nat \<Rightarrow> ('w cluster \<Rightarrow> 'w cluster) set" where
  "puts i = range (set_down i) \<union> range (set_up i)"

lemma puts_simps:
  assumes "f \<in> puts i"
  shows "cl_ps (f r) = cl_ps r" "cl_exit (f r) = cl_exit r" "lanes (f r) = lanes r"
    "(f r)\<lparr>cl_ps := p\<rparr> = f (r\<lparr>cl_ps := p\<rparr>)"
    "j \<noteq> i \<Longrightarrow> cl_down (f r) j = cl_down r j" "j \<noteq> i \<Longrightarrow> cl_up (f r) j = cl_up r j"
  using assms by (auto simp: puts_def set_defs lanes_def)

lemma puts_twist: "f \<in> puts i \<Longrightarrow> g \<in> puts j \<Longrightarrow> i \<noteq> j \<Longrightarrow> f (g r) = g (f r)"
  by (auto simp: puts_def set_defs fun_upd_twist)

text \<open>A pass of the server's threads for lane \<open>i\<close>, now or after a pass for another lane.\<close>

lemma server_pass:
  assumes S: "system_inv pw pm F Ls s" and i: "i < lanes s"
    and x: "x = Send i \<or> x = Recv i" "ready x s" "agent_step Fb F rnd x s t"
  obtains g f where "f \<in> puts i" "g \<in> effects i (cl_ps s)" "t = f (s\<lparr>cl_ps := g (cl_ps s)\<rparr>)"
    and "\<And>u. same_lane i (cl_ps s) (cl_ps u) \<Longrightarrow> cl_down u i = cl_down s i \<Longrightarrow> cl_up u i = cl_up s i \<Longrightarrow>
      cl_exit u = cl_exit s \<Longrightarrow> lanes u = lanes s \<Longrightarrow> agent_step Fb F rnd x u (f (u\<lparr>cl_ps := g (cl_ps u)\<rparr>))"
proof -
  have e: "cl_exit s = None" using x by (auto elim: agent_stepE)
  have same: "same_lane i (cl_ps s) (cl_ps s)" using lane_facts(1,6,7)[OF S i] by (simp add: same_lane_def)
  show thesis
    using x(1)
  proof
    assume X: "x = Send i"
    obtain st' c' where p: "ps_rdma_sendTd i (cl_ps s) (lk_cl (cl_down s i)) = Inr (st', c')"
      and t: "t = set_down i ((cl_down s i)\<lparr>lk_cl := c'\<rparr>) (s\<lparr>cl_ps := st'\<rparr>)"
      using x(3) X by (auto elim: agent_stepE)
    have g: "to_send_iter (cl_ps s) i \<le> ps_completed_iter (cl_ps s)" using x(2) X by simp
    have reg: "cc_buf_registered (lk_cl (cl_down s i))" using lane_facts(2)[OF S i] by (simp add: client_ready_def)
    let ?f = "set_down i ((cl_down s i)\<lparr>lk_cl := c'\<rparr>)"
    have "?f \<in> puts i" "ps_sent i \<in> effects i (cl_ps s)" by (auto simp: puts_def effects_def)
    moreover have "t = ?f (s\<lparr>cl_ps := ps_sent i (cl_ps s)\<rparr>)" using t send_again(1)[OF p g same reg] by simp
    moreover have "agent_step Fb F rnd x u (?f (u\<lparr>cl_ps := ps_sent i (cl_ps u)\<rparr>))"
      if u: "same_lane i (cl_ps s) (cl_ps u)" "cl_down u i = cl_down s i" "cl_exit u = cl_exit s"
        "lanes u = lanes s" for u
    proof -
      have "ps_rdma_sendTd i (cl_ps u) (lk_cl (cl_down u i)) = Inr (ps_sent i (cl_ps u), c')"
        using send_again(2)[OF p g u(1) reg] u(2) by simp
      from agent_step.Send[OF _ _ this, of Fb F rnd] i e u X show ?thesis by simp
    qed
    ultimately show thesis using that by blast
  next
    assume X: "x = Recv i"
    from system_message[OF S i x(2)[unfolded X]] obtain msg where
      m: "read_blocks (sc_buffer (lk_sv (cl_up s i))) = Inr msg" "lane_message i (cl_ps s) msg"
        "ps_recv_ready i (cl_ps s) (lk_sv (cl_up s i))" by blast
    let ?c = "(lk_sv (cl_up s i))\<lparr>sc_buf_prepared := False, can_recv := True\<rparr>"
    let ?f = "set_up i ((cl_up s i)\<lparr>lk_sv := ?c\<rparr>)"
    have "?f \<in> puts i" by (simp add: puts_def)
    moreover have "ps_received i msg \<in> effects i (cl_ps s)" unfolding effects_def using m(2) by blast
    moreover have "t = ?f (s\<lparr>cl_ps := ps_received i msg (cl_ps s)\<rparr>)"
      using x(3) X recv_again(1)[OF m same] by (auto elim: agent_stepE)
    moreover have "agent_step Fb F rnd x u (?f (u\<lparr>cl_ps := ps_received i msg (cl_ps u)\<rparr>))"
      if u: "same_lane i (cl_ps s) (cl_ps u)" "cl_up u i = cl_up s i" "cl_exit u = cl_exit s"
        "lanes u = lanes s" for u
    proof -
      have "ps_rdma_recvTd i (cl_ps u) (lk_sv (cl_up u i)) = Inr (ps_received i msg (cl_ps u), ?c)"
        using recv_again(2)[OF m u(1)] u(2) by simp
      from agent_step.Recv[OF _ _ this, of Fb F rnd] i e u X show ?thesis by simp
    qed
    ultimately show thesis using that by blast
  qed
qed

lemma server_pair_commute:
  assumes S: "system_inv pw pm F Ls s" and ij: "i < lanes s" "j < lanes s" "i \<noteq> j"
    and x: "x = Send i \<or> x = Recv i" "ready x s" "agent_step Fb F rnd x s t"
    and y: "y = Send j \<or> y = Recv j" "ready y s" "agent_step Fb F rnd y s u"
  shows "\<exists>v. agent_step Fb F rnd y t v \<and> agent_step Fb F rnd x u v"
proof -
  from server_pass[OF S ij(1) x] obtain g f where f: "f \<in> puts i" and g: "g \<in> effects i (cl_ps s)"
    and t: "t = f (s\<lparr>cl_ps := g (cl_ps s)\<rparr>)" and
    xu: "\<And>u. same_lane i (cl_ps s) (cl_ps u) \<Longrightarrow> cl_down u i = cl_down s i \<Longrightarrow> cl_up u i = cl_up s i \<Longrightarrow>
      cl_exit u = cl_exit s \<Longrightarrow> lanes u = lanes s \<Longrightarrow> agent_step Fb F rnd x u (f (u\<lparr>cl_ps := g (cl_ps u)\<rparr>))"
    by blast
  from server_pass[OF S ij(2) y] obtain h k where k: "k \<in> puts j" and h: "h \<in> effects j (cl_ps s)"
    and u: "u = k (s\<lparr>cl_ps := h (cl_ps s)\<rparr>)" and
    yt: "\<And>u. same_lane j (cl_ps s) (cl_ps u) \<Longrightarrow> cl_down u j = cl_down s j \<Longrightarrow> cl_up u j = cl_up s j \<Longrightarrow>
      cl_exit u = cl_exit s \<Longrightarrow> lanes u = lanes s \<Longrightarrow> agent_step Fb F rnd y u (k (u\<lparr>cl_ps := h (cl_ps u)\<rparr>))"
    by blast
  have A: "lanes_apart i j (cl_ps s)" "lanes_apart j i (cl_ps s)" using system_lanes_apart[OF S] ij by auto
  have "agent_step Fb F rnd x u (f (u\<lparr>cl_ps := g (cl_ps u)\<rparr>))"
    using ij(3) effects_same[OF A(1) lane_facts(1)[OF S ij(1)] h] effects_lanes[OF h]
    by (intro xu) (simp_all add: u puts_simps[OF k] lanes_def)
  moreover have "agent_step Fb F rnd y t (k (t\<lparr>cl_ps := h (cl_ps t)\<rparr>))"
    using ij(3) effects_same[OF A(2) lane_facts(1)[OF S ij(2)] g] effects_lanes[OF g]
    by (intro yt) (simp_all add: t puts_simps[OF f] lanes_def)
  moreover have "f (u\<lparr>cl_ps := g (cl_ps u)\<rparr>) = k (t\<lparr>cl_ps := h (cl_ps t)\<rparr>)"
    using effects_commute[OF A(1) g h] puts_twist[OF f k ij(3)]
    by (simp add: t u puts_simps[OF f] puts_simps[OF k])
  ultimately show ?thesis by metis
qed

section \<open>A pass and the transport thread of its link\<close>

text \<open>Where a pass is ready, its link has nothing to do with the buffer, but for clearing the flag.\<close>

lemma ready_settled:
  assumes I: "cluster_inv pw pm s" and i: "i < lanes s"
  shows "ready (Send i) s \<or> ready (Wrecv i) s \<Longrightarrow>
      pw (lk_net (cl_down s i)) = [] \<and> lk_wcs (cl_down s i) = [] \<and>
      (can_send (lk_cl (cl_down s i)) \<longrightarrow> lk_cpc (cl_down s i) = CPosted)"
    and "ready (Wsend i) s \<or> ready (Recv i) s \<Longrightarrow>
      pw (lk_net (cl_up s i)) = [] \<and> lk_wcs (cl_up s i) = [] \<and>
      (can_send (lk_cl (cl_up s i)) \<longrightarrow> lk_cpc (cl_up s i) = CPosted)"
    and "ready (Send i) s \<or> ready (Wsend i) s \<Longrightarrow> \<not> lane_lost s i"
    and "ready (Send i) s \<Longrightarrow> link_claims (cl_down s i) \<le> to_send_iter (cl_ps s) i"
    and "ready (Wsend i) s \<Longrightarrow> link_claims (cl_up s i) \<le> to_send_age (cl_wk s i)"
proof -
  note lane = cluster_inv_lane[OF I i]
  note c = lane_chain[OF lane]
  have it: "ps_completed_iter (cl_ps s) = ps_iter_t (cl_ps s) - 1" using I by (simp add: cluster_inv_def)
  have L: "link_inv pw pm (cl_down s i)" "link_inv pw pm (cl_up s i)" using lane by (simp_all add: lane_inv_def)
  have d: "link_claims (cl_down s i) \<le> buf_recv_counter (lk_sv (cl_down s i))"
    if "ready (Send i) s \<or> ready (Wrecv i) s"
    using that c it unfolding ready.simps by (elim disjE) linarith+
  have u: "link_claims (cl_up s i) \<le> buf_recv_counter (lk_sv (cl_up s i))"
    if "ready (Wsend i) s \<or> ready (Recv i) s"
    using that c it unfolding ready.simps by (elim disjE) linarith+
  show "ready (Send i) s \<or> ready (Wrecv i) s \<Longrightarrow>
      pw (lk_net (cl_down s i)) = [] \<and> lk_wcs (cl_down s i) = [] \<and>
      (can_send (lk_cl (cl_down s i)) \<longrightarrow> lk_cpc (cl_down s i) = CPosted)"
    by (rule link_settled[OF L(1) d])
  show "ready (Wsend i) s \<or> ready (Recv i) s \<Longrightarrow>
      pw (lk_net (cl_up s i)) = [] \<and> lk_wcs (cl_up s i) = [] \<and>
      (can_send (lk_cl (cl_up s i)) \<longrightarrow> lk_cpc (cl_up s i) = CPosted)"
    by (rule link_settled[OF L(2) u])
  show "\<not> lane_lost s i" if "ready (Send i) s \<or> ready (Wsend i) s"
    using that c it lost_tight[OF I i] unfolding ready.simps by (elim disjE) linarith+
  show "link_claims (cl_down s i) \<le> to_send_iter (cl_ps s) i" "link_claims (cl_up s i) \<le> to_send_age (cl_wk s i)"
    using c by simp_all
qed

text \<open>A sending pass and its link: unless it is the flag that is cleared, both orders are possible and end alike.\<close>

lemma down_send_commute:
  assumes R: "rc_fabric Fb pw pm" and S: "system_inv pw pm F Ls s" and g: "ready (Send i) s"
    and x: "agent_step Fb F rnd (Send i) s t" and y: "agent_step Fb F rnd (Down i) s u"
    and nc: "\<not> (lk_cpc (cl_down s i) = CPosted \<and> lk_cpc (cl_down u i) = CCleared)"
  shows "\<exists>v. agent_step Fb F rnd (Down i) t v \<and> agent_step Fb F rnd (Send i) u v"
proof -
  let ?l = "cl_down s i"
  have I: "cluster_inv pw pm s" using S by (simp add: system_inv_def)
  obtain st' c' where i: "cl_exit s = None" "i < lanes s" and p: "ps_rdma_sendTd i (cl_ps s) (lk_cl ?l) = Inr (st', c')"
    and t: "t = set_down i (?l\<lparr>lk_cl := c'\<rparr>) (s\<lparr>cl_ps := st'\<rparr>)"
    using x by (auto elim: agent_stepE)
  obtain l' where st: "link_step Fb ?l l'" and u: "u = set_down i l' s" using y by (auto elim: agent_stepE)
  have ln: "lanes t = lanes s" using agent_cluster_step[OF x] by (rule cluster_step_lanes)
  have reg: "cc_buf_registered (lk_cl ?l)" using lane_facts(2)[OF S i(2)] by (simp add: client_ready_def)
  from ps_send_fills[OF p reg g[unfolded ready.simps]] obtain f where f: "fills f" "c' = f (lk_cl ?l)"
    and again: "\<And>c2. cc_buffer c2 = cc_buffer (lk_cl ?l) \<Longrightarrow> cc_buf_registered c2 = cc_buf_registered (lk_cl ?l) \<Longrightarrow>
      cc_buf_ptr c2 = cc_buf_ptr (lk_cl ?l) \<Longrightarrow> ps_rdma_sendTd i (cl_ps s) c2 = Inr (st', f c2)" by blast
  have L: "link_inv pw pm ?l" using cluster_inv_lane[OF I i(2)] by (simp add: lane_inv_def)
  have q: "pw (lk_net ?l) = []" "can_send (lk_cl ?l) \<longrightarrow> lk_cpc ?l = CPosted"
    using ready_settled(1)[OF I i(2)] g by blast+
  have nc': "\<not> (lk_cpc ?l = CPosted \<and> lk_cpc l' = CCleared)" using nc u by (simp add: set_defs)
  have nc'': "lk_cpc ?l = CPosted \<and> lk_cpc l' = CCleared \<longrightarrow> (\<forall>c. can_send (f c) = can_send c)"
    using nc' by blast
  note k = fill_link_commute[OF R L st f(1) q nc''] still_client[OF R L st q(2)]
  let ?v = "set_down i (l'\<lparr>lk_cl := f (lk_cl l')\<rparr>) (s\<lparr>cl_ps := st'\<rparr>)"
  have "agent_step Fb F rnd (Down i) t (set_down i (l'\<lparr>lk_cl := f (lk_cl l')\<rparr>) t)"
    using i ln k(1) by (intro agent_step.Down) (simp_all add: t f(2) set_defs)
  moreover have "set_down i (l'\<lparr>lk_cl := f (lk_cl l')\<rparr>) t = ?v" by (simp add: t set_defs)
  moreover have "ps_rdma_sendTd i (cl_ps u) (lk_cl (cl_down u i)) = Inr (st', f (lk_cl l'))"
    using again[OF k(2-4)] by (simp add: u set_defs)
  then have "agent_step Fb F rnd (Send i) u
      (set_down i ((cl_down u i)\<lparr>lk_cl := f (lk_cl l')\<rparr>) (u\<lparr>cl_ps := st'\<rparr>))"
    using i by (intro agent_step.Send) (simp_all add: u set_defs lanes_def)
  moreover have "set_down i ((cl_down u i)\<lparr>lk_cl := f (lk_cl l')\<rparr>) (u\<lparr>cl_ps := st'\<rparr>) = ?v"
    by (simp add: u set_defs)
  ultimately show ?thesis by metis
qed

lemma up_send_commute:
  assumes R: "rc_fabric Fb pw pm" and S: "system_inv pw pm F Ls s" and g: "ready (Wsend i) s"
    and x: "agent_step Fb F rnd (Wsend i) s t" and y: "agent_step Fb F rnd (Up i) s u"
    and nc: "\<not> (lk_cpc (cl_up s i) = CPosted \<and> lk_cpc (cl_up u i) = CCleared)"
  shows "\<exists>v. agent_step Fb F rnd (Up i) t v \<and> agent_step Fb F rnd (Wsend i) u v"
proof -
  let ?l = "cl_up s i"
  have I: "cluster_inv pw pm s" using S by (simp add: system_inv_def)
  obtain w' c' where i: "i < lanes s" and p: "wk_rdma_sendTd (cl_wk s i) (lk_cl ?l) = Inr (w', c')"
    and t: "t = set_up i (?l\<lparr>lk_cl := c'\<rparr>) (set_wk i w' s)"
    using x by (auto elim: agent_stepE)
  obtain l' where e: "cl_exit s = None" and st: "link_step Fb ?l l'" and u: "u = set_up i l' s"
    using y by (auto elim: agent_stepE)
  have ln: "lanes t = lanes s" using agent_cluster_step[OF x] by (rule cluster_step_lanes)
  from wk_send_fills[OF p g[unfolded ready.simps]] obtain f where f: "fills f" "c' = f (lk_cl ?l)"
    and again: "\<And>c2. cc_buffer c2 = cc_buffer (lk_cl ?l) \<Longrightarrow>
      cc_buf_ptr c2 = cc_buf_ptr (lk_cl ?l) \<Longrightarrow> wk_rdma_sendTd (cl_wk s i) c2 = Inr (w', f c2)" by blast
  have L: "link_inv pw pm ?l" using cluster_inv_lane[OF I i] by (simp add: lane_inv_def)
  have q: "pw (lk_net ?l) = []" "can_send (lk_cl ?l) \<longrightarrow> lk_cpc ?l = CPosted"
    using ready_settled(2)[OF I i] g by blast+
  have nc': "\<not> (lk_cpc ?l = CPosted \<and> lk_cpc l' = CCleared)" using nc u by (simp add: set_defs)
  have nc'': "lk_cpc ?l = CPosted \<and> lk_cpc l' = CCleared \<longrightarrow> (\<forall>c. can_send (f c) = can_send c)"
    using nc' by blast
  note k = fill_link_commute[OF R L st f(1) q nc''] still_client[OF R L st q(2)]
  let ?v = "set_up i (l'\<lparr>lk_cl := f (lk_cl l')\<rparr>) (set_wk i w' s)"
  have "agent_step Fb F rnd (Up i) t (set_up i (l'\<lparr>lk_cl := f (lk_cl l')\<rparr>) t)"
    using i e ln k(1) by (intro agent_step.Up) (simp_all add: t f(2) set_defs)
  moreover have "set_up i (l'\<lparr>lk_cl := f (lk_cl l')\<rparr>) t = ?v" by (simp add: t set_defs)
  moreover have "wk_rdma_sendTd (cl_wk u i) (lk_cl (cl_up u i)) = Inr (w', f (lk_cl l'))"
    using again[OF k(2,4)] by (simp add: u set_defs)
  then have "agent_step Fb F rnd (Wsend i) u
      (set_up i ((cl_up u i)\<lparr>lk_cl := f (lk_cl l')\<rparr>) (set_wk i w' u))"
    using i by (intro agent_step.Wsend) (simp_all add: u set_defs lanes_def)
  moreover have "set_up i ((cl_up u i)\<lparr>lk_cl := f (lk_cl l')\<rparr>) (set_wk i w' u) = ?v"
    by (simp add: u set_defs)
  ultimately show ?thesis by metis
qed

text \<open>A receiving pass and its link.\<close>

lemma up_recv_commute:
  assumes R: "rc_fabric Fb pw pm" and S: "system_inv pw pm F Ls s" and g: "ready (Recv i) s"
    and x: "agent_step Fb F rnd (Recv i) s t" and y: "agent_step Fb F rnd (Up i) s u"
  shows "\<exists>v. agent_step Fb F rnd (Up i) t v \<and> agent_step Fb F rnd (Recv i) u v"
proof -
  let ?l = "cl_up s i"
  have I: "cluster_inv pw pm s" using S by (simp add: system_inv_def)
  obtain st' c' where i: "cl_exit s = None" "i < lanes s" and p: "ps_rdma_recvTd i (cl_ps s) (lk_sv ?l) = Inr (st', c')"
    and t: "t = set_up i (?l\<lparr>lk_sv := c'\<rparr>) (s\<lparr>cl_ps := st'\<rparr>)"
    using x by (auto elim: agent_stepE)
  obtain l' where st: "link_step Fb ?l l'" and u: "u = set_up i l' s" using y by (auto elim: agent_stepE)
  have ln: "lanes t = lanes s" using agent_cluster_step[OF x] by (rule cluster_step_lanes)
  have reg: "sc_buf_registered (lk_sv ?l)" using lane_facts(3)[OF S i(2)] by (simp add: server_ready_def)
  from ps_recv_marks[OF p reg g[unfolded ready.simps]] obtain f where f: "marks f" "c' = f (lk_sv ?l)"
    and again: "\<And>c2. sc_buffer c2 = sc_buffer (lk_sv ?l) \<Longrightarrow> sc_buf_registered c2 = sc_buf_registered (lk_sv ?l) \<Longrightarrow>
      sc_buf_ptr c2 = sc_buf_ptr (lk_sv ?l) \<Longrightarrow> buf_recv_counter c2 = buf_recv_counter (lk_sv ?l) \<Longrightarrow>
      ps_rdma_recvTd i (cl_ps s) c2 = Inr (st', f c2)" by blast
  have q: "pw (lk_net ?l) = []" "lk_wcs ?l = []" using ready_settled(2)[OF I i(2)] g by blast+
  note k = mark_link[OF f(1) st] quiet_link[OF R st q]
  let ?v = "set_up i (l'\<lparr>lk_sv := f (lk_sv l')\<rparr>) (s\<lparr>cl_ps := st'\<rparr>)"
  have "agent_step Fb F rnd (Up i) t (set_up i (l'\<lparr>lk_sv := f (lk_sv l')\<rparr>) t)"
    using i ln k(1) by (intro agent_step.Up) (simp_all add: t f(2) set_defs)
  moreover have "set_up i (l'\<lparr>lk_sv := f (lk_sv l')\<rparr>) t = ?v" by (simp add: t set_defs)
  moreover have "ps_rdma_recvTd i (cl_ps u) (lk_sv (cl_up u i)) = Inr (st', f (lk_sv l'))"
    using again[OF k(2-5)] by (simp add: u set_defs)
  then have "agent_step Fb F rnd (Recv i) u
      (set_up i ((cl_up u i)\<lparr>lk_sv := f (lk_sv l')\<rparr>) (u\<lparr>cl_ps := st'\<rparr>))"
    using i by (intro agent_step.Recv) (simp_all add: u set_defs lanes_def)
  moreover have "set_up i ((cl_up u i)\<lparr>lk_sv := f (lk_sv l')\<rparr>) (u\<lparr>cl_ps := st'\<rparr>) = ?v"
    by (simp add: u set_defs)
  ultimately show ?thesis by metis
qed

lemma down_recv_commute:
  assumes R: "rc_fabric Fb pw pm" and S: "system_inv pw pm F Ls s" and g: "ready (Wrecv i) s"
    and x: "agent_step Fb F rnd (Wrecv i) s t" and y: "agent_step Fb F rnd (Down i) s u"
  shows "\<exists>v. agent_step Fb F rnd (Down i) t v \<and> agent_step Fb F rnd (Wrecv i) u v"
proof -
  let ?l = "cl_down s i"
  have I: "cluster_inv pw pm s" using S by (simp add: system_inv_def)
  obtain w' c' where i: "i < lanes s" and p: "wk_rdma_recvTd (cl_wk s i) (lk_sv ?l) = Inr (w', c')"
    and t: "t = set_down i (?l\<lparr>lk_sv := c'\<rparr>) (set_wk i w' s)"
    using x by (auto elim: agent_stepE)
  obtain l' where e: "cl_exit s = None" and st: "link_step Fb ?l l'" and u: "u = set_down i l' s"
    using y by (auto elim: agent_stepE)
  have ln: "lanes t = lanes s" using agent_cluster_step[OF x] by (rule cluster_step_lanes)
  have reg: "sc_buf_registered (lk_sv ?l)" using lane_facts(4)[OF S i] by (simp add: server_ready_def)
  from wk_recv_marks[OF p reg g[unfolded ready.simps]] obtain f where f: "marks f" "c' = f (lk_sv ?l)"
    and again: "\<And>c2. sc_buffer c2 = sc_buffer (lk_sv ?l) \<Longrightarrow> sc_buf_registered c2 = sc_buf_registered (lk_sv ?l) \<Longrightarrow>
      sc_buf_ptr c2 = sc_buf_ptr (lk_sv ?l) \<Longrightarrow> buf_recv_counter c2 = buf_recv_counter (lk_sv ?l) \<Longrightarrow>
      wk_rdma_recvTd (cl_wk s i) c2 = Inr (w', f c2)" by blast
  have q: "pw (lk_net ?l) = []" "lk_wcs ?l = []" using ready_settled(1)[OF I i] g by blast+
  note k = mark_link[OF f(1) st] quiet_link[OF R st q]
  let ?v = "set_down i (l'\<lparr>lk_sv := f (lk_sv l')\<rparr>) (set_wk i w' s)"
  have "agent_step Fb F rnd (Down i) t (set_down i (l'\<lparr>lk_sv := f (lk_sv l')\<rparr>) t)"
    using i e ln k(1) by (intro agent_step.Down) (simp_all add: t f(2) set_defs)
  moreover have "set_down i (l'\<lparr>lk_sv := f (lk_sv l')\<rparr>) t = ?v" by (simp add: t set_defs)
  moreover have "wk_rdma_recvTd (cl_wk u i) (lk_sv (cl_down u i)) = Inr (w', f (lk_sv l'))"
    using again[OF k(2-5)] by (simp add: u set_defs)
  then have "agent_step Fb F rnd (Wrecv i) u
      (set_down i ((cl_down u i)\<lparr>lk_sv := f (lk_sv l')\<rparr>) (set_wk i w' u))"
    using i by (intro agent_step.Wrecv) (simp_all add: u set_defs lanes_def)
  moreover have "set_down i ((cl_down u i)\<lparr>lk_sv := f (lk_sv l')\<rparr>) (set_wk i w' u) = ?v"
    by (simp add: u set_defs)
  ultimately show ?thesis by metis
qed

section \<open>The only race\<close>

fun lane_of :: "agent \<Rightarrow> nat option" where
  "lane_of Main = None"
| "lane_of (Send i) = Some i"
| "lane_of (Recv i) = Some i"
| "lane_of (Compute i) = Some i"
| "lane_of (Wsend i) = Some i"
| "lane_of (Wrecv i) = Some i"
| "lane_of (Down i) = Some i"
| "lane_of (Up i) = Some i"

lemma lane_of_bound: "agent_step Fb F rnd x s t \<Longrightarrow> lane_of x = Some i \<Longrightarrow> i < lanes s"
  by (auto elim: agent_stepE)

text \<open>Application threads that share a part are of one lane, or two threads of the server.\<close>

lemma shared_part:
  assumes "application x" "application y" "x \<noteq> y" "touches x \<inter> touches y \<noteq> {}"
  shows "(\<exists>i. (lane_of x = Some i \<or> lane_of y = Some i) \<and> in_lane i x \<and> in_lane i y) \<or>
     (\<exists>i j. i \<noteq> j \<and> (x = Send i \<or> x = Recv i) \<and> (y = Send j \<or> y = Recv j))"
  using assms by (cases x; cases y; auto)

text \<open>An application thread shares a part with a transport thread of its own link only.\<close>

lemma shared_link:
  assumes "application x" "\<not> application y" "touches x \<inter> touches y \<noteq> {}"
  shows "\<exists>i. x = Send i \<and> y = Down i \<or> x = Wsend i \<and> y = Up i \<or> x = Recv i \<and> y = Up i \<or>
     x = Wrecv i \<and> y = Down i"
  using assms by (cases x; cases y; auto)

lemma step_claims:
  assumes R: "rc_fabric Fb pw pm" and I: "cluster_inv pw pm s" and i: "i < lanes s"
  shows "agent_step Fb F rnd (Down i) s u \<Longrightarrow> lane_lost u i = lane_lost s i"
    and "agent_step Fb F rnd (Up i) s u \<Longrightarrow> lane_lost u i = lane_lost s i"
proof -
  have L: "link_inv pw pm (cl_down s i)" "link_inv pw pm (cl_up s i)"
    using cluster_inv_lane[OF I i] by (simp_all add: lane_inv_def)
  show "agent_step Fb F rnd (Down i) s u \<Longrightarrow> lane_lost u i = lane_lost s i"
    by (erule agent_stepE) (simp_all add: lane_lost_def set_defs link_claims_step[OF R _ L(1)])
  show "agent_step Fb F rnd (Up i) s u \<Longrightarrow> lane_lost u i = lane_lost s i"
    by (erule agent_stepE) (simp_all add: lane_lost_def set_defs link_claims_step[OF R _ L(2)])
qed

text \<open>A buffer that is filled while the flag is still to be cleared is lost.\<close>

lemma filled_too_early:
  assumes I: "cluster_inv pw pm s" and i: "i < lanes s"
  shows "agent_step Fb F rnd (Send i) s t \<Longrightarrow> t \<noteq> s \<Longrightarrow> lk_cpc (cl_down s i) = CPosted \<Longrightarrow> lane_lost t i"
    and "agent_step Fb F rnd (Wsend i) s t \<Longrightarrow> t \<noteq> s \<Longrightarrow> lk_cpc (cl_up s i) = CPosted \<Longrightarrow> lane_lost t i"
proof -
  note c = lane_chain[OF cluster_inv_lane[OF I i]]
  show "lane_lost t i" if x: "agent_step Fb F rnd (Send i) s t" "t \<noteq> s" and p: "lk_cpc (cl_down s i) = CPosted"
  proof -
    obtain st' c' where e: "ps_rdma_sendTd i (cl_ps s) (lk_cl (cl_down s i)) = Inr (st', c')"
      and t: "t = set_down i ((cl_down s i)\<lparr>lk_cl := c'\<rparr>) (s\<lparr>cl_ps := st'\<rparr>)"
      using x(1) by (rule agent_stepE) simp_all
    have "\<not> (st' = cl_ps s \<and> c' = lk_cl (cl_down s i))" using x(2) t by (auto simp: set_defs)
    then have "app_cl (lk_cl (cl_down s i)) c'" "to_send_iter st' i = to_send_iter (cl_ps s) i + 1"
      using ps_send_effect[OF e] by auto
    then show ?thesis
      using c(10,11) p by (simp add: t set_defs lane_lost_def link_claims_def link_posts_def app_cl_simps)
  qed
  show "lane_lost t i" if x: "agent_step Fb F rnd (Wsend i) s t" "t \<noteq> s" and p: "lk_cpc (cl_up s i) = CPosted"
  proof -
    obtain w' c' where e: "wk_rdma_sendTd (cl_wk s i) (lk_cl (cl_up s i)) = Inr (w', c')"
      and t: "t = set_up i ((cl_up s i)\<lparr>lk_cl := c'\<rparr>) (set_wk i w' s)"
      using x(1) by (rule agent_stepE) simp_all
    have "\<not> (w' = cl_wk s i \<and> c' = lk_cl (cl_up s i))" using x(2) t by (auto simp: set_defs)
    then have "app_cl (lk_cl (cl_up s i)) c'" "to_send_age w' = to_send_age (cl_wk s i) + 1"
      using wk_send_effect[OF e] by auto
    then show ?thesis
      using c(3,4) p by (simp add: t set_defs lane_lost_def link_claims_def link_posts_def app_cl_simps)
  qed
qed

lemma system_races:
  assumes R: "rc_fabric Fb pw pm" and S: "system_inv pw pm F Ls s"
    and x: "agent_step Fb F rnd x s t" "t \<noteq> s" "application x"
    and y: "agent_step Fb F rnd y s u" "u \<noteq> s" and xy: "x \<noteq> y"
  shows "(\<exists>v. agent_step Fb F rnd y t v \<and> agent_step Fb F rnd x u v) \<or>
     (\<exists>i. (x = Send i \<and> y = Down i \<or> x = Wsend i \<and> y = Up i) \<and> lane_lost t i \<and> \<not> lane_lost u i)"
proof (cases "touches x \<inter> touches y = {}")
  case True
  show ?thesis
    by (rule disjI1, rule apart_commute[OF x(1) y(1) True])
      (use cluster_step_lanes agent_cluster_step x(1) y(1) in blast)+
next
  case False
  have I: "cluster_inv pw pm s" using S by (simp add: system_inv_def)
  note rx = move_ready[OF x(1,2)] and ry = move_ready[OF y(1,2)]
  note bound = lane_of_bound[OF x(1)] lane_of_bound[OF y(1)]
  show ?thesis
  proof (cases "application y")
    case True
    from shared_part[OF x(3) True xy False] show ?thesis
    proof
      assume "\<exists>i. (lane_of x = Some i \<or> lane_of y = Some i) \<and> in_lane i x \<and> in_lane i y"
      then obtain i where i: "i < lanes s" "in_lane i x" "in_lane i y" using bound by blast
      from one_ready[OF I i(1) x(3) i(2) rx True i(3) ry] xy show ?thesis by blast
    next
      assume "\<exists>i j. i \<noteq> j \<and> (x = Send i \<or> x = Recv i) \<and> (y = Send j \<or> y = Recv j)"
      then obtain i j where ij: "i \<noteq> j" "x = Send i \<or> x = Recv i" "y = Send j \<or> y = Recv j" by blast
      then have "i < lanes s" "j < lanes s" using bound by auto
      from server_pair_commute[OF S this ij(1) ij(2) rx x(1) ij(3) ry y(1)] show ?thesis by blast
    qed
  next
    case no: False
    from shared_link[OF x(3) no False] obtain i where
      "x = Send i \<and> y = Down i \<or> x = Wsend i \<and> y = Up i \<or> x = Recv i \<and> y = Up i \<or> x = Wrecv i \<and> y = Down i" ..
    then consider (down) "x = Send i" "y = Down i" | (up) "x = Wsend i" "y = Up i"
      | (recv) "x = Recv i" "y = Up i" | (wrecv) "x = Wrecv i" "y = Down i" by blast
    then show ?thesis
    proof cases
      case down
      have i: "i < lanes s" using bound down by simp
      have "lk_cpc (cl_down s i) = CPosted \<Longrightarrow> lane_lost t i"
        using filled_too_early(1)[OF I i] x(1,2) down by blast
      moreover have "\<not> lane_lost u i"
        using step_claims(1)[OF R I i] ready_settled(3)[OF I i] y(1) rx down by blast
      moreover note down_send_commute[OF R S]
      ultimately show ?thesis using down rx x(1) y(1) by blast
    next
      case up
      have i: "i < lanes s" using bound up by simp
      have "lk_cpc (cl_up s i) = CPosted \<Longrightarrow> lane_lost t i"
        using filled_too_early(2)[OF I i] x(1,2) up by blast
      moreover have "\<not> lane_lost u i"
        using step_claims(2)[OF R I i] ready_settled(3)[OF I i] y(1) rx up by blast
      moreover note up_send_commute[OF R S]
      ultimately show ?thesis using up rx x(1) y(1) by blast
    next
      case recv
      then show ?thesis using up_recv_commute[OF R S] rx x(1) y(1) by blast
    next
      case wrecv
      then show ?thesis using down_recv_commute[OF R S] rx x(1) y(1) by blast
    qed
  qed
qed

text \<open>The same for any two parts: what is not an application thread is a link, and two links are apart.\<close>

lemma system_pairs:
  assumes R: "rc_fabric Fb pw pm" and S: "system_inv pw pm F Ls s"
    and x: "agent_step Fb F rnd x s t" "t \<noteq> s"
    and y: "agent_step Fb F rnd y s u" "u \<noteq> s" and xy: "x \<noteq> y"
  shows "(\<exists>v. agent_step Fb F rnd y t v \<and> agent_step Fb F rnd x u v) \<or>
     (\<exists>i. (x = Send i \<and> y = Down i \<or> x = Wsend i \<and> y = Up i) \<and> lane_lost t i \<and> \<not> lane_lost u i \<or>
        (y = Send i \<and> x = Down i \<or> y = Wsend i \<and> x = Up i) \<and> lane_lost u i \<and> \<not> lane_lost t i)"
proof -
  consider (x) "application x" | (y) "application y" | (links) "\<not> application x" "\<not> application y" by blast
  then show ?thesis
  proof cases
    case x
    from system_races[OF R S assms(3,4) this y xy] show ?thesis by blast
  next
    case y
    from system_races[OF R S assms(5,6) this assms(3,4) xy[symmetric]] show ?thesis by blast
  next
    case links
    then have "touches x \<inter> touches y = {}" using xy by (cases x; cases y; auto)
    from apart_commute[OF x(1) y(1) this] cluster_step_lanes agent_cluster_step x(1) y(1) show ?thesis by blast
  qed
qed

end
