(* ===== verification/Handshake.thy ===== *)
theory Handshake
  imports Link_Progress
begin

text \<open>
  The connection of one link: the events that the connection manager delivers to the two ends, in
  their order, with the handlers of both event loops. From two contexts as \<open>InitContext\<close> leaves them,
  a handshake that returns leads to the state in which the invariants of \<open>Link\<close> and \<open>Link_Progress\<close>
  start: both ends registered, \<open>MSG_MR\<close> with the server's region on its way, nothing else posted.
\<close>

section \<open>The network while connecting\<close>

text \<open>
  Calls other than \<open>ibv_post_send\<close> put no work on the connection, a registered region has the length
  that was asked for, and allocation returns a pointer.
\<close>

fun posts_send :: "call \<Rightarrow> bool" where
  "posts_send (Post_send c wr) = True"
| "posts_send _ = False"

definition rc_connects :: "'w fabric \<Rightarrow> ('w \<Rightarrow> send_wr list) \<Rightarrow> ('w \<Rightarrow> send_wr list) \<Rightarrow> bool" where
  "rc_connects F pw pm \<longleftrightarrow>
     (\<forall>c w. \<not> posts_send c \<longrightarrow>
        pw (snd (f_verbs F c w)) = pw w \<and> pm (snd (f_verbs F c w)) = pm w) \<and>
     (\<forall>pd a n acc w. mr_length (r_mr (fst (f_verbs F (Reg_mr pd a n acc) w))) = n) \<and>
     (\<forall>n w. r_code (fst (f_verbs F (Memalign n) w)) = 0 \<and> r_handle (fst (f_verbs F (Memalign n) w)) \<noteq> 0)"

definition quiet :: "('w \<Rightarrow> send_wr list) \<Rightarrow> ('w \<Rightarrow> send_wr list) \<Rightarrow> 'w \<Rightarrow> bool" where
  "quiet pw pm w \<longleftrightarrow> pw w = [] \<and> pm w = []"

lemma quiet_call:
  assumes "rc_connects F pw pm" and "f_verbs F c w = (r, w')" and "\<not> posts_send c"
  shows "quiet pw pm w' = quiet pw pm w"
  using assms by (metis rc_connects_def quiet_def snd_conv)

lemma quiet_NZ:
  "rc_connects F pw pm \<Longrightarrow> TEST_NZ (f_verbs F) c w = Inr (r, w') \<Longrightarrow> \<not> posts_send c \<Longrightarrow>
   quiet pw pm w' = quiet pw pm w"
  by (auto simp: call_elims quiet_call)

lemma quiet_Z:
  "rc_connects F pw pm \<Longrightarrow> TEST_Z (f_verbs F) c w = Inr (r, w') \<Longrightarrow> \<not> posts_send c \<Longrightarrow>
   quiet pw pm w' = quiet pw pm w"
  by (auto simp: call_elims quiet_call)

lemmas quiet_calls = quiet_NZ quiet_Z quiet_call

text \<open>Setting up protection domain, queues and queue pair leaves the connection quiet.\<close>

lemma client_build_quiet:
  assumes C: "rc_connects F pw pm"
    and r: "client_build_connection (f_verbs F) cid vc s w = Inr (c, w')"
  shows "quiet pw pm w' = quiet pw pm w"
  using r
  by (auto simp: client_build_connection_def client_build_context_def rc_die_def result_elims quiet_calls[OF C]
      split: option.splits if_splits)

lemma server_build_quiet:
  assumes C: "rc_connects F pw pm"
    and r: "server_build_connection (f_verbs F) cid vc s w = Inr (c, w')"
  shows "quiet pw pm w' = quiet pw pm w"
  using r
  by (auto simp: server_build_connection_def server_build_context_def rc_die_def result_elims quiet_calls[OF C]
      split: option.splits if_splits)

section \<open>Preparing the connection\<close>

text \<open>\<open>client_on_pre_conn\<close> registers both buffers before it posts the first receive.\<close>

lemma client_pre_conn:
  assumes C: "rc_connects F pw pm"
    and r: "client_on_pre_conn (f_verbs F) cid pd ctx w = Inr (ctx', w')"
  shows "quiet pw pm w' = quiet pw pm w" and "client_ready ctx'"
    and "can_send ctx' = can_send ctx" and "buf_write_counter ctx' = buf_write_counter ctx"
proof -
  obtain r1 w1 where 1: "f_verbs F (Memalign BUFFER_SIZE) w = (r1, w1)" "r_code r1 = 0" "r_handle r1 \<noteq> 0"
    using C unfolding rc_connects_def by (metis prod.collapse)
  let ?c1 = "ctx\<lparr>cc_buf_ptr := r_handle r1\<rparr>"
  obtain r2 w2 where 2: "TEST_Z (f_verbs F) (Reg_mr pd (r_handle r1) BUFFER_SIZE [LOCAL_WRITE]) w1 = Inr (r2, w2)"
    using r 1 by (auto simp: client_on_pre_conn_def result_elims Let_def)
  obtain r3 w3 where 3: "f_verbs F (Memalign MESSAGE_SZ) w2 = (r3, w3)" "r_code r3 = 0" "r_handle r3 \<noteq> 0"
    using C unfolding rc_connects_def by (metis prod.collapse)
  from r 1 2 3 obtain r4 w4 r5 wr where
    4: "TEST_Z (f_verbs F) (Reg_mr pd (r_handle r3) MESSAGE_SZ [LOCAL_WRITE, REMOTE_WRITE]) w3 = Inr (r4, w4)"
    and 5: "TEST_NZ (f_verbs F) (Post_recv cid wr) w4 = Inr (r5, w')"
    and c: "ctx' = ?c1\<lparr>cc_buffer_mr := Some (r_mr r2), cc_msg_ptr := r_handle r3,
        cc_msg_mr := Some (r_mr r4), cc_buf_registered := True\<rparr>"
    by (auto simp: client_on_pre_conn_def client_post_receive_def result_elims Let_def)
  show "quiet pw pm w' = quiet pw pm w"
    using quiet_calls[OF C] 1(1) 2 3(1) 4 5 by (metis posts_send.simps)
  show "client_ready ctx'" "can_send ctx' = can_send ctx" "buf_write_counter ctx' = buf_write_counter ctx"
    using c 1 by (auto simp: client_ready_def)
qed

lemma server_pre_conn:
  assumes C: "rc_connects F pw pm"
    and r: "server_on_pre_conn (f_verbs F) cid pd ctx w = Inr (ctx', w')"
  shows "quiet pw pm w' = quiet pw pm w" and "server_ready ctx'"
    and "\<exists>m. sc_buffer_mr ctx' = Some m \<and> mr_length m = BUFFER_SIZE"
    and "buf_recv_counter ctx' = buf_recv_counter ctx"
proof -
  obtain r1 w1 where 1: "f_verbs F (Memalign BUFFER_SIZE) w = (r1, w1)" "r_code r1 = 0" "r_handle r1 \<noteq> 0"
    using C unfolding rc_connects_def by (metis prod.collapse)
  let ?c1 = "ctx\<lparr>sc_buf_ptr := r_handle r1\<rparr>"
  obtain r2 w2 where
    2: "TEST_Z (f_verbs F) (Reg_mr pd (r_handle r1) BUFFER_SIZE [LOCAL_WRITE, REMOTE_WRITE]) w1 = Inr (r2, w2)"
    using r 1 by (auto simp: server_on_pre_conn_def result_elims Let_def)
  have m: "mr_length (r_mr r2) = BUFFER_SIZE"
    using C 2 by (auto simp: rc_connects_def call_elims) (metis fst_conv)
  obtain r3 w3 where 3: "f_verbs F (Memalign MESSAGE_SZ) w2 = (r3, w3)" "r_code r3 = 0" "r_handle r3 \<noteq> 0"
    using C unfolding rc_connects_def by (metis prod.collapse)
  from r 1 2 3 obtain r4 w4 r5 wr where
    4: "TEST_Z (f_verbs F) (Reg_mr pd (r_handle r3) MESSAGE_SZ [LOCAL_WRITE, REMOTE_WRITE]) w3 = Inr (r4, w4)"
    and 5: "TEST_NZ (f_verbs F) (Post_recv cid wr) w4 = Inr (r5, w')"
    and c: "ctx' = ?c1\<lparr>sc_buffer_mr := Some (r_mr r2), sc_msg_ptr := r_handle r3,
        sc_msg_mr := Some (r_mr r4), sc_buf_registered := True\<rparr>"
    by (auto simp: server_on_pre_conn_def server_post_receive_def result_elims Let_def)
  show "quiet pw pm w' = quiet pw pm w"
    using quiet_calls[OF C] 1(1) 2 3(1) 4 5 by (metis posts_send.simps)
  show "server_ready ctx'" "\<exists>m. sc_buffer_mr ctx' = Some m \<and> mr_length m = BUFFER_SIZE"
    "buf_recv_counter ctx' = buf_recv_counter ctx"
    using c 1 m by (auto simp: server_ready_def)
qed

section \<open>The handshake\<close>

definition cm_ev :: "cm_event_type \<Rightarrow> nat \<Rightarrow> nat \<Rightarrow> cm_event" where
  "cm_ev e cid vc = \<lparr>ev_event = e, ev_id = cid, ev_verbs = vc, ev_status = 0\<rparr>"

text \<open>
  The passes of the two event loops from the resolved address to the established connection: the
  client's id is \<open>cid\<close> on device \<open>vc\<close>, the server's \<open>sid\<close> on \<open>vs\<close>.
\<close>

definition handshake ::
    "'w verbs \<Rightarrow> nat \<Rightarrow> nat \<Rightarrow> nat \<Rightarrow> nat \<Rightarrow> client_context \<Rightarrow> conn_context \<Rightarrow> 'w \<Rightarrow>
       (client_context \<times> conn_context \<times> 'w) result" where
  "handshake V cid vc sid vs cl sv w =
     bindr (client_handle_event V True (cm_ev RDMA_CM_EVENT_ADDR_RESOLVED cid vc) (None, cl, w))
       (\<lambda>(k1, cs1, cl1, w1).
     bindr (client_handle_event V True (cm_ev RDMA_CM_EVENT_ROUTE_RESOLVED cid vc) (cs1, cl1, w1))
       (\<lambda>(k2, cs2, cl2, w2).
     bindr (server_handle_event V False (cm_ev RDMA_CM_EVENT_CONNECT_REQUEST sid vs) (None, sv, w2))
       (\<lambda>(k3, ss3, sv3, w3).
     bindr (client_handle_event V True (cm_ev RDMA_CM_EVENT_ESTABLISHED cid vc) (cs2, cl2, w3))
       (\<lambda>(k4, cs4, cl4, w4).
     bindr (server_handle_event V False (cm_ev RDMA_CM_EVENT_ESTABLISHED sid vs) (ss3, sv3, w4))
       (\<lambda>(k5, ss5, sv5, w5).
     Inr (cl4, sv5, w5))))))"

definition connected_link :: "nat \<Rightarrow> nat \<Rightarrow> client_context \<times> conn_context \<times> 'w \<Rightarrow> 'w link" where
  "connected_link cid sid r =
     \<lparr>lk_cl = fst r, lk_cpc = CIdle, lk_sv = fst (snd r), lk_spc = SIdle, lk_wcs = [],
      lk_net = snd (snd r), lk_cid = cid, lk_sid = sid\<rparr>"

lemma server_connection_net:
  assumes F: "rc_fabric F pw pm" and q: "quiet pw pm w" and R: "server_ready sv"
    and m: "sc_buffer_mr sv = Some m"
    and r: "server_on_connection (f_verbs F) sid sv w = Inr (sv', w')"
  shows "pw w' = []" and "length (pm w') = 1"
    and "sv' = sv\<lparr>sc_msg := \<lparr>msg_id = MSG_MR, msg_addr = word_of_nat (mr_addr m), msg_rkey = mr_rkey m\<rparr>\<rparr>"
proof -
  let ?sv = "sv\<lparr>sc_msg := \<lparr>msg_id = MSG_MR, msg_addr = word_of_nat (mr_addr m), msg_rkey = mr_rkey m\<rparr>\<rparr>"
  have s: "server_send_message (f_verbs F) sid ?sv w = Inr w'" and e: "sv' = ?sv"
    using r m by (auto simp: server_on_connection_def result_elims Let_def)
  show "pw w' = []" "length (pm w') = 1"
    using server_send_message_net[OF F s] q by (simp_all add: quiet_def)
  show "sv' = ?sv" by (rule e)
qed

text \<open>The contexts as \<open>InitContext\<close> of either program leaves them.\<close>

definition fresh_ends :: "client_context \<Rightarrow> conn_context \<Rightarrow> bool" where
  "fresh_ends cl sv \<longleftrightarrow> can_send cl = False \<and> buf_write_counter cl = 0 \<and> buf_recv_counter sv = 0"

lemma handshake_link:
  assumes F: "rc_fabric F pw pm" and C: "rc_connects F pw pm" and q: "quiet pw pm w"
    and i: "fresh_ends cl sv"
    and h: "handshake (f_verbs F) cid vc sid vs cl sv w = Inr r"
  shows "link_start pw pm (connected_link cid sid r) \<and> link_ready (connected_link cid sid r)"
proof -
  from h obtain c1 wa wb w1 r1 w2 c2 wc wd w3 sv' w5 cl' r2 r3 sv3 where
    a: "client_build_connection (f_verbs F) cid vc None w = Inr (c1, wa)"
       "client_on_pre_conn (f_verbs F) cid (cx_pd c1) cl wa = Inr (cl', wb)"
       "TEST_NZ (f_verbs F) (Resolve_route cid TIMEOUT_IN_MS) wb = Inr (r1, w1)"
    and b: "TEST_NZ (f_verbs F) (Connect cid client_build_params) w1 = Inr (r2, w2)"
    and c: "server_build_connection (f_verbs F) sid vs None w2 = Inr (c2, wc)"
       "server_on_pre_conn (f_verbs F) sid (cx_pd c2) sv wc = Inr (sv3, wd)"
       "TEST_NZ (f_verbs F) (Accept sid server_build_params) wd = Inr (r3, w3)"
    and d: "server_on_connection (f_verbs F) sid sv3 w3 = Inr (sv', w5)" "r = (cl', sv', w5)"
    unfolding handshake_def client_handle_event_def server_handle_event_def cm_ev_def
    by (auto simp: result_elims Let_def)
  note cp = client_pre_conn[OF C a(2)] and sp = server_pre_conn[OF C c(2)]
  obtain m where m: "sc_buffer_mr sv3 = Some m" "mr_length m = BUFFER_SIZE" using sp(3) by blast
  have "quiet pw pm w3"
    using q client_build_quiet[OF C a(1)] cp(1) quiet_NZ[OF C a(3)] quiet_NZ[OF C b]
      server_build_quiet[OF C c(1)] sp(1) quiet_NZ[OF C c(3)] by simp
  note n = server_connection_net[OF F this sp(2) m(1) d(1)]
  show ?thesis
    using n cp sp m i d(2)
    by (auto simp: link_start_def link_ready_def connected_link_def fresh_ends_def client_ready_def server_ready_def)
qed

end
