(* ===== verification/Test_Programs.thy ===== *)
theory Test_Programs
  imports Link_Progress C_Strings
begin

text \<open>
  The two small programs \<open>test_send.cpp\<close> and \<open>test_recv.cpp\<close>, which exercise one link: the sender
  fills its buffer with one letter and announces it, the receiver prints what it finds. Their loops
  run against the same transport as the server and the worker. The sender compares with the counter
  that the completion thread advances after it has cleared the flag, so it never loses an update; but
  it refills the buffer while the adapter may still be reading it.
\<close>

section \<open>\<open>test_send.cpp\<close>\<close>

definition test_send_loop_args :: "string \<times> string" where
  "test_send_loop_args = (''12.12.10.13'', sprintf_d 4444)"

definition test_send_recv_port :: string where
  "test_send_recv_port = sprintf_d 5555"

text \<open>\<open>main\<close> up to its loop; \<open>p\<close> is the address that \<open>malloc\<close> returned.\<close>

definition test_send_init :: "nat \<Rightarrow> client_context \<Rightarrow> int \<times> client_context" where
  "test_send_init p c =
     (0, c\<lparr>can_send := False, cc_buf_prepared := False, cc_buf_len := 100, cc_buf_ptr := p,
           buf_write_counter := 0\<rparr>)"

text \<open>\<open>'a' + to_send_counter\<close>, stored in a \<open>char\<close>.\<close>

definition test_letter :: "int \<Rightarrow> byte" where
  "test_letter k = word_of_int (97 + k)"

definition test_send_pass :: "int \<Rightarrow> client_context \<Rightarrow> (int \<times> client_context) result" where
  "test_send_pass to_send_counter c =
     (if cc_buf_registered c = False then Inr (to_send_counter, c)
      else if to_send_counter > buf_write_counter c then Inr (to_send_counter, c)
      else
        bindr (guardr (cc_buf_ptr c \<noteq> 0) Null_deref) (\<lambda>_.
        bindr (buf_put 0 (replicate (cc_buf_len c) (test_letter to_send_counter)) (cc_buffer c)) (\<lambda>m.
        Inr (to_send_counter + 1, c\<lparr>cc_buffer := m, can_send := True\<rparr>))))"

section \<open>\<open>test_recv.cpp\<close>\<close>

definition test_recv_loop_args :: "string \<times> string" where
  "test_recv_loop_args = (''12.12.10.13'', sprintf_d 5555)"

definition test_recv_recv_port :: string where
  "test_recv_recv_port = sprintf_d 4444"

definition test_recv_init :: "conn_context \<Rightarrow> int \<times> conn_context" where
  "test_recv_init s = (0, s\<lparr>buf_recv_counter := 0, can_recv := True\<rparr>)"

text \<open>One pass of the loop; the third component is what it prints, if anything.\<close>

definition test_recv_pass :: "int \<Rightarrow> conn_context \<Rightarrow> (int \<times> conn_context \<times> byte list option) result" where
  "test_recv_pass read_counter s =
     (if sc_buf_registered s = False then Inr (read_counter, s, None)
      else if read_counter \<ge> buf_recv_counter s then Inr (read_counter, s, None)
      else
        bindr (guardr (sc_buf_ptr s \<noteq> 0) Null_deref) (\<lambda>_.
        bindr (buf_get (sc_buffer s) 0 (sc_buf_len s)) (\<lambda>bs.
        Inr (read_counter + 1, s\<lparr>can_recv := True\<rparr>, Some bs))))"

section \<open>The two programs and the link\<close>

record 'w test_sys =
  t_link :: "'w link"
  t_send :: int
  t_read :: int
  t_out :: "byte list list"

inductive test_step :: "'w fabric \<Rightarrow> 'w test_sys \<Rightarrow> 'w test_sys \<Rightarrow> bool" for F where
  test_link: "link_step F (t_link t) l' \<Longrightarrow> test_step F t (t\<lparr>t_link := l'\<rparr>)"
| test_sender:
    "test_send_pass (t_send t) (lk_cl (t_link t)) = Inr (k, c') \<Longrightarrow>
     test_step F t (t\<lparr>t_link := (t_link t)\<lparr>lk_cl := c'\<rparr>, t_send := k\<rparr>)"
| test_receiver:
    "test_recv_pass (t_read t) (lk_sv (t_link t)) = Inr (k, s', ob) \<Longrightarrow>
     test_step F t (t\<lparr>t_link := (t_link t)\<lparr>lk_sv := s'\<rparr>, t_read := k,
                      t_out := t_out t @ (case ob of None \<Rightarrow> [] | Some bs \<Rightarrow> [bs])\<rparr>)"

inductive_cases test_stepE: "test_step F t t'"

definition test_start ::
    "('w \<Rightarrow> send_wr list) \<Rightarrow> ('w \<Rightarrow> send_wr list) \<Rightarrow> 'w test_sys \<Rightarrow> bool" where
  "test_start pw pm t \<longleftrightarrow>
     link_start pw pm (t_link t) \<and> t_send t = 0 \<and> t_read t = 0 \<and> t_out t = []"

text \<open>
  The counter of the sender is the number of announced messages, and the completion thread never
  finds the flag set again between its clearing and its counting.
\<close>

definition test_inv ::
    "('w \<Rightarrow> send_wr list) \<Rightarrow> ('w \<Rightarrow> send_wr list) \<Rightarrow> 'w test_sys \<Rightarrow> bool" where
  "test_inv pw pm t \<longleftrightarrow>
     link_inv pw pm (t_link t) \<and> t_send t = link_claims (t_link t) \<and>
     (can_send (lk_cl (t_link t)) \<longrightarrow> lk_cpc (t_link t) \<noteq> CCleared) \<and>
     int (length (t_out t)) = t_read t \<and> t_read t \<le> buf_recv_counter (lk_sv (t_link t))"

lemma test_inv_start: "test_start pw pm t \<Longrightarrow> test_inv pw pm t"
  by (auto simp: test_start_def test_inv_def link_inv_start)
    (simp_all add: link_start_def link_claims_def link_posts_def)

lemma link_step_flag:
  assumes st: "link_step F l l'" and f: "can_send (lk_cl l) \<longrightarrow> lk_cpc l \<noteq> CCleared"
  shows "can_send (lk_cl l') \<longrightarrow> lk_cpc l' \<noteq> CCleared"
  using st
proof (cases rule: link_step.cases)
  case (write_received wc wcs nx sv' n')
  then show ?thesis using f by simp
qed (use f in \<open>auto simp: client_on_completion_clear_def\<close>)

lemma test_send_effect:
  assumes "test_send_pass k c = Inr (k', c')"
  shows "(k' = k \<and> c' = c) \<or> (k \<le> buf_write_counter c \<and> k' = k + 1 \<and> app_cl c c' \<and> can_send c' \<and>
     cc_buffer c' = put_bytes (cc_buffer c) 0 (replicate (cc_buf_len c) (test_letter k)))"
  using assms by (auto simp: test_send_pass_def buf_put_def app_cl_def result_elims split: if_splits)

lemma test_recv_effect:
  assumes "test_recv_pass k s = Inr (k', s', ob)"
  shows "(k' = k \<and> s' = s \<and> ob = None) \<or>
     (k < buf_recv_counter s \<and> k' = k + 1 \<and> app_sv s s' \<and>
      ob = Some (get_bytes (sc_buffer s) 0 (sc_buf_len s)))"
  using assms by (auto simp: test_recv_pass_def buf_get_def app_sv_def result_elims split: if_splits)

lemma test_inv_step:
  assumes F: "rc_fabric F pw pm" and st: "test_step F t t'" and I: "test_inv pw pm t"
  shows "test_inv pw pm t'"
  using st
proof (cases rule: test_step.cases)
  case (test_link l')
  note li = I[unfolded test_inv_def]
  then have l: "link_inv pw pm (t_link t)" by blast
  show ?thesis
    using li test_link(1) link_inv_step[OF F test_link(2) l] link_claims_step[OF F test_link(2) l]
      link_step_flag[OF test_link(2)] link_step_recv_mono[OF F test_link(2) l]
    by (auto simp: test_inv_def)
next
  case (test_sender k c')
  from test_send_effect[OF test_sender(2)] show ?thesis
  proof
    assume "k = t_send t \<and> c' = lk_cl (t_link t)"
    then show ?thesis using I test_sender(1) by simp
  next
    let ?l = "t_link t"
    assume a: "t_send t \<le> buf_write_counter (lk_cl ?l) \<and> k = t_send t + 1 \<and> app_cl (lk_cl ?l) c' \<and> can_send c' \<and>
      cc_buffer c' = put_bytes (cc_buffer (lk_cl ?l)) 0 (replicate (cc_buf_len (lk_cl ?l)) (test_letter (t_send t)))"
    then have p: "lk_cpc ?l \<noteq> CPosted" "lk_cpc ?l \<noteq> CCleared" "\<not> can_send (lk_cl ?l)"
      using I by (auto simp: test_inv_def link_claims_def link_posts_def split: if_splits)
    have "link_inv pw pm (?l\<lparr>lk_cl := c'\<rparr>)" using link_inv_app_cl[of pw pm ?l c'] I a by (auto simp: test_inv_def)
    then show ?thesis
      using I a p test_sender(1) app_cl_simps(1)[of "lk_cl ?l" c']
      by (auto simp: test_inv_def link_claims_def link_posts_def)
  qed
next
  case (test_receiver k s' ob)
  from test_recv_effect[OF test_receiver(2)] show ?thesis
  proof
    assume "k = t_read t \<and> s' = lk_sv (t_link t) \<and> ob = None"
    then show ?thesis using I test_receiver(1) by simp
  next
    let ?l = "t_link t"
    assume a: "t_read t < buf_recv_counter (lk_sv ?l) \<and> k = t_read t + 1 \<and> app_sv (lk_sv ?l) s' \<and>
      ob = Some (get_bytes (sc_buffer (lk_sv ?l)) 0 (sc_buf_len (lk_sv ?l)))"
    then have "link_inv pw pm (?l\<lparr>lk_sv := s'\<rparr>)" "buf_recv_counter s' = buf_recv_counter (lk_sv ?l)"
      using link_inv_app_sv[of pw pm ?l s'] I app_sv_simps(1)[of "lk_sv ?l" s'] by (auto simp: test_inv_def)
    then show ?thesis using I a test_receiver(1) by (auto simp: test_inv_def link_claims_app_sv)
  qed
qed

interpretation test_progs: inv_system "test_start pw pm" "test_step F"
  "\<lambda>t. rc_fabric F pw pm \<longrightarrow> test_inv pw pm t"
  for pw pm :: "'w \<Rightarrow> send_wr list" and F :: "'w fabric"
  by unfold_locales (auto intro: test_inv_start test_inv_step)

end
