(* ===== verification/Loopback.thy ===== *)
theory Loopback
  imports System Handshake Test_Programs
begin

text \<open>
  An instance of everything the theorems assume about the outside: a network that queues posted work
  and carries it out in order, two connected contexts, and a deployment of one worker on matrices of
  one row. On it the system runs, step by step, into a lost update.
\<close>

section \<open>A network of two queues\<close>

type_synonym loop_world = "send_wr list \<times> send_wr list"

definition demo_mr :: ibv_mr where
  "demo_mr = \<lparr>mr_addr = 4096, mr_length = BUFFER_SIZE, mr_lkey = 1, mr_rkey = 2\<rparr>"

definition ok_reply :: reply where
  "ok_reply = \<lparr>r_code = 0, r_errno = 0, r_handle = 1, r_mr = demo_mr,
     r_event = \<lparr>ev_event = RDMA_CM_EVENT_ESTABLISHED, ev_id = 1, ev_verbs = 1, ev_status = 0\<rparr>,
     r_wcs = []\<rparr>"

fun loop_verbs :: "loop_world verbs" where
  "loop_verbs (Post_send c wr) (ws, ms) =
     (if swr_opcode wr = IBV_WR_RDMA_WRITE_WITH_IMM then (ok_reply, (ws @ [wr], ms))
      else if swr_opcode wr = IBV_WR_SEND then (ok_reply, (ws, ms @ [wr]))
      else (ok_reply, (ws, ms)))"
| "loop_verbs (Reg_mr pd a n acc) w =
     (ok_reply\<lparr>r_mr := \<lparr>mr_addr = a, mr_length = n, mr_lkey = 1, mr_rkey = 2\<rparr>\<rparr>, w)"
| "loop_verbs _ w = (ok_reply, w)"

definition loop_fabric :: "loop_world fabric" where
  "loop_fabric = \<lparr>f_verbs = loop_verbs,
     f_next_write = (\<lambda>(ws, ms). case ws of [] \<Rightarrow> None | x # xs \<Rightarrow> Some (x, (xs, ms))),
     f_next_send = (\<lambda>(ws, ms). case ms of [] \<Rightarrow> None | x # xs \<Rightarrow> Some (x, (ws, xs))),
     f_land = (\<lambda>wr src mr dst. case swr_sges wr of
        [e] \<Rightarrow> put_bytes dst 0 (get_bytes src 0 (unat (sge_length e))) | _ \<Rightarrow> dst)\<rparr>"

lemma loop_rc: "rc_fabric loop_fabric fst snd"
proof -
  have "rc_posts loop_fabric fst snd" by (auto simp: rc_posts_def loop_fabric_def)
  moreover have "rc_delivers loop_fabric fst snd"
    by (auto simp: rc_delivers_def loop_fabric_def split: list.splits)
  moreover have "rc_lands loop_fabric" by (auto simp: rc_lands_def loop_fabric_def)
  ultimately show ?thesis by (simp add: rc_fabric_def)
qed

lemma loop_live: "rc_live loop_fabric fst snd"
  by (auto simp: rc_live_def loop_fabric_def ok_reply_def split: list.splits)

lemma loop_connects: "rc_connects loop_fabric fst snd"
  unfolding rc_connects_def
proof (intro conjI allI impI)
  fix c and w :: loop_world
  obtain ws ms where w: "w = (ws, ms)" by (cases w)
  assume "\<not> posts_send c"
  then show "fst (snd (f_verbs loop_fabric c w)) = fst w" "snd (snd (f_verbs loop_fabric c w)) = snd w"
    by (cases c; simp add: loop_fabric_def w)+
qed (auto simp: loop_fabric_def ok_reply_def)

section \<open>A connected link\<close>

definition demo_cl :: client_context where
  "demo_cl = zero_client_context\<lparr>cc_buf_ptr := 4096, cc_buf_registered := True,
     cc_buffer_mr := Some demo_mr, cc_msg_ptr := 8192, cc_msg_mr := Some demo_mr\<rparr>"

definition demo_sv :: conn_context where
  "demo_sv = zero_conn_context\<lparr>sc_buf_ptr := 4096, sc_buf_registered := True,
     sc_buffer_mr := Some demo_mr, sc_msg_ptr := 8192, sc_msg_mr := Some demo_mr,
     sc_msg := \<lparr>msg_id = MSG_MR, msg_addr = word_of_nat 4096, msg_rkey = 2\<rparr>\<rparr>"

definition demo_link :: "loop_world link" where
  "demo_link = \<lparr>lk_cl = demo_cl, lk_cpc = CIdle, lk_sv = demo_sv, lk_spc = SIdle, lk_wcs = [],
     lk_net = ([], [message_request 2 demo_sv demo_mr]), lk_cid = 1, lk_sid = 2\<rparr>"

lemma demo_link_start: "link_start fst snd demo_link"
  by (simp add: link_start_def demo_link_def demo_cl_def demo_sv_def demo_mr_def
      zero_client_context_def zero_conn_context_def)

lemma demo_link_ready: "link_ready demo_link"
  by (simp add: ready_defs demo_link_def demo_cl_def demo_sv_def zero_client_context_def
      zero_conn_context_def)

section \<open>A deployment\<close>

definition demo_rnd :: "nat \<Rightarrow> nat \<Rightarrow> int" where
  "demo_rnd i j = int (i + j)"

definition demo_wk :: worker_state where
  "demo_wk = (wk_ports (wk_globals 2000000))\<lparr>thread_id := 0, wk_iter_t := 0\<rparr>"

lemma demo_wk_setup: "wk_main_setup [''0''] (wk_globals 2000000) = Inr demo_wk"
proof -
  have "atoi ''0'' = 0" by (simp add: atoi_def is_space_def char_digit_def)
  then show ?thesis by (simp add: wk_main_setup_def demo_wk_def Let_def)
qed

lemma atoi_one: "atoi ''1'' = 1"
  by (simp add: atoi_def is_space_def char_digit_def)

lemma demo_setup_ok: "setup_ok 1 1 K_dim 1 2000"
  by (simp add: setup_ok_def part_sizes_ok_def part_hgt_def CAP_def K_dim_def int32_defs)

lemma demo_no_empty: "no_empty_block 1 1 1"
  by (simp add: no_empty_block_def part_rows_def part_start_def part_hgt_def)

definition demo_cluster :: "ps_state \<Rightarrow> loop_world cluster" where
  "demo_cluster st = \<lparr>cl_ps = st, cl_exit = None, cl_wk = (\<lambda>_. demo_wk),
     cl_down = (\<lambda>_. demo_link), cl_up = (\<lambda>_. demo_link)\<rparr>"

lemma demo_deployed: "\<exists>st. deployed fst snd F 1 1 ''1'' 2000 (demo_cluster st)"
proof -
  obtain st where "ps_main_setup 1 1 K_dim F [''1''] (ps_globals 2000) = Inr st"
    using ps_main_setup_ok[of 1 1 K_dim "''1''" 2000 F] demo_setup_ok by (auto simp: atoi_one)
  then show ?thesis
    using demo_wk_setup demo_link_start demo_link_ready
    by (auto simp: deployed_def demo_cluster_def)
qed

section \<open>Runs of the deployment\<close>

definition demo_Ls :: "nat \<Rightarrow> lane_spec" where
  "demo_Ls = setup_spec demo_fp 1 1 1 demo_rnd"

definition demo_step :: "loop_world cluster \<Rightarrow> loop_world cluster \<Rightarrow> bool" where
  "demo_step = cluster_step loop_fabric demo_fp demo_rnd"

definition demo_good :: "loop_world cluster \<Rightarrow> bool" where
  "demo_good s \<longleftrightarrow> system_inv fst snd demo_fp demo_Ls s \<and> cl_exit s = None \<and> lanes s = 1 \<and>
     (recved_age (cl_wk s 0) = - 1 \<longrightarrow> room_for_message (demo_Ls 0) (cl_wk s 0))"

text \<open>The counters of a link, and of the whole system: server, link down, worker, link up.\<close>

type_synonym lview = "client_pc \<times> bool \<times> int \<times> int \<times> bool"

definition lview :: "'w link \<Rightarrow> lview" where
  "lview l = (lk_cpc l, can_send (lk_cl l), link_posts l, buf_recv_counter (lk_sv l), lk_wcs l \<noteq> [])"

definition view :: "'w cluster \<Rightarrow> (int \<times> int \<times> int) \<times> lview \<times>
    (int \<times> int \<times> int) \<times> lview" where
  "view s =
     ((ps_iter_t (cl_ps s), recved_iter (cl_ps s) 0, to_send_iter (cl_ps s) 0), lview (cl_down s 0),
      (recved_age (cl_wk s 0), wk_iter_t (cl_wk s 0), to_send_age (cl_wk s 0)), lview (cl_up s 0))"

definition reaches :: "loop_world cluster \<Rightarrow> (int \<times> int \<times> int) \<times> lview \<times>
    (int \<times> int \<times> int) \<times> lview \<Rightarrow> bool" where
  "reaches s0 v \<longleftrightarrow> (\<exists>s. demo_step\<^sup>*\<^sup>* s0 s \<and> demo_good s \<and> view s = v)"

lemma demo_rnd_eq: "(\<lambda>i. ls_rnd (demo_Ls i)) = demo_rnd"
  by (simp add: demo_Ls_def setup_spec_def Let_def)

lemma demo_good_step:
  assumes "demo_good s" and "demo_step s t" and "cl_exit t = None"
    and "cl_wk t 0 = cl_wk s 0 \<or> 0 \<le> recved_age (cl_wk t 0)"
  shows "demo_good t"
proof -
  have "system_inv fst snd demo_fp demo_Ls t"
    using cluster_system.inv_step[where Fb = loop_fabric and pw = fst and pm = snd and F = demo_fp
        and Ls = demo_Ls, of s t] assms(1,2) loop_rc
    by (simp add: demo_good_def demo_step_def demo_rnd_eq)
  then show ?thesis
    using assms cluster_step_lanes[of loop_fabric demo_fp demo_rnd s t]
    by (auto simp: demo_good_def demo_step_def)
qed

lemma reaches_step:
  assumes "reaches s0 v"
    and "\<And>s. demo_good s \<Longrightarrow> view s = v \<Longrightarrow> \<exists>t. demo_step s t \<and> cl_exit t = None \<and>
       (cl_wk t 0 = cl_wk s 0 \<or> 0 \<le> recved_age (cl_wk t 0)) \<and> view t = v'"
  shows "reaches s0 v'"
proof -
  obtain s where s: "demo_step\<^sup>*\<^sup>* s0 s" "demo_good s" "view s = v" using assms(1) by (auto simp: reaches_def)
  from assms(2)[OF s(2,3)] obtain t where t: "demo_step s t" "cl_exit t = None"
    "cl_wk t 0 = cl_wk s 0 \<or> 0 \<le> recved_age (cl_wk t 0)" "view t = v'" by blast
  have "demo_good t" using demo_good_step[OF s(2) t(1-3)] .
  moreover have "demo_step\<^sup>*\<^sup>* s0 t" using s(1) t(1) by (rule rtranclp.rtrancl_into_rtrancl)
  ultimately show ?thesis using t(4) by (auto simp: reaches_def)
qed

text \<open>What a good state offers to the lemmas of \<open>Progress\<close>.\<close>

lemma demo_lane:
  assumes "demo_good s"
  shows "lane_inv fst snd (ps_iter_t (cl_ps s)) (recved_iter (cl_ps s) 0) (to_send_iter (cl_ps s) 0)
      (cl_down s 0) (cl_wk s 0) (cl_up s 0)"
    and "lane_ready (recved_iter (cl_ps s) 0) (cl_down s 0) (cl_wk s 0) (cl_up s 0)"
    and "worker_pidx (cl_ps s) 0 = int 0" "worker_qidx (cl_ps s) 0 = int 0"
    and "spec_ok (demo_Ls 0)" "ls_id (demo_Ls 0) = 0" "ls_p (demo_Ls 0) \<noteq> ls_q (demo_Ls 0)"
    and "ps_completed_iter (cl_ps s) = ps_iter_t (cl_ps s) - 1" "ps_iter_t (cl_ps s) \<le> 1200"
    and "cl_exit s = None" "0 < lanes s" "lanes s = 1"
proof -
  have S: "cluster_inv fst snd s" "cluster_data fst demo_fp demo_Ls s" "specs_ok demo_Ls (lanes s)"
    "cluster_ready s" and l: "lanes s = 1" "cl_exit s = None"
    using assms unfolding demo_good_def system_inv_def by blast+
  then show "lane_inv fst snd (ps_iter_t (cl_ps s)) (recved_iter (cl_ps s) 0) (to_send_iter (cl_ps s) 0)
      (cl_down s 0) (cl_wk s 0) (cl_up s 0)"
    by (intro cluster_inv_lane) simp_all
  show "lane_ready (recved_iter (cl_ps s) 0) (cl_down s 0) (cl_wk s 0) (cl_up s 0)"
    using S l by (simp add: cluster_ready_def)
  show "worker_pidx (cl_ps s) 0 = int 0" "worker_qidx (cl_ps s) 0 = int 0"
    using cluster_data_lane[OF S(2), of 0] l by simp_all
  show "spec_ok (demo_Ls 0)" "ls_id (demo_Ls 0) = 0" "ls_p (demo_Ls 0) \<noteq> ls_q (demo_Ls 0)"
    using specs_lane[OF S(3), of 0] l by simp_all
  show "ps_completed_iter (cl_ps s) = ps_iter_t (cl_ps s) - 1" "ps_iter_t (cl_ps s) \<le> 1200"
    using S(1) by (simp_all add: cluster_inv_def)
  show "cl_exit s = None" "0 < lanes s" "lanes s = 1" using l by simp_all
qed

lemma demo_data:
  assumes "demo_good s"
  obtains mrd mru where "lane_data fst demo_fp (demo_Ls 0) mrd mru (recved_iter (cl_ps s) 0)
      (to_send_iter (cl_ps s) 0) (cl_ps s) (cl_down s 0) (cl_wk s 0) (cl_up s 0)"
  using assms that by (auto simp: demo_good_def system_inv_def cluster_data_def)

lemma demo_links:
  assumes "demo_good s"
  shows "link_inv fst snd (cl_down s 0)" "link_inv fst snd (cl_up s 0)"
    "link_ready (cl_down s 0)" "link_ready (cl_up s 0)"
    "buf_recv_counter (lk_sv (cl_down s 0)) = 0 \<Longrightarrow> lk_spc (cl_down s 0) = SIdle"
    "buf_recv_counter (lk_sv (cl_up s 0)) = 0 \<Longrightarrow> lk_spc (cl_up s 0) = SIdle"
proof -
  obtain mrd mru where d: "lane_data fst demo_fp (demo_Ls 0) mrd mru (recved_iter (cl_ps s) 0)
      (to_send_iter (cl_ps s) 0) (cl_ps s) (cl_down s 0) (cl_wk s 0) (cl_up s 0)"
    using demo_data[OF assms] .
  show "link_inv fst snd (cl_down s 0)" "link_inv fst snd (cl_up s 0)"
    "link_ready (cl_down s 0)" "link_ready (cl_up s 0)"
    using demo_lane(1,2)[OF assms] by (simp_all add: lane_inv_def lane_ready_def)
  show "buf_recv_counter (lk_sv (cl_down s 0)) = 0 \<Longrightarrow> lk_spc (cl_down s 0) = SIdle"
    "buf_recv_counter (lk_sv (cl_up s 0)) = 0 \<Longrightarrow> lk_spc (cl_up s 0) = SIdle"
    using d by (auto simp: lane_data_def link_data_def link_region_def)
qed

subsection \<open>Steps of the links\<close>

lemma step_dn:
  assumes "reaches s0 (a, b, c, d)"
    and "\<And>s. demo_good s \<Longrightarrow> lview (cl_down s 0) = b \<Longrightarrow>
       \<exists>l'. link_step loop_fabric (cl_down s 0) l' \<and> lview l' = b'"
  shows "reaches s0 (a, b', c, d)"
proof (rule reaches_step[OF assms(1)])
  fix s assume g: "demo_good s" and v: "view s = (a, b, c, d)"
  then obtain l' where l: "link_step loop_fabric (cl_down s 0) l'" "lview l' = b'"
    using assms(2)[OF g] by (auto simp: view_def)
  have "demo_step s (set_down 0 l' s)"
    unfolding demo_step_def using demo_lane(10,11)[OF g] l(1) by (rule cluster_step.down_link)
  then show "\<exists>t. demo_step s t \<and> cl_exit t = None \<and>
       (cl_wk t 0 = cl_wk s 0 \<or> 0 \<le> recved_age (cl_wk t 0)) \<and> view t = (a, b', c, d)"
    using l(2) v demo_lane(10)[OF g] by (intro exI[of _ "set_down 0 l' s"]) (auto simp: view_def set_defs)
qed

lemma step_up:
  assumes "reaches s0 (a, b, c, d)"
    and "\<And>s. demo_good s \<Longrightarrow> lview (cl_up s 0) = d \<Longrightarrow>
       \<exists>l'. link_step loop_fabric (cl_up s 0) l' \<and> lview l' = d'"
  shows "reaches s0 (a, b, c, d')"
proof (rule reaches_step[OF assms(1)])
  fix s assume g: "demo_good s" and v: "view s = (a, b, c, d)"
  then obtain l' where l: "link_step loop_fabric (cl_up s 0) l'" "lview l' = d'"
    using assms(2)[OF g] by (auto simp: view_def)
  have "demo_step s (set_up 0 l' s)"
    unfolding demo_step_def using demo_lane(10,11)[OF g] l(1) by (rule cluster_step.up_link)
  then show "\<exists>t. demo_step s t \<and> cl_exit t = None \<and>
       (cl_wk t 0 = cl_wk s 0 \<or> 0 \<le> recved_age (cl_wk t 0)) \<and> view t = (a, b, c, d')"
    using l(2) v demo_lane(10)[OF g] by (intro exI[of _ "set_up 0 l' s"]) (auto simp: view_def set_defs)
qed

lemma wcs_empty:
  assumes "link_inv fst snd l"
  shows "link_posts l = buf_recv_counter (lk_sv l) \<Longrightarrow> lk_wcs l = [] \<and> fst (lk_net l) = []"
    and "fst (lk_net l) \<noteq> [] \<Longrightarrow> lk_wcs l = []"
proof -
  assume "link_posts l = buf_recv_counter (lk_sv l)"
  then have "int (length (lk_wcs l)) + int (length (fst (lk_net l))) = 0"
    using assms by (simp add: link_inv_def)
  then show "lk_wcs l = [] \<and> fst (lk_net l) = []" by (simp add: add_nonneg_eq_0_iff)
next
  assume "fst (lk_net l) \<noteq> []"
  then have "0 < length (fst (lk_net l))" by simp
  then have "length (lk_wcs l) = 0" using assms unfolding link_inv_def link_token_def by linarith
  then show "lk_wcs l = []" by simp
qed

lemma first_arrives:
  assumes "link_inv fst snd l" and "lk_spc l = SIdle" and "lview l = (CIdle, cs, 0, 0, False)"
  shows "\<exists>l'. link_step loop_fabric l l' \<and> lview l' = (CSpin, cs, 0, 0, False)"
proof -
  have v: "lk_cpc l = CIdle" "can_send (lk_cl l) = cs" "link_posts l = 0" "buf_recv_counter (lk_sv l) = 0"
    using assms(3) by (simp_all add: lview_def)
  have "lk_wcs l = []" "fst (lk_net l) = []" using wcs_empty(1)[OF assms(1)] v by simp_all
  then have "snd (lk_net l) \<noteq> []" using assms(1,2) v by (auto simp: link_inv_def link_token_def)
  from arrive_enabled[OF loop_rc loop_live assms(1) v(1) this] obtain l' where
    l': "link_step loop_fabric l l'" "lk_cpc l' = CSpin" "same_ends l l'" by blast
  then have "lk_wcs l' = []"
    using wcs_empty(1)[OF link_inv_step[OF loop_rc l'(1) assms(1)]] v by (simp add: same_ends_def)
  then show ?thesis using l' v by (auto simp: lview_def same_ends_def)
qed

lemma fill_posted:
  assumes "link_inv fst snd l" "link_ready l" and "lview l = (CSpin, True, p, r, False)"
  shows "\<exists>l'. link_step loop_fabric l l' \<and> lview l' = (CPosted, True, p + 1, r, False)"
proof -
  obtain l' where l': "link_step loop_fabric l l'" "lk_cpc l' = CPosted" "can_send (lk_cl l')"
    "lk_sv l' = lk_sv l" "link_posts l' = link_posts l + 1" "fst (lk_net l') \<noteq> []"
    using post_enabled[OF loop_rc loop_live assms(2)] assms(3) by (auto simp: lview_def)
  have "lk_wcs l' = []" using wcs_empty(2)[OF link_inv_step[OF loop_rc l'(1) assms(1)] l'(6)] .
  then show ?thesis using l' assms(3) by (auto simp: lview_def)
qed

lemma write_landed:
  assumes "link_inv fst snd l" "link_ready l" and "lview l = (x, cs, p, r, False)" and "r < p"
  shows "\<exists>l'. link_step loop_fabric l l' \<and> lview l' = (x, cs, p, r, True)"
proof -
  have "fst (lk_net l) \<noteq> []" using assms by (auto simp: link_inv_def lview_def)
  from land_enabled[OF loop_live assms(2) this] show ?thesis
    using assms(3) by (auto simp: lview_def same_ends_def)
qed

lemma write_counted_in:
  assumes "link_inv fst snd l" and "lview l = (x, cs, r + 1, r, True)"
  shows "\<exists>l'. link_step loop_fabric l l' \<and> lview l' = (x, cs, r + 1, r + 1, False)"
proof -
  obtain l' where l': "link_step loop_fabric l l'" "lk_cl l' = lk_cl l" "lk_cpc l' = lk_cpc l"
    "buf_recv_counter (lk_sv l') = buf_recv_counter (lk_sv l) + 1"
    using receive_enabled[OF loop_live assms(1)] assms(2) by (auto simp: lview_def)
  have p: "link_posts l' = link_posts l" using l' by (simp add: link_posts_def)
  then have "lk_wcs l' = []"
    using wcs_empty(1)[OF link_inv_step[OF loop_rc l'(1) assms(1)]] l' assms(2) by (simp add: lview_def)
  then show ?thesis using l' p assms(2) by (auto simp: lview_def)
qed

lemma flag_clears:
  assumes "link_inv fst snd l" and "lview l = (CPosted, cs, p, p, False)"
  shows "\<exists>l'. link_step loop_fabric l l' \<and> lview l' = (CCleared, False, p, p, False)"
proof -
  obtain l' where l': "link_step loop_fabric l l'" "lk_cpc l' = CCleared" "\<not> can_send (lk_cl l')"
    "lk_sv l' = lk_sv l" "link_posts l' = link_posts l"
    using clear_enabled[of l loop_fabric] assms(2) by (auto simp: lview_def)
  have "lk_wcs l' = []"
    using wcs_empty(1)[OF link_inv_step[OF loop_rc l'(1) assms(1)]] l' assms(2) by (simp add: lview_def)
  then show ?thesis using l' assms(2) by (auto simp: lview_def)
qed

subsection \<open>Passes of the programs\<close>

lemma demo_fits: "lane_fits (demo_Ls 0)"
  by (simp add: lane_fits_def demo_Ls_def setup_spec_def Let_def part_rows_def part_start_def
      part_hgt_def K_dim_def BUFFER_SIZE_def)

lemma pass_main:
  assumes "reaches s0 ((it, ri, ts), b, c, d)" and "it \<le> ri + 1" "it < 1199"
  shows "reaches s0 ((it + 1, ri, ts), b, c, d)"
proof (rule reaches_step[OF assms(1)])
  fix s assume g: "demo_good s" and v: "view s = ((it, ri, ts), b, c, d)"
  let ?st = "(cl_ps s)\<lparr>ps_completed_iter := it, ps_iter_t := it + 1\<rparr>"
  have "nat (worker_num (cl_ps s)) = 1" using demo_lane(12)[OF g] by (simp add: lanes_def)
  then have "ps_main_pass (cl_ps s) = Running ?st"
    using v assms(2,3) by (simp add: ps_main_pass_def CanMerge_iff view_def Let_def)
  then have "demo_step s (s\<lparr>cl_ps := ?st\<rparr>)"
    unfolding demo_step_def by (rule cluster_step.ps_main[OF demo_lane(10)[OF g]])
  then show "\<exists>t. demo_step s t \<and> cl_exit t = None \<and>
       (cl_wk t 0 = cl_wk s 0 \<or> 0 \<le> recved_age (cl_wk t 0)) \<and> view t = ((it + 1, ri, ts), b, c, d)"
    using v demo_lane(10)[OF g] by (intro exI[of _ "s\<lparr>cl_ps := ?st\<rparr>"]) (auto simp: view_def)
qed

lemma demo_send:
  assumes g: "demo_good s" and "to_send_iter (cl_ps s) 0 < ps_iter_t (cl_ps s)"
  obtains ps' c' where "ps_rdma_sendTd 0 (cl_ps s) (lk_cl (cl_down s 0)) = Inr (ps', c')"
    "to_send_iter ps' 0 = to_send_iter (cl_ps s) 0 + 1" "can_send c'"
proof -
  obtain mrd mru where d: "lane_data fst demo_fp (demo_Ls 0) mrd mru (recved_iter (cl_ps s) 0)
      (to_send_iter (cl_ps s) 0) (cl_ps s) (cl_down s 0) (cl_wk s 0) (cl_up s 0)"
    using demo_data[OF g] .
  have "client_ready (lk_cl (cl_down s 0))" using demo_links(3)[OF g] by (simp add: link_ready_def)
  moreover have "to_send_iter (cl_ps s) 0 \<le> ps_completed_iter (cl_ps s)"
    "ps_completed_iter (cl_ps s) \<le> 1200"
    using assms(2) demo_lane(8,9)[OF g] by auto
  ultimately show thesis
    using ps_send_enabled[OF demo_lane(5)[OF g] demo_fits demo_lane(6,3,4)[OF g] d] that by blast
qed

lemma pass_ps_send:
  assumes "reaches s0 ((it, ri, ts), (x, cs, p, r, z), c, d)" and "ts < it"
  shows "reaches s0 ((it, ri, ts + 1), (x, True, p, r, z), c, d)"
proof (rule reaches_step[OF assms(1)])
  fix s assume g: "demo_good s" and v: "view s = ((it, ri, ts), (x, cs, p, r, z), c, d)"
  have "to_send_iter (cl_ps s) 0 < ps_iter_t (cl_ps s)" using v assms(2) by (simp add: view_def)
  from demo_send[OF g this] obtain ps' c' where
    r: "ps_rdma_sendTd 0 (cl_ps s) (lk_cl (cl_down s 0)) = Inr (ps', c')"
    "to_send_iter ps' 0 = to_send_iter (cl_ps s) 0 + 1" "can_send c'" .
  have e: "ps_iter_t ps' = ps_iter_t (cl_ps s)" "recved_iter ps' = recved_iter (cl_ps s)"
    "buf_write_counter c' = buf_write_counter (lk_cl (cl_down s 0))"
    using ps_send_effect[OF r(1)] r(2) by (auto simp: app_cl_simps)
  let ?t = "set_down 0 ((cl_down s 0)\<lparr>lk_cl := c'\<rparr>) (s\<lparr>cl_ps := ps'\<rparr>)"
  have "demo_step s ?t"
    unfolding demo_step_def using demo_lane(10,11)[OF g] r(1) by (rule cluster_step.ps_send)
  then show "\<exists>t. demo_step s t \<and> cl_exit t = None \<and>
       (cl_wk t 0 = cl_wk s 0 \<or> 0 \<le> recved_age (cl_wk t 0)) \<and>
       view t = ((it, ri, ts + 1), (x, True, p, r, z), c, d)"
    using v demo_lane(10)[OF g] r e
    by (intro exI[of _ ?t]) (auto simp: view_def lview_def set_defs link_posts_def)
qed

lemma pass_ps_recv:
  assumes "reaches s0 ((it, ri, ts), b, c, (x, cs, p, r, z))" and "ri + 2 \<le> r"
  shows "reaches s0 ((it, ri + 1, ts), b, c, (x, cs, p, r, z))"
proof (rule reaches_step[OF assms(1)])
  fix s assume g: "demo_good s" and v: "view s = ((it, ri, ts), b, c, (x, cs, p, r, z))"
  obtain mrd mru where d: "lane_data fst demo_fp (demo_Ls 0) mrd mru (recved_iter (cl_ps s) 0)
      (to_send_iter (cl_ps s) 0) (cl_ps s) (cl_down s 0) (cl_wk s 0) (cl_up s 0)"
    using demo_data[OF g] .
  have "server_ready (lk_sv (cl_up s 0))" using demo_links(4)[OF g] by (simp add: link_ready_def)
  then obtain ps' c' where r: "ps_rdma_recvTd 0 (cl_ps s) (lk_sv (cl_up s 0)) = Inr (ps', c')"
    "recved_iter ps' 0 = recved_iter (cl_ps s) 0 + 1"
    using ps_recv_enabled[OF demo_lane(5,6,7,1)[OF g] d] v assms(2) by (auto simp: view_def lview_def)
  have e: "ps_iter_t ps' = ps_iter_t (cl_ps s)" "to_send_iter ps' = to_send_iter (cl_ps s)"
    "buf_recv_counter c' = buf_recv_counter (lk_sv (cl_up s 0))"
    using ps_recv_effect[OF r(1)] r(2) by (auto simp: app_sv_simps)
  let ?t = "set_up 0 ((cl_up s 0)\<lparr>lk_sv := c'\<rparr>) (s\<lparr>cl_ps := ps'\<rparr>)"
  have "demo_step s ?t"
    unfolding demo_step_def using demo_lane(10,11)[OF g] r(1) by (rule cluster_step.ps_recv)
  then show "\<exists>t. demo_step s t \<and> cl_exit t = None \<and>
       (cl_wk t 0 = cl_wk s 0 \<or> 0 \<le> recved_age (cl_wk t 0)) \<and>
       view t = ((it, ri + 1, ts), b, c, (x, cs, p, r, z))"
    using v demo_lane(10)[OF g] r e
    by (intro exI[of _ ?t]) (auto simp: view_def lview_def set_defs link_posts_def)
qed

lemma pass_wk_recv:
  assumes "reaches s0 (a, (x, cs, p, r, z), (- 1, wi, sa), d)" and "1 \<le> r"
  shows "reaches s0 (a, (x, cs, p, r, z), (0, wi, sa), d)"
proof (rule reaches_step[OF assms(1)])
  fix s assume g: "demo_good s" and v: "view s = (a, (x, cs, p, r, z), (- 1, wi, sa), d)"
  obtain mrd mru where d: "lane_data fst demo_fp (demo_Ls 0) mrd mru (recved_iter (cl_ps s) 0)
      (to_send_iter (cl_ps s) 0) (cl_ps s) (cl_down s 0) (cl_wk s 0) (cl_up s 0)"
    using demo_data[OF g] .
  have "server_ready (lk_sv (cl_down s 0))" using demo_links(3)[OF g] by (simp add: link_ready_def)
  moreover have "room_for_message (demo_Ls 0) (cl_wk s 0)" using g v by (simp add: demo_good_def view_def)
  ultimately obtain w' c' where r: "wk_rdma_recvTd (cl_wk s 0) (lk_sv (cl_down s 0)) = Inr (w', c')"
    "recved_age w' = recved_age (cl_wk s 0) + 1"
    using wk_recv_enabled[OF demo_lane(5,1)[OF g] d] v assms(2) by (auto simp: view_def lview_def)
  have e: "wk_iter_t w' = wk_iter_t (cl_wk s 0)" "to_send_age w' = to_send_age (cl_wk s 0)"
    "buf_recv_counter c' = buf_recv_counter (lk_sv (cl_down s 0))"
    using wk_recv_effect[OF r(1)] r(2) by (auto simp: app_sv_simps)
  let ?t = "set_down 0 ((cl_down s 0)\<lparr>lk_sv := c'\<rparr>) (set_wk 0 w' s)"
  have "demo_step s ?t"
    unfolding demo_step_def using demo_lane(11)[OF g] r(1) by (rule cluster_step.wk_recv)
  then show "\<exists>t. demo_step s t \<and> cl_exit t = None \<and>
       (cl_wk t 0 = cl_wk s 0 \<or> 0 \<le> recved_age (cl_wk t 0)) \<and>
       view t = (a, (x, cs, p, r, z), (0, wi, sa), d)"
    using v demo_lane(10)[OF g] r e
    by (intro exI[of _ ?t]) (auto simp: view_def lview_def set_defs link_posts_def)
qed

lemma pass_wk_main:
  assumes "reaches s0 (a, b, (rc, wi, sa), d)" and "wi \<le> rc" "0 \<le> rc"
  shows "reaches s0 (a, b, (rc, wi + 1, sa), d)"
proof (rule reaches_step[OF assms(1)])
  fix s assume g: "demo_good s" and v: "view s = (a, b, (rc, wi, sa), d)"
  obtain mrd mru where d: "lane_data fst demo_fp (demo_Ls 0) mrd mru (recved_iter (cl_ps s) 0)
      (to_send_iter (cl_ps s) 0) (cl_ps s) (cl_down s 0) (cl_wk s 0) (cl_up s 0)"
    using demo_data[OF g] .
  have "ls_rnd (demo_Ls 0) = demo_rnd 0" using demo_rnd_eq by (rule fun_cong)
  moreover have "wk_iter_t (cl_wk s 0) \<le> recved_age (cl_wk s 0)" using v assms(2) by (simp add: view_def)
  ultimately obtain w' where r: "wk_main_pass demo_fp (demo_rnd 0) (cl_wk s 0) = Inr w'"
    "wk_iter_t w' = wk_iter_t (cl_wk s 0) + 1"
    using wk_main_value[OF demo_lane(5)[OF g] d] by auto
  have e: "recved_age w' = recved_age (cl_wk s 0)" "to_send_age w' = to_send_age (cl_wk s 0)"
    using wk_main_effect[OF r(1)] r(2) by auto
  have "demo_step s (set_wk 0 w' s)"
    unfolding demo_step_def using demo_lane(11)[OF g] r(1) by (rule cluster_step.wk_main)
  then show "\<exists>t. demo_step s t \<and> cl_exit t = None \<and>
       (cl_wk t 0 = cl_wk s 0 \<or> 0 \<le> recved_age (cl_wk t 0)) \<and> view t = (a, b, (rc, wi + 1, sa), d)"
    using v demo_lane(10)[OF g] r e assms(3)
    by (intro exI[of _ "set_wk 0 w' s"]) (auto simp: view_def set_defs)
qed

lemma pass_wk_send:
  assumes "reaches s0 (a, b, (rc, wi, sa), (x, cs, p, r, z))" and "sa + 1 = wi" "0 \<le> rc"
  shows "reaches s0 (a, b, (rc, wi, sa + 1), (x, True, p, r, z))"
proof (rule reaches_step[OF assms(1)])
  fix s assume g: "demo_good s" and v: "view s = (a, b, (rc, wi, sa), (x, cs, p, r, z))"
  obtain mrd mru where d: "lane_data fst demo_fp (demo_Ls 0) mrd mru (recved_iter (cl_ps s) 0)
      (to_send_iter (cl_ps s) 0) (cl_ps s) (cl_down s 0) (cl_wk s 0) (cl_up s 0)"
    using demo_data[OF g] .
  have "client_ready (lk_cl (cl_up s 0))" using demo_links(4)[OF g] by (simp add: link_ready_def)
  moreover have "to_send_age (cl_wk s 0) = wk_completed_iter (cl_wk s 0)"
    using v assms(2) lane_chain(7)[OF demo_lane(1)[OF g]] by (auto simp: view_def)
  ultimately obtain w' c' where r: "wk_rdma_sendTd (cl_wk s 0) (lk_cl (cl_up s 0)) = Inr (w', c')"
    "to_send_age w' = to_send_age (cl_wk s 0) + 1" "can_send c'"
    using wk_send_enabled[OF demo_lane(5)[OF g] demo_fits demo_lane(1,9)[OF g] d] by blast
  have e: "recved_age w' = recved_age (cl_wk s 0)" "wk_iter_t w' = wk_iter_t (cl_wk s 0)"
    "buf_write_counter c' = buf_write_counter (lk_cl (cl_up s 0))"
    using wk_send_effect[OF r(1)] r(2) by (auto simp: app_cl_simps)
  let ?t = "set_up 0 ((cl_up s 0)\<lparr>lk_cl := c'\<rparr>) (set_wk 0 w' s)"
  have "demo_step s ?t"
    unfolding demo_step_def using demo_lane(11)[OF g] r(1) by (rule cluster_step.wk_send)
  then show "\<exists>t. demo_step s t \<and> cl_exit t = None \<and>
       (cl_wk t 0 = cl_wk s 0 \<or> 0 \<le> recved_age (cl_wk t 0)) \<and>
       view t = (a, b, (rc, wi, sa + 1), (x, True, p, r, z))"
    using v demo_lane(10)[OF g] r e assms(3)
    by (intro exI[of _ ?t]) (auto simp: view_def lview_def set_defs link_posts_def)
qed

subsection \<open>A round, and the lost update\<close>

lemma demo_start_good:
  assumes "deployed fst snd demo_fp 1 1 ''1'' 2000 s" and "s = demo_cluster st"
  shows "reaches s ((0, - 1, 0), (CIdle, False, 0, 0, False), (- 1, 0, 0), (CIdle, False, 0, 0, False))"
proof -
  have st: "system_start fst snd demo_fp demo_Ls s" and l: "lanes s = 1"
    using deployed_start[of 1 1 "''1''" 2000 demo_rnd, OF _ _ _ assms(1)]
      deployed_lanes[OF _ assms(1)] demo_setup_ok demo_no_empty
    by (simp_all add: atoi_one demo_Ls_def demo_rnd_def)
  have "system_inv fst snd demo_fp demo_Ls s"
    using cluster_system.inv_init[OF st, of loop_fabric] loop_rc by blast
  moreover have "room_for_message (demo_Ls 0) (cl_wk s 0)"
    by (simp add: assms(2) demo_cluster_def room_for_message_def demo_wk_def wk_ports_def wk_globals_def
        fresh_heap_def demo_Ls_def setup_spec_def Let_def part_rows_def part_start_def part_hgt_def K_dim_def)
  ultimately have "demo_good s"
    using l by (simp add: demo_good_def assms(2) demo_cluster_def)
  moreover have "view s = ((0, - 1, 0), (CIdle, False, 0, 0, False), (- 1, 0, 0), (CIdle, False, 0, 0, False))"
  proof -
    have "ps_fresh (cl_ps s)" using st by (simp add: system_start_def cluster_start_def)
    then have "ps_iter_t (cl_ps s) = 0" "recved_iter (cl_ps s) 0 = - 1" "to_send_iter (cl_ps s) 0 = 0"
      using l by (auto simp: ps_fresh_def lanes_def)
    then show ?thesis
      by (simp add: view_def lview_def) (simp add: assms(2) demo_cluster_def demo_link_def demo_cl_def
          demo_sv_def zero_client_context_def zero_conn_context_def link_posts_def demo_wk_def
          wk_ports_def wk_globals_def)
  qed
  ultimately show ?thesis by (auto simp: reaches_def)
qed

lemmas fill_posted_first = fill_posted[where p = 0, simplified]
lemmas write_counted_first = write_counted_in[where r = 0, simplified]

text \<open>
  The first round: the server's message to the worker and the worker's answer. The completion thread
  of the server's sender has posted the write and not yet cleared the flag.
\<close>

lemma demo_answered:
  assumes "reaches s0 ((0, - 1, 0), (CIdle, False, 0, 0, False), (- 1, 0, 0), (CIdle, False, 0, 0, False))"
  shows "reaches s0 ((1, - 1, 1), (CPosted, True, 1, 1, False), (0, 1, 1), (CPosted, True, 1, 1, False))"
proof -
  note r = assms
  have r: "reaches s0 ((1, - 1, 0), (CIdle, False, 0, 0, False), (- 1, 0, 0), (CIdle, False, 0, 0, False))"
    using pass_main[OF r] by simp
  have r: "reaches s0 ((1, - 1, 0), (CSpin, False, 0, 0, False), (- 1, 0, 0), (CIdle, False, 0, 0, False))"
    by (rule step_dn[OF r], rule first_arrives) (auto simp: demo_links lview_def)
  have r: "reaches s0 ((1, - 1, 1), (CSpin, True, 0, 0, False), (- 1, 0, 0), (CIdle, False, 0, 0, False))"
    using pass_ps_send[OF r] by simp
  have r: "reaches s0 ((1, - 1, 1), (CPosted, True, 1, 0, False), (- 1, 0, 0), (CIdle, False, 0, 0, False))"
    by (rule step_dn[OF r], rule fill_posted_first) (auto simp: demo_links)
  have r: "reaches s0 ((1, - 1, 1), (CPosted, True, 1, 0, True), (- 1, 0, 0), (CIdle, False, 0, 0, False))"
    by (rule step_dn[OF r], rule write_landed) (auto simp: demo_links)
  have r: "reaches s0 ((1, - 1, 1), (CPosted, True, 1, 1, False), (- 1, 0, 0), (CIdle, False, 0, 0, False))"
    by (rule step_dn[OF r], rule write_counted_first) (auto simp: demo_links)
  have r: "reaches s0 ((1, - 1, 1), (CPosted, True, 1, 1, False), (0, 0, 0), (CIdle, False, 0, 0, False))"
    using pass_wk_recv[OF r] by simp
  have r: "reaches s0 ((1, - 1, 1), (CPosted, True, 1, 1, False), (0, 1, 0), (CIdle, False, 0, 0, False))"
    using pass_wk_main[OF r] by simp
  have r: "reaches s0 ((1, - 1, 1), (CPosted, True, 1, 1, False), (0, 1, 0), (CSpin, False, 0, 0, False))"
    by (rule step_up[OF r], rule first_arrives) (auto simp: demo_links lview_def)
  have r: "reaches s0 ((1, - 1, 1), (CPosted, True, 1, 1, False), (0, 1, 1), (CSpin, True, 0, 0, False))"
    using pass_wk_send[OF r] by simp
  have r: "reaches s0 ((1, - 1, 1), (CPosted, True, 1, 1, False), (0, 1, 1), (CPosted, True, 1, 0, False))"
    by (rule step_up[OF r], rule fill_posted_first) (auto simp: demo_links)
  have r: "reaches s0 ((1, - 1, 1), (CPosted, True, 1, 1, False), (0, 1, 1), (CPosted, True, 1, 0, True))"
    by (rule step_up[OF r], rule write_landed) (auto simp: demo_links)
  show ?thesis by (rule step_up[OF r], rule write_counted_first) (auto simp: demo_links)
qed

lemma demo_round:
  assumes "reaches s0 ((0, - 1, 0), (CIdle, False, 0, 0, False), (- 1, 0, 0), (CIdle, False, 0, 0, False))"
  shows "reaches s0 ((1, 0, 1), (CPosted, True, 1, 1, False), (0, 1, 1), (CPosted, True, 1, 1, False))"
  using pass_ps_recv[OF demo_answered[OF assms]] by simp

text \<open>The server fills the buffer for the second message before the flag of the first is cleared.\<close>

lemma demo_lost:
  assumes "reaches s0 ((1, 0, 1), (CPosted, True, 1, 1, False), c, d)"
  shows "reaches s0 ((2, 0, 2), (CCleared, False, 1, 1, False), c, d)"
proof -
  note r = assms
  have r: "reaches s0 ((2, 0, 1), (CPosted, True, 1, 1, False), c, d)"
    using pass_main[OF r] by simp
  have r: "reaches s0 ((2, 0, 2), (CPosted, True, 1, 1, False), c, d)"
    using pass_ps_send[OF r] by simp
  show ?thesis by (rule step_dn[OF r], rule flag_clears) (auto simp: demo_links)
qed

text \<open>The states of the lemmas, as states of a run.\<close>

lemma demo_run_start:
  "\<exists>s0 s. deployed fst snd demo_fp 1 1 ''1'' 2000 s0 \<and>
     (cluster_step loop_fabric demo_fp demo_rnd)\<^sup>*\<^sup>* s0 s \<and> demo_good s \<and>
     view s = ((0, - 1, 0), (CIdle, False, 0, 0, False), (- 1, 0, 0), (CIdle, False, 0, 0, False))"
proof -
  obtain st where d: "deployed fst snd demo_fp 1 1 ''1'' 2000 (demo_cluster st)"
    using demo_deployed by blast
  from demo_start_good[OF d refl] d show ?thesis
    unfolding reaches_def demo_step_def by blast
qed

lemma demo_run:
  "\<exists>s0 s. deployed fst snd demo_fp 1 1 ''1'' 2000 s0 \<and>
     (cluster_step loop_fabric demo_fp demo_rnd)\<^sup>*\<^sup>* s0 s \<and> demo_good s \<and>
     view s = ((1, 0, 1), (CPosted, True, 1, 1, False), (0, 1, 1), (CPosted, True, 1, 1, False))"
proof -
  obtain st where d: "deployed fst snd demo_fp 1 1 ''1'' 2000 (demo_cluster st)"
    using demo_deployed by blast
  from demo_round[OF demo_start_good[OF d refl]] d show ?thesis
    unfolding reaches_def demo_step_def by blast
qed

lemma demo_run_lost:
  "\<exists>s0 s. deployed fst snd demo_fp 1 1 ''1'' 2000 s0 \<and>
     (cluster_step loop_fabric demo_fp demo_rnd)\<^sup>*\<^sup>* s0 s \<and> demo_good s \<and>
     view s = ((2, 0, 2), (CCleared, False, 1, 1, False), (0, 1, 1), (CPosted, True, 1, 1, False))"
proof -
  obtain st where d: "deployed fst snd demo_fp 1 1 ''1'' 2000 (demo_cluster st)"
    using demo_deployed by blast
  from demo_lost[OF demo_round[OF demo_start_good[OF d refl]]] d show ?thesis
    unfolding reaches_def demo_step_def by blast
qed

text \<open>In between, the server may send again while the flag of the first message is still set.\<close>

lemma demo_run_ready:
  "\<exists>s0 s. deployed fst snd demo_fp 1 1 ''1'' 2000 s0 \<and>
     (cluster_step loop_fabric demo_fp demo_rnd)\<^sup>*\<^sup>* s0 s \<and> demo_good s \<and>
     view s = ((2, 0, 1), (CPosted, True, 1, 1, False), (0, 1, 1), (CPosted, True, 1, 1, False))"
proof -
  obtain st where d: "deployed fst snd demo_fp 1 1 ''1'' 2000 (demo_cluster st)"
    using demo_deployed by blast
  from pass_main[OF demo_round[OF demo_start_good[OF d refl]]] d show ?thesis
    unfolding reaches_def demo_step_def by simp blast
qed

text \<open>Earlier, the server may send for the first time, and later receive the first answer.\<close>

lemma demo_run_send:
  "\<exists>s0 s. deployed fst snd demo_fp 1 1 ''1'' 2000 s0 \<and>
     (cluster_step loop_fabric demo_fp demo_rnd)\<^sup>*\<^sup>* s0 s \<and> demo_good s \<and>
     view s = ((1, - 1, 0), (CIdle, False, 0, 0, False), (- 1, 0, 0), (CIdle, False, 0, 0, False))"
proof -
  obtain st where d: "deployed fst snd demo_fp 1 1 ''1'' 2000 (demo_cluster st)"
    using demo_deployed by blast
  from pass_main[OF demo_start_good[OF d refl]] d show ?thesis
    unfolding reaches_def demo_step_def by simp blast
qed

lemma demo_run_answered:
  "\<exists>s0 s. deployed fst snd demo_fp 1 1 ''1'' 2000 s0 \<and>
     (cluster_step loop_fabric demo_fp demo_rnd)\<^sup>*\<^sup>* s0 s \<and> demo_good s \<and>
     view s = ((1, - 1, 1), (CPosted, True, 1, 1, False), (0, 1, 1), (CPosted, True, 1, 1, False))"
proof -
  obtain st where d: "deployed fst snd demo_fp 1 1 ''1'' 2000 (demo_cluster st)"
    using demo_deployed by blast
  from demo_answered[OF demo_start_good[OF d refl]] d show ?thesis
    unfolding reaches_def demo_step_def by blast
qed

lemma demo_hyps:
  "rc_fabric loop_fabric fst snd" "setup_ok 1 1 K_dim (atoi ''1'') 2000"
  "no_empty_block 1 1 (atoi ''1'')" "\<forall>i j. 0 \<le> demo_rnd i j"
  using loop_rc demo_setup_ok demo_no_empty by (simp_all add: atoi_one demo_rnd_def)

lemma deployed_cluster_start:
  assumes "deployed fst snd demo_fp 1 1 ''1'' 2000 s"
  shows "cluster_start fst snd s" and "lanes s = 1"
  using deployed_start[OF demo_hyps(2-4) assms] deployed_lanes[OF demo_hyps(2) assms]
  by (simp_all add: system_start_def atoi_one)

end
