(* ===== verification/Whole_Runs.thy ===== *)
theory Whole_Runs
  imports Rounds Completion Channel Races Loopback
begin

text \<open>
  The contracts of the running system, as properties: the deployed system is simulated by
  bulk-synchronous rounds, a link by a channel with one place, every run is finite, and a run can be
  brought to its end exactly if no update is lost.
\<close>

lemma run_rounds:
  assumes "system_run Fb pw pm F n m a bytes rnd s"
  defines "Ls \<equiv> setup_spec F n m (atoi a) rnd"
  shows "(round_step F Ls)\<^sup>*\<^sup>* (round_start Ls (nat (atoi a))) (rounds_of s)"
    and "cluster_step Fb F rnd s t \<Longrightarrow> (round_step F Ls)\<^sup>=\<^sup>= (rounds_of s) (rounds_of t)"
proof -
  note inv = run_inv[OF assms(1), folded Ls_def]
  have h: "setup_ok n m K_dim (atoi a) bytes" "no_empty_block n m (atoi a)" "\<forall>i j. 0 \<le> rnd i j"
    using assms(1) unfolding system_run_def by blast+
  obtain s0 where s0: "deployed pw pm F n m a bytes s0" "(cluster_step Fb F rnd)\<^sup>*\<^sup>* s0 s"
    using assms(1) unfolding system_run_def by blast
  have st: "rc_fabric Fb pw pm \<and> system_start pw pm F Ls s0 \<and> lanes s0 = nat (atoi a)"
    using deployed_start[OF h s0(1)] deployed_lanes[OF h(1) s0(1)] inv(3) by (simp add: Ls_def)
  have "(cluster_step Fb F (\<lambda>i. ls_rnd (Ls i)))\<^sup>*\<^sup>* s0 s" using s0(2) by (simp only: inv(4))
  from rounds.sim_reach[OF st this]
  show "(round_step F Ls)\<^sup>*\<^sup>* (round_start Ls (nat (atoi a))) (rounds_of s)" by simp
  show "cluster_step Fb F rnd s t \<Longrightarrow> (round_step F Ls)\<^sup>=\<^sup>= (rounds_of s) (rounds_of t)"
    using rounds_sim_step[OF inv(3,1), of t] by (simp only: inv(4))
qed

text \<open>
  C2: The distributed system implements bulk-synchronous rounds. The abstract system knows no
  network, no threads, no flags and no worker memory: it has an iteration, and for each worker a pair
  of arrays and a number of finished rounds; a round is one application of the SGD routine, and the
  iteration advances when all workers have finished the one before. Reading the server's iteration,
  counters and arrays as such a state, every reachable state of every run is a state that the rounds
  reach, and every step of any thread or of the network is a step of the rounds or leaves them as
  they are.
\<close>

theorem run_refines_rounds:
  assumes "system_run Fb pw pm F n m a bytes rnd s"
  shows "let Ls = setup_spec F n m (atoi a) rnd in
     (round_step F Ls)\<^sup>*\<^sup>* (round_start Ls (nat (atoi a))) (rounds_of s) \<and>
     (\<forall>t. cluster_step Fb F rnd s t \<longrightarrow> (round_step F Ls)\<^sup>=\<^sup>= (rounds_of s) (rounds_of t))"
  unfolding Let_def using run_rounds[OF assms] by blast

theorem run_refines_rounds_witness:
  "\<exists>s. system_run loop_fabric fst snd demo_fp 1 1 ''1'' 2000 demo_rnd s \<and>
     rd_iter (rounds_of s) = 1 \<and> rd_done (rounds_of s) 0 = 1 \<and>
     (round_step demo_fp demo_Ls)\<^sup>*\<^sup>* (round_start demo_Ls 1) (rounds_of s)"
proof -
  obtain s where r: "system_run loop_fabric fst snd demo_fp 1 1 ''1'' 2000 demo_rnd s"
    and v: "recved_iter (cl_ps s) 0 = 0" "ps_iter_t (cl_ps s) = 1" and g: "demo_good s"
    using demo_run demo_hyps unfolding system_run_def view_def by auto
  have "lanes s = 1" using g by (simp add: demo_good_def)
  then show ?thesis
    using r v run_refines_rounds[OF r]
    by (intro exI[of _ s]) (auto simp: atoi_one Let_def rounds_of_def demo_Ls_def)
qed

text \<open>
  C12: Apart from waiting, every run is finite. From the start of the system, threads and network together make at most
  1200 steps that change the state, and 22802 more for each worker, whatever the order, and no
  sequence of such steps goes on for ever; each of them does one unit of the work counted by \<open>cluster_work\<close>.
\<close>

theorem run_bounded:
  assumes "rc_fabric Fb pw pm" and "cluster_start pw pm s0"
    and "(moves (cluster_step Fb F rnd) ^^ k) s0 s"
  shows "int k = cluster_work s + 2 * int (lanes s0) \<and> int k \<le> 1200 + 22802 * int (lanes s0) \<and>
     (\<nexists>f. f 0 = s \<and> (\<forall>j. moves (cluster_step Fb F rnd) (f j) (f (Suc j))))"
proof -
  have I: "rc_fabric Fb pw pm \<and> cluster_inv pw pm s0 \<and> lanes s0 = lanes s0"
    using assms(1) cluster_inv_start[OF assms(2)] by simp
  note w = cluster_work.work_moves[OF I assms(3)]
  have "int k \<le> 1200 + 22800 * int (lanes s0) - cluster_work s0"
    by (rule cluster_work.moves_bounded[OF I assms(3)])
  moreover have "\<nexists>f. f 0 = s \<and> (\<forall>j. moves (cluster_step Fb F rnd) (f j) (f (Suc j)))"
    using cluster_work.no_endless_moves w by metis
  ultimately show ?thesis using w cluster_work_start[OF assms(2)] by simp
qed

theorem run_bounded_witness:
  "\<exists>s0 s k. cluster_start fst snd s0 \<and>
     (moves (cluster_step loop_fabric demo_fp demo_rnd) ^^ k) s0 s \<and> ps_iter_t (cl_ps s) = 1 \<and>
     int k = cluster_work s + 2"
proof -
  obtain s0 s where r: "deployed fst snd demo_fp 1 1 ''1'' 2000 s0"
    "(cluster_step loop_fabric demo_fp demo_rnd)\<^sup>*\<^sup>* s0 s"
    "view s = ((1, 0, 1), (CPosted, True, 1, 1, False), (0, 1, 1), (CPosted, True, 1, 1, False))"
    using demo_run by blast
  note st = deployed_cluster_start[OF r(1)]
  from steps_moves[OF r(2)] obtain k where
    k: "(moves (cluster_step loop_fabric demo_fp demo_rnd) ^^ k) s0 s" by blast
  from run_bounded[OF loop_rc st(1) k] k st r(3) show ?thesis
    by (intro exI[of _ s0] exI[of _ s] exI[of _ k]) (simp add: view_def)
qed

text \<open>
  C11: A run can be completed if and only if no update is lost. Take any state of any run before the
  end, on a live network, with buffers that hold the blocks and workers that have memory for the
  messages still to come. If in no lane an application's \<open>can_send\<close> was overwritten, some
  continuation leads the server to \<open>exit(0)\<close> after its 1200 iterations; if in some lane it was,
  none does.
\<close>

theorem completes_iff_nothing_lost:
  assumes "system_run Fb pw pm F n m a bytes rnd s" and "rc_live Fb pw pm" and "cl_exit s = None"
    and "\<forall>i<lanes s. lane_fits (setup_spec F n m (atoi a) rnd i) \<and>
       memory_left (setup_spec F n m (atoi a) rnd i) (cl_wk s i)"
  shows "(\<exists>t. (cluster_step Fb F rnd)\<^sup>*\<^sup>* s t \<and> cl_exit t = Some 0) \<longleftrightarrow> (\<forall>i<lanes s. \<not> lane_lost s i)"
proof
  note inv = run_inv[OF assms(1)]
  assume "\<forall>i<lanes s. \<not> lane_lost s i"
  then have "hopeful (setup_spec F n m (atoi a) rnd) s" using assms(3,4) by (simp add: hopeful_def)
  from hopeful_completes[OF inv(3) assms(2) inv(1) this]
  show "\<exists>t. (cluster_step Fb F rnd)\<^sup>*\<^sup>* s t \<and> cl_exit t = Some 0" by (simp only: inv(4))
next
  have "cluster_inv pw pm s" using run_inv(1)[OF assms(1)] by (simp add: system_inv_def)
  then show "\<exists>t. (cluster_step Fb F rnd)\<^sup>*\<^sup>* s t \<and> cl_exit t = Some 0 \<Longrightarrow> \<forall>i<lanes s. \<not> lane_lost s i"
    using lost_steps[OF run_inv(3)[OF assms(1)]] assms(3) by fastforce
qed

lemma start_not_lost: "cluster_start pw pm s \<Longrightarrow> i < lanes s \<Longrightarrow> \<not> lane_lost s i"
  by (auto simp: cluster_start_def ps_fresh_def wk_fresh_def lane_lost_def link_start_claims lanes_def)

theorem completes_iff_nothing_lost_witness:
  "\<exists>s0 t. deployed fst snd demo_fp 1 1 ''1'' 2000 s0 \<and>
     (cluster_step loop_fabric demo_fp demo_rnd)\<^sup>*\<^sup>* s0 t \<and> cl_exit t = Some 0"
proof -
  obtain st where d: "deployed fst snd demo_fp 1 1 ''1'' 2000 (demo_cluster st)"
    using demo_deployed by blast
  then have run: "system_run loop_fabric fst snd demo_fp 1 1 ''1'' 2000 demo_rnd (demo_cluster st)"
    using demo_hyps unfolding system_run_def by blast
  have l: "lanes (demo_cluster st) = 1" using deployed_lanes[OF _ d] demo_setup_ok by (simp add: atoi_one)
  have "memory_left (demo_Ls 0) (cl_wk (demo_cluster st) 0)"
    by (simp add: memory_left_def message_bytes_def demo_cluster_def demo_wk_def wk_ports_def
        wk_globals_def fresh_heap_def demo_Ls_def setup_spec_def Let_def part_rows_def part_start_def
        part_hgt_def K_dim_def)
  then have "\<exists>t. (cluster_step loop_fabric demo_fp demo_rnd)\<^sup>*\<^sup>* (demo_cluster st) t \<and> cl_exit t = Some 0"
    using completes_iff_nothing_lost[OF run loop_live] demo_fits l
      start_not_lost[OF deployed_cluster_start(1)[OF d]]
    by (simp add: demo_Ls_def atoi_one demo_cluster_def)
  then show ?thesis using d by blast
qed

text \<open>
  C5: The only data race. Take any state of any run and two steps from it that both change the state, made
  by two different parts of the system: a thread of the server, a thread of a worker, or a link, by which
  the completion threads at its two ends and the network between them are one part. Either the two can be
  made one after the other in both orders, and end in the same state; or a sending thread fills its buffer
  and sets \<open>can_send\<close> while the completion thread of the same link is about to clear it: then filling
  first loses the update, and clearing first does not. The threads share blocks, buffers and counters
  without any lock, and no other pair of their steps can collide. The last pass of the server's main
  thread, which ends the process, is not among the steps.
\<close>

theorem only_race:
  assumes "system_run Fb pw pm F n m a bytes rnd s"
    and "agent_step Fb F rnd x s t" "t \<noteq> s"
    and "agent_step Fb F rnd y s u" "u \<noteq> s" "y \<noteq> x"
  shows "(\<exists>v. agent_step Fb F rnd y t v \<and> agent_step Fb F rnd x u v) \<or>
     (\<exists>i. (x = Send i \<and> y = Down i \<or> x = Wsend i \<and> y = Up i) \<and> lane_lost t i \<and> \<not> lane_lost u i \<or>
        (y = Send i \<and> x = Down i \<or> y = Wsend i \<and> x = Up i) \<and> lane_lost u i \<and> \<not> lane_lost t i)"
  using system_pairs[OF run_inv(3,1)[OF assms(1)] assms(2-5) assms(6)[symmetric]] .

theorem only_race_witness:
  "\<exists>s t u. system_run loop_fabric fst snd demo_fp 1 1 ''1'' 2000 demo_rnd s \<and>
     agent_step loop_fabric demo_fp demo_rnd (Send 0) s t \<and> lane_lost t 0 \<and>
     agent_step loop_fabric demo_fp demo_rnd (Down 0) s u \<and>
     ((\<exists>v. agent_step loop_fabric demo_fp demo_rnd (Down 0) t v \<and>
           agent_step loop_fabric demo_fp demo_rnd (Send 0) u v) \<or> \<not> lane_lost u 0)"
proof -
  obtain s where run: "system_run loop_fabric fst snd demo_fp 1 1 ''1'' 2000 demo_rnd s"
    and g: "demo_good s"
    and v: "view s = ((2, 0, 1), (CPosted, True, 1, 1, False), (0, 1, 1), (CPosted, True, 1, 1, False))"
    using demo_run_ready demo_hyps unfolding system_run_def by blast
  have cp: "lk_cpc (cl_down s 0) = CPosted" using v by (simp add: view_def lview_def)
  have "to_send_iter (cl_ps s) 0 < ps_iter_t (cl_ps s)" using v by (simp add: view_def)
  from demo_send[OF g this] obtain ps' c' where
    p: "ps_rdma_sendTd 0 (cl_ps s) (lk_cl (cl_down s 0)) = Inr (ps', c')"
    and n: "to_send_iter ps' 0 = to_send_iter (cl_ps s) 0 + 1" by blast
  let ?t = "set_down 0 ((cl_down s 0)\<lparr>lk_cl := c'\<rparr>) (s\<lparr>cl_ps := ps'\<rparr>)"
  let ?u = "set_down 0 ((cl_down s 0)\<lparr>lk_cl := client_on_completion_clear (lk_cl (cl_down s 0)), lk_cpc := CCleared\<rparr>) s"
  have x: "agent_step loop_fabric demo_fp demo_rnd (Send 0) s ?t"
    by (rule agent_step.Send[OF demo_lane(10,11)[OF g] p])
  have y: "agent_step loop_fabric demo_fp demo_rnd (Down 0) s ?u"
    by (rule agent_step.Down[OF demo_lane(10,11)[OF g] link_step.flag_cleared[OF cp]])
  have "to_send_iter (cl_ps ?t) 0 \<noteq> to_send_iter (cl_ps s) 0" "lk_cpc (cl_down ?u 0) \<noteq> lk_cpc (cl_down s 0)"
    using n cp by (simp_all add: set_defs)
  then have ne: "?t \<noteq> s" "?u \<noteq> s" by metis+
  have "cluster_inv fst snd s" using g by (simp add: demo_good_def system_inv_def)
  note lost = filled_too_early(1)[OF this demo_lane(11)[OF g] x ne(1) cp]
  show ?thesis
    using only_race[OF run x ne(1) y ne(2)] run x y lost
    by (intro exI[of _ s] exI[of _ ?t] exI[of _ ?u]) auto
qed

text \<open>
  C26: A link implements a channel with one place. Reading the writes posted and the messages counted
  as what was put in and taken out, every state that a connected link reaches, with the two
  applications doing what they like to their flags and buffers, is one that the channel reaches by
  putting and taking in turn, and every step of the link is such a step or changes neither count.
\<close>

theorem link_refines_channel:
  assumes "rc_fabric Fb pw pm" and "link_start pw pm l0" and "(link_run Fb)\<^sup>*\<^sup>* l0 l"
  shows "channel_step\<^sup>*\<^sup>* \<lparr>ch_sent = 0, ch_received = 0\<rparr> (channel_of l) \<and>
     (\<forall>l'. link_run Fb l l' \<longrightarrow> channel_step\<^sup>=\<^sup>= (channel_of l) (channel_of l'))"
proof -
  have i: "rc_fabric Fb pw pm \<and> link_start pw pm l0" using assms(1,2) by simp
  have "rc_fabric Fb pw pm \<and> link_inv pw pm l" using channel.inv_reach[OF i assms(3)] .
  moreover have "channel_of l0 = \<lparr>ch_sent = 0, ch_received = 0\<rparr>"
    using assms(2) by (simp add: channel_of_def link_start_def link_posts_def)
  ultimately show ?thesis
    using channel.sim_steps[OF assms(3), of pw pm] channel.inv_init[OF i] channel_sim_run by metis
qed

theorem link_refines_channel_witness:
  "\<exists>l. link_run loop_fabric demo_link l \<and> can_send (lk_cl l) \<and>
     channel_step\<^sup>*\<^sup>* \<lparr>ch_sent = 0, ch_received = 0\<rparr> (channel_of l)"
proof -
  let ?l = "demo_link\<lparr>lk_cl := demo_cl\<lparr>can_send := True\<rparr>\<rparr>"
  have "app_cl (lk_cl demo_link) (demo_cl\<lparr>can_send := True\<rparr>)" by (simp add: app_cl_def demo_link_def)
  then have "link_run loop_fabric demo_link ?l" by (rule link_run.sender_app)
  then show ?thesis
    using link_refines_channel[OF loop_rc demo_link_start, of ?l] by (intro exI[of _ ?l]) auto
qed

text \<open>
  C16: No counter of the programs leaves \<open>int\<close>. In every state of every run the iterations, ages and
  counters of the server, of every worker and of the two links between them are at least -1 and at
  most 1200, so that neither they nor their successors, which the guards compute, overflow.
\<close>

theorem counters_fit_int:
  assumes "system_run Fb pw pm F n m a bytes rnd s" and "int i < atoi a"
  shows "\<forall>c\<in>{ps_iter_t (cl_ps s), ps_completed_iter (cl_ps s), recved_iter (cl_ps s) i,
      to_send_iter (cl_ps s) i, wk_iter_t (cl_wk s i), wk_completed_iter (cl_wk s i),
      recved_age (cl_wk s i), to_send_age (cl_wk s i),
      buf_write_counter (lk_cl (cl_down s i)), buf_recv_counter (lk_sv (cl_down s i)),
      buf_write_counter (lk_cl (cl_up s i)), buf_recv_counter (lk_sv (cl_up s i))}.
    - 1 \<le> c \<and> c \<le> 1200 \<and> in_int32 c \<and> in_int32 (c + 1)"
proof -
  have S: "system_inv pw pm F (setup_spec F n m (atoi a) rnd) s" and i: "i < lanes s"
    using run_inv(1,2)[OF assms(1)] assms(2) by auto
  then have I: "cluster_inv pw pm s" by (simp add: system_inv_def)
  obtain mrd mru where d: "lane_data pw F (setup_spec F n m (atoi a) rnd i) mrd mru
      (recved_iter (cl_ps s) i) (to_send_iter (cl_ps s) i) (cl_ps s) (cl_down s i) (cl_wk s i) (cl_up s i)"
    using S i by (auto simp: system_inv_def cluster_data_def)
  then have low: "- 1 \<le> recved_iter (cl_ps s) i" "- 1 \<le> recved_age (cl_wk s i)"
    "0 \<le> wk_iter_t (cl_wk s i)" "0 \<le> to_send_age (cl_wk s i)"
    by (auto simp: lane_data_def worker_memory_def)
  have it: "ps_completed_iter (cl_ps s) = ps_iter_t (cl_ps s) - 1" "0 \<le> ps_iter_t (cl_ps s)"
    "ps_iter_t (cl_ps s) \<le> 1200" using I by (auto simp: cluster_inv_def)
  have posts: "link_posts l - 1 \<le> buf_write_counter (lk_cl l)" "buf_write_counter (lk_cl l) \<le> link_posts l"
    for l :: "'a link" by (auto simp: link_posts_def)
  have li: "link_inv pw pm (cl_down s i)" "link_inv pw pm (cl_up s i)"
    using cluster_inv_lane[OF I i] by (simp_all add: lane_inv_def)
  note ch = lane_chain[OF cluster_inv_lane[OF I i]]
  have up: "ps_iter_t (cl_ps s) \<le> recved_iter (cl_ps s) i + 2" "to_send_iter (cl_ps s) i \<le> 1200"
    "link_posts (cl_down s i) \<le> 1200" "recved_age (cl_wk s i) \<le> 1199" "wk_iter_t (cl_wk s i) \<le> 1200"
    using ch it(3) by linarith+
  have lw: "0 \<le> buf_recv_counter (lk_sv (cl_up s i))" "0 \<le> link_posts (cl_up s i)"
    "0 \<le> buf_recv_counter (lk_sv (cl_down s i))" "0 \<le> link_posts (cl_down s i)" "0 \<le> to_send_iter (cl_ps s) i"
    using ch low link_recv_le_posts[OF li(1)] link_recv_le_posts[OF li(2)] by linarith+
  have b: "- 1 \<le> buf_write_counter (lk_cl (cl_down s i)) \<and> buf_write_counter (lk_cl (cl_down s i)) \<le> 1200"
    "- 1 \<le> buf_write_counter (lk_cl (cl_up s i)) \<and> buf_write_counter (lk_cl (cl_up s i)) \<le> 1200"
    "- 1 \<le> buf_recv_counter (lk_sv (cl_down s i)) \<and> buf_recv_counter (lk_sv (cl_down s i)) \<le> 1200"
    "- 1 \<le> buf_recv_counter (lk_sv (cl_up s i)) \<and> buf_recv_counter (lk_sv (cl_up s i)) \<le> 1200"
    using posts[of "cl_down s i"] posts[of "cl_up s i"] up lw ch(3-5)
      link_recv_le_posts[OF li(1)] link_recv_le_posts[OF li(2)] by linarith+
  have c: "- 1 \<le> recved_iter (cl_ps s) i \<and> recved_iter (cl_ps s) i \<le> 1200"
    "- 1 \<le> to_send_age (cl_wk s i) \<and> to_send_age (cl_wk s i) \<le> 1200"
    "- 1 \<le> ps_iter_t (cl_ps s) \<and> ps_iter_t (cl_ps s) \<le> 1200"
    "- 1 \<le> ps_completed_iter (cl_ps s) \<and> ps_completed_iter (cl_ps s) \<le> 1200"
    "- 1 \<le> to_send_iter (cl_ps s) i \<and> to_send_iter (cl_ps s) i \<le> 1200"
    "- 1 \<le> wk_iter_t (cl_wk s i) \<and> wk_iter_t (cl_wk s i) \<le> 1200"
    "- 1 \<le> wk_completed_iter (cl_wk s i) \<and> wk_completed_iter (cl_wk s i) \<le> 1200"
    "- 1 \<le> recved_age (cl_wk s i) \<and> recved_age (cl_wk s i) \<le> 1200"
    using up lw low it b(4) ch(1,5,7) by linarith+
  have small: "(- 1 \<le> c \<and> c \<le> 1200 \<and> in_int32 c \<and> in_int32 (c + 1)) = (- 1 \<le> c \<and> c \<le> 1200)" for c :: int
    by (auto simp: int32_defs)
  show ?thesis by (simp only: small ball_simps(5,7) b c simp_thms)
qed

theorem counters_fit_int_witness:
  "\<exists>s. system_run loop_fabric fst snd demo_fp 1 1 ''1'' 2000 demo_rnd s \<and> ps_iter_t (cl_ps s) = 1 \<and>
     in_int32 (buf_write_counter (lk_cl (cl_up s 0)) + 1)"
proof -
  obtain s where r: "system_run loop_fabric fst snd demo_fp 1 1 ''1'' 2000 demo_rnd s"
    and v: "ps_iter_t (cl_ps s) = 1"
    using demo_run demo_hyps unfolding system_run_def view_def by auto
  show ?thesis using r v counters_fit_int[OF r, of 0] by (intro exI[of _ s]) (simp add: atoi_one)
qed

end
