(* ===== verification/Statements.thy ===== *)
theory Statements
  imports Races
begin

text \<open>
  The application threads statement by statement. A pass of \<open>Cluster\<close> is one step; here it is four: the
  test of the guard, the work on blocks and buffers, the store by which the other threads learn of
  it, and the store after that. Any step of another thread may come in between.
\<close>

section \<open>The four parts of a pass\<close>

fun tested :: "agent \<Rightarrow> 'w cluster \<Rightarrow> bool" where
  "tested Main s = CanMerge (ps_iter_t (cl_ps s)) (recved_iter (cl_ps s)) (worker_num (cl_ps s))"
| "tested (Send i) s \<longleftrightarrow> cc_buf_registered (lk_cl (cl_down s i)) \<and>
     CanSend (to_send_iter (cl_ps s) i) (ps_completed_iter (cl_ps s))"
| "tested (Recv i) s \<longleftrightarrow> sc_buf_registered (lk_sv (cl_up s i)) \<and>
     \<not> recved_iter (cl_ps s) i + 1 > buf_recv_counter (lk_sv (cl_up s i)) - 1"
| "tested (Compute i) s = CanCompute (wk_iter_t (cl_wk s i)) (recved_age (cl_wk s i))"
| "tested (Wsend i) s = wk_CanSend (to_send_age (cl_wk s i)) (wk_completed_iter (cl_wk s i))"
| "tested (Wrecv i) s \<longleftrightarrow> sc_buf_registered (lk_sv (cl_down s i)) \<and>
     \<not> recved_age (cl_wk s i) + 1 \<ge> buf_recv_counter (lk_sv (cl_down s i))"
| "tested _ s = False"

fun work :: "fp \<Rightarrow> (nat \<Rightarrow> nat \<Rightarrow> int) \<Rightarrow> agent \<Rightarrow> 'w cluster \<Rightarrow> 'w cluster result" where
  "work F rnd (Send i) s =
     bindr (ps_send_fill i (cl_ps s) (lk_cl (cl_down s i))) (\<lambda>(st, c).
     Inr (set_down i ((cl_down s i)\<lparr>lk_cl := c\<rparr>) (s\<lparr>cl_ps := st\<rparr>)))"
| "work F rnd (Recv i) s =
     bindr (ps_recv_copy (cl_ps s) (lk_sv (cl_up s i))) (\<lambda>(st, c).
     Inr (set_up i ((cl_up s i)\<lparr>lk_sv := c\<rparr>) (s\<lparr>cl_ps := st\<rparr>)))"
| "work F rnd (Compute i) s =
     bindr (wk_compute F (rnd i) (cl_wk s i)) (\<lambda>w. Inr (set_wk i w s))"
| "work F rnd (Wsend i) s =
     bindr (wk_send_fill (cl_wk s i) (lk_cl (cl_up s i))) (\<lambda>c.
     Inr (set_up i ((cl_up s i)\<lparr>lk_cl := c\<rparr>) s))"
| "work F rnd (Wrecv i) s =
     bindr (wk_recv_copy (cl_wk s i) (lk_sv (cl_down s i))) (\<lambda>w. Inr (set_wk i w s))"
| "work F rnd _ s = Inr s"

fun publish :: "agent \<Rightarrow> 'w cluster \<Rightarrow> 'w cluster" where
  "publish Main s = s\<lparr>cl_ps := (cl_ps s)\<lparr>ps_completed_iter := ps_iter_t (cl_ps s)\<rparr>\<rparr>"
| "publish (Send i) s =
     set_down i ((cl_down s i)\<lparr>lk_cl := (lk_cl (cl_down s i))\<lparr>can_send := True\<rparr>\<rparr>) s"
| "publish (Recv i) s = s\<lparr>cl_ps := (cl_ps s)\<lparr>recved_iter :=
     (recved_iter (cl_ps s))(i := recved_iter (cl_ps s) i + 1)\<rparr>\<rparr>"
| "publish (Compute i) s = set_wk i ((cl_wk s i)\<lparr>wk_completed_iter := wk_iter_t (cl_wk s i)\<rparr>) s"
| "publish (Wsend i) s =
     set_up i ((cl_up s i)\<lparr>lk_cl := (lk_cl (cl_up s i))\<lparr>can_send := True\<rparr>\<rparr>) s"
| "publish (Wrecv i) s = set_wk i ((cl_wk s i)\<lparr>recved_age := recved_age (cl_wk s i) + 1\<rparr>) s"
| "publish _ s = s"

fun finish :: "agent \<Rightarrow> 'w cluster \<Rightarrow> 'w cluster" where
  "finish Main s = s\<lparr>cl_ps := (cl_ps s)\<lparr>ps_iter_t := ps_iter_t (cl_ps s) + 1\<rparr>\<rparr>"
| "finish (Send i) s = s\<lparr>cl_ps := (cl_ps s)\<lparr>to_send_iter :=
     (to_send_iter (cl_ps s))(i := to_send_iter (cl_ps s) i + 1)\<rparr>\<rparr>"
| "finish (Recv i) s =
     set_up i ((cl_up s i)\<lparr>lk_sv := (lk_sv (cl_up s i))\<lparr>can_recv := True\<rparr>\<rparr>) s"
| "finish (Compute i) s = set_wk i ((cl_wk s i)\<lparr>wk_iter_t := wk_iter_t (cl_wk s i) + 1\<rparr>) s"
| "finish (Wsend i) s = set_wk i ((cl_wk s i)\<lparr>to_send_age := to_send_age (cl_wk s i) + 1\<rparr>) s"
| "finish (Wrecv i) s =
     set_down i ((cl_down s i)\<lparr>lk_sv := (lk_sv (cl_down s i))\<lparr>can_recv := True\<rparr>\<rparr>) s"
| "finish _ s = s"

text \<open>The thread exists, and its process has not ended.\<close>

fun at_server :: "agent \<Rightarrow> bool" where
  "at_server Main = True"
| "at_server (Send i) = True"
| "at_server (Recv i) = True"
| "at_server _ = False"

definition here :: "agent \<Rightarrow> 'w cluster \<Rightarrow> bool" where
  "here x s \<longleftrightarrow> application x \<and> (\<forall>i. lane_of x = Some i \<longrightarrow> i < lanes s) \<and>
     (at_server x \<longrightarrow> cl_exit s = None)"

text \<open>Updates of the system's components in one order.\<close>

lemma cluster_order:
  "s\<lparr>cl_down := d, cl_ps := p\<rparr> = s\<lparr>cl_ps := p, cl_down := d\<rparr>"
  "s\<lparr>cl_up := u, cl_ps := p\<rparr> = s\<lparr>cl_ps := p, cl_up := u\<rparr>"
  "s\<lparr>cl_wk := w, cl_ps := p\<rparr> = s\<lparr>cl_ps := p, cl_wk := w\<rparr>"
  "s\<lparr>cl_down := d, cl_wk := w\<rparr> = s\<lparr>cl_wk := w, cl_down := d\<rparr>"
  "s\<lparr>cl_up := u, cl_wk := w\<rparr> = s\<lparr>cl_wk := w, cl_up := u\<rparr>"
  "s\<lparr>cl_up := u, cl_down := d\<rparr> = s\<lparr>cl_down := d, cl_up := u\<rparr>"
  by simp_all

text \<open>The four parts together are the pass.\<close>

lemma parts_make_pass:
  assumes "here x s" and "tested x s" and "work F rnd x s = Inr b" and "x = Main \<longrightarrow> ps_iter_t (cl_ps s) \<noteq> 1199"
  shows "agent_step Fb F rnd x s (finish x (publish x b))"
proof (cases x)
  case Main
  have "ps_main_pass (cl_ps s) = Running ((cl_ps s)\<lparr>ps_completed_iter := ps_iter_t (cl_ps s),
      ps_iter_t := ps_iter_t (cl_ps s) + 1\<rparr>)"
    using assms(2,4) Main by (simp add: ps_main_pass_def Let_def)
  from agent_step.Main[OF _ this] show ?thesis using assms Main by (simp add: here_def)
next
  case (Send i)
  obtain st c where f: "ps_send_fill i (cl_ps s) (lk_cl (cl_down s i)) = Inr (st, c)"
    and b: "b = set_down i ((cl_down s i)\<lparr>lk_cl := c\<rparr>) (s\<lparr>cl_ps := st\<rparr>)"
    using assms(3) Send by (auto simp: result_elims)
  have "ps_rdma_sendTd i (cl_ps s) (lk_cl (cl_down s i)) =
      Inr (st\<lparr>to_send_iter := (to_send_iter st)(i := to_send_iter st i + 1)\<rparr>, c\<lparr>can_send := True\<rparr>)"
    using assms(2) Send f by (simp add: ps_rdma_sendTd_def)
  from agent_step.Send[OF _ _ this] show ?thesis using assms(1) Send b by (simp add: here_def set_defs cluster_order)
next
  case (Recv i)
  obtain st c where f: "ps_recv_copy (cl_ps s) (lk_sv (cl_up s i)) = Inr (st, c)"
    and b: "b = set_up i ((cl_up s i)\<lparr>lk_sv := c\<rparr>) (s\<lparr>cl_ps := st\<rparr>)"
    using assms(3) Recv by (auto simp: result_elims)
  have "ps_rdma_recvTd i (cl_ps s) (lk_sv (cl_up s i)) =
      Inr (st\<lparr>recved_iter := (recved_iter st)(i := recved_iter st i + 1)\<rparr>, c\<lparr>can_recv := True\<rparr>)"
    using assms(2) Recv f by (simp add: ps_rdma_recvTd_def)
  from agent_step.Recv[OF _ _ this] show ?thesis using assms(1) Recv b by (simp add: here_def set_defs cluster_order)
next
  case (Compute i)
  obtain w where f: "wk_compute F (rnd i) (cl_wk s i) = Inr w" and b: "b = set_wk i w s"
    using assms(3) Compute by (auto simp: result_elims)
  have "wk_main_pass F (rnd i) (cl_wk s i) =
      Inr (w\<lparr>wk_completed_iter := wk_iter_t w, wk_iter_t := wk_iter_t w + 1\<rparr>)"
    using assms(2) Compute f by (simp add: wk_main_pass_def)
  from agent_step.Compute[of i s F rnd, OF _ this] show ?thesis using assms(1) Compute b by (simp add: here_def set_defs cluster_order)
next
  case (Wsend i)
  obtain c where f: "wk_send_fill (cl_wk s i) (lk_cl (cl_up s i)) = Inr c"
    and b: "b = set_up i ((cl_up s i)\<lparr>lk_cl := c\<rparr>) s"
    using assms(3) Wsend by (auto simp: result_elims)
  have "wk_rdma_sendTd (cl_wk s i) (lk_cl (cl_up s i)) =
      Inr ((cl_wk s i)\<lparr>to_send_age := to_send_age (cl_wk s i) + 1\<rparr>, c\<lparr>can_send := True\<rparr>)"
    using assms(2) Wsend f by (simp add: wk_rdma_sendTd_def)
  from agent_step.Wsend[OF _ this] show ?thesis using assms(1) Wsend b by (simp add: here_def set_defs cluster_order)
next
  case (Wrecv i)
  obtain w where f: "wk_recv_copy (cl_wk s i) (lk_sv (cl_down s i)) = Inr w" and b: "b = set_wk i w s"
    using assms(3) Wrecv by (auto simp: result_elims)
  have "wk_rdma_recvTd (cl_wk s i) (lk_sv (cl_down s i)) =
      Inr (w\<lparr>recved_age := recved_age w + 1\<rparr>, (lk_sv (cl_down s i))\<lparr>can_recv := True\<rparr>)"
    using assms(2) Wrecv f by (simp add: wk_rdma_recvTd_def)
  from agent_step.Wrecv[OF _ this] show ?thesis using assms(1) Wrecv b by (simp add: here_def set_defs cluster_order)
qed (use assms(1) in \<open>simp_all add: here_def\<close>)

section \<open>Runs of statements\<close>

datatype phase = Idle | Tested | Worked | Published

text \<open>The phases follow each other in this order.\<close>

fun phase_no :: "phase \<Rightarrow> nat" where
  "phase_no Idle = 0"
| "phase_no Tested = 1"
| "phase_no Worked = 2"
| "phase_no Published = 3"

instantiation phase :: linorder
begin

definition less_eq_phase :: "phase \<Rightarrow> phase \<Rightarrow> bool" where
  "less_eq_phase p q \<longleftrightarrow> phase_no p \<le> phase_no q"

definition less_phase :: "phase \<Rightarrow> phase \<Rightarrow> bool" where
  "less_phase p q \<longleftrightarrow> phase_no p < phase_no q"

instance
proof
  fix p q :: phase
  show "p \<le> q \<Longrightarrow> q \<le> p \<Longrightarrow> p = q" by (cases p; cases q) (simp_all add: less_eq_phase_def)
qed (auto simp: less_eq_phase_def less_phase_def)

end

lemma phase_between: "Idle < p \<and> p < Published \<longleftrightarrow> p = Tested \<or> p = Worked"
  by (cases p) (simp_all add: less_phase_def)

text \<open>The program counter of every thread, and the state. After 1200 iterations the server exits.\<close>

inductive statement_step ::
    "'w fabric \<Rightarrow> fp \<Rightarrow> (nat \<Rightarrow> nat \<Rightarrow> int) \<Rightarrow> (agent \<Rightarrow> phase) \<times> 'w cluster \<Rightarrow>
       (agent \<Rightarrow> phase) \<times> 'w cluster \<Rightarrow> bool" for Fb F rnd where
  test:
    "here x s \<Longrightarrow> pc x = Idle \<Longrightarrow> tested x s \<Longrightarrow> statement_step Fb F rnd (pc, s) (pc(x := Tested), s)"
| work:
    "here x s \<Longrightarrow> pc x = Tested \<Longrightarrow> work F rnd x s = Inr s' \<Longrightarrow>
     statement_step Fb F rnd (pc, s) (pc(x := Worked), s')"
| publish:
    "here x s \<Longrightarrow> pc x = Worked \<Longrightarrow> statement_step Fb F rnd (pc, s) (pc(x := Published), publish x s)"
| finish:
    "here x s \<Longrightarrow> pc x = Published \<Longrightarrow> x \<noteq> Main \<or> ps_iter_t (cl_ps s) + 1 \<noteq> 1200 \<Longrightarrow>
     statement_step Fb F rnd (pc, s) (pc(x := Idle), finish x s)"
| exit:
    "here Main s \<Longrightarrow> pc Main = Published \<Longrightarrow> ps_iter_t (cl_ps s) + 1 = 1200 \<Longrightarrow>
     statement_step Fb F rnd (pc, s) (pc(Main := Idle), (finish Main s)\<lparr>cl_exit := Some 0\<rparr>)"
| down:
    "cl_exit s = None \<Longrightarrow> i < lanes s \<Longrightarrow> link_step Fb (cl_down s i) l' \<Longrightarrow>
     statement_step Fb F rnd (pc, s) (pc, set_down i l' s)"
| up:
    "cl_exit s = None \<Longrightarrow> i < lanes s \<Longrightarrow> link_step Fb (cl_up s i) l' \<Longrightarrow>
     statement_step Fb F rnd (pc, s) (pc, set_up i l' s)"

section \<open>The stores still to come\<close>

text \<open>
  Nobody but a thread itself reads what its last statement stores, or a transport thread waits for it.
  So the state is read as if these statements were done: \<open>settle\<close>.
\<close>

definition lag :: "phase \<Rightarrow> int" where
  "lag p = (if p = Published then 1 else 0)"

definition heard :: "phase \<Rightarrow> conn_context \<Rightarrow> conn_context" where
  "heard p c = (if p = Published then c\<lparr>can_recv := True\<rparr> else c)"

definition settle :: "(agent \<Rightarrow> phase) \<Rightarrow> 'w cluster \<Rightarrow> 'w cluster" where
  "settle pc s = s\<lparr>
     cl_ps := (cl_ps s)\<lparr>ps_iter_t := ps_iter_t (cl_ps s) + lag (pc Main),
       to_send_iter := (\<lambda>i. to_send_iter (cl_ps s) i + lag (pc (Send i)))\<rparr>,
     cl_wk := (\<lambda>i. (cl_wk s i)\<lparr>wk_iter_t := wk_iter_t (cl_wk s i) + lag (pc (Compute i)),
       to_send_age := to_send_age (cl_wk s i) + lag (pc (Wsend i))\<rparr>),
     cl_down := (\<lambda>i. (cl_down s i)\<lparr>lk_sv := heard (pc (Wrecv i)) (lk_sv (cl_down s i))\<rparr>),
     cl_up := (\<lambda>i. (cl_up s i)\<lparr>lk_sv := heard (pc (Recv i)) (lk_sv (cl_up s i))\<rparr>)\<rparr>"

lemma heard_simps:
  "sc_buf_registered (heard p c) = sc_buf_registered c" "buf_recv_counter (heard p c) = buf_recv_counter c"
  "sc_buffer (heard p c) = sc_buffer c" "sc_buf_ptr (heard p c) = sc_buf_ptr c"
  "sc_buffer_mr (heard p c) = sc_buffer_mr c" "sc_msg (heard p c) = sc_msg c"
  "(heard p c)\<lparr>sc_buf_prepared := b\<rparr> = heard p (c\<lparr>sc_buf_prepared := b\<rparr>)"
  "(heard p c)\<lparr>sc_buffer := m\<rparr> = heard p (c\<lparr>sc_buffer := m\<rparr>)"
  "can_recv c \<Longrightarrow> can_recv (heard p c)"
  by (simp_all add: heard_def)

lemma phase_simps [simp]:
  "lag Idle = 0" "lag Tested = 0" "lag Worked = 0" "lag Published = 1"
  "heard Idle c = c" "heard Tested c = c" "heard Worked c = c" "heard Published c = c\<lparr>can_recv := True\<rparr>"
  by (simp_all add: lag_def heard_def)

lemma settle_lanes [simp]: "lanes (settle pc s) = lanes s" "cl_exit (settle pc s) = cl_exit s" "here x (settle pc s) = here x s"
  by (simp_all add: settle_def lanes_def here_def)

lemma settle_idle: "(\<And>x. application x \<Longrightarrow> pc x \<noteq> Published) \<Longrightarrow> settle pc s = s"
  by (simp add: settle_def lag_def heard_def)

lemma settle_tested: "pc x \<noteq> Published \<Longrightarrow> tested x (settle pc s) = tested x s"
  by (cases x) (simp_all add: settle_def lag_def heard_simps)

lemma settle_publish:
  "pc x = Worked \<Longrightarrow> settle (pc(x := Published)) (publish x s) = finish x (publish x (settle pc s))"
  by (cases x) (auto simp: settle_def set_defs fun_eq_iff)

lemma settle_finish: "pc x = Published \<Longrightarrow> settle (pc(x := Idle)) (finish x s) = settle pc s"
  by (cases x) (auto simp: settle_def set_defs fun_eq_iff)

lemma lag_update: "q \<noteq> Published \<Longrightarrow> pc x \<noteq> Published \<Longrightarrow> lag ((pc(x := q)) y) = lag (pc y)"
  "q \<noteq> Published \<Longrightarrow> pc x \<noteq> Published \<Longrightarrow> heard ((pc(x := q)) y) = heard (pc y)"
  by (auto simp: lag_def heard_def fun_eq_iff)

lemma settle_test: "q \<noteq> Published \<Longrightarrow> pc x \<noteq> Published \<Longrightarrow> settle (pc(x := q)) s = settle pc s"
  by (simp only: settle_def lag_update simp_thms)

text \<open>Work does not depend on them.\<close>

lemma send_fill_lag:
  assumes "ps_send_fill i st c = Inr (st', c')" and "ts i = to_send_iter st i"
  shows "ps_send_fill i (st\<lparr>ps_iter_t := it, to_send_iter := ts\<rparr>) c = Inr (st'\<lparr>ps_iter_t := it, to_send_iter := ts\<rparr>, c')
    \<and> to_send_iter st' = to_send_iter st \<and> ps_iter_t st' = ps_iter_t st"
  using assms by (auto simp: ps_send_fill_def result_elims Let_def)

lemma recv_copy_lag:
  assumes "ps_recv_copy st c = Inr (st', c')"
  shows "ps_recv_copy (st\<lparr>ps_iter_t := it, to_send_iter := ts\<rparr>) c = Inr (st'\<lparr>ps_iter_t := it, to_send_iter := ts\<rparr>, c')
    \<and> to_send_iter st' = to_send_iter st \<and> ps_iter_t st' = ps_iter_t st"
  using assms by (auto simp: ps_recv_copy_unfold result_elims Let_def)

lemma recv_copy_heard:
  assumes "ps_recv_copy st c = Inr (st', c')"
  shows "ps_recv_copy st (heard p c) = Inr (st', heard p c')"
  using assms by (auto simp: ps_recv_copy_unfold result_elims Let_def heard_simps)

lemma compute_lag:
  assumes "wk_compute F r w = Inr w'"
  shows "wk_compute F r (w\<lparr>wk_iter_t := it, to_send_age := a\<rparr>) = Inr (w'\<lparr>wk_iter_t := it, to_send_age := a\<rparr>)
    \<and> wk_iter_t w' = wk_iter_t w \<and> to_send_age w' = to_send_age w"
  using assms by (auto simp: wk_compute_def result_elims Let_def)

lemma wk_fill_lag:
  "wk_send_fill (w\<lparr>wk_iter_t := it\<rparr>) c = wk_send_fill w c"
  "wk_send_fill (w\<lparr>wk_iter_t := it, to_send_age := a\<rparr>) c = wk_send_fill w c"
  by (simp_all add: wk_send_fill_def)

lemma wk_copy_lag:
  assumes "wk_recv_copy w c = Inr w'"
  shows "wk_recv_copy (w\<lparr>wk_iter_t := it, to_send_age := a\<rparr>) (heard p c) = Inr (w'\<lparr>wk_iter_t := it, to_send_age := a\<rparr>)
    \<and> wk_iter_t w' = wk_iter_t w \<and> to_send_age w' = to_send_age w"
  using assms by (auto simp: wk_recv_copy_def result_elims Let_def heard_simps split_beta)

lemma settle_work:
  assumes "pc x = Tested" and "work F rnd x s = Inr s'"
  shows "work F rnd x (settle pc s) = Inr (settle (pc(x := Worked)) s')"
proof (cases x)
  case (Send i)
  obtain st c where f: "ps_send_fill i (cl_ps s) (lk_cl (cl_down s i)) = Inr (st, c)"
    and b: "s' = set_down i ((cl_down s i)\<lparr>lk_cl := c\<rparr>) (s\<lparr>cl_ps := st\<rparr>)"
    using assms(2) Send by (auto simp: result_elims)
  note k = send_fill_lag[OF f, of "\<lambda>i. to_send_iter (cl_ps s) i + lag (pc (Send i))"
      "ps_iter_t (cl_ps s) + lag (pc Main)"]
  show ?thesis
    using assms(1) Send k b by (simp add: settle_def set_defs lag_update fun_eq_iff cluster_order)
next
  case (Recv i)
  obtain st c where f: "ps_recv_copy (cl_ps s) (lk_sv (cl_up s i)) = Inr (st, c)"
    and b: "s' = set_up i ((cl_up s i)\<lparr>lk_sv := c\<rparr>) (s\<lparr>cl_ps := st\<rparr>)"
    using assms(2) Recv by (auto simp: result_elims)
  note k = recv_copy_lag[OF f, of "\<lambda>i. to_send_iter (cl_ps s) i + lag (pc (Send i))"
      "ps_iter_t (cl_ps s) + lag (pc Main)"]
  show ?thesis
    using assms(1) Recv k b by (simp add: settle_def set_defs lag_update fun_eq_iff cluster_order)
next
  case (Compute i)
  obtain w where f: "wk_compute F (rnd i) (cl_wk s i) = Inr w" and b: "s' = set_wk i w s"
    using assms(2) Compute by (auto simp: result_elims)
  show ?thesis
    using assms(1) Compute compute_lag[OF f, of "to_send_age (cl_wk s i) + lag (pc (Wsend i))" "wk_iter_t (cl_wk s i)"] b by (simp add: settle_def set_defs lag_update fun_eq_iff cluster_order)
next
  case (Wsend i)
  obtain c where f: "wk_send_fill (cl_wk s i) (lk_cl (cl_up s i)) = Inr c"
    and b: "s' = set_up i ((cl_up s i)\<lparr>lk_cl := c\<rparr>) s"
    using assms(2) Wsend by (auto simp: result_elims)
  show ?thesis
    using assms(1) Wsend f b by (simp add: settle_def set_defs wk_fill_lag lag_update fun_eq_iff cluster_order)
next
  case (Wrecv i)
  obtain w where f: "wk_recv_copy (cl_wk s i) (lk_sv (cl_down s i)) = Inr w" and b: "s' = set_wk i w s"
    using assms(2) Wrecv by (auto simp: result_elims)
  show ?thesis
    using assms(1) Wrecv wk_copy_lag[OF f, where p = Idle] b by (simp add: settle_def set_defs lag_update fun_eq_iff cluster_order)
qed (use assms in \<open>simp_all add: settle_test\<close>)

text \<open>Nor do the steps of a link, except that a set flag allows more.\<close>

lemma marks_heard: "marks (heard p)"
proof (cases "p = Published")
  case True
  then have "heard p = (\<lambda>c. c\<lparr>can_recv := True\<rparr>)" by (simp add: heard_def fun_eq_iff)
  then show ?thesis by (simp add: marksI)
next
  case False
  then have "heard p = (\<lambda>c. c)" by (simp add: heard_def fun_eq_iff)
  then show ?thesis by (simp add: marksI)
qed

lemmas heard_link = mark_link[OF marks_heard]

lemma settle_down:
  assumes "link_step Fb (cl_down s i) l'"
  shows "link_step Fb (cl_down (settle pc s) i) (l'\<lparr>lk_sv := heard (pc (Wrecv i)) (lk_sv l')\<rparr>)"
    and "settle pc (set_down i l' s) = set_down i (l'\<lparr>lk_sv := heard (pc (Wrecv i)) (lk_sv l')\<rparr>) (settle pc s)"
  using heard_link[OF assms] by (auto simp: settle_def set_defs fun_eq_iff)

lemma settle_up:
  assumes "link_step Fb (cl_up s i) l'"
  shows "link_step Fb (cl_up (settle pc s) i) (l'\<lparr>lk_sv := heard (pc (Recv i)) (lk_sv l')\<rparr>)"
    and "settle pc (set_up i l' s) = set_up i (l'\<lparr>lk_sv := heard (pc (Recv i)) (lk_sv l')\<rparr>) (settle pc s)"
  using heard_link[OF assms] by (auto simp: settle_def set_defs fun_eq_iff)

end
