(* ===== verification/Lane_Work.thy ===== *)
theory Lane_Work
  imports Statements
begin

text \<open>
  What a thread's work touches and depends on: the part of the state that belongs to the lane of the
  thread, and the sizes and counters that no work changes.
\<close>

section \<open>Lanes of a state\<close>

text \<open>
  What belongs to lane \<open>i\<close>: its blocks, arrays and counters at the server, its worker, its links; and
  all that belongs to none of the first \<open>n\<close> lanes.
\<close>

definition lane_eq :: "(nat \<Rightarrow> lane_spec) \<Rightarrow> nat \<Rightarrow> 'w cluster \<Rightarrow> 'w cluster \<Rightarrow> bool" where
  "lane_eq Ls i s t \<longleftrightarrow>
     Pblocks (cl_ps s) i = Pblocks (cl_ps t) i \<and> Qblocks (cl_ps s) i = Qblocks (cl_ps t) i \<and>
     h_arr (ps_heap (cl_ps s)) (ls_p (Ls i)) = h_arr (ps_heap (cl_ps t)) (ls_p (Ls i)) \<and>
     h_arr (ps_heap (cl_ps s)) (ls_q (Ls i)) = h_arr (ps_heap (cl_ps t)) (ls_q (Ls i)) \<and>
     to_send_iter (cl_ps s) i = to_send_iter (cl_ps t) i \<and> recved_iter (cl_ps s) i = recved_iter (cl_ps t) i \<and>
     cl_wk s i = cl_wk t i \<and> cl_down s i = cl_down t i \<and> cl_up s i = cl_up t i"

definition core_eq :: "'w cluster \<Rightarrow> 'w cluster \<Rightarrow> bool" where
  "core_eq s t \<longleftrightarrow> cl_exit s = cl_exit t \<and> worker_num (cl_ps s) = worker_num (cl_ps t) \<and>
     ps_iter_t (cl_ps s) = ps_iter_t (cl_ps t) \<and> ps_completed_iter (cl_ps s) = ps_completed_iter (cl_ps t) \<and>
     worker_pidx (cl_ps s) = worker_pidx (cl_ps t) \<and> worker_qidx (cl_ps s) = worker_qidx (cl_ps t) \<and>
     ps_local_ports (cl_ps s) = ps_local_ports (cl_ps t) \<and> ps_remote_ports (cl_ps s) = ps_remote_ports (cl_ps t) \<and>
     h_next (ps_heap (cl_ps s)) = h_next (ps_heap (cl_ps t)) \<and>
     h_avail (ps_heap (cl_ps s)) = h_avail (ps_heap (cl_ps t)) \<and>
     h_junk (ps_heap (cl_ps s)) = h_junk (ps_heap (cl_ps t))"

definition rest_eq :: "(nat \<Rightarrow> lane_spec) \<Rightarrow> nat \<Rightarrow> 'w cluster \<Rightarrow> 'w cluster \<Rightarrow> bool" where
  "rest_eq Ls n s t \<longleftrightarrow> core_eq s t \<and>
     (\<forall>j\<ge>n. Pblocks (cl_ps s) j = Pblocks (cl_ps t) j \<and> Qblocks (cl_ps s) j = Qblocks (cl_ps t) j \<and>
        to_send_iter (cl_ps s) j = to_send_iter (cl_ps t) j \<and> recved_iter (cl_ps s) j = recved_iter (cl_ps t) j \<and>
        cl_wk s j = cl_wk t j \<and> cl_down s j = cl_down t j \<and> cl_up s j = cl_up t j) \<and>
     (\<forall>p. (\<forall>j<n. p \<noteq> ls_p (Ls j) \<and> p \<noteq> ls_q (Ls j)) \<longrightarrow>
        h_arr (ps_heap (cl_ps s)) p = h_arr (ps_heap (cl_ps t)) p)"

text \<open>The two states differ in lane \<open>i\<close> at most.\<close>

definition outside :: "(nat \<Rightarrow> lane_spec) \<Rightarrow> nat \<Rightarrow> nat \<Rightarrow> 'w cluster \<Rightarrow> 'w cluster \<Rightarrow> bool" where
  "outside Ls n i s t \<longleftrightarrow> rest_eq Ls n s t \<and> (\<forall>j<n. j \<noteq> i \<longrightarrow> lane_eq Ls j s t)"

lemma eq_refl [simp]: "lane_eq Ls i s s" "core_eq s s" "rest_eq Ls n s s" "outside Ls n i s s"
  by (simp_all add: lane_eq_def core_eq_def rest_eq_def outside_def)

lemma eq_sym:
  "lane_eq Ls i s t \<Longrightarrow> lane_eq Ls i t s" "rest_eq Ls n s t \<Longrightarrow> rest_eq Ls n t s"
  "outside Ls n i s t \<Longrightarrow> outside Ls n i t s"
  by (simp_all add: lane_eq_def core_eq_def rest_eq_def outside_def)

lemma eq_trans:
  "lane_eq Ls i s t \<Longrightarrow> lane_eq Ls i t u \<Longrightarrow> lane_eq Ls i s u"
  "rest_eq Ls n s t \<Longrightarrow> rest_eq Ls n t u \<Longrightarrow> rest_eq Ls n s u"
  "outside Ls n i s t \<Longrightarrow> outside Ls n i t u \<Longrightarrow> outside Ls n i s u"
  by (simp_all add: lane_eq_def core_eq_def rest_eq_def outside_def)

lemma rest_core: "rest_eq Ls n s t \<Longrightarrow> core_eq s t"
  by (simp add: rest_eq_def)

lemma core_lanes: "core_eq s t \<Longrightarrow> lanes s = lanes t"
  by (simp add: core_eq_def lanes_def)

lemma eq_from_lanes:
  assumes r: "rest_eq Ls n s t" and l: "\<And>i. i < n \<Longrightarrow> lane_eq Ls i s t"
  shows "s = t"
proof -
  have f: "Pblocks (cl_ps s) j = Pblocks (cl_ps t) j \<and> Qblocks (cl_ps s) j = Qblocks (cl_ps t) j \<and>
        to_send_iter (cl_ps s) j = to_send_iter (cl_ps t) j \<and> recved_iter (cl_ps s) j = recved_iter (cl_ps t) j \<and>
        cl_wk s j = cl_wk t j \<and> cl_down s j = cl_down t j \<and> cl_up s j = cl_up t j" for j
    using r l[of j] by (cases "j < n") (simp_all add: rest_eq_def lane_eq_def)
  have "h_arr (ps_heap (cl_ps s)) p = h_arr (ps_heap (cl_ps t)) p" for p
    using r l by (cases "\<forall>j<n. p \<noteq> ls_p (Ls j) \<and> p \<noteq> ls_q (Ls j)") (auto simp: rest_eq_def lane_eq_def)
  then have "ps_heap (cl_ps s) = ps_heap (cl_ps t)"
    using r by (intro heap.equality) (auto simp: rest_eq_def core_eq_def)
  then have "cl_ps s = cl_ps t"
    using r f by (intro ps_state.equality) (auto simp: rest_eq_def core_eq_def fun_eq_iff)
  then show ?thesis
    using r f by (intro cluster.equality) (auto simp: rest_eq_def core_eq_def fun_eq_iff)
qed

lemma outside_set:
  "i < n \<Longrightarrow> outside Ls n i (set_wk i w s) s" "i < n \<Longrightarrow> outside Ls n i (set_down i l s) s"
  "i < n \<Longrightarrow> outside Ls n i (set_up i l s) s"
  by (auto simp: outside_def rest_eq_def core_eq_def lane_eq_def set_defs)

lemma outside_publish:
  "lane_of x = Some i \<Longrightarrow> i < n \<Longrightarrow> outside Ls n i (publish x s) s"
  "lane_of x = Some i \<Longrightarrow> i < n \<Longrightarrow> outside Ls n i (finish x s) s"
  by (cases x; auto simp: outside_def rest_eq_def core_eq_def lane_eq_def set_defs)+

lemma lane_publish:
  "lane_of x = Some i \<Longrightarrow> lane_eq Ls i s t \<Longrightarrow> lane_eq Ls i (publish x s) (publish x t)"
  "lane_of x = Some i \<Longrightarrow> lane_eq Ls i s t \<Longrightarrow> lane_eq Ls i (finish x s) (finish x t)"
  by (cases x; auto simp: lane_eq_def set_defs)+

section \<open>Work in a lane\<close>

text \<open>The blocks of lane \<open>i\<close> are where they belong, and a message that can be received is the lane's.\<close>

definition lane_fit :: "(nat \<Rightarrow> lane_spec) \<Rightarrow> nat \<Rightarrow> 'w cluster \<Rightarrow> bool" where
  "lane_fit Ls i s \<longleftrightarrow> i < CAP \<and> worker_pidx (cl_ps s) i = int i \<and> worker_qidx (cl_ps s) i = int i \<and>
     eles (Pblocks (cl_ps s) i) = ls_p (Ls i) \<and> eles (Qblocks (cl_ps s) i) = ls_q (Ls i)"

definition message_fit :: "nat \<Rightarrow> 'w cluster \<Rightarrow> bool" where
  "message_fit i s \<longleftrightarrow> sc_buf_ptr (lk_sv (cl_up s i)) \<noteq> 0 \<and>
     (\<exists>msg. read_blocks (sc_buffer (lk_sv (cl_up s i))) = Inr msg \<and> lane_message i (cl_ps s) msg)"

definition work_fit :: "(nat \<Rightarrow> lane_spec) \<Rightarrow> agent \<Rightarrow> nat \<Rightarrow> 'w cluster \<Rightarrow> bool" where
  "work_fit Ls x i s \<longleftrightarrow> lane_fit Ls i s \<and> (x = Recv i \<longrightarrow> message_fit i s)"

lemma work_fit_eq:
  assumes "work_fit Ls x i s" and "lane_eq Ls i s t" and "core_eq s t"
  shows "work_fit Ls x i t"
  using assms
  by (auto simp: work_fit_def lane_fit_def message_fit_def lane_message_def array_fits_def lane_eq_def core_eq_def
      split: prod.splits)

lemma send_fill_fit:
  assumes "lane_fit Ls i s"
  shows "ps_send_fill i (cl_ps s) c = Inr (st', c') \<longleftrightarrow> cc_buf_ptr c \<noteq> 0 \<and>
     (\<exists>m k. pack_blocks (ps_heap (cl_ps s)) (Pblocks (ps_stamp i (cl_ps s)) i) (Qblocks (ps_stamp i (cl_ps s)) i)
        (cc_buffer c) = Inr (m, k) \<and> st' = ps_stamp i (cl_ps s) \<and>
        c' = c\<lparr>cc_buffer := m, cc_buf_len := k, cc_buf_prepared := True\<rparr>)"
  using assms by (auto simp: lane_fit_def ps_send_fill_def ps_stamp_def Let_def result_elims index_in_eq_Inr)

lemma recv_copy_fit:
  assumes "lane_fit Ls i s" and "message_fit i s"
  shows "\<exists>P ps Q qs. block_id P = int i \<and> block_id Q = int i \<and>
    (\<forall>t. lane_eq Ls i s t \<and> core_eq s t \<longrightarrow> ps_recv_copy (cl_ps t) (lk_sv (cl_up t i)) =
      Inr (ps_copied ((P, ps), (Q, qs)) (cl_ps t), (lk_sv (cl_up t i))\<lparr>sc_buf_prepared := False\<rparr>))"
proof -
  obtain msg where r: "read_blocks (sc_buffer (lk_sv (cl_up s i))) = Inr msg" and l: "lane_message i (cl_ps s) msg"
    and z: "sc_buf_ptr (lk_sv (cl_up s i)) \<noteq> 0" using assms(2) by (auto simp: message_fit_def)
  from l obtain P ps Q qs where m: "msg = ((P, ps), (Q, qs))" "block_id P = int i" "block_id Q = int i"
    by (rule lane_messageE)
  have "ps_recv_copy (cl_ps t) (lk_sv (cl_up t i)) =
      Inr (ps_copied ((P, ps), (Q, qs)) (cl_ps t), (lk_sv (cl_up t i))\<lparr>sc_buf_prepared := False\<rparr>)"
    if e: "lane_eq Ls i s t" "core_eq s t" for t
  proof (rule ps_copy_ok[where p = i and q = i])
    have "lane_message i (cl_ps t) ((P, ps), (Q, qs))"
      using l e assms(1) m(1)
      by (auto simp: lane_message_def array_fits_def lane_eq_def lane_fit_def)
    then show "array_fits (ps_heap (cl_ps t)) (eles (Pblocks (cl_ps t) i)) P"
      "array_fits (ps_heap (cl_ps t)) (eles (Qblocks (cl_ps t) i)) Q"
      "eles (Pblocks (cl_ps t) i) \<noteq> eles (Qblocks (cl_ps t) i)"
      by (auto simp: lane_message_def)
  qed (use e r z m assms(1) in \<open>auto simp: lane_eq_def lane_fit_def\<close>)
  with m(2,3) show ?thesis by (intro exI[of _ P] exI[of _ ps] exI[of _ Q] exI[of _ qs]) simp
qed

lemma outside_stamp:
  assumes "i < n" and "lane_fit Ls i s"
  shows "outside Ls n i (s\<lparr>cl_ps := ps_stamp i (cl_ps s)\<rparr>) s"
  using assms by (auto simp: outside_def rest_eq_def core_eq_def lane_eq_def ps_stamp_def lane_fit_def)

lemma outside_copied:
  assumes i: "i < n" and sp: "specs_ok Ls n" and f: "lane_fit Ls i s" and b: "block_id P = int i" "block_id Q = int i"
  shows "outside Ls n i (s\<lparr>cl_ps := ps_copied ((P, ps), (Q, qs)) (cl_ps s)\<rparr>) s"
proof -
  have e: "eles (Pblocks (cl_ps s) i) = ls_p (Ls i)" "eles (Qblocks (cl_ps s) i) = ls_q (Ls i)"
    using f by (simp_all add: lane_fit_def)
  have d: "ls_p (Ls j) \<noteq> ls_p (Ls i) \<and> ls_p (Ls j) \<noteq> ls_q (Ls i) \<and> ls_q (Ls j) \<noteq> ls_p (Ls i) \<and> ls_q (Ls j) \<noteq> ls_q (Ls i)"
    if "j < n" "j \<noteq> i" for j
    using specs_apart[OF sp i that] by auto
  have p: "p \<noteq> ls_p (Ls i) \<and> p \<noteq> ls_q (Ls i)" if "\<forall>j<n. p \<noteq> ls_p (Ls j) \<and> p \<noteq> ls_q (Ls j)" for p
    using that i by blast
  show ?thesis
    using i b d p unfolding outside_def rest_eq_def
    by (simp add: core_eq_def lane_eq_def ps_copied_def Let_def e)
qed

text \<open>Work of a thread of lane \<open>i\<close> stays in the lane, and depends on nothing else.\<close>

lemma work_outside:
  assumes w: "work F rnd x s = Inr t" and x: "lane_of x = Some i" "i < n" and sp: "specs_ok Ls n"
    and f: "work_fit Ls x i s"
  shows "outside Ls n i t s"
proof (cases x)
  case (Send j)
  then have j: "j = i" using x(1) by simp
  obtain st c where p: "ps_send_fill i (cl_ps s) (lk_cl (cl_down s i)) = Inr (st, c)"
    and t: "t = set_down i ((cl_down s i)\<lparr>lk_cl := c\<rparr>) (s\<lparr>cl_ps := st\<rparr>)"
    using w Send j by (auto simp: result_elims)
  have l: "lane_fit Ls i s" using f by (simp add: work_fit_def)
  then have "st = ps_stamp i (cl_ps s)" using p send_fill_fit by blast
  then show ?thesis
    unfolding t by (simp only:) (rule eq_trans(3)[OF outside_set(2)[OF x(2)] outside_stamp[OF x(2) l]])
next
  case (Recv j)
  then have j: "j = i" using x(1) by simp
  have l: "lane_fit Ls i s" and m: "message_fit i s" using f Recv j by (simp_all add: work_fit_def)
  from recv_copy_fit[OF l m] obtain P ps Q qs where b: "block_id P = int i" "block_id Q = int i"
    and all: "\<forall>t. lane_eq Ls i s t \<and> core_eq s t \<longrightarrow> ps_recv_copy (cl_ps t) (lk_sv (cl_up t i)) =
      Inr (ps_copied ((P, ps), (Q, qs)) (cl_ps t), (lk_sv (cl_up t i))\<lparr>sc_buf_prepared := False\<rparr>)"
    by (elim exE conjE) (rule that)
  note again = all[rule_format, OF conjI]
  note c = again[OF eq_refl(1,2)]
  have "t = set_up i ((cl_up s i)\<lparr>lk_sv := (lk_sv (cl_up s i))\<lparr>sc_buf_prepared := False\<rparr>\<rparr>)
      (s\<lparr>cl_ps := ps_copied ((P, ps), (Q, qs)) (cl_ps s)\<rparr>)"
    using w Recv j c by simp
  then show ?thesis
    using eq_trans(3)[OF outside_set(3)[OF x(2)] outside_copied[OF x(2) sp l b]] by simp
qed (use w x in \<open>auto simp: result_elims outside_set\<close>)

lemma work_again:
  assumes w: "work F rnd x s = Inr t" and x: "lane_of x = Some i" and f: "work_fit Ls x i s"
    and e: "lane_eq Ls i s s'" "core_eq s s'"
  shows "\<exists>t'. work F rnd x s' = Inr t' \<and> lane_eq Ls i t t'"
proof (cases x)
  case (Send j)
  then have j: "j = i" using x by simp
  have l: "lane_fit Ls i s" "lane_fit Ls i s'" using f work_fit_eq[OF f e] by (simp_all add: work_fit_def)
  obtain st c where p: "ps_send_fill i (cl_ps s) (lk_cl (cl_down s i)) = Inr (st, c)"
    and t: "t = set_down i ((cl_down s i)\<lparr>lk_cl := c\<rparr>) (s\<lparr>cl_ps := st\<rparr>)"
    using w Send j by (auto simp: result_elims)
  let ?c = "lk_cl (cl_down s i)"
  obtain m k where q: "cc_buf_ptr ?c \<noteq> 0" "pack_blocks (ps_heap (cl_ps s)) (Pblocks (ps_stamp i (cl_ps s)) i)
      (Qblocks (ps_stamp i (cl_ps s)) i) (cc_buffer ?c) = Inr (m, k)"
    and st: "st = ps_stamp i (cl_ps s)" and c: "c = ?c\<lparr>cc_buffer := m, cc_buf_len := k, cc_buf_prepared := True\<rparr>"
    using p send_fill_fit[OF l(1)] by blast
  have b: "Pblocks (ps_stamp i (cl_ps s')) i = Pblocks (ps_stamp i (cl_ps s)) i"
    "Qblocks (ps_stamp i (cl_ps s')) i = Qblocks (ps_stamp i (cl_ps s)) i" "cl_down s' i = cl_down s i"
    using l e by (simp_all add: ps_stamp_def lane_fit_def lane_eq_def)
  have "pack_blocks (ps_heap (cl_ps s')) (Pblocks (ps_stamp i (cl_ps s)) i)
      (Qblocks (ps_stamp i (cl_ps s)) i) (cc_buffer ?c) =
    pack_blocks (ps_heap (cl_ps s)) (Pblocks (ps_stamp i (cl_ps s)) i)
      (Qblocks (ps_stamp i (cl_ps s)) i) (cc_buffer ?c)"
    using l e by (intro pack_cong) (simp_all add: ps_stamp_def lane_fit_def lane_eq_def)
  then have "ps_send_fill i (cl_ps s') (lk_cl (cl_down s' i)) = Inr (ps_stamp i (cl_ps s'), c)"
    using q c b by (auto simp: send_fill_fit[OF l(2)])
  then have "work F rnd x s' = Inr (set_down i ((cl_down s' i)\<lparr>lk_cl := c\<rparr>) (s'\<lparr>cl_ps := ps_stamp i (cl_ps s')\<rparr>))"
    using Send j by simp
  moreover have "lane_eq Ls i t (set_down i ((cl_down s' i)\<lparr>lk_cl := c\<rparr>) (s'\<lparr>cl_ps := ps_stamp i (cl_ps s')\<rparr>))"
    using e l by (auto simp: t st lane_eq_def set_defs ps_stamp_def lane_fit_def)
  ultimately show ?thesis by blast
next
  case (Recv j)
  then have j: "j = i" using x by simp
  have l: "lane_fit Ls i s" and m: "message_fit i s" using f Recv j by (simp_all add: work_fit_def)
  have l': "lane_fit Ls i s'" using work_fit_eq[OF f e] by (simp add: work_fit_def)
  from recv_copy_fit[OF l m] obtain P ps Q qs where b: "block_id P = int i" "block_id Q = int i"
    and all: "\<forall>t. lane_eq Ls i s t \<and> core_eq s t \<longrightarrow> ps_recv_copy (cl_ps t) (lk_sv (cl_up t i)) =
      Inr (ps_copied ((P, ps), (Q, qs)) (cl_ps t), (lk_sv (cl_up t i))\<lparr>sc_buf_prepared := False\<rparr>)"
    by (elim exE conjE) (rule that)
  note again = all[rule_format, OF conjI]
  let ?t = "\<lambda>s. set_up i ((cl_up s i)\<lparr>lk_sv := (lk_sv (cl_up s i))\<lparr>sc_buf_prepared := False\<rparr>\<rparr>)
      (s\<lparr>cl_ps := ps_copied ((P, ps), (Q, qs)) (cl_ps s)\<rparr>)"
  have "t = ?t s" using w Recv j again[OF eq_refl(1,2)] by simp
  moreover have "work F rnd x s' = Inr (?t s')" using Recv j again[OF e] by simp
  moreover have "lane_eq Ls i (?t s) (?t s')"
    using e l l' b by (simp add: lane_eq_def set_defs ps_copied_def Let_def lane_fit_def)
  ultimately show ?thesis by blast
next
  case (Compute j)
  then have j: "j = i" using x by simp
  obtain w' where "wk_compute F (rnd i) (cl_wk s i) = Inr w'" "t = set_wk i w' s"
    using w Compute j by (auto simp: result_elims)
  then show ?thesis
    using e Compute j by (intro exI[of _ "set_wk i w' s'"]) (simp add: lane_eq_def set_defs)
next
  case (Wsend j)
  then have j: "j = i" using x by simp
  obtain c where "wk_send_fill (cl_wk s i) (lk_cl (cl_up s i)) = Inr c" "t = set_up i ((cl_up s i)\<lparr>lk_cl := c\<rparr>) s"
    using w Wsend j by (auto simp: result_elims)
  then show ?thesis
    using e Wsend j by (intro exI[of _ "set_up i ((cl_up s' i)\<lparr>lk_cl := c\<rparr>) s'"]) (simp add: lane_eq_def set_defs)
next
  case (Wrecv j)
  then have j: "j = i" using x by simp
  obtain w' where "wk_recv_copy (cl_wk s i) (lk_sv (cl_down s i)) = Inr w'" "t = set_wk i w' s"
    using w Wrecv j by (auto simp: result_elims)
  then show ?thesis
    using e Wrecv j by (intro exI[of _ "set_wk i w' s'"]) (simp add: lane_eq_def set_defs)
qed (use w x e in auto)

text \<open>The guards are where they were.\<close>

lemma work_counters:
  assumes "work F rnd y s = Inr t"
  shows "tested x t = tested x s" and "recved_iter (cl_ps t) = recved_iter (cl_ps s)"
    and "ps_completed_iter (cl_ps t) = ps_completed_iter (cl_ps s)" and "ps_iter_t (cl_ps t) = ps_iter_t (cl_ps s)"
proof -
  have send: "to_send_iter st = to_send_iter (cl_ps s) \<and> recved_iter st = recved_iter (cl_ps s) \<and>
      ps_completed_iter st = ps_completed_iter (cl_ps s) \<and> ps_iter_t st = ps_iter_t (cl_ps s) \<and>
      worker_num st = worker_num (cl_ps s) \<and> cc_buf_registered c = cc_buf_registered c0"
    if "ps_send_fill i (cl_ps s) c0 = Inr (st, c)" for i st c c0
    using that by (auto simp: ps_send_fill_def result_elims Let_def)
  have recv: "to_send_iter st = to_send_iter (cl_ps s) \<and> recved_iter st = recved_iter (cl_ps s) \<and>
      ps_completed_iter st = ps_completed_iter (cl_ps s) \<and> ps_iter_t st = ps_iter_t (cl_ps s) \<and>
      worker_num st = worker_num (cl_ps s) \<and> sc_buf_registered c = sc_buf_registered c0 \<and>
      buf_recv_counter c = buf_recv_counter c0"
    if "ps_recv_copy (cl_ps s) c0 = Inr (st, c)" for st c c0
    using that by (auto simp: ps_recv_copy_unfold result_elims Let_def)
  have wk: "wk_iter_t w = wk_iter_t w0 \<and> recved_age w = recved_age w0 \<and> to_send_age w = to_send_age w0 \<and>
      wk_completed_iter w = wk_completed_iter w0"
    if "wk_compute F r w0 = Inr w \<or> wk_recv_copy w0 c0 = Inr w" for r w w0 c0
    using that by (auto simp: wk_compute_def wk_recv_copy_def result_elims Let_def split_beta)
  have fill: "cc_buf_registered c = cc_buf_registered c0" if "wk_send_fill w0 c0 = Inr c" for w0 c c0
    using that by (auto simp: wk_send_fill_def result_elims)
  have "tested x t = tested x s \<and> recved_iter (cl_ps t) = recved_iter (cl_ps s) \<and>
      ps_completed_iter (cl_ps t) = ps_completed_iter (cl_ps s) \<and> ps_iter_t (cl_ps t) = ps_iter_t (cl_ps s)"
  proof (cases y)
    case (Send i)
    then show ?thesis
      using assms by (cases x) (auto simp: result_elims set_defs dest!: send split: if_splits)
  next
    case (Recv i)
    then show ?thesis
      using assms by (cases x) (auto simp: result_elims set_defs dest!: recv split: if_splits)
  next
    case (Compute i)
    then obtain w where "wk_compute F (rnd i) (cl_wk s i) = Inr w" "t = set_wk i w s"
      using assms by (auto simp: result_elims)
    then show ?thesis using wk[OF disjI1] by (cases x) (auto simp: set_defs)
  next
    case (Wsend i)
    then show ?thesis
      using assms by (cases x) (auto simp: result_elims set_defs dest!: fill split: if_splits)
  next
    case (Wrecv i)
    then obtain w where "wk_recv_copy (cl_wk s i) (lk_sv (cl_down s i)) = Inr w" "t = set_wk i w s"
      using assms by (auto simp: result_elims)
    then show ?thesis using wk[OF disjI2] by (cases x) (auto simp: set_defs)
  qed (use assms in auto)
  then show "tested x t = tested x s" "recved_iter (cl_ps t) = recved_iter (cl_ps s)"
    "ps_completed_iter (cl_ps t) = ps_completed_iter (cl_ps s)" "ps_iter_t (cl_ps t) = ps_iter_t (cl_ps s)"
    by blast+
qed

lemma tested_lane:
  "lane_of x = Some i \<Longrightarrow> lane_eq Ls i s t \<Longrightarrow> core_eq s t \<Longrightarrow> tested x s = tested x t"
  by (cases x) (auto simp: lane_eq_def core_eq_def)

lemma tested_main:
  assumes "core_eq s t" and "\<And>i. i < lanes t \<Longrightarrow> recved_iter (cl_ps s) i = recved_iter (cl_ps t) i"
  shows "tested Main s = tested Main t"
  using assms by (simp add: CanMerge_iff core_eq_def lanes_def)

lemma tested_ready: "tested x s \<Longrightarrow> ready x s"
  by (cases x) (simp_all add: CanMerge_iff lanes_def CanSend_def CanCompute_def wk_CanSend_def split: if_splits)

lemma here_core: "core_eq s t \<Longrightarrow> here x s = here x t"
  using core_lanes[of s t] by (simp add: here_def core_eq_def)

end
