(* ===== verification/Midway.thy ===== *)
theory Midway
  imports Lane_Work
begin

text \<open>
  States of the system with work under way. A thread that has found its guard true and has not yet
  told so is the only one that touches the blocks and the buffer of its lane; its pass is made when it
  stores what tells the others.
\<close>

section \<open>The counter of a thread\<close>

text \<open>Every thread has a counter of its passes, which its work leaves alone.\<close>

fun done_by :: "agent \<Rightarrow> 'w cluster \<Rightarrow> int" where
  "done_by Main s = ps_iter_t (cl_ps s)"
| "done_by (Send i) s = to_send_iter (cl_ps s) i"
| "done_by (Recv i) s = recved_iter (cl_ps s) i"
| "done_by (Compute i) s = wk_iter_t (cl_wk s i)"
| "done_by (Wsend i) s = to_send_age (cl_wk s i)"
| "done_by (Wrecv i) s = recved_age (cl_wk s i)"
| "done_by _ s = 0"

lemma work_done_by: "work F rnd x s = Inr t \<Longrightarrow> done_by x t = done_by x s"
  by (cases x) (auto simp: set_defs result_elims ps_send_fill_def ps_recv_copy_unfold wk_compute_def wk_recv_copy_def
      Let_def split_beta)

lemma pass_done_by: "application x \<Longrightarrow> done_by x (finish x (publish x s)) = done_by x s + 1"
  by (cases x) (simp_all add: set_defs)

lemma pass_moves: "work F rnd x s = Inr t \<Longrightarrow> application x \<Longrightarrow> finish x (publish x t) \<noteq> s"
  using work_done_by[of F rnd x s t] pass_done_by[of x t] by auto

section \<open>Work under way\<close>

text \<open>
  The state \<open>d\<close> is the state \<open>a\<close> of the system with the work done that is under way; only threads
  that have found their guard true are working.
\<close>

definition lane_mid ::
    "fp \<Rightarrow> (nat \<Rightarrow> nat \<Rightarrow> int) \<Rightarrow> (agent \<Rightarrow> phase) \<Rightarrow> nat \<Rightarrow> 'w cluster \<Rightarrow> 'w cluster \<Rightarrow> bool" where
  "lane_mid F rnd pc i a b \<longleftrightarrow>
     (\<forall>x. lane_of x = Some i \<and> pc x = Worked \<longrightarrow> work F rnd x a = Inr b) \<and>
     ((\<forall>x. lane_of x = Some i \<longrightarrow> pc x \<noteq> Worked) \<longrightarrow> b = a)"

definition busy :: "(agent \<Rightarrow> phase) \<Rightarrow> agent \<Rightarrow> bool" where
  "busy pc x \<longleftrightarrow> pc x = Tested \<or> pc x = Worked"

definition carried ::
    "fp \<Rightarrow> (nat \<Rightarrow> lane_spec) \<Rightarrow> (nat \<Rightarrow> nat \<Rightarrow> int) \<Rightarrow> (agent \<Rightarrow> phase) \<Rightarrow> 'w cluster \<Rightarrow> 'w cluster \<Rightarrow> bool"
where
  "carried F Ls rnd pc d a \<longleftrightarrow> rest_eq Ls (lanes a) d a \<and>
     (\<forall>x. busy pc x \<longrightarrow> here x a \<and> tested x a) \<and>
     (\<forall>i<lanes a. \<exists>b. lane_eq Ls i d b \<and> lane_mid F rnd pc i a b)"

lemma system_fit:
  assumes S: "system_inv pw pm F Ls a" and i: "i < lanes a"
  shows "lane_fit Ls i a" and "x \<noteq> Recv i \<or> tested x a \<Longrightarrow> work_fit Ls x i a"
proof -
  show f: "lane_fit Ls i a" using lane_facts(1,6-9)[OF S i] by (simp add: lane_fit_def)
  have "message_fit i a" if ti: "tested (Recv i) a"
  proof -
    obtain msg where "read_blocks (sc_buffer (lk_sv (cl_up a i))) = Inr msg" "lane_message i (cl_ps a) msg"
      "ps_recv_ready i (cl_ps a) (lk_sv (cl_up a i))"
      using system_message[OF S i tested_ready[OF ti]] by blast
    then show ?thesis by (auto simp: message_fit_def ps_recv_ready_def)
  qed
  then show "x \<noteq> Recv i \<or> tested x a \<Longrightarrow> work_fit Ls x i a" using f by (auto simp: work_fit_def)
qed

lemma mid_update:
  assumes "lane_of x \<noteq> Some i \<or> q \<noteq> Worked \<and> pc x \<noteq> Worked"
  shows "lane_mid F rnd (pc(x := q)) i a b = lane_mid F rnd pc i a b"
proof -
  have "(lane_of y = Some i \<and> (pc(x := q)) y = Worked) = (lane_of y = Some i \<and> pc y = Worked)"
    "(lane_of y = Some i \<longrightarrow> (pc(x := q)) y \<noteq> Worked) = (lane_of y = Some i \<longrightarrow> pc y \<noteq> Worked)" for y
    using assms by auto
  then show ?thesis by (simp only: lane_mid_def)
qed

text \<open>In a lane one thread at most is busy, and none while the main thread of the server is.\<close>

lemma one_busy:
  assumes S: "system_inv pw pm F Ls a" and C: "carried F Ls rnd pc d a"
    and x: "busy pc x" "lane_of x = Some i" and y: "busy pc y" "lane_of y = Some i \<or> lane_of y = None"
  shows "x = y"
proof -
  have h: "here x a" "tested x a" "here y a" "tested y a" using C x(1) y(1) by (auto simp: carried_def)
  have I: "cluster_inv pw pm a" using S by (simp add: system_inv_def)
  have i: "i < lanes a" using h(1) x(2) by (simp add: here_def)
  have l: "in_lane i z" if "lane_of z = Some i \<or> lane_of z = None" for z using that by (cases z) auto
  show ?thesis
    using one_ready[OF I i _ l tested_ready[OF h(2)] _ l tested_ready[OF h(4)]] h x(2) y(2)
    by (simp add: here_def)
qed

lemma mid_same:
  assumes S: "system_inv pw pm F Ls a" and C: "carried F Ls rnd pc d a" and i: "i < lanes a"
    and m: "lane_mid F rnd pc i a b"
  shows "outside Ls (lanes a) i b a" "tested x b = tested x a" "recved_iter (cl_ps b) = recved_iter (cl_ps a)"
proof -
  have sp: "specs_ok Ls (lanes a)" using S by (simp add: system_inv_def)
  have "outside Ls (lanes a) i b a \<and> tested x b = tested x a \<and> recved_iter (cl_ps b) = recved_iter (cl_ps a)"
  proof (cases "\<forall>y. lane_of y = Some i \<longrightarrow> pc y \<noteq> Worked")
    case True
    then show ?thesis using m by (simp add: lane_mid_def)
  next
    case False
    then obtain y where y: "lane_of y = Some i" "pc y = Worked" by blast
    then have w: "work F rnd y a = Inr b" using m by (simp add: lane_mid_def)
    have "tested y a" using C y(2) by (auto simp: carried_def busy_def)
    then have "work_fit Ls y i a" using system_fit(2)[OF S i] by blast
    from work_outside[OF w y(1) i sp this] work_counters[OF w] show ?thesis by blast
  qed
  then show "outside Ls (lanes a) i b a" "tested x b = tested x a" "recved_iter (cl_ps b) = recved_iter (cl_ps a)"
    by blast+
qed

text \<open>A guard is true in the one state if it is in the other.\<close>

lemma carried_tested:
  assumes S: "system_inv pw pm F Ls a" and C: "carried F Ls rnd pc d a" and x: "here x d"
  shows "tested x d = tested x a"
proof -
  have core: "core_eq d a" using C by (auto simp: carried_def rest_eq_def)
  have lane: "\<exists>b. lane_eq Ls i d b \<and> core_eq d b \<and> tested x b = tested x a \<and>
      recved_iter (cl_ps b) = recved_iter (cl_ps a)" if i: "i < lanes a" for i
  proof -
    obtain b where b: "lane_eq Ls i d b" "lane_mid F rnd pc i a b" using C i by (auto simp: carried_def)
    note m = mid_same[OF S C i b(2)]
    have "core_eq d b" using m(1) core by (simp add: outside_def rest_eq_def core_eq_def)
    then show ?thesis using b(1) m(2,3) by blast
  qed
  show ?thesis
  proof (cases "lane_of x")
    case None
    then have "x = Main" using x by (cases x) (auto simp: here_def)
    moreover have "recved_iter (cl_ps d) i = recved_iter (cl_ps a) i" if "i < lanes a" for i
      using lane[OF that] by (auto simp: lane_eq_def)
    ultimately show ?thesis using tested_main[OF core] by blast
  next
    case (Some i)
    then have "i < lanes a" using x core_lanes[OF core] by (simp add: here_def)
    from lane[OF this] show ?thesis using tested_lane[OF Some] by blast
  qed
qed

section \<open>Steps with work under way\<close>

lemma carried_test:
  assumes S: "system_inv pw pm F Ls a" and C: "carried F Ls rnd pc d a"
    and x: "here x d" "tested x d" "pc x \<noteq> Worked"
  shows "carried F Ls rnd (pc(x := Tested)) d a"
proof -
  have "tested x a" using carried_tested[OF S C x(1)] x(2) by simp
  moreover have "here x a" using C x(1) here_core[of d a x] by (simp add: carried_def rest_eq_def)
  moreover have "lane_mid F rnd (pc(x := Tested)) i a b = lane_mid F rnd pc i a b" for i b
    using x(3) by (simp add: mid_update)
  ultimately show ?thesis using C by (simp add: carried_def busy_def)
qed

lemma carried_work:
  assumes S: "system_inv pw pm F Ls a" and C: "carried F Ls rnd pc d a"
    and x: "pc x = Tested" "work F rnd x d = Inr d'"
  shows "carried F Ls rnd (pc(x := Worked)) d' a"
proof (cases "lane_of x")
  case None
  have "here x a" using C x(1) by (auto simp: carried_def busy_def)
  then have "d' = d" using x(2) None by (cases x) (auto simp: here_def)
  moreover have "lane_mid F rnd (pc(x := Worked)) i a b = lane_mid F rnd pc i a b" for i b
    using None by (simp add: mid_update)
  ultimately show ?thesis using C x(1) by (simp add: carried_def busy_def)
next
  case (Some i)
  have h: "here x a" "tested x a" using C x(1) by (auto simp: carried_def busy_def)
  then have i: "i < lanes a" using Some by (simp add: here_def)
  have sp: "specs_ok Ls (lanes a)" using S by (simp add: system_inv_def)
  have alone: "pc y \<noteq> Worked" if "lane_of y = Some i" for y
    using one_busy[OF S C _ Some, of y] that x(1) by (auto simp: busy_def)
  have r: "rest_eq Ls (lanes a) d a" using C by (simp add: carried_def)
  then have core: "core_eq a d" "core_eq d a" using eq_sym(2) rest_core by blast+
  obtain b0 where "lane_eq Ls i d b0" "lane_mid F rnd pc i a b0" using C i by (auto simp: carried_def)
  then have e: "lane_eq Ls i d a" using alone by (auto simp: lane_mid_def)
  have fa: "work_fit Ls x i a" using system_fit(2)[OF S i] h(2) by blast
  then have fd: "work_fit Ls x i d" using work_fit_eq eq_sym(1)[OF e] core(1) by blast
  from work_again[OF x(2) Some fd e core(2)] obtain b where b: "work F rnd x a = Inr b" "lane_eq Ls i d' b" by blast
  note o = work_outside[OF x(2) Some i sp fd]
  have "\<exists>b. lane_eq Ls j d' b \<and> lane_mid F rnd (pc(x := Worked)) j a b" if j: "j < lanes a" for j
  proof (cases "j = i")
    case True
    then show ?thesis using b alone Some by (intro exI[of _ b]) (auto simp: lane_mid_def)
  next
    case False
    obtain c where c: "lane_eq Ls j d c" "lane_mid F rnd pc j a c" using C j by (auto simp: carried_def)
    have "lane_eq Ls j d' c" using o j False c(1) eq_trans(1) unfolding outside_def by blast
    moreover have "lane_mid F rnd (pc(x := Worked)) j a c" using c(2) Some False by (simp add: mid_update)
    ultimately show ?thesis by blast
  qed
  moreover have "rest_eq Ls (lanes a) d' a" using o r eq_trans(2) unfolding outside_def by blast
  ultimately show ?thesis using C x(1) by (auto simp: carried_def busy_def)
qed

text \<open>A change of one lane, made to both states.\<close>

lemma carried_lane:
  assumes S: "system_inv pw pm F Ls a" and C: "carried F Ls rnd pc d a"
    and o: "outside Ls (lanes a) i d' d" "outside Ls (lanes a) i a' a"
    and same: "\<And>y. lane_of y \<noteq> None \<Longrightarrow> lane_of y \<noteq> Some i \<Longrightarrow> pc' y = pc y"
    and lane: "lane_eq Ls i d' b'" "lane_mid F rnd pc' i a' b'"
    and busy: "\<And>y. lane_of y = Some i \<or> lane_of y = None \<Longrightarrow> busy pc' y \<Longrightarrow> here y a' \<and> tested y a'"
  shows "carried F Ls rnd pc' d' a'"
proof -
  have r: "rest_eq Ls (lanes a) d a" using C by (simp add: carried_def)
  have core: "core_eq a a'" "core_eq a' a" using o(2) eq_sym(2) rest_core unfolding outside_def by blast+
  then have ln: "lanes a' = lanes a" using core_lanes by blast
  have "rest_eq Ls (lanes a) d' a'" using o r eq_trans(2) eq_sym(2) unfolding outside_def by blast
  moreover have "here y a' \<and> tested y a'" if y: "busy pc' y" for y
  proof (cases "lane_of y = Some i \<or> lane_of y = None")
    case True
    then show ?thesis using busy y by blast
  next
    case False
    then obtain j where j: "lane_of y = Some j" "j \<noteq> i" by auto
    have "busy pc y" using y same[of y] False by (simp add: busy_def)
    then have h: "here y a" "tested y a" using C by (auto simp: carried_def)
    then have "j < lanes a" using j by (simp add: here_def)
    then have "lane_eq Ls j a' a" using o(2) j by (simp add: outside_def)
    then show ?thesis using h tested_lane[OF j(1) _ core(2)] here_core[OF core(2)] by blast
  qed
  moreover have "\<exists>b. lane_eq Ls j d' b \<and> lane_mid F rnd pc' j a' b" if j: "j < lanes a" for j
  proof (cases "j = i")
    case True
    then show ?thesis using lane by blast
  next
    case False
    obtain c where c: "lane_eq Ls j d c" "lane_mid F rnd pc j a c" using C j by (auto simp: carried_def)
    have e: "lane_eq Ls j a a'" "lane_eq Ls j d' d" using o j False eq_sym(1) unfolding outside_def by blast+
    have pcs: "pc' y = pc y" if "lane_of y = Some j" for y using same[of y] that False by simp
    show ?thesis
    proof (cases "\<forall>y. lane_of y = Some j \<longrightarrow> pc y \<noteq> Worked")
      case True
      then have "c = a" using c(2) by (simp add: lane_mid_def)
      then have "lane_eq Ls j d' a'" using e c(1) eq_trans(1) by blast
      moreover have "lane_mid F rnd pc' j a' a'" using True pcs by (auto simp: lane_mid_def)
      ultimately show ?thesis by blast
    next
      case no: False
      then obtain y where y: "lane_of y = Some j" "pc y = Worked" by blast
      then have w: "work F rnd y a = Inr c" using c(2) by (simp add: lane_mid_def)
      have ty: "tested y a" using C y(2) by (auto simp: carried_def busy_def)
      have "work_fit Ls y j a" using system_fit(2)[OF S j] ty by blast
      from work_again[OF w y(1) this e(1) core(1)] obtain c' where
        c': "work F rnd y a' = Inr c'" "lane_eq Ls j c c'" by blast
      have "work F rnd z a' = Inr c'" if z: "lane_of z = Some j" "pc' z = Worked" for z
      proof -
        have "pc z = Worked" using z pcs[OF z(1)] by simp
        then have "z = y" using one_busy[OF S C _ z(1), of y] y by (simp add: busy_def)
        then show ?thesis using c'(1) by simp
      qed
      moreover have "pc' y = Worked" using pcs[OF y(1)] y(2) by simp
      ultimately have "lane_mid F rnd pc' j a' c'" using y(1) unfolding lane_mid_def by blast
      moreover have "lane_eq Ls j d' c'" using e(2) c(1) c'(2) eq_trans(1) by blast
      ultimately show ?thesis by blast
    qed
  qed
  ultimately show ?thesis unfolding carried_def ln by blast
qed

lemma carried_done:
  assumes C: "carried F Ls rnd pc d a" and w: "\<And>y i. lane_of y = Some i \<Longrightarrow> pc y \<noteq> Worked"
  shows "d = a"
proof (rule eq_from_lanes)
  show "rest_eq Ls (lanes a) d a" using C by (simp add: carried_def)
  show "lane_eq Ls i d a" if i: "i < lanes a" for i
  proof -
    obtain b where "lane_eq Ls i d b" "lane_mid F rnd pc i a b" using C i by (auto simp: carried_def)
    then show ?thesis using w by (simp add: lane_mid_def)
  qed
qed

lemma carried_rest: "(\<And>y. \<not> busy pc y) \<Longrightarrow> carried F Ls rnd pc a a"
  by (auto simp: carried_def lane_mid_def busy_def intro!: exI[of _ a])

text \<open>While the main thread of the server is busy nobody else is.\<close>

lemma main_alone:
  assumes S: "system_inv pw pm F Ls a" and C: "carried F Ls rnd pc d a" and m: "busy pc Main" and y: "busy pc y"
  shows "y = Main"
proof (cases "lane_of y")
  case None
  then show ?thesis using C y by (cases y) (auto simp: carried_def here_def)
next
  case (Some j)
  then show ?thesis using one_busy[OF S C y Some m] by simp
qed

lemma main_done:
  assumes S: "system_inv pw pm F Ls a" and C: "carried F Ls rnd pc d a" and m: "busy pc Main"
  shows "d = a"
proof (rule carried_done[OF C])
  show "pc y \<noteq> Worked" if "lane_of y = Some i" for y i
    using main_alone[OF S C m, of y] that by (auto simp: busy_def)
qed

text \<open>With the store that tells the others, the pass is made in the system.\<close>

lemma carried_commit:
  assumes S: "system_inv pw pm F Ls a" and C: "carried F Ls rnd pc d a"
    and x: "pc x = Worked" "x = Main \<longrightarrow> ps_iter_t (cl_ps a) \<noteq> 1199"
  shows "\<exists>a'. agent_step Fb F rnd x a a' \<and> a' \<noteq> a \<and>
     carried F Ls rnd (pc(x := Published)) (finish x (publish x d)) a'"
proof -
  have bx: "busy pc x" using x(1) by (simp add: busy_def)
  then have h: "here x a" "tested x a" using C by (auto simp: carried_def)
  show ?thesis
  proof (cases "lane_of x")
    case None
    then have X: "x = Main" using h(1) by (cases x) (auto simp: here_def)
    note only = main_alone[OF S C bx[unfolded X]]
    have "d = a" using main_done[OF S C bx[unfolded X]] .
    moreover have "\<not> busy (pc(Main := Published)) y" for y using only[of y] by (auto simp: busy_def)
    moreover have "agent_step Fb F rnd x a (finish x (publish x a))"
      using parts_make_pass[OF h, of F rnd a] x(2) X by simp
    moreover have "finish x (publish x a) \<noteq> a" using pass_moves[of F rnd x a a] X by simp
    ultimately show ?thesis using carried_rest[of "pc(Main := Published)"] X by blast
  next
    case (Some i)
    then have i: "i < lanes a" using h(1) by (simp add: here_def)
    have sp: "specs_ok Ls (lanes a)" using S by (simp add: system_inv_def)
    obtain b where b: "lane_eq Ls i d b" "lane_mid F rnd pc i a b" using C i by (auto simp: carried_def)
    then have w: "work F rnd x a = Inr b" using Some x(1) by (simp add: lane_mid_def)
    have only: "y = x" if "lane_of y = Some i \<or> lane_of y = None" "busy pc y" for y
      using one_busy[OF S C bx Some that(2,1)] by simp
    let ?d = "finish x (publish x d)" and ?a = "finish x (publish x b)"
    have "?a \<noteq> a" using pass_moves[OF w] h(1) by (simp add: here_def)
    moreover have "agent_step Fb F rnd x a ?a" using Some by (intro parts_make_pass[OF h w]) auto
    moreover have "carried F Ls rnd (pc(x := Published)) ?d ?a"
    proof (rule carried_lane[OF S C])
      show "outside Ls (lanes a) i ?d d"
        using outside_publish[OF Some i] eq_trans(3) by blast
      have "outside Ls (lanes a) i b a" using mid_same(1)[OF S C i b(2)] .
      then show "outside Ls (lanes a) i ?a a" using outside_publish[OF Some i] eq_trans(3) by blast
      show "lane_eq Ls i ?d ?a" using lane_publish[OF Some] b(1) by blast
      show "lane_mid F rnd (pc(x := Published)) i ?a ?a"
        using only by (auto simp: lane_mid_def busy_def)
      show "(pc(x := Published)) y = pc y" if "lane_of y \<noteq> Some i" for y using that Some by auto
      show "here y ?a \<and> tested y ?a" if "lane_of y = Some i \<or> lane_of y = None" "busy (pc(x := Published)) y" for y
        using only[OF that(1)] that(2) by (auto simp: busy_def split: if_splits)
    qed
    ultimately show ?thesis by blast
  qed
qed

end
