(* ===== verification/Reduction.thy ===== *)
theory Reduction
  imports Midway Completion
begin

text \<open>
  Passes can be taken as single steps: every interleaving of the statements of the application
  threads, the transport threads and the network leads to a state of the system of \<open>Cluster\<close>, up to
  the work and the last stores that are under way.
\<close>

section \<open>A link whose buffer is being worked on\<close>

text \<open>A link with a buffer that has been filled moves as it does before the buffer is filled.\<close>

lemma refilled_link:
  assumes F: "rc_fabric Fb pw pm" and I: "link_inv pw pm l"
    and q: "pw (lk_net l) = []" "can_send (lk_cl l) \<longrightarrow> lk_cpc l = CPosted"
    and st: "link_step Fb (l\<lparr>lk_cl := (lk_cl l)\<lparr>cc_buffer := m, cc_buf_len := k, cc_buf_prepared := p\<rparr>\<rparr>) l'"
  obtains c where "link_step Fb l (l'\<lparr>lk_cl := c\<rparr>)" "cc_buffer c = cc_buffer (lk_cl l)"
    "cc_buf_ptr c = cc_buf_ptr (lk_cl l)" "cc_buf_prepared c = cc_buf_prepared (lk_cl l)"
    "lk_cl l' = c\<lparr>cc_buffer := m, cc_buf_len := k, cc_buf_prepared := p\<rparr>"
proof
  let ?c = "lk_cl l"
  let ?l = "l\<lparr>lk_cl := ?c\<lparr>cc_buffer := m, cc_buf_len := k, cc_buf_prepared := p\<rparr>\<rparr>"
  let ?g = "\<lambda>c :: client_context. c\<lparr>cc_buffer := cc_buffer ?c, cc_buf_len := cc_buf_len ?c,
    cc_buf_prepared := cc_buf_prepared ?c\<rparr>"
  have J: "link_inv pw pm ?l" using I by (simp add: link_inv_defs)
  have undo: "?l\<lparr>lk_cl := ?g (lk_cl ?l)\<rparr> = l" by simp
  have "link_step Fb (?l\<lparr>lk_cl := ?g (lk_cl ?l)\<rparr>) (l'\<lparr>lk_cl := ?g (lk_cl l')\<rparr>)"
    using q by (intro fill_link_commute[OF F J st fillsI(3)]) simp_all
  then show "link_step Fb l (l'\<lparr>lk_cl := ?g (lk_cl l')\<rparr>)" unfolding undo .
  have e: "cc_buffer (lk_cl l') = m \<and> cc_buf_len (lk_cl l') = k \<and> cc_buf_prepared (lk_cl l') = p \<and>
      cc_buf_ptr (lk_cl l') = cc_buf_ptr ?c"
    using still_client[OF F J st] q(2) by simp
  then show "cc_buf_ptr (?g (lk_cl l')) = cc_buf_ptr ?c" by simp
  show "lk_cl l' = (?g (lk_cl l'))\<lparr>cc_buffer := m, cc_buf_len := k, cc_buf_prepared := p\<rparr>"
    using e by simp
qed simp_all

text \<open>So does one whose received message has been read.\<close>

lemma still_server:
  assumes "link_step Fb l l'"
  shows "sc_buf_prepared (lk_sv l') = sc_buf_prepared (lk_sv l)"
  using assms
  by (cases rule: link_step.cases)
    (auto simp: server_on_completion_enter_def server_on_completion_reply_def Let_def result_elims set_msg_id_def
      split: if_splits)

lemma cleared_link:
  assumes st: "link_step Fb (l\<lparr>lk_sv := (lk_sv l)\<lparr>sc_buf_prepared := p\<rparr>\<rparr>) l'"
  obtains c where "link_step Fb l (l'\<lparr>lk_sv := c\<rparr>)" "lk_sv l' = c\<lparr>sc_buf_prepared := p\<rparr>"
proof
  let ?l = "l\<lparr>lk_sv := (lk_sv l)\<lparr>sc_buf_prepared := p\<rparr>\<rparr>"
  let ?g = "\<lambda>c :: conn_context. c\<lparr>sc_buf_prepared := sc_buf_prepared (lk_sv l)\<rparr>"
  have undo: "?l\<lparr>lk_sv := ?g (lk_sv ?l)\<rparr> = l" by simp
  have "link_step Fb (?l\<lparr>lk_sv := ?g (lk_sv ?l)\<rparr>) (l'\<lparr>lk_sv := ?g (lk_sv l')\<rparr>)"
    by (rule mark_link[OF marksI(3) st])
  then show "link_step Fb l (l'\<lparr>lk_sv := ?g (lk_sv l')\<rparr>)" unfolding undo .
  show "lk_sv l' = (?g (lk_sv l'))\<lparr>sc_buf_prepared := p\<rparr>" using still_server[OF st] by simp
qed

text \<open>Registered buffers stay registered.\<close>

lemma link_registered:
  assumes R: "rc_fabric Fb pw pm" and st: "link_step Fb l l'" and I: "link_inv pw pm l"
  shows "cc_buf_registered (lk_cl l') = cc_buf_registered (lk_cl l)"
    and "sc_buf_registered (lk_sv l') = sc_buf_registered (lk_sv l)"
proof -
  have "cc_buf_registered (lk_cl l') = cc_buf_registered (lk_cl l) \<and>
      sc_buf_registered (lk_sv l') = sc_buf_registered (lk_sv l)"
    using st
  proof (cases rule: link_step.cases)
    case (msg_arrives wr n1 nx cl' n2)
    then show ?thesis using client_enter_effect[OF msg_arrives(4)] I by (auto simp: link_inv_def)
  next
    case (write_posted cl' n')
    then show ?thesis using client_send_effect[OF R write_posted(4)] by auto
  next
    case (write_counted cl' n')
    then show ?thesis using client_finish_effect[OF R write_counted(3)] by simp
  next
    case (write_received wc wcs nx sv' n')
    then show ?thesis
      by (auto simp: server_on_completion_enter_def Let_def result_elims set_msg_id_def split: if_splits)
  next
    case (ready_sent z sv' n')
    then show ?thesis using server_reply_effect[OF R ready_sent(4)] by simp
  qed (simp_all add: client_on_completion_clear_def)
  then show "cc_buf_registered (lk_cl l') = cc_buf_registered (lk_cl l)"
    "sc_buf_registered (lk_sv l') = sc_buf_registered (lk_sv l)" by blast+
qed

text \<open>A step of a link of lane \<open>i\<close>, from before the work of a thread of the lane.\<close>

lemma down_mid:
  assumes R: "rc_fabric Fb pw pm" and S: "system_inv pw pm F Ls a" and i: "i < lanes a"
    and y: "lane_of y = Some i" "tested y a" "work F rnd y a = Inr b"
    and st: "link_step Fb (cl_down b i) l'"
  shows "\<exists>m. link_step Fb (cl_down a i) m \<and> work F rnd y (set_down i m a) = Inr (set_down i l' b)"
proof -
  have I: "cluster_inv pw pm a" using S by (simp add: system_inv_def)
  have L: "link_inv pw pm (cl_down a i)" using cluster_inv_lane[OF I i] by (simp add: lane_inv_def)
  have rd: "ready y a" using tested_ready[OF y(2)] .
  show ?thesis
  proof (cases y)
    case (Send j)
    then have j: "j = i" using y(1) by simp
    let ?l = "cl_down a i"
    have f: "lane_fit Ls i a" using system_fit(1)[OF S i] .
    obtain s1 c1 where p: "ps_send_fill i (cl_ps a) (lk_cl ?l) = Inr (s1, c1)"
      and b: "b = set_down i (?l\<lparr>lk_cl := c1\<rparr>) (a\<lparr>cl_ps := s1\<rparr>)"
      using y(3) Send j by (auto simp: result_elims)
    obtain m k where z: "cc_buf_ptr (lk_cl ?l) \<noteq> 0" "pack_blocks (ps_heap (cl_ps a)) (Pblocks (ps_stamp i (cl_ps a)) i)
        (Qblocks (ps_stamp i (cl_ps a)) i) (cc_buffer (lk_cl ?l)) = Inr (m, k)"
      and s1: "s1 = ps_stamp i (cl_ps a)"
      and c1: "c1 = (lk_cl ?l)\<lparr>cc_buffer := m, cc_buf_len := k, cc_buf_prepared := True\<rparr>"
      using p send_fill_fit[OF f] by blast
    have q: "pw (lk_net ?l) = []" "can_send (lk_cl ?l) \<longrightarrow> lk_cpc ?l = CPosted"
      using ready_settled(1)[OF I i] rd Send j by blast+
    have "link_step Fb (?l\<lparr>lk_cl := (lk_cl ?l)\<lparr>cc_buffer := m, cc_buf_len := k, cc_buf_prepared := True\<rparr>\<rparr>) l'"
      using st by (simp add: b c1 set_defs)
    from refilled_link[OF R L q this] obtain c where c: "link_step Fb ?l (l'\<lparr>lk_cl := c\<rparr>)"
      "cc_buffer c = cc_buffer (lk_cl ?l)" "cc_buf_ptr c = cc_buf_ptr (lk_cl ?l)"
      "lk_cl l' = c\<lparr>cc_buffer := m, cc_buf_len := k, cc_buf_prepared := True\<rparr>" by blast
    have "ps_send_fill i (cl_ps a) c = Inr (s1, lk_cl l')"
      using z c(2,3) unfolding send_fill_fit[OF f] c(4) s1 by simp
    then have "work F rnd y (set_down i (l'\<lparr>lk_cl := c\<rparr>) a) = Inr (set_down i l' b)"
      using Send j by (simp add: b set_defs cluster_order)
    with c(1) show ?thesis by blast
  next
    case (Recv j)
    then have j: "j = i" using y(1) by simp
    obtain s1 c1 where "ps_recv_copy (cl_ps a) (lk_sv (cl_up a i)) = Inr (s1, c1)"
      "b = set_up i ((cl_up a i)\<lparr>lk_sv := c1\<rparr>) (a\<lparr>cl_ps := s1\<rparr>)"
      using y(3) Recv j by (auto simp: result_elims)
    then show ?thesis
      using st Recv j by (intro exI[of _ l']) (simp add: set_defs cluster_order)
  next
    case (Compute j)
    then have j: "j = i" using y(1) by simp
    obtain w where "wk_compute F (rnd i) (cl_wk a i) = Inr w" "b = set_wk i w a"
      using y(3) Compute j by (auto simp: result_elims)
    then show ?thesis
      using st Compute j by (intro exI[of _ l']) (simp add: set_defs cluster_order)
  next
    case (Wsend j)
    then have j: "j = i" using y(1) by simp
    obtain c1 where "wk_send_fill (cl_wk a i) (lk_cl (cl_up a i)) = Inr c1"
      "b = set_up i ((cl_up a i)\<lparr>lk_cl := c1\<rparr>) a"
      using y(3) Wsend j by (auto simp: result_elims)
    then show ?thesis
      using st Wsend j by (intro exI[of _ l']) (simp add: set_defs cluster_order)
  next
    case (Wrecv j)
    then have j: "j = i" using y(1) by simp
    obtain w where w: "wk_recv_copy (cl_wk a i) (lk_sv (cl_down a i)) = Inr w" and b: "b = set_wk i w a"
      using y(3) Wrecv j by (auto simp: result_elims)
    have t: "link_step Fb (cl_down a i) l'" using st by (simp add: b set_defs)
    have q: "pw (lk_net (cl_down a i)) = []" "lk_wcs (cl_down a i) = []"
      using ready_settled(1)[OF I i] rd Wrecv j by blast+
    have "wk_recv_copy (cl_wk a i) (lk_sv l') = Inr w"
      using w quiet_link[OF R t q] by (simp add: wk_recv_copy_def Let_def)
    then show ?thesis
      using t Wrecv j by (intro exI[of _ l']) (simp add: b set_defs cluster_order)
  qed (use y in auto)
qed

lemma up_mid:
  assumes R: "rc_fabric Fb pw pm" and S: "system_inv pw pm F Ls a" and i: "i < lanes a"
    and y: "lane_of y = Some i" "tested y a" "work F rnd y a = Inr b"
    and st: "link_step Fb (cl_up b i) l'"
  shows "\<exists>m. link_step Fb (cl_up a i) m \<and> work F rnd y (set_up i m a) = Inr (set_up i l' b)"
proof -
  have I: "cluster_inv pw pm a" using S by (simp add: system_inv_def)
  have L: "link_inv pw pm (cl_up a i)" using cluster_inv_lane[OF I i] by (simp add: lane_inv_def)
  have rd: "ready y a" using tested_ready[OF y(2)] .
  show ?thesis
  proof (cases y)
    case (Send j)
    then have j: "j = i" using y(1) by simp
    obtain s1 c1 where "ps_send_fill i (cl_ps a) (lk_cl (cl_down a i)) = Inr (s1, c1)"
      "b = set_down i ((cl_down a i)\<lparr>lk_cl := c1\<rparr>) (a\<lparr>cl_ps := s1\<rparr>)"
      using y(3) Send j by (auto simp: result_elims)
    then show ?thesis
      using st Send j by (intro exI[of _ l']) (simp add: set_defs cluster_order)
  next
    case (Recv j)
    then have j: "j = i" using y(1) by simp
    let ?l = "cl_up a i"
    obtain s1 c1 where p: "ps_recv_copy (cl_ps a) (lk_sv ?l) = Inr (s1, c1)"
      and b: "b = set_up i (?l\<lparr>lk_sv := c1\<rparr>) (a\<lparr>cl_ps := s1\<rparr>)"
      using y(3) Recv j by (auto simp: result_elims)
    have copy: "ps_recv_copy (cl_ps a) c = Inr (s1, c\<lparr>sc_buf_prepared := False\<rparr>)"
      if "sc_buffer c = sc_buffer (lk_sv ?l)" "sc_buf_ptr c = sc_buf_ptr (lk_sv ?l)" for c
      using p that by (auto simp: ps_recv_copy_unfold Let_def result_elims)
    have "link_step Fb (?l\<lparr>lk_sv := (lk_sv ?l)\<lparr>sc_buf_prepared := False\<rparr>\<rparr>) l'"
      using st p copy[of "lk_sv ?l"] by (simp add: b set_defs)
    from cleared_link[OF this] obtain c where c: "link_step Fb ?l (l'\<lparr>lk_sv := c\<rparr>)"
      "lk_sv l' = c\<lparr>sc_buf_prepared := False\<rparr>" by blast
    have q: "pw (lk_net ?l) = []" "lk_wcs ?l = []" using ready_settled(2)[OF I i] rd Recv j by blast+
    have "ps_recv_copy (cl_ps a) c = Inr (s1, lk_sv l')"
      using copy[of c] quiet_link[OF R c(1) q] c(2) by simp
    then have "work F rnd y (set_up i (l'\<lparr>lk_sv := c\<rparr>) a) = Inr (set_up i l' b)"
      using Recv j by (simp add: b set_defs cluster_order)
    with c(1) show ?thesis by blast
  next
    case (Compute j)
    then have j: "j = i" using y(1) by simp
    obtain w where "wk_compute F (rnd i) (cl_wk a i) = Inr w" "b = set_wk i w a"
      using y(3) Compute j by (auto simp: result_elims)
    then show ?thesis
      using st Compute j by (intro exI[of _ l']) (simp add: set_defs cluster_order)
  next
    case (Wsend j)
    then have j: "j = i" using y(1) by simp
    let ?l = "cl_up a i"
    obtain m k where z: "cc_buf_ptr (lk_cl ?l) \<noteq> 0"
      "pack_blocks (wk_heap (cl_wk a i)) (Pblock (cl_wk a i)) (Qblock (cl_wk a i)) (cc_buffer (lk_cl ?l)) = Inr (m, k)"
      and b: "b = set_up i (?l\<lparr>lk_cl := (lk_cl ?l)\<lparr>cc_buffer := m, cc_buf_len := k\<rparr>\<rparr>) a"
      using y(3) Wsend j by (auto simp: wk_send_fill_def result_elims)
    have q: "pw (lk_net ?l) = []" "can_send (lk_cl ?l) \<longrightarrow> lk_cpc ?l = CPosted"
      using ready_settled(2)[OF I i] rd Wsend j by blast+
    have "link_step Fb (?l\<lparr>lk_cl := (lk_cl ?l)\<lparr>cc_buffer := m, cc_buf_len := k,
        cc_buf_prepared := cc_buf_prepared (lk_cl ?l)\<rparr>\<rparr>) l'"
      using st by (simp add: b set_defs)
    from refilled_link[OF R L q this] obtain c where c: "link_step Fb ?l (l'\<lparr>lk_cl := c\<rparr>)"
      "cc_buffer c = cc_buffer (lk_cl ?l)" "cc_buf_ptr c = cc_buf_ptr (lk_cl ?l)"
      "cc_buf_prepared c = cc_buf_prepared (lk_cl ?l)"
      "lk_cl l' = c\<lparr>cc_buffer := m, cc_buf_len := k, cc_buf_prepared := cc_buf_prepared (lk_cl ?l)\<rparr>" by blast
    have "lk_cl l' = c\<lparr>cc_buffer := m, cc_buf_len := k\<rparr>" using c(4,5) by simp
    then have "wk_send_fill (cl_wk a i) c = Inr (lk_cl l')"
      using z c(2,3) by (simp add: wk_send_fill_def)
    then have "work F rnd y (set_up i (l'\<lparr>lk_cl := c\<rparr>) a) = Inr (set_up i l' b)"
      using Wsend j by (simp add: b set_defs cluster_order)
    with c(1) show ?thesis by blast
  next
    case (Wrecv j)
    then have j: "j = i" using y(1) by simp
    obtain w where "wk_recv_copy (cl_wk a i) (lk_sv (cl_down a i)) = Inr w" "b = set_wk i w a"
      using y(3) Wrecv j by (auto simp: result_elims)
    then show ?thesis
      using st Wrecv j by (intro exI[of _ l']) (simp add: set_defs cluster_order)
  qed (use y in auto)
qed

section \<open>Steps of a link with work under way\<close>

text \<open>What holds of the flags and counters that a guard reads stays so.\<close>

lemma link_guards:
  assumes R: "rc_fabric Fb pw pm" and S: "system_inv pw pm F Ls a" and i: "i < lanes a"
    and y: "lane_of y = Some i \<or> lane_of y = None" "tested y a"
  shows "link_step Fb (cl_down a i) m \<Longrightarrow> tested y (set_down i m a)"
    and "link_step Fb (cl_up a i) m \<Longrightarrow> tested y (set_up i m a)"
proof -
  have I: "cluster_inv pw pm a" using S by (simp add: system_inv_def)
  have L: "link_inv pw pm (cl_down a i)" "link_inv pw pm (cl_up a i)"
    using cluster_inv_lane[OF I i] by (simp_all add: lane_inv_def)
  show "tested y (set_down i m a)" if m: "link_step Fb (cl_down a i) m"
    using y link_step_recv_mono[OF R m L(1)] link_registered[OF R m L(1)]
    by (cases y) (auto simp: set_defs)
  show "tested y (set_up i m a)" if m: "link_step Fb (cl_up a i) m"
    using y link_step_recv_mono[OF R m L(2)] link_registered[OF R m L(2)]
    by (cases y) (auto simp: set_defs)
qed

lemma carried_down:
  assumes R: "rc_fabric Fb pw pm" and S: "system_inv pw pm F Ls a" and C: "carried F Ls rnd pc d a"
    and e: "cl_exit a = None" and i: "i < lanes a" and st: "link_step Fb (cl_down d i) l'"
  shows "\<exists>a'. moves (cluster_step Fb F rnd) a a' \<and> carried F Ls rnd pc (set_down i l' d) a'"
proof -
  obtain b where b: "lane_eq Ls i d b" "lane_mid F rnd pc i a b" using C i by (auto simp: carried_def)
  have t: "link_step Fb (cl_down b i) l'" using st b(1) by (simp add: lane_eq_def)
  have "\<exists>m. link_step Fb (cl_down a i) m \<and> lane_mid F rnd pc i (set_down i m a) (set_down i l' b)"
  proof (cases "\<forall>y. lane_of y = Some i \<longrightarrow> pc y \<noteq> Worked")
    case True
    then have "b = a" using b(2) by (simp add: lane_mid_def)
    then show ?thesis using t True by (auto simp: lane_mid_def)
  next
    case False
    then obtain y where y: "lane_of y = Some i" "pc y = Worked" by blast
    then have w: "work F rnd y a = Inr b" using b(2) by (simp add: lane_mid_def)
    have ty: "tested y a" using C y(2) by (auto simp: carried_def busy_def)
    from down_mid[OF R S i y(1) ty w t] obtain m where m: "link_step Fb (cl_down a i) m"
      "work F rnd y (set_down i m a) = Inr (set_down i l' b)" by blast
    have "z = y" if "lane_of z = Some i" "pc z = Worked" for z
      using one_busy[OF S C _ that(1), of y] that(2) y by (simp add: busy_def)
    then have "lane_mid F rnd pc i (set_down i m a) (set_down i l' b)"
      using m(2) y unfolding lane_mid_def by blast
    with m(1) show ?thesis by blast
  qed
  then obtain m where m: "link_step Fb (cl_down a i) m"
    "lane_mid F rnd pc i (set_down i m a) (set_down i l' b)" by blast
  have "carried F Ls rnd pc (set_down i l' d) (set_down i m a)"
  proof (rule carried_lane[OF S C outside_set(2)[OF i] outside_set(2)[OF i] _ _ m(2)])
    show "lane_eq Ls i (set_down i l' d) (set_down i l' b)" using b(1) by (simp add: lane_eq_def set_defs)
    show "here y (set_down i m a) \<and> tested y (set_down i m a)"
      if y: "lane_of y = Some i \<or> lane_of y = None" "busy pc y" for y
    proof -
      have "here y a" "tested y a" using C y(2) by (auto simp: carried_def)
      then show ?thesis using link_guards(1)[OF R S i y(1) _ m(1)] by (simp add: here_def set_defs lanes_def)
    qed
  qed simp
  moreover have "link_inv pw pm (cl_down a i)"
    using S cluster_inv_lane[OF _ i] by (auto simp: system_inv_def lane_inv_def)
  from link_work_step[OF R this m(1)] have "m \<noteq> cl_down a i" by auto
  then have "moves (cluster_step Fb F rnd) a (set_down i m a)"
    using cluster_step.down_link[OF e i m(1)] set_neq(1) by (simp add: moves_def)
  ultimately show ?thesis by blast
qed

lemma carried_up:
  assumes R: "rc_fabric Fb pw pm" and S: "system_inv pw pm F Ls a" and C: "carried F Ls rnd pc d a"
    and e: "cl_exit a = None" and i: "i < lanes a" and st: "link_step Fb (cl_up d i) l'"
  shows "\<exists>a'. moves (cluster_step Fb F rnd) a a' \<and> carried F Ls rnd pc (set_up i l' d) a'"
proof -
  obtain b where b: "lane_eq Ls i d b" "lane_mid F rnd pc i a b" using C i by (auto simp: carried_def)
  have t: "link_step Fb (cl_up b i) l'" using st b(1) by (simp add: lane_eq_def)
  have "\<exists>m. link_step Fb (cl_up a i) m \<and> lane_mid F rnd pc i (set_up i m a) (set_up i l' b)"
  proof (cases "\<forall>y. lane_of y = Some i \<longrightarrow> pc y \<noteq> Worked")
    case True
    then have "b = a" using b(2) by (simp add: lane_mid_def)
    then show ?thesis using t True by (auto simp: lane_mid_def)
  next
    case False
    then obtain y where y: "lane_of y = Some i" "pc y = Worked" by blast
    then have w: "work F rnd y a = Inr b" using b(2) by (simp add: lane_mid_def)
    have ty: "tested y a" using C y(2) by (auto simp: carried_def busy_def)
    from up_mid[OF R S i y(1) ty w t] obtain m where m: "link_step Fb (cl_up a i) m"
      "work F rnd y (set_up i m a) = Inr (set_up i l' b)" by blast
    have "z = y" if "lane_of z = Some i" "pc z = Worked" for z
      using one_busy[OF S C _ that(1), of y] that(2) y by (simp add: busy_def)
    then have "lane_mid F rnd pc i (set_up i m a) (set_up i l' b)"
      using m(2) y unfolding lane_mid_def by blast
    with m(1) show ?thesis by blast
  qed
  then obtain m where m: "link_step Fb (cl_up a i) m"
    "lane_mid F rnd pc i (set_up i m a) (set_up i l' b)" by blast
  have "carried F Ls rnd pc (set_up i l' d) (set_up i m a)"
  proof (rule carried_lane[OF S C outside_set(3)[OF i] outside_set(3)[OF i] _ _ m(2)])
    show "lane_eq Ls i (set_up i l' d) (set_up i l' b)" using b(1) by (simp add: lane_eq_def set_defs)
    show "here y (set_up i m a) \<and> tested y (set_up i m a)"
      if y: "lane_of y = Some i \<or> lane_of y = None" "busy pc y" for y
    proof -
      have "here y a" "tested y a" using C y(2) by (auto simp: carried_def)
      then show ?thesis using link_guards(2)[OF R S i y(1) _ m(1)] by (simp add: here_def set_defs lanes_def)
    qed
  qed simp
  moreover have "link_inv pw pm (cl_up a i)"
    using S cluster_inv_lane[OF _ i] by (auto simp: system_inv_def lane_inv_def)
  from link_work_step[OF R this m(1)] have "m \<noteq> cl_up a i" by auto
  then have "moves (cluster_step Fb F rnd) a (set_up i m a)"
    using cluster_step.up_link[OF e i m(1)] set_neq(2) by (simp add: moves_def)
  ultimately show ?thesis by blast
qed

section \<open>The reduction\<close>

text \<open>The number of finished iterations never falls.\<close>

lemma statement_counters:
  assumes "statement_step Fb F rnd (pc, s) (pc', s')" and "ps_completed_iter (cl_ps s) \<le> ps_iter_t (cl_ps s)"
  shows "ps_completed_iter (cl_ps s) \<le> ps_completed_iter (cl_ps s') \<and>
     ps_completed_iter (cl_ps s') \<le> ps_iter_t (cl_ps s')"
  using assms(1)
proof (cases rule: statement_step.cases)
  case (work x)
  then show ?thesis using work_counters(3,4)[OF work(4)] assms(2) by simp
next
  case (publish x)
  then show ?thesis using assms(2) by (cases x) (auto simp: set_defs)
next
  case (finish x)
  then show ?thesis using assms(2) by (cases x) (auto simp: set_defs)
qed (use assms(2) in \<open>auto simp: set_defs\<close>)

lemma carried_idle:
  assumes C: "carried F Ls rnd pc d a" and x: "pc x = Published"
  shows "carried F Ls rnd (pc(x := Idle)) d a"
proof -
  have "lane_mid F rnd (pc(x := Idle)) i a b = lane_mid F rnd pc i a b" for i b
    using x by (simp add: mid_update)
  then show ?thesis using C by (simp add: carried_def busy_def)
qed

text \<open>
  One step of a statement run is one step of the system, when a thread tells of its work or a link moves,
  and else none; then the phase of a thread goes on.
\<close>

lemma carried_step:
  assumes R: "rc_fabric Fb pw pm" and S: "system_inv pw pm F Ls a"
    and C: "carried F Ls rnd pc (settle pc s) a" and st: "statement_step Fb F rnd (pc, s) (pc', s')"
    and n: "ps_completed_iter (cl_ps s') < 1199"
  shows "\<exists>a'. carried F Ls rnd pc' (settle pc' s') a' \<and>
    (moves (cluster_step Fb F rnd) a a' \<and> (pc' = pc \<or> (\<exists>x. here x s \<and> pc x = Worked \<and> pc' = pc(x := Published))) \<or>
     a' = a \<and> (\<exists>x. here x s \<and> (pc x, pc' x) \<in> {(Idle, Tested), (Tested, Worked), (Published, Idle)} \<and> pc' = pc(x := pc' x)))"
proof -
  have core: "core_eq (settle pc s) a" using C rest_core by (auto simp: carried_def)
  have ln: "lanes s = lanes a" "cl_exit s = cl_exit a" using core_lanes[OF core] core by (simp_all add: core_eq_def)
  have it: "ps_iter_t (cl_ps s) + lag (pc Main) = ps_iter_t (cl_ps a)"
    "ps_completed_iter (cl_ps s) = ps_completed_iter (cl_ps a)"
    using core by (simp_all add: core_eq_def settle_def)
  have ia: "ps_iter_t (cl_ps a) = ps_completed_iter (cl_ps a) + 1"
    using S by (simp add: system_inv_def cluster_inv_def)
  show ?thesis
    using st
  proof (cases rule: statement_step.cases)
    case (test x)
    have "carried F Ls rnd (pc(x := Tested)) (settle pc s) a"
      using test by (intro carried_test[OF S C]) (simp_all add: settle_tested)
    then show ?thesis using test by (intro exI[of _ a]) (auto simp: settle_test)
  next
    case (work x)
    have "carried F Ls rnd (pc(x := Worked)) (settle (pc(x := Worked)) s') a"
      using carried_work[OF S C work(3) settle_work[of pc x F rnd, OF work(3,4)]] .
    then show ?thesis using work by (intro exI[of _ a]) auto
  next
    case (publish x)
    have "x = Main \<longrightarrow> ps_iter_t (cl_ps a) \<noteq> 1199" using n it publish by auto
    from carried_commit[OF S C publish(4) this] obtain a' where
      a': "agent_step Fb F rnd x a a'" "a' \<noteq> a"
        "carried F Ls rnd (pc(x := Published)) (finish x (Statements.publish x (settle pc s))) a'" by blast
    then have "carried F Ls rnd pc' (settle pc' s') a'" using publish by (simp add: settle_publish)
    moreover have "moves (cluster_step Fb F rnd) a a'" using agent_cluster_step[OF a'(1)] a'(2) by (simp add: moves_def)
    ultimately show ?thesis using publish by blast
  next
    case (finish x)
    have "carried F Ls rnd (pc(x := Idle)) (settle pc s) a"
      using carried_idle[OF C] finish(4) by simp
    then show ?thesis using finish by (intro exI[of _ a]) (auto simp: settle_finish)
  next
    case exit
    then show ?thesis using n it ia by auto
  next
    case (down i l')
    from settle_down[OF down(5), of pc] carried_down[OF R S C] ln down(3,4) obtain a' where
      "moves (cluster_step Fb F rnd) a a'" "carried F Ls rnd pc (settle pc (set_down i l' s)) a'" by metis
    then show ?thesis using down(1,2) by blast
  next
    case (up i l')
    from settle_up[OF up(5), of pc] carried_up[OF R S C] ln up(3,4) obtain a' where
      "moves (cluster_step Fb F rnd) a a'" "carried F Ls rnd pc (settle pc (set_up i l' s)) a'" by metis
    then show ?thesis using up(1,2) by blast
  qed
qed

lemma statements_reduce:
  assumes run: "system_run Fb pw pm F n m W bytes rnd s0"
    and st: "(statement_step Fb F rnd)\<^sup>*\<^sup>* (\<lambda>_. Idle, s0) (pc, s)" and c: "ps_completed_iter (cl_ps s) < 1199"
  shows "\<exists>a. system_run Fb pw pm F n m W bytes rnd a \<and>
     carried F (setup_spec F n m (atoi W) rnd) rnd pc (settle pc s) a"
proof -
  let ?Ls = "setup_spec F n m (atoi W) rnd"
  let ?P = "\<lambda>z. ps_completed_iter (cl_ps (snd z)) \<le> ps_iter_t (cl_ps (snd z)) \<and>
    (ps_completed_iter (cl_ps (snd z)) < 1199 \<longrightarrow>
      (\<exists>a. system_run Fb pw pm F n m W bytes rnd a \<and> carried F ?Ls rnd (fst z) (settle (fst z) (snd z)) a))"
  have "?P (pc, s)"
    using st
  proof (induction rule: rtranclp_induct)
    case base
    have "carried F ?Ls rnd (\<lambda>_. Idle) s0 s0" by (rule carried_rest) (simp add: busy_def)
    then have "carried F ?Ls rnd (\<lambda>_. Idle) (settle (\<lambda>_. Idle) s0) s0" by (simp add: settle_idle)
    moreover have "ps_completed_iter (cl_ps s0) = ps_iter_t (cl_ps s0) - 1"
      using run_inv(1)[OF run] by (simp add: system_inv_def cluster_inv_def)
    ultimately show ?case using run by auto
  next
    case (step y z)
    obtain pc1 s1 pc2 s2 where z: "y = (pc1, s1)" "z = (pc2, s2)" by (metis surj_pair)
    have IH: "ps_completed_iter (cl_ps s1) \<le> ps_iter_t (cl_ps s1)" "ps_completed_iter (cl_ps s1) < 1199 \<longrightarrow>
      (\<exists>a. system_run Fb pw pm F n m W bytes rnd a \<and> carried F ?Ls rnd pc1 (settle pc1 s1) a)"
      using step.IH z by simp_all
    note mono = statement_counters[OF step.hyps(2)[unfolded z] IH(1)]
    have "\<exists>a. system_run Fb pw pm F n m W bytes rnd a \<and> carried F ?Ls rnd pc2 (settle pc2 s2) a"
      if n: "ps_completed_iter (cl_ps s2) < 1199"
    proof -
      obtain a where a: "system_run Fb pw pm F n m W bytes rnd a" "carried F ?Ls rnd pc1 (settle pc1 s1) a"
        using IH(2) mono n by auto
      from carried_step[OF run_inv(3,1)[OF a(1)] a(2) step.hyps(2)[unfolded z] n] obtain a' where
        a': "(cluster_step Fb F rnd)\<^sup>=\<^sup>= a a'" "carried F ?Ls rnd pc2 (settle pc2 s2) a'" by (auto simp: moves_def)
      have "system_run Fb pw pm F n m W bytes rnd a'"
        using a(1) a'(1) unfolding system_run_def by (auto intro: rtranclp.rtrancl_into_rtrancl)
      with a'(2) show ?thesis by blast
    qed
    with mono show ?case by (simp add: z)
  qed
  with c show ?thesis by simp
qed

end
