(* ===== verification/Statement_Runs.thy ===== *)
theory Statement_Runs
  imports Reduction Loopback
begin

text \<open>
  The deployed system, statement by statement: it reaches the states that it reaches pass by pass, one
  thread of a lane at most is between its guard and its publication, what that thread does cannot
  fail, and in a lane where no work is under way the server holds the reference.
\<close>

section \<open>Passes as runs of statements\<close>

lemma pass_parts:
  assumes "agent_step Fb F rnd x s t" and "application x"
  shows "t = s \<or> here x s \<and> tested x s \<and> (x = Main \<longrightarrow> ps_iter_t (cl_ps s) \<noteq> 1199) \<and>
     (\<exists>b. work F rnd x s = Inr b \<and> t = finish x (publish x b))"
  using assms(1)
proof (cases rule: agent_step.cases)
  case (Main st')
  then show ?thesis by (auto simp: ps_main_pass_def here_def Let_def split: if_splits)
next
  case (Send i st' c')
  then show ?thesis
    by (auto simp: ps_rdma_sendTd_def here_def set_defs cluster_order result_elims split: if_splits)
next
  case (Recv i st' c')
  then show ?thesis
    by (auto simp: ps_rdma_recvTd_def here_def set_defs cluster_order result_elims split: if_splits)
next
  case (Compute i w')
  then show ?thesis
    by (auto simp: wk_main_pass_def here_def set_defs cluster_order result_elims split: if_splits)
next
  case (Wsend i w' c')
  then show ?thesis
    by (auto simp: wk_rdma_sendTd_def here_def set_defs cluster_order result_elims split: if_splits)
next
  case (Wrecv i w' c')
  then show ?thesis
    by (auto simp: wk_rdma_recvTd_def here_def set_defs cluster_order result_elims split: if_splits)
qed (use assms(2) in simp_all)

text \<open>No thread is at work.\<close>

abbreviation resting :: "agent \<Rightarrow> phase" where
  "resting \<equiv> \<lambda>_. Idle"

lemma work_iter: "work F rnd x s = Inr b \<Longrightarrow> here x b = here x s"
  by (cases x) (auto simp: here_def lanes_def set_defs result_elims ps_send_fill_def ps_recv_copy_unfold Let_def)

lemma publish_here: "here x (publish x s) = here x s"
  by (cases x) (auto simp: here_def lanes_def set_defs)

lemma pass_statements:
  assumes "agent_step Fb F rnd x s t"
  shows "(statement_step Fb F rnd)\<^sup>*\<^sup>* (resting, s) (resting, t)"
proof (cases "application x")
  case True
  from pass_parts[OF assms True] show ?thesis
  proof
    assume "here x s \<and> tested x s \<and> (x = Main \<longrightarrow> ps_iter_t (cl_ps s) \<noteq> 1199) \<and>
       (\<exists>b. work F rnd x s = Inr b \<and> t = finish x (publish x b))"
    then obtain b where h: "here x s" "tested x s" "x = Main \<longrightarrow> ps_iter_t (cl_ps s) \<noteq> 1199"
      and b: "work F rnd x s = Inr b" "t = finish x (publish x b)" by blast
    let ?R = "statement_step Fb F rnd"
    have hb: "here x b" "here x (publish x b)" using work_iter[OF b(1)] publish_here h(1) by blast+
    have it: "x \<noteq> Main \<or> ps_iter_t (cl_ps (publish x b)) + 1 \<noteq> 1200"
      using h(3) work_counters(4)[OF b(1)] by auto
    have "?R (resting, s) (resting(x := Tested), s)" using h by (intro statement_step.test) simp_all
    moreover have "?R (resting(x := Tested), s) (resting(x := Worked), b)"
      using statement_step.work[OF h(1) _ b(1), of "resting(x := Tested)"] by simp
    moreover have "?R (resting(x := Worked), b) (resting(x := Published), publish x b)"
      using statement_step.publish[OF hb(1), of "resting(x := Worked)"] by simp
    moreover have "?R (resting(x := Published), publish x b) (resting, t)"
      using statement_step.finish[OF hb(2) _ it, of "resting(x := Published)"] b(2) by (simp add: fun_upd_idem)
    ultimately show ?thesis by (meson converse_rtranclp_into_rtranclp rtranclp.rtrancl_refl)
  qed simp
next
  case False
  then obtain i where "x = Down i \<or> x = Up i" by (cases x) auto
  then show ?thesis
    using assms by (elim disjE) (auto elim!: agent_stepE intro!: r_into_rtranclp statement_step.down statement_step.up)
qed

lemma statements_counters:
  assumes "(statement_step Fb F rnd)\<^sup>*\<^sup>* (pc, s) (pc', s')" and "ps_completed_iter (cl_ps s) \<le> ps_iter_t (cl_ps s)"
  shows "ps_completed_iter (cl_ps s) \<le> ps_completed_iter (cl_ps s') \<and> ps_completed_iter (cl_ps s') \<le> ps_iter_t (cl_ps s')"
  using assms
proof (induction rule: rtranclp_induct2)
  case (step pc1 s1 pc2 s2)
  then show ?case using statement_counters[OF step.hyps(2)] by fastforce
qed simp

text \<open>A state \<open>s\<close> of a run of statements of the deployed system, with the threads at \<open>pc\<close>.\<close>

definition statement_run ::
    "'w fabric \<Rightarrow> ('w \<Rightarrow> send_wr list) \<Rightarrow> ('w \<Rightarrow> send_wr list) \<Rightarrow> fp \<Rightarrow> int \<Rightarrow> int \<Rightarrow> string \<Rightarrow> nat \<Rightarrow>
     (nat \<Rightarrow> nat \<Rightarrow> int) \<Rightarrow> (agent \<Rightarrow> phase) \<Rightarrow> 'w cluster \<Rightarrow> bool" where
  "statement_run Fb pw pm F n m a bytes rnd pc s \<longleftrightarrow>
     rc_fabric Fb pw pm \<and> setup_ok n m K_dim (atoi a) bytes \<and> no_empty_block n m (atoi a) \<and>
     (\<forall>i j. 0 \<le> rnd i j) \<and>
     (\<exists>s0. deployed pw pm F n m a bytes s0 \<and> (statement_step Fb F rnd)\<^sup>*\<^sup>* (resting, s0) (pc, s))"

text \<open>Every state that is reached pass by pass is reached statement by statement, and the other way round.\<close>

lemma run_statements:
  assumes run: "system_run Fb pw pm F n m a bytes rnd s" and c: "ps_completed_iter (cl_ps s) < 1199"
  shows "statement_run Fb pw pm F n m a bytes rnd resting s"
proof -
  obtain s0 where s0: "deployed pw pm F n m a bytes s0" "(cluster_step Fb F rnd)\<^sup>*\<^sup>* s0 s"
    using run unfolding system_run_def by blast
  have base: "system_run Fb pw pm F n m a bytes rnd s0"
    using run s0(1) unfolding system_run_def by blast
  have i0: "ps_completed_iter (cl_ps s0) \<le> ps_iter_t (cl_ps s0)"
    using run_inv(1)[OF base] by (simp add: system_inv_def cluster_inv_def)
  have "ps_completed_iter (cl_ps s) < 1199 \<longrightarrow> (statement_step Fb F rnd)\<^sup>*\<^sup>* (resting, s0) (resting, s)"
    using s0(2)
  proof (induction rule: rtranclp_induct)
    case (step y z)
    have ry: "system_run Fb pw pm F n m a bytes rnd y"
      using run s0(1) step.hyps(1) unfolding system_run_def by blast
    have "(statement_step Fb F rnd)\<^sup>*\<^sup>* (resting, s0) (resting, z)" if n: "ps_completed_iter (cl_ps z) < 1199"
    proof -
      have "\<not> (\<exists>c st'. cl_exit y = None \<and> ps_main_pass (cl_ps y) = Exited c st' \<and> z = y\<lparr>cl_ps := st', cl_exit := Some c\<rparr>)"
        using n by (auto simp: ps_main_pass_def Let_def split: if_splits)
      then obtain x where x: "agent_step Fb F rnd x y z"
        using step.hyps(2) cluster_step_agents by blast
      note st = pass_statements[OF x]
      have "ps_completed_iter (cl_ps y) \<le> ps_iter_t (cl_ps y)"
        using run_inv(1)[OF ry] by (simp add: system_inv_def cluster_inv_def)
      then have "ps_completed_iter (cl_ps y) < 1199" using statements_counters[OF st] n by simp
      then show ?thesis using step.IH st by (meson rtranclp_trans)
    qed
    then show ?case by blast
  qed simp
  with c s0(1) run show ?thesis unfolding system_run_def statement_run_def by blast
qed

lemma statement_carried:
  assumes run: "statement_run Fb pw pm F n m a bytes rnd pc s" and c: "ps_completed_iter (cl_ps s) < 1199"
  obtains b where "system_run Fb pw pm F n m a bytes rnd b"
    "carried F (setup_spec F n m (atoi a) rnd) rnd pc (settle pc s) b"
proof -
  obtain s0 where s0: "deployed pw pm F n m a bytes s0" "(statement_step Fb F rnd)\<^sup>*\<^sup>* (resting, s0) (pc, s)"
    using run unfolding statement_run_def by blast
  have "system_run Fb pw pm F n m a bytes rnd s0"
    using run s0(1) unfolding statement_run_def system_run_def by blast
  from statements_reduce[OF this s0(2) c] that show thesis by blast
qed

section \<open>Work cannot fail\<close>

lemma work_enabled:
  assumes S: "system_inv pw pm F Ls s" and x: "here x s" "tested x s"
    and ok: "\<And>i. i < lanes s \<Longrightarrow> lane_fits (Ls i)"
    and room: "\<And>i. x = Wrecv i \<Longrightarrow> room_for_message (Ls i) (cl_wk s i)"
  shows "\<exists>t. work F (\<lambda>i. ls_rnd (Ls i)) x s = Inr t"
proof (cases "lane_of x")
  case None
  then show ?thesis using x(1) by (cases x) (auto simp: here_def)
next
  case (Some i)
  then have i: "i < lanes s" using x(1) by (simp add: here_def)
  let ?ps = "cl_ps s" and ?dn = "cl_down s i" and ?w = "cl_wk s i" and ?up = "cl_up s i"
  have I: "cluster_inv pw pm s" and D: "cluster_data pw F Ls s" and sp: "specs_ok Ls (lanes s)"
    and R: "lane_ready (recved_iter ?ps i) ?dn ?w ?up"
    using S i by (auto simp: system_inv_def cluster_ready_def)
  note lane = cluster_inv_lane[OF I i] and ix = cluster_data_lane[OF D i] and spec = specs_lane[OF sp i]
  obtain mrd mru where d: "lane_data pw F (Ls i) mrd mru (recved_iter ?ps i) (to_send_iter ?ps i) ?ps ?dn ?w ?up"
    using D i by (auto simp: cluster_data_def)
  have it: "ps_completed_iter ?ps \<le> 1200" "ps_iter_t ?ps \<le> 1200" using I by (auto simp: cluster_inv_def)
  have rdy: "client_ready (lk_cl ?dn)" "client_ready (lk_cl ?up)" "server_ready (lk_sv ?dn)" "server_ready (lk_sv ?up)"
    using R by (simp_all add: lane_ready_def link_ready_def)
  note g = tested_ready[OF x(2)]
  show ?thesis
  proof (cases x)
    case (Send j)
    then have j: "j = i" using Some by simp
    have "to_send_iter ?ps i \<le> ps_completed_iter ?ps" using g Send j by simp
    from ps_send_enabled[OF _ ok[OF i] _ _ _ d rdy(1) this it(1)] spec ix
    show ?thesis using x(2) Send j by (auto simp: ps_rdma_sendTd_def result_elims)
  next
    case (Recv j)
    then have j: "j = i" using Some by simp
    have "recved_iter ?ps i + 2 \<le> buf_recv_counter (lk_sv ?up)" using g Recv j by simp
    from ps_recv_enabled[OF _ _ _ lane d rdy(4) this] spec
    show ?thesis using x(2) Recv j by (auto simp: ps_rdma_recvTd_def result_elims)
  next
    case (Compute j)
    then have j: "j = i" using Some by simp
    have "wk_iter_t ?w \<le> recved_age ?w" using g Compute j by simp
    from wk_main_value[OF _ d this] spec
    show ?thesis using x(2) Compute j by (auto simp: wk_main_pass_def result_elims)
  next
    case (Wsend j)
    then have j: "j = i" using Some by simp
    have "to_send_age ?w = wk_completed_iter ?w" using g Wsend j by simp
    from wk_send_enabled[OF _ ok[OF i] lane it(2) d rdy(2) this] spec
    show ?thesis using x(2) Wsend j by (auto simp: wk_rdma_sendTd_def result_elims)
  next
    case (Wrecv j)
    then have j: "j = i" using Some by simp
    have "recved_age ?w + 2 \<le> buf_recv_counter (lk_sv ?dn)" using g Wrecv j by simp
    from wk_recv_enabled[OF _ lane d rdy(3) _ this] spec room[of i] Wrecv j
    show ?thesis using x(2) by (auto simp: wk_rdma_recvTd_def result_elims)
  qed (use x in \<open>auto simp: here_def\<close>)
qed

text \<open>The stores still to come do not make it fail either.\<close>

lemma work_unsettled:
  assumes "work F rnd x (settle pc s) = Inr t" and "pc x = Tested"
  shows "\<exists>t. work F rnd x s = Inr t"
proof (cases x)
  case (Send i)
  then show ?thesis
    using assms by (auto simp: ps_send_fill_def result_elims Let_def settle_def)
next
  case (Recv i)
  then show ?thesis
    using assms by (auto simp: ps_recv_copy_unfold result_elims Let_def settle_def heard_simps)
next
  case (Compute i)
  then show ?thesis
    using assms by (auto simp: wk_compute_def result_elims Let_def settle_def)
next
  case (Wsend i)
  then show ?thesis
    using assms by (auto simp: wk_send_fill_def result_elims Let_def settle_def)
next
  case (Wrecv i)
  then show ?thesis
    using assms by (auto simp: wk_recv_copy_def result_elims Let_def settle_def heard_simps split_beta)
qed (use assms in auto)

section \<open>The server's arrays\<close>

definition arrays_at :: "fp \<Rightarrow> lane_spec \<Rightarrow> nat \<Rightarrow> int \<Rightarrow> 'w cluster \<Rightarrow> bool" where
  "arrays_at F L i k s \<longleftrightarrow>
     h_arr (ps_heap (cl_ps s)) (eles (Pblocks (cl_ps s) i)) = Some (fst (lane_ref F L (nat k))) \<and>
     h_arr (ps_heap (cl_ps s)) (eles (Qblocks (cl_ps s) i)) = Some (snd (lane_ref F L (nat k)))"

lemma system_arrays:
  assumes S: "system_inv pw pm F Ls s" and i: "i < lanes s"
  shows "arrays_at F (Ls i) i (recved_iter (cl_ps s) i + 1) s"
proof -
  obtain mrd mru where "lane_data pw F (Ls i) mrd mru (recved_iter (cl_ps s) i) (to_send_iter (cl_ps s) i)
      (cl_ps s) (cl_down s i) (cl_wk s i) (cl_up s i)"
    using S i by (auto simp: system_inv_def cluster_data_def)
  moreover have "ls_id (Ls i) = i" using S i by (auto simp: system_inv_def specs_ok_def)
  ultimately show ?thesis by (simp add: lane_data_def ps_holds_def arrays_at_def Let_def)
qed

text \<open>Work leaves them as they are, but for a receiving thread's, which has gone one round further.\<close>

lemma worked_arrays:
  assumes S: "system_inv pw pm F Ls a" and i: "i < lanes a" and x: "here x a" "tested x a" "lane_of x = Some i"
    and w: "work F (\<lambda>i. ls_rnd (Ls i)) x a = Inr b" and R: "rc_fabric Fb pw pm"
  shows "arrays_at F (Ls i) i (recved_iter (cl_ps b) i + 1 + (if x = Recv i then 1 else 0)) b"
    and "eles (Pblocks (cl_ps b) i) = ls_p (Ls i)" "eles (Qblocks (cl_ps b) i) = ls_q (Ls i)"
proof -
  let ?b = "finish x (publish x b)"
  have "x = Main \<longrightarrow> ps_iter_t (cl_ps a) \<noteq> 1199" using x(3) by auto
  from agent_cluster_step[OF parts_make_pass[OF x(1,2) w this, of Fb]]
  have st: "cluster_step Fb F (\<lambda>i. ls_rnd (Ls i)) a ?b" .
  have S': "system_inv pw pm F Ls ?b" using cluster_system.inv_step[of Fb pw pm F Ls a ?b] R S st by blast
  have i': "i < lanes ?b" using i cluster_step_lanes[OF st] by simp
  have e: "Pblocks (cl_ps ?b) = Pblocks (cl_ps b)" "Qblocks (cl_ps ?b) = Qblocks (cl_ps b)"
    "ps_heap (cl_ps ?b) = ps_heap (cl_ps b)"
    "recved_iter (cl_ps ?b) i = recved_iter (cl_ps b) i + (if x = Recv i then 1 else 0)"
    using x(3) by (cases x; simp add: set_defs)+
  show "arrays_at F (Ls i) i (recved_iter (cl_ps b) i + 1 + (if x = Recv i then 1 else 0)) b"
    using system_arrays[OF S' i'] e by (simp add: arrays_at_def algebra_simps)
  show "eles (Pblocks (cl_ps b) i) = ls_p (Ls i)" "eles (Qblocks (cl_ps b) i) = ls_q (Ls i)"
    using lane_facts(8,9)[OF S' i'] e by simp_all
qed

lemma arrays_lane:
  assumes "lane_eq Ls i d b" and "arrays_at F (Ls i) i k b"
    and "eles (Pblocks (cl_ps b) i) = ls_p (Ls i)" "eles (Qblocks (cl_ps b) i) = ls_q (Ls i)"
  shows "arrays_at F (Ls i) i k d"
  using assms by (simp add: arrays_at_def lane_eq_def)

lemma carried_arrays:
  assumes S: "system_inv pw pm F Ls a" and R: "rc_fabric Fb pw pm" and i: "i < lanes a"
    and C: "carried F Ls (\<lambda>i. ls_rnd (Ls i)) pc d a"
  shows "arrays_at F (Ls i) i (recved_iter (cl_ps d) i + 1 + (if pc (Recv i) = Worked then 1 else 0)) d"
proof -
  obtain b where b: "lane_eq Ls i d b" "lane_mid F (\<lambda>i. ls_rnd (Ls i)) pc i a b" using C i by (auto simp: carried_def)
  have "arrays_at F (Ls i) i (recved_iter (cl_ps b) i + 1 + (if pc (Recv i) = Worked then 1 else 0)) b \<and>
      eles (Pblocks (cl_ps b) i) = ls_p (Ls i) \<and> eles (Qblocks (cl_ps b) i) = ls_q (Ls i)"
  proof (cases "\<forall>y. lane_of y = Some i \<longrightarrow> pc y \<noteq> Worked")
    case True
    moreover have "pc (Recv i) \<noteq> Worked" using True by simp
    ultimately show ?thesis
      using b(2) system_arrays[OF S i] lane_facts(8,9)[OF S i] by (simp add: lane_mid_def)
  next
    case False
    then obtain y where y: "lane_of y = Some i" "pc y = Worked" by blast
    then have w: "work F (\<lambda>i. ls_rnd (Ls i)) y a = Inr b" using b(2) by (simp add: lane_mid_def)
    have h: "here y a" "tested y a" using C y(2) by (auto simp: carried_def busy_def)
    have "y = Recv i \<longleftrightarrow> pc (Recv i) = Worked"
      using one_busy[OF S C _ y(1), of "Recv i"] y by (auto simp: busy_def)
    then show ?thesis using worked_arrays[OF S i h y(1) w R] by simp
  qed
  then have "arrays_at F (Ls i) i (recved_iter (cl_ps b) i + 1 + (if pc (Recv i) = Worked then 1 else 0)) d"
    using arrays_lane[OF b(1)] by blast
  moreover have "recved_iter (cl_ps b) i = recved_iter (cl_ps d) i" using b(1) by (simp add: lane_eq_def)
  ultimately show ?thesis by simp
qed

subsection \<open>In the deployment of \<open>Loopback\<close>\<close>

abbreviation demo_statements :: "(agent \<Rightarrow> phase) \<Rightarrow> loop_world cluster \<Rightarrow> bool" where
  "demo_statements \<equiv> statement_run loop_fabric fst snd demo_fp 1 1 ''1'' 2000 demo_rnd"

lemma statement_run_step:
  "statement_run Fb pw pm F n m a bytes rnd pc s \<Longrightarrow> statement_step Fb F rnd (pc, s) (pc', s') \<Longrightarrow>
   statement_run Fb pw pm F n m a bytes rnd pc' s'"
  unfolding statement_run_def by (blast intro: rtranclp.rtrancl_into_rtrancl)

text \<open>The server's thread has tested its guard for the first message.\<close>

lemma demo_sending:
  "\<exists>s. demo_statements (resting(Send 0 := Tested)) s \<and> demo_good s \<and> recved_age (cl_wk s 0) = - 1 \<and>
     ps_completed_iter (cl_ps s) = 0"
proof -
  obtain s where r: "system_run loop_fabric fst snd demo_fp 1 1 ''1'' 2000 demo_rnd s" and g: "demo_good s"
    and v: "view s = ((1, - 1, 0), (CIdle, False, 0, 0, False), (- 1, 0, 0), (CIdle, False, 0, 0, False))"
    using demo_run_send demo_hyps unfolding system_run_def by blast
  have c: "ps_completed_iter (cl_ps s) = 0" "to_send_iter (cl_ps s) 0 = 0" "recved_age (cl_wk s 0) = - 1"
    using v demo_lane(8)[OF g] by (simp_all add: view_def)
  have S: "system_inv fst snd demo_fp demo_Ls s" and l: "cl_exit s = None" "lanes s = 1"
    using g by (simp_all add: demo_good_def)
  have "client_ready (lk_cl (cl_down s 0))" using lane_facts(2)[OF S] l by simp
  then have "here (Send 0) s" "tested (Send 0) s"
    using c l by (simp_all add: here_def client_ready_def CanSend_def)
  from statement_run_step[OF run_statements[OF r] statement_step.test[OF this(1) _ this(2)]] c g
  show ?thesis by auto
qed

text \<open>The server's other thread has tested its guard for the first answer.\<close>

lemma demo_receiving:
  "\<exists>s t. demo_statements (resting(Recv 0 := Tested)) s \<and> here (Recv 0) s \<and>
     work demo_fp demo_rnd (Recv 0) s = Inr t \<and> recved_iter (cl_ps s) 0 = - 1 \<and> ps_completed_iter (cl_ps s) = 0"
proof -
  obtain s where r: "system_run loop_fabric fst snd demo_fp 1 1 ''1'' 2000 demo_rnd s" and g: "demo_good s"
    and v: "view s = ((1, - 1, 1), (CPosted, True, 1, 1, False), (0, 1, 1), (CPosted, True, 1, 1, False))"
    using demo_run_answered demo_hyps unfolding system_run_def by blast
  have c: "ps_completed_iter (cl_ps s) = 0" "recved_iter (cl_ps s) 0 = - 1" "buf_recv_counter (lk_sv (cl_up s 0)) = 1"
    using v demo_lane(8)[OF g] by (simp_all add: view_def lview_def)
  have S: "system_inv fst snd demo_fp demo_Ls s" and l: "cl_exit s = None" "lanes s = 1"
    using g by (simp_all add: demo_good_def)
  have "server_ready (lk_sv (cl_up s 0))" using lane_facts(3)[OF S] l by simp
  then have h: "here (Recv 0) s" "tested (Recv 0) s"
    using c l by (simp_all add: here_def server_ready_def)
  obtain t where "work demo_fp (\<lambda>i. ls_rnd (demo_Ls i)) (Recv 0) s = Inr t"
    using work_enabled[OF S h] demo_fits l by auto
  then have "work demo_fp demo_rnd (Recv 0) s = Inr t" by (simp only: demo_rnd_eq)
  moreover have "demo_statements (resting(Recv 0 := Tested)) s"
    using statement_run_step[OF run_statements[OF r] statement_step.test[OF h(1) _ h(2)]] c by simp
  ultimately show ?thesis using c h(1) by blast
qed

section \<open>Properties\<close>

text \<open>
  C3: Passes may be taken as single steps. Up to the last iteration, the deployed system with its
  threads running statement by statement, every thread interleaved with all others between its guard,
  its copying or computing, the store that tells the others and the last store, comes to rest in
  exactly the states that it reaches when every pass of every loop is one step.
\<close>

theorem passes_atomic:
  assumes "ps_completed_iter (cl_ps s) < 1199"
  shows "statement_run Fb pw pm F n m a bytes rnd (\<lambda>_. Idle) s \<longleftrightarrow>
     system_run Fb pw pm F n m a bytes rnd s"
proof
  assume "statement_run Fb pw pm F n m a bytes rnd (\<lambda>_. Idle) s"
  from statement_carried[OF this assms] obtain b where b: "system_run Fb pw pm F n m a bytes rnd b"
    "carried F (setup_spec F n m (atoi a) rnd) rnd resting (settle resting s) b" .
  have "settle resting s = s" by (simp add: settle_idle)
  with carried_done[OF b(2)] b(1) show "system_run Fb pw pm F n m a bytes rnd s" by simp
qed (use run_statements assms in blast)

theorem passes_atomic_witness:
  "\<exists>s. statement_run loop_fabric fst snd demo_fp 1 1 ''1'' 2000 demo_rnd (\<lambda>_. Idle) s \<and>
     recved_iter (cl_ps s) 0 = 0 \<and> ps_completed_iter (cl_ps s) = 0"
proof -
  obtain s where r: "system_run loop_fabric fst snd demo_fp 1 1 ''1'' 2000 demo_rnd s" and g: "demo_good s"
    and v: "view s = ((1, 0, 1), (CPosted, True, 1, 1, False), (0, 1, 1), (CPosted, True, 1, 1, False))"
    using demo_run demo_hyps unfolding system_run_def by blast
  have "ps_completed_iter (cl_ps s) = 0" "recved_iter (cl_ps s) 0 = 0"
    using v demo_lane(8)[OF g] by (simp_all add: view_def)
  then show ?thesis using passes_atomic[of s loop_fabric fst snd demo_fp 1 1 "''1''" 2000 demo_rnd] r by auto
qed

text \<open>
  C4: One thread of a lane at a time. Blocks, heap and buffers have no lock. In every state of every
  run of statements before the last iteration is published, of the server's main thread, its two
  threads for worker \<open>i\<close> and the three threads of that worker, at most one is between
  the guard that it found true and the store that tells the others, and its guard is still true:
  what it tested does not change while it works.
\<close>

theorem lane_exclusive:
  assumes "statement_run Fb pw pm F n m a bytes rnd pc s" and "ps_completed_iter (cl_ps s) < 1199"
    and "i < lanes s" and "in_lane i x" "Idle < pc x \<and> pc x < Published"
    and "in_lane i y" "Idle < pc y \<and> pc y < Published"
  shows "x = y \<and> tested x s"
proof -
  note at_work = assms(5,7)[unfolded phase_between]
  obtain b where run: "system_run Fb pw pm F n m a bytes rnd b"
    and C: "carried F (setup_spec F n m (atoi a) rnd) rnd pc (settle pc s) b"
    using statement_carried[OF assms(1,2)] .
  note S = run_inv(1)[OF run]
  have busy: "busy pc x" "busy pc y" using at_work by (simp_all add: busy_def)
  have h: "here x b" "here y b" "tested x b" using C busy by (auto simp: carried_def)
  have l: "z = Main \<or> lane_of z = Some i" if "in_lane i z" for z using that by (cases z) auto
  have "x = y" using l[OF assms(4)] l[OF assms(6)] one_busy[OF S C] busy by fastforce
  moreover have "here x (settle pc s)"
    using here_core[of "settle pc s" b] C h(1) rest_core unfolding carried_def by blast
  then have "tested x s"
    using carried_tested[OF S C] h(3) settle_tested[of pc x s] at_work(1) by auto
  ultimately show ?thesis by blast
qed

theorem lane_exclusive_witness:
  "\<exists>s pc. demo_statements pc s \<and> pc (Send 0) = Tested \<and>
     (\<forall>y. in_lane 0 y \<and> Idle < pc y \<and> pc y < Published \<longrightarrow> Send 0 = y \<and> tested (Send 0) s)"
proof -
  obtain s where s: "demo_statements (resting(Send 0 := Tested)) s" "demo_good s" "ps_completed_iter (cl_ps s) = 0"
    using demo_sending by blast
  have l: "0 < lanes s" using s(2) by (simp add: demo_good_def)
  let ?pc = "resting(Send 0 := Tested)"
  have "Send 0 = y \<and> tested (Send 0) s" if "in_lane 0 y" "Idle < ?pc y \<and> ?pc y < Published" for y
    by (rule lane_exclusive[OF s(1) _ l _ _ that]) (use s(3) in \<open>simp_all add: phase_between\<close>)
  with s(1) fun_upd_same[of resting "Send 0" Tested] show ?thesis by blast
qed

text \<open>
  C7: A thread that found its guard true can do its work. However the threads are interleaved,
  before the last iteration is published, no copy of a thread that passed its guard reads or writes
  outside of a block, a message or a buffer, no block id is out of range and no pointer is null,
  provided that the lane's pair of blocks fits the buffers and the worker has memory for a message.
\<close>

theorem work_never_fails:
  assumes "statement_run Fb pw pm F n m a bytes rnd pc s" and "ps_completed_iter (cl_ps s) < 1199"
    and "pc x = Tested"
    and "\<forall>i<lanes s. lane_fits (setup_spec F n m (atoi a) rnd i) \<and>
       room_for_message (setup_spec F n m (atoi a) rnd i) (cl_wk s i)"
  shows "\<exists>s'. work F rnd x s = Inr s'"
proof -
  let ?Ls = "setup_spec F n m (atoi a) rnd"
  obtain b where run: "system_run Fb pw pm F n m a bytes rnd b"
    and C: "carried F ?Ls rnd pc (settle pc s) b"
    using statement_carried[OF assms(1,2)] .
  note S = run_inv(1)[OF run]
  have h: "here x b" "tested x b" and busy: "busy pc x" using C assms(3) by (auto simp: carried_def busy_def)
  have core: "core_eq (settle pc s) b" "core_eq b (settle pc s)"
    using C rest_core eq_sym(2) unfolding carried_def by blast+
  have ln: "lanes b = lanes s" using core_lanes[OF core(2)] by simp
  show ?thesis
  proof (cases "lane_of x")
    case None
    then show ?thesis using h(1) by (cases x) (auto simp: here_def)
  next
    case (Some i)
    then have i: "i < lanes b" using h(1) by (simp add: here_def)
    have "pc y \<noteq> Worked" if "lane_of y = Some i" for y
      using one_busy[OF S C busy Some, of y] that assms(3) by (auto simp: busy_def)
    moreover obtain c where "lane_eq ?Ls i (settle pc s) c" "lane_mid F rnd pc i b c"
      using C i by (auto simp: carried_def)
    ultimately have e: "lane_eq ?Ls i b (settle pc s)" by (auto simp: lane_mid_def intro: eq_sym(1))
    then have hp: "wk_heap (cl_wk b i) = wk_heap (cl_wk s i)" by (simp add: lane_eq_def settle_def)
    have "\<exists>t. work F (\<lambda>i. ls_rnd (?Ls i)) x b = Inr t"
    proof (rule work_enabled[OF S h])
      show "lane_fits (?Ls j)" if "j < lanes b" for j using assms(4) that ln by simp
      show "room_for_message (?Ls j) (cl_wk b j)" if "x = Wrecv j" for j
        using assms(4) i ln hp that Some by (simp add: room_for_message_def)
    qed
    then obtain t where "work F rnd x b = Inr t" unfolding run_inv(4)[OF run] by blast
    from work_again[OF this Some _ e core(2)] system_fit(2)[OF S i, of x] h(2)
    show ?thesis using work_unsettled[of F rnd x pc s] assms(3) by blast
  qed
qed

theorem work_never_fails_witness:
  "\<exists>s s'. demo_statements (resting(Send 0 := Tested)) s \<and> work demo_fp demo_rnd (Send 0) s = Inr s'"
proof -
  obtain s where s: "demo_statements (resting(Send 0 := Tested)) s" "demo_good s" "ps_completed_iter (cl_ps s) = 0"
    "recved_age (cl_wk s 0) = - 1"
    using demo_sending by blast
  have "\<forall>i<lanes s. lane_fits (setup_spec demo_fp 1 1 (atoi ''1'') demo_rnd i) \<and>
     room_for_message (setup_spec demo_fp 1 1 (atoi ''1'') demo_rnd i) (cl_wk s i)"
    using s(2,4) demo_fits by (simp add: demo_good_def atoi_one demo_Ls_def)
  from work_never_fails[OF s(1) _ _ this, of "Send 0"] s(1,3) show ?thesis by auto
qed

section \<open>The arrays after whole copies\<close>

text \<open>
  Where a copy out of a message is one step, both arrays of a block hold the reference of the rounds
  counted, and of one more while a copied result is not yet counted; \<open>Copy_Halves\<close> looks between
  the two blocks of a message.
\<close>

lemma statements_hold_reference:
  assumes "statement_run Fb pw pm F n m a bytes rnd pc s" and "ps_completed_iter (cl_ps s) < 1199"
    and "int i < atoi a"
  shows "let k = nat (recved_iter (cl_ps s) i + 1 + (if pc (Recv i) = Worked then 1 else 0));
             (xs, ys) = lane_ref F (setup_spec F n m (atoi a) rnd i) k in
     h_arr (ps_heap (cl_ps s)) (eles (Pblocks (cl_ps s) i)) = Some xs \<and>
     h_arr (ps_heap (cl_ps s)) (eles (Qblocks (cl_ps s) i)) = Some ys"
proof -
  obtain b where run: "system_run Fb pw pm F n m a bytes rnd b"
    and C: "carried F (setup_spec F n m (atoi a) rnd) rnd pc (settle pc s) b"
    using statement_carried[OF assms(1,2)] .
  have i: "i < lanes b" using run_inv(2)[OF run] assms(3) by simp
  from carried_arrays[OF run_inv(1,3)[OF run] i, unfolded run_inv(4)[OF run], OF C]
  show ?thesis by (simp add: arrays_at_def settle_def Let_def split_beta)
qed

end
