(* ===== verification/Statement_Work.thy ===== *)
theory Statement_Work
  imports Statement_Runs
begin

text \<open>
  Runs of statements are finite apart from waiting, and the server ends only after all results of 1199
  rounds, at whatever statement the other threads are then.
\<close>

section \<open>Counting statements\<close>

text \<open>
  A pass is four statements. Three of them are not steps of the system, and are paid for by the one that
  is: a thread has a credit by its phase.
\<close>

fun credit :: "phase \<Rightarrow> int" where
  "credit Idle = 0"
| "credit Tested = 1"
| "credit Worked = 2"
| "credit Published = - 1"

definition threads :: "nat \<Rightarrow> agent set" where
  "threads n = insert Main (\<Union>i<n. {Send i, Recv i, Compute i, Wsend i, Wrecv i})"

definition credits :: "nat \<Rightarrow> (agent \<Rightarrow> phase) \<Rightarrow> int" where
  "credits n pc = (\<Sum>x\<in>threads n. credit (pc x))"

lemma finite_threads: "finite (threads n)"
  by (simp add: threads_def)

lemma card_threads: "card (threads n) \<le> 5 * n + 1"
proof -
  have "card (\<Union>i<n. {Send i, Recv i, Compute i, Wsend i, Wrecv i}) \<le> (\<Sum>i<n. card {Send i, Recv i, Compute i, Wsend i, Wrecv i})"
    by (rule card_UN_le) simp
  also have "\<dots> = 5 * n" by simp
  finally show ?thesis by (simp add: threads_def card_insert_if)
qed

lemma here_thread: "here x s \<Longrightarrow> x \<in> threads (lanes s)"
  by (cases x) (auto simp: here_def threads_def)

lemma credits_update: "x \<in> threads n \<Longrightarrow> credits n (pc(x := q)) = credits n pc - credit (pc x) + credit q"
  by (simp add: credits_def sum.remove[OF finite_threads] del: fun_upd_apply) (simp add: sum.remove[OF finite_threads, of x])

lemma credits_le: "credits n pc \<le> 2 * (5 * int n + 1)"
proof -
  have "credit p \<le> 2" for p by (cases p) simp_all
  then have "credits n pc \<le> (\<Sum>x\<in>threads n. 2)" unfolding credits_def by (intro sum_mono)
  also have "\<dots> = 2 * int (card (threads n))" by simp
  also have "\<dots> \<le> 2 * (5 * int n + 1)" using of_nat_mono[OF card_threads[of n], where 'a = int] by simp
  finally show ?thesis .
qed

lemma credits_resting: "credits n resting = 0"
  by (simp add: credits_def)

lemma statements_work:
  assumes run: "system_run Fb pw pm F n m W bytes rnd s0"
  shows "(statement_step Fb F rnd ^^ k) (resting, s0) (pc, s) \<Longrightarrow> ps_completed_iter (cl_ps s) < 1199 \<Longrightarrow>
    \<exists>a. system_run Fb pw pm F n m W bytes rnd a \<and> carried F (setup_spec F n m (atoi W) rnd) rnd pc (settle pc s) a \<and>
      int k \<le> 4 * (cluster_work a - cluster_work s0) + credits (nat (atoi W)) pc"
proof (induction k arbitrary: pc s)
  case 0
  then have "pc = resting" "s = s0" by auto
  moreover have "carried F (setup_spec F n m (atoi W) rnd) rnd resting s0 s0" by (rule carried_rest) (simp add: busy_def)
  ultimately show ?case using run by (intro exI[of _ s0]) (simp add: settle_idle credits_resting)
next
  case (Suc k)
  obtain pc1 s1 where k: "(statement_step Fb F rnd ^^ k) (resting, s0) (pc1, s1)"
    and st: "statement_step Fb F rnd (pc1, s1) (pc, s)"
    using Suc.prems(1) by auto
  have "ps_completed_iter (cl_ps s0) \<le> ps_iter_t (cl_ps s0)"
    using run_inv(1)[OF run] by (simp add: system_inv_def cluster_inv_def)
  then have "ps_completed_iter (cl_ps s1) \<le> ps_completed_iter (cl_ps s)"
    using statements_counters[OF relpowp_imp_rtranclp[OF k]] statement_counters[OF st] by simp
  with Suc.IH[OF k] Suc.prems(2) obtain a where a: "system_run Fb pw pm F n m W bytes rnd a"
    and C: "carried F (setup_spec F n m (atoi W) rnd) rnd pc1 (settle pc1 s1) a"
    and w: "int k \<le> 4 * (cluster_work a - cluster_work s0) + credits (nat (atoi W)) pc1" by auto
  have core: "core_eq (settle pc1 s1) a" using C rest_core by (auto simp: carried_def)
  have "lanes s1 = nat (atoi W)" using core_lanes[OF core] run_inv(2)[OF a] by simp
  then have th: "here x s1 \<Longrightarrow> x \<in> threads (nat (atoi W))" for x using here_thread by metis
  have I: "cluster_inv pw pm a" using run_inv(1)[OF a] by (simp add: system_inv_def)
  obtain a' where C': "carried F (setup_spec F n m (atoi W) rnd) rnd pc (settle pc s) a'"
    and c: "moves (cluster_step Fb F rnd) a a' \<and> (pc = pc1 \<or> (\<exists>x. here x s1 \<and> pc1 x = Worked \<and> pc = pc1(x := Published))) \<or>
     a' = a \<and> (\<exists>x. here x s1 \<and> (pc1 x, pc x) \<in> {(Idle, Tested), (Tested, Worked), (Published, Idle)} \<and> pc = pc1(x := pc x))"
    using carried_step[OF run_inv(3,1)[OF a] C st Suc.prems(2)] by blast
  from c show ?case
  proof
    assume l: "moves (cluster_step Fb F rnd) a a' \<and> (pc = pc1 \<or> (\<exists>x. here x s1 \<and> pc1 x = Worked \<and> pc = pc1(x := Published)))"
    then have "cluster_work a' = cluster_work a + 1"
      using cluster_work_step[OF run_inv(3)[OF a] I] by (auto simp: moves_def)
    moreover have "credits (nat (atoi W)) pc1 - 3 \<le> credits (nat (atoi W)) pc"
      using l th credits_update[of _ _ pc1 Published] by auto
    moreover have "system_run Fb pw pm F n m W bytes rnd a'"
      using a l unfolding system_run_def moves_def by (auto intro: rtranclp.rtrancl_into_rtrancl)
    ultimately show ?thesis using C' w by (intro exI[of _ a']) auto
  next
    assume r: "a' = a \<and> (\<exists>x. here x s1 \<and> (pc1 x, pc x) \<in> {(Idle, Tested), (Tested, Worked), (Published, Idle)} \<and> pc = pc1(x := pc x))"
    then obtain x where x: "here x s1" "(pc1 x, pc x) \<in> {(Idle, Tested), (Tested, Worked), (Published, Idle)}"
      "pc = pc1(x := pc x)" by blast
    have "credit (pc x) = credit (pc1 x) + 1" using x(2) by auto
    then have "credits (nat (atoi W)) pc = credits (nat (atoi W)) pc1 + 1"
      using credits_update[OF th[OF x(1)], of pc1 "pc x"] x(3) by simp
    then show ?thesis using C' w r a by (intro exI[of _ a]) auto
  qed
qed

section \<open>The end\<close>

lemma step_exit:
  assumes "statement_step Fb F rnd (pc, s) (pc', s')" and "cl_exit s = None" "pc Main = Published" "ps_iter_t (cl_ps s) = 1199"
  shows "recved_iter (cl_ps s) i \<le> recved_iter (cl_ps s') i \<and> ps_completed_iter (cl_ps s') = ps_completed_iter (cl_ps s) \<and>
    (cl_exit s' = None \<and> pc' Main = Published \<and> ps_iter_t (cl_ps s') = 1199 \<or>
     cl_exit s' = Some 0 \<and> ps_iter_t (cl_ps s') = 1200)"
  using assms(1)
proof (cases rule: statement_step.cases)
  case (work x)
  then show ?thesis using work_counters(2-4)[OF work(4)] work_iter[OF work(4)] assms
    by (cases x) (auto simp: set_defs result_elims)
next
  case (publish x)
  then show ?thesis using assms by (cases x) (auto simp: set_defs)
next
  case (finish x)
  then show ?thesis using assms by (cases x) (auto simp: set_defs)
qed (use assms in \<open>auto simp: set_defs\<close>)

lemma step_after_exit:
  assumes "statement_step Fb F rnd (pc, s) (pc', s')" and "cl_exit s = Some c"
  shows "cl_ps s' = cl_ps s \<and> cl_exit s' = Some c"
  using assms(1)
proof (cases rule: statement_step.cases)
  case (work x)
  then show ?thesis using assms(2) by (cases x) (auto simp: set_defs result_elims here_def)
next
  case (publish x)
  then show ?thesis using assms(2) by (cases x) (auto simp: set_defs here_def)
next
  case (finish x)
  then show ?thesis using assms(2) by (cases x) (auto simp: set_defs here_def)
qed (use assms(2) in \<open>auto simp: set_defs here_def\<close>)

lemma step_iter:
  assumes "statement_step Fb F rnd (pc, s) (pc', s')"
  shows "ps_iter_t (cl_ps s) \<le> ps_iter_t (cl_ps s')"
  using assms
proof (cases rule: statement_step.cases)
  case (work x)
  then show ?thesis using work_counters(4)[OF work(4)] by simp
next
  case (publish x)
  then show ?thesis by (cases x) (auto simp: set_defs)
next
  case (finish x)
  then show ?thesis by (cases x) (auto simp: set_defs)
qed (auto simp: set_defs)

text \<open>The main thread can publish its last iteration only after the results of all workers.\<close>

lemma last_publication:
  assumes R: "system_run Fb pw pm F n m W bytes rnd a"
    and C: "carried F (setup_spec F n m (atoi W) rnd) rnd pc (settle pc s) a"
    and st: "statement_step Fb F rnd (pc, s) (pc', s')"
    and c: "ps_completed_iter (cl_ps s) < 1199" "1199 \<le> ps_completed_iter (cl_ps s')"
  shows "ps_completed_iter (cl_ps s') = 1199 \<and> cl_exit s' = None \<and> pc' Main = Published \<and>
    ps_iter_t (cl_ps s') = 1199 \<and> (\<forall>i<nat (atoi W). 1198 \<le> recved_iter (cl_ps s') i)"
proof -
  note S = run_inv(1)[OF R]
  have p: "here Main s \<and> pc Main = Worked \<and> pc' = pc(Main := Published) \<and> s' = publish Main s"
    using st
  proof (cases rule: statement_step.cases)
    case (work x)
    then show ?thesis using work_counters(3)[OF work(4)] c by simp
  next
    case (publish x)
    then show ?thesis using c by (cases x) (auto simp: set_defs)
  next
    case (finish x)
    then show ?thesis using c by (cases x) (auto simp: set_defs)
  qed (use c in \<open>auto simp: set_defs\<close>)
  then have b: "busy pc Main" by (simp add: busy_def)
  have e: "settle pc s = a" using main_done[OF S C b] .
  have f: "ps_iter_t (cl_ps a) = ps_iter_t (cl_ps s)" "ps_completed_iter (cl_ps a) = ps_completed_iter (cl_ps s)"
    "recved_iter (cl_ps a) = recved_iter (cl_ps s)" "lanes a = lanes s"
    using p by (simp_all add: settle_def lanes_def flip: e)
  have "ps_iter_t (cl_ps a) = ps_completed_iter (cl_ps a) + 1"
    using S by (simp add: system_inv_def cluster_inv_def)
  then have it: "ps_iter_t (cl_ps s) = 1199" using c p f(1,2) by simp
  have "tested Main a" using C b by (auto simp: carried_def)
  from tested_ready[OF this] have "\<forall>i<nat (atoi W). 1198 \<le> recved_iter (cl_ps s) i"
    using it f run_inv(2)[OF R] by auto
  then show ?thesis using p it by (simp add: here_def)
qed

definition at_end :: "nat \<Rightarrow> (agent \<Rightarrow> phase) \<Rightarrow> 'w cluster \<Rightarrow> bool" where
  "at_end n pc s \<longleftrightarrow> ps_completed_iter (cl_ps s) = 1199 \<and> (\<forall>i<n. 1198 \<le> recved_iter (cl_ps s) i) \<and>
     (cl_exit s = None \<and> pc Main = Published \<and> ps_iter_t (cl_ps s) = 1199 \<or>
      cl_exit s = Some 0 \<and> ps_iter_t (cl_ps s) = 1200)"

lemma at_end_step:
  assumes "at_end n pc s" and st: "statement_step Fb F rnd (pc, s) (pc', s')"
  shows "at_end n pc' s'"
proof (cases "cl_exit s")
  case None
  have r: "recved_iter (cl_ps s) i \<le> recved_iter (cl_ps s') i" for i
    using step_exit[OF st None, of i] assms(1) None by (simp add: at_end_def)
  show ?thesis
    using step_exit[OF st None] assms(1) None r by (auto simp: at_end_def intro: order_trans)
next
  case (Some c)
  then show ?thesis using step_after_exit[OF st Some] assms(1) by (simp add: at_end_def)
qed

lemma run_end:
  assumes run: "statement_run Fb pw pm F n m W bytes rnd pc s"
  shows "0 \<le> ps_iter_t (cl_ps s) \<and>
    (ps_completed_iter (cl_ps s) < 1199 \<and> cl_exit s = None \<and> ps_iter_t (cl_ps s) \<le> 1199 \<or> at_end (nat (atoi W)) pc s)"
proof -
  obtain s0 where s0: "deployed pw pm F n m W bytes s0" "(statement_step Fb F rnd)\<^sup>*\<^sup>* (resting, s0) (pc, s)"
    using run unfolding statement_run_def by blast
  have running: "cl_exit s' = None \<and> ps_iter_t (cl_ps s') \<le> 1199"
    if r: "statement_run Fb pw pm F n m W bytes rnd pc' s'" and c: "ps_completed_iter (cl_ps s') < 1199" for pc' s'
  proof -
    obtain a where a: "system_run Fb pw pm F n m W bytes rnd a"
      "carried F (setup_spec F n m (atoi W) rnd) rnd pc' (settle pc' s') a" using statement_carried[OF r c] .
    have core: "core_eq (settle pc' s') a" using a(2) rest_core by (auto simp: carried_def)
    then have e: "cl_exit s' = cl_exit a" "ps_iter_t (cl_ps s') + lag (pc' Main) = ps_iter_t (cl_ps a)"
      "ps_completed_iter (cl_ps s') = ps_completed_iter (cl_ps a)" by (simp_all add: core_eq_def settle_def)
    have "ps_iter_t (cl_ps a) = ps_completed_iter (cl_ps a) + 1"
      "cl_exit a = None \<or> ps_iter_t (cl_ps a) = 1200"
      using run_inv(1)[OF a(1)] by (auto simp: system_inv_def cluster_inv_def)
    moreover have "0 \<le> lag (pc' Main)" by (simp add: lag_def)
    ultimately show ?thesis using e c by auto
  qed
  have base: "system_run Fb pw pm F n m W bytes rnd s0"
    using run s0(1) unfolding statement_run_def system_run_def by blast
  have i0: "ps_completed_iter (cl_ps s0) \<le> ps_iter_t (cl_ps s0)" "0 \<le> ps_iter_t (cl_ps s0)"
    "ps_completed_iter (cl_ps s0) < 1199 \<or> cl_exit s0 = Some 0"
    using run_inv(1)[OF base] by (auto simp: system_inv_def cluster_inv_def)
  have x0: "cl_exit s0 = None" using s0(1) by (simp add: deployed_def)
  have runs: "statement_run Fb pw pm F n m W bytes rnd pc' s'"
    if "(statement_step Fb F rnd)\<^sup>*\<^sup>* (resting, s0) (pc', s')" for pc' s'
    using run s0(1) that unfolding statement_run_def by blast
  let ?P = "\<lambda>pc s. 0 \<le> ps_iter_t (cl_ps s) \<and>
    (ps_completed_iter (cl_ps s) < 1199 \<and> cl_exit s = None \<and> ps_iter_t (cl_ps s) \<le> 1199 \<or> at_end (nat (atoi W)) pc s)"
  show ?thesis
    using s0(2)
  proof (induction rule: rtranclp_induct2)
    case refl
    then show ?case using i0 x0 running[OF runs[OF rtranclp.rtrancl_refl]] by auto
  next
    case (step pc1 s1 pc2 s2)
    have it: "0 \<le> ps_iter_t (cl_ps s2)" using step_iter[OF step.hyps(2)] step.IH by linarith
    from step.IH consider (before) "ps_completed_iter (cl_ps s1) < 1199" | (final) "at_end (nat (atoi W)) pc1 s1" by blast
    then show ?case
    proof cases
      case before
      obtain a where a: "system_run Fb pw pm F n m W bytes rnd a"
        "carried F (setup_spec F n m (atoi W) rnd) rnd pc1 (settle pc1 s1) a"
        using statement_carried[OF runs[OF step.hyps(1)] before] .
      show ?thesis
      proof (cases "ps_completed_iter (cl_ps s2) < 1199")
        case True
        have "(statement_step Fb F rnd)\<^sup>*\<^sup>* (resting, s0) (pc2, s2)" using step.hyps by (rule rtranclp.rtrancl_into_rtrancl)
        then show ?thesis using running[OF runs True] it True by blast
      next
        case False
        then show ?thesis using last_publication[OF a step.hyps(2) before] it by (simp add: at_end_def)
      qed
    next
      case final
      then show ?thesis using at_end_step[OF _ step.hyps(2)] it by blast
    qed
  qed
qed

section \<open>Properties\<close>

text \<open>The first round of the deployment of \<open>Loopback\<close>, as a run of statements.\<close>

lemma demo_statement_round:
  "\<exists>s0 k s. deployed fst snd demo_fp 1 1 ''1'' 2000 s0 \<and> lanes s0 = 1 \<and>
     (statement_step loop_fabric demo_fp demo_rnd ^^ k) (resting, s0) (resting, s) \<and>
     demo_statements resting s \<and> recved_iter (cl_ps s) 0 = 0 \<and> ps_completed_iter (cl_ps s) = 0 \<and> cl_exit s = None"
proof -
  obtain s where r: "system_run loop_fabric fst snd demo_fp 1 1 ''1'' 2000 demo_rnd s" and g: "demo_good s"
    and v: "view s = ((1, 0, 1), (CPosted, True, 1, 1, False), (0, 1, 1), (CPosted, True, 1, 1, False))"
    using demo_run demo_hyps unfolding system_run_def by blast
  have c: "ps_completed_iter (cl_ps s) = 0" "recved_iter (cl_ps s) 0 = 0" "cl_exit s = None"
    using v demo_lane(8)[OF g] g by (simp_all add: view_def demo_good_def)
  have st: "demo_statements resting s" using run_statements[OF r] c by simp
  then obtain s0 where s0: "deployed fst snd demo_fp 1 1 ''1'' 2000 s0"
    "(statement_step loop_fabric demo_fp demo_rnd)\<^sup>*\<^sup>* (resting, s0) (resting, s)"
    unfolding statement_run_def by blast
  from rtranclp_imp_relpowp[OF s0(2)] obtain k where
    "(statement_step loop_fabric demo_fp demo_rnd ^^ k) (resting, s0) (resting, s)" by blast
  with s0(1) st c deployed_cluster_start(2)[OF s0(1)] show ?thesis by blast
qed

text \<open>
  C13: Apart from waiting every run is finite, statement by statement too. Whatever the order, a deployed
  system with \<open>w\<close> workers makes at most \<open>4802 + 91218 * w\<close> statements and transport steps before its
  last iteration is published, and each pass is four statements: nothing but the sleeping loops can
  keep it from going on.
\<close>

theorem statements_bounded:
  assumes "rc_fabric Fb pw pm" and "setup_ok n m K_dim (atoi a) bytes" and "no_empty_block n m (atoi a)"
    and "\<forall>i j. 0 \<le> rnd i j" and "deployed pw pm F n m a bytes s0"
    and "(statement_step Fb F rnd ^^ k) (\<lambda>_. Idle, s0) (pc, s)" and "ps_completed_iter (cl_ps s) < 1199"
  shows "int k \<le> 4802 + 91218 * int (lanes s0)"
proof -
  have run: "system_run Fb pw pm F n m a bytes rnd s0"
    using assms(1-5) unfolding system_run_def by blast
  from statements_work[OF run assms(6,7)] obtain b where b: "system_run Fb pw pm F n m a bytes rnd b"
    and k: "int k \<le> 4 * (cluster_work b - cluster_work s0) + credits (nat (atoi a)) pc" by blast
  have "cluster_inv pw pm b" using run_inv(1)[OF b] by (simp add: system_inv_def)
  from cluster_work_le[OF this] have w: "cluster_work b \<le> 1200 + 22800 * int (lanes b)" .
  have "cluster_start pw pm s0"
    using deployed_start[OF assms(2-5)] by (simp add: system_start_def)
  from cluster_work_start[OF this] have s: "cluster_work s0 = - 2 * int (lanes s0)" .
  have "lanes b = lanes s0" "nat (atoi a) = lanes s0" using run_inv(2) run b by metis+
  then show ?thesis using k w s credits_le[of "lanes s0" pc] by simp
qed

theorem statements_bounded_witness:
  "\<exists>s0 k s. deployed fst snd demo_fp 1 1 ''1'' 2000 s0 \<and>
     (statement_step loop_fabric demo_fp demo_rnd ^^ k) (\<lambda>_. Idle, s0) (\<lambda>_. Idle, s) \<and>
     recved_iter (cl_ps s) 0 = 0 \<and> k \<le> 96020"
proof -
  obtain s0 k s where s: "deployed fst snd demo_fp 1 1 ''1'' 2000 s0" "lanes s0 = 1"
    "(statement_step loop_fabric demo_fp demo_rnd ^^ k) (resting, s0) (resting, s)"
    "recved_iter (cl_ps s) 0 = 0" "ps_completed_iter (cl_ps s) = 0"
    using demo_statement_round by blast
  from statements_bounded[OF demo_hyps s(1,3)] s show ?thesis
    by (intro exI[of _ s0] exI[of _ k] exI[of _ s]) simp
qed

text \<open>
  C8: The server ends when it should, whatever its other threads are doing. In every state of every
  run of statements either the process runs and its iteration is between 0 and 1199, or it has left
  with exit code 0 at iteration 1200, and then it has counted the results of at least 1199 rounds from
  every worker. This covers the moment between the last store of \<open>main\<close> and its call of \<open>exit\<close>.
\<close>

theorem statements_end:
  assumes "statement_run Fb pw pm F n m a bytes rnd pc s"
  shows "cl_exit s = None \<and> 0 \<le> ps_iter_t (cl_ps s) \<and> ps_iter_t (cl_ps s) < 1200 \<or>
    cl_exit s = Some 0 \<and> ps_iter_t (cl_ps s) = 1200 \<and>
      (\<forall>i. int i < atoi a \<longrightarrow> 1199 \<le> recved_iter (cl_ps s) i + 1)"
  using run_end[OF assms] by (auto simp: at_end_def)

theorem statements_end_witness:
  "\<exists>s. demo_statements (\<lambda>_. Idle) s \<and> recved_iter (cl_ps s) 0 = 0 \<and> cl_exit s = None \<and>
     0 \<le> ps_iter_t (cl_ps s) \<and> ps_iter_t (cl_ps s) < 1200"
proof -
  obtain s where s: "demo_statements resting s" "recved_iter (cl_ps s) 0 = 0" "cl_exit s = None"
    using demo_statement_round by blast
  with statements_end[OF s(1)] show ?thesis by (intro exI[of _ s]) auto
qed

end
