(* ===== verification/Copy_Halves.thy ===== *)
theory Copy_Halves
  imports Statement_Runs
begin

text \<open>
  Between the two blocks of a message. The server's receiving thread copies the \<open>P\<close> block of a message
  and then the \<open>Q\<close> block; here these are two steps, and any step of another thread or of the network may
  come in between. Such a run is followed by a run of \<open>Statements\<close> that makes the whole copy at the
  second of the two steps.
\<close>

section \<open>Runs of half copies\<close>

text \<open>
  The program counters and the state as before. For each receiving thread there is \<open>None\<close>, or the value of
  its local \<open>p_total\<close> when the \<open>P\<close> block of the message is copied and the \<open>Q\<close> block is not.
\<close>

type_synonym 'w halves = "(agent \<Rightarrow> phase) \<times> (nat \<Rightarrow> nat option) \<times> 'w cluster"

inductive half_step ::
    "'w fabric \<Rightarrow> fp \<Rightarrow> (nat \<Rightarrow> nat \<Rightarrow> int) \<Rightarrow> 'w halves \<Rightarrow> 'w halves \<Rightarrow> bool" for Fb F rnd where
  whole:
    "statement_step Fb F rnd (pc, s) (pc', s') \<Longrightarrow>
     (\<forall>i. \<not> (pc (Recv i) = Tested \<and> pc' (Recv i) = Worked)) \<Longrightarrow>
     half_step Fb F rnd (pc, H, s) (pc', H, s')"
| copy_P:
    "here (Recv i) s \<Longrightarrow> pc (Recv i) = Tested \<Longrightarrow> H i = None \<Longrightarrow>
     ps_recv_P (cl_ps s) (lk_sv (cl_up s i)) = Inr (st, p_total) \<Longrightarrow>
     half_step Fb F rnd (pc, H, s) (pc, H(i \<mapsto> p_total), s\<lparr>cl_ps := st\<rparr>)"
| copy_Q:
    "here (Recv i) s \<Longrightarrow> pc (Recv i) = Tested \<Longrightarrow> H i = Some p_total \<Longrightarrow>
     ps_recv_Q p_total (cl_ps s) (lk_sv (cl_up s i)) = Inr (st, c) \<Longrightarrow>
     half_step Fb F rnd (pc, H, s)
       (pc(Recv i := Worked), H(i := None), set_up i ((cl_up s i)\<lparr>lk_sv := c\<rparr>) (s\<lparr>cl_ps := st\<rparr>))"

definition half_run ::
    "'w fabric \<Rightarrow> ('w \<Rightarrow> send_wr list) \<Rightarrow> ('w \<Rightarrow> send_wr list) \<Rightarrow> fp \<Rightarrow> int \<Rightarrow> int \<Rightarrow> string \<Rightarrow> nat \<Rightarrow>
     (nat \<Rightarrow> nat \<Rightarrow> int) \<Rightarrow> 'w halves \<Rightarrow> bool" where
  "half_run Fb pw pm F n m a bytes rnd z \<longleftrightarrow>
     rc_fabric Fb pw pm \<and> setup_ok n m K_dim (atoi a) bytes \<and> no_empty_block n m (atoi a) \<and>
     (\<forall>i j. 0 \<le> rnd i j) \<and>
     (\<exists>s0. deployed pw pm F n m a bytes s0 \<and> (half_step Fb F rnd)\<^sup>*\<^sup>* (resting, \<lambda>_. None, s0) z)"

section \<open>A state with the first half done\<close>

definition message_of :: "nat \<Rightarrow> 'w cluster \<Rightarrow> (Block \<times> double list) \<times> (Block \<times> double list)" where
  "message_of i s = projr (read_blocks (sc_buffer (lk_sv (cl_up s i))))"

definition total_of :: "nat \<Rightarrow> 'w cluster \<Rightarrow> nat" where
  "total_of i s = sz_add BLOCK_SZ (sz_doubles (ele_num (fst (fst (message_of i s)))))"

definition half_done :: "nat \<Rightarrow> 'w cluster \<Rightarrow> 'w cluster" where
  "half_done i s = s\<lparr>cl_ps := ps_copied_P (fst (message_of i s)) (cl_ps s)\<rparr>"

text \<open>The state \<open>d\<close> is \<open>s\<close>, with the first half done in the lanes where \<open>H\<close> says so.\<close>

definition halved :: "(nat \<Rightarrow> lane_spec) \<Rightarrow> (nat \<Rightarrow> nat option) \<Rightarrow> 'w cluster \<Rightarrow> 'w cluster \<Rightarrow> bool" where
  "halved Ls H d s \<longleftrightarrow> rest_eq Ls (lanes s) d s \<and>
     (\<forall>i<lanes s. lane_eq Ls i d (if H i = None then s else half_done i s) \<and>
        (\<forall>t. H i = Some t \<longrightarrow> t = total_of i s))"

lemma message_fitE:
  assumes "message_fit i s"
  obtains P xs Q ys where "read_blocks (sc_buffer (lk_sv (cl_up s i))) = Inr ((P, xs), (Q, ys))"
    "message_of i s = ((P, xs), (Q, ys))" "lane_message i (cl_ps s) ((P, xs), (Q, ys))"
    "block_id P = int i" "block_id Q = int i" "sc_buf_ptr (lk_sv (cl_up s i)) \<noteq> 0"
proof -
  obtain msg where m: "read_blocks (sc_buffer (lk_sv (cl_up s i))) = Inr msg" "lane_message i (cl_ps s) msg"
    "sc_buf_ptr (lk_sv (cl_up s i)) \<noteq> 0" using assms by (auto simp: message_fit_def)
  from m(2) obtain P xs Q ys where "msg = ((P, xs), (Q, ys))" "block_id P = int i" "block_id Q = int i"
    by (rule lane_messageE)
  with m that show thesis by (simp add: message_of_def)
qed

lemma message_of_eq: "lane_eq Ls i s t \<Longrightarrow> message_of i s = message_of i t \<and> total_of i s = total_of i t"
  by (simp add: message_of_def total_of_def lane_eq_def)

lemma first_half:
  assumes f: "lane_fit Ls i s" "message_fit i s"
  shows "ps_recv_P (cl_ps s) (lk_sv (cl_up s i)) = Inr (cl_ps (half_done i s), total_of i s)"
proof -
  from f(2) obtain P xs Q ys where m: "read_blocks (sc_buffer (lk_sv (cl_up s i))) = Inr ((P, xs), (Q, ys))"
    "message_of i s = ((P, xs), (Q, ys))" "lane_message i (cl_ps s) ((P, xs), (Q, ys))"
    "block_id P = int i" "block_id Q = int i" "sc_buf_ptr (lk_sv (cl_up s i)) \<noteq> 0" by (rule message_fitE)
  from ps_recv_P_ok[OF m(6,1,4)] m(2,3) f(1) show ?thesis
    by (simp add: half_done_def total_of_def lane_fit_def lane_message_def)
qed

lemma half_lane:
  assumes "lane_eq Ls i s t" "core_eq s t" and "lane_fit Ls i s" "message_fit i s"
  shows "lane_eq Ls i (half_done i s) (half_done i t)"
proof -
  from assms(4) obtain P xs Q ys where m: "message_of i s = ((P, xs), (Q, ys))" "block_id P = int i"
    by (rule message_fitE)
  have "message_of i t = ((P, xs), (Q, ys))" using message_of_eq[OF assms(1)] m(1) by simp
  then show ?thesis
    using assms(1,3) m by (simp add: half_done_def lane_eq_def ps_copied_P_def lane_fit_def Let_def)
qed

lemma half_outside:
  assumes i: "i < n" and sp: "specs_ok Ls n" and f: "lane_fit Ls i s" "message_fit i s"
  shows "outside Ls n i (half_done i s) s"
proof -
  from f(2) obtain P xs Q ys where m: "message_of i s = ((P, xs), (Q, ys))" "block_id P = int i"
    by (rule message_fitE)
  have e: "eles (Pblocks (cl_ps s) i) = ls_p (Ls i)" using f(1) by (simp add: lane_fit_def)
  have d: "ls_p (Ls j) \<noteq> ls_p (Ls i) \<and> ls_q (Ls j) \<noteq> ls_p (Ls i)" if "j < n" "j \<noteq> i" for j
    using specs_apart[OF sp i that] by auto
  have p: "p \<noteq> ls_p (Ls i)" if "\<forall>j<n. p \<noteq> ls_p (Ls j) \<and> p \<noteq> ls_q (Ls j)" for p using that i by blast
  show ?thesis
    using i m d p unfolding outside_def rest_eq_def
    by (simp add: half_done_def core_eq_def lane_eq_def ps_copied_P_def Let_def e)
qed

text \<open>The second half, from a state where the first is done: together they are the work of the thread.\<close>

lemma second_half:
  assumes i: "i < n" and sp: "specs_ok Ls n" and f: "lane_fit Ls i s" "message_fit i s"
    and d: "lane_eq Ls i d (half_done i s)"
    and q: "ps_recv_Q (total_of i s) (cl_ps d) (lk_sv (cl_up d i)) = Inr (st, c)"
  defines "d' \<equiv> set_up i ((cl_up d i)\<lparr>lk_sv := c\<rparr>) (d\<lparr>cl_ps := st\<rparr>)"
  shows "\<exists>s'. work F rnd (Recv i) s = Inr s' \<and> lane_eq Ls i d' s' \<and> outside Ls n i d' d \<and> outside Ls n i s' s"
proof -
  from f(2) obtain P xs Q ys where m: "read_blocks (sc_buffer (lk_sv (cl_up s i))) = Inr ((P, xs), (Q, ys))"
    "message_of i s = ((P, xs), (Q, ys))" "lane_message i (cl_ps s) ((P, xs), (Q, ys))"
    "block_id P = int i" "block_id Q = int i" "sc_buf_ptr (lk_sv (cl_up s i)) \<noteq> 0" by (rule message_fitE)
  have e: "eles (Pblocks (cl_ps s) i) = ls_p (Ls i)" "eles (Qblocks (cl_ps s) i) = ls_q (Ls i)" "i < CAP"
    using f(1) by (simp_all add: lane_fit_def)
  have pq: "ls_p (Ls i) \<noteq> ls_q (Ls i)" using m(3) e by (simp add: lane_message_def)
  have copy: "ps_recv_copy (cl_ps s) (lk_sv (cl_up s i)) =
      Inr (ps_copied ((P, xs), (Q, ys)) (cl_ps s), (lk_sv (cl_up s i))\<lparr>sc_buf_prepared := False\<rparr>)"
    using m e by (intro ps_copy_ok[where p = i and q = i]) (simp_all add: lane_message_def)
  have u: "cl_up d i = cl_up s i" "Qblocks (cl_ps d) i = Qblocks (cl_ps s) i"
    "h_arr (ps_heap (cl_ps d)) (ls_q (Ls i)) = h_arr (ps_heap (cl_ps s)) (ls_q (Ls i))"
    using d m(2,4) e pq by (simp_all add: lane_eq_def half_done_def ps_copied_P_def Let_def)
  have "array_fits (ps_heap (cl_ps d)) (eles (Qblocks (cl_ps d) i)) Q"
    using m(3) u e by (simp add: lane_message_def array_fits_def)
  from ps_recv_Q_ok[OF m(1)[folded u(1)] m(5) e(3) this] q
  have st: "st = ps_copied_Q (Q, ys) (cl_ps d)" "c = (lk_sv (cl_up s i))\<lparr>sc_buf_prepared := False\<rparr>"
    by (simp_all add: total_of_def m(2) u(1))
  let ?s = "set_up i ((cl_up s i)\<lparr>lk_sv := (lk_sv (cl_up s i))\<lparr>sc_buf_prepared := False\<rparr>\<rparr>)
      (s\<lparr>cl_ps := ps_copied ((P, xs), (Q, ys)) (cl_ps s)\<rparr>)"
  have w: "work F rnd (Recv i) s = Inr ?s" using copy by simp
  have "lane_eq Ls i d' ?s"
    using d m(2,4,5) e pq u
    by (simp add: d'_def st lane_eq_def half_done_def ps_copied_halves ps_copied_P_def ps_copied_Q_def set_defs Let_def)
  moreover have "outside Ls n i ?s s"
    using eq_trans(3)[OF outside_set(3)[OF i] outside_copied[OF i sp f(1) m(4,5)]] by simp
  moreover have "outside Ls n i (d\<lparr>cl_ps := st\<rparr>) d"
  proof -
    have a: "ls_p (Ls j) \<noteq> ls_q (Ls i) \<and> ls_q (Ls j) \<noteq> ls_q (Ls i)" if "j < n" "j \<noteq> i" for j
      using specs_apart[OF sp i that] by auto
    have p: "p \<noteq> ls_q (Ls i)" if "\<forall>j<n. p \<noteq> ls_p (Ls j) \<and> p \<noteq> ls_q (Ls j)" for p using that i by blast
    show ?thesis
      using i m(5) a p u(2) unfolding outside_def rest_eq_def
      by (simp add: st core_eq_def lane_eq_def ps_copied_Q_def Let_def e)
  qed
  then have "outside Ls n i d' d" unfolding d'_def by (rule eq_trans(3)[OF outside_set(3)[OF i]])
  ultimately show ?thesis using w by blast
qed

section \<open>What the run of whole copies gives\<close>

text \<open>
  In a state of such a run: the blocks are where they belong; and where a receiving thread has found its
  guard true, a whole message is in its buffer, whose \<open>P\<close> elements are those of the next round, nothing
  is under way on the link, and no other thread of the lane is between its guard and its work.
\<close>

lemma statement_fit:
  assumes run: "statement_run Fb pw pm F n m a bytes rnd pc s" and c: "ps_completed_iter (cl_ps s) < 1199"
  defines "Ls \<equiv> setup_spec F n m (atoi a) rnd"
  shows "specs_ok Ls (lanes s)" and "lanes s = nat (atoi a)" and "i < lanes s \<Longrightarrow> lane_fit Ls i s"
    and "i < lanes s \<Longrightarrow> pc (Recv i) = Tested \<Longrightarrow> message_fit i s \<and>
      snd (fst (message_of i s)) = fst (lane_ref F (Ls i) (nat (recved_iter (cl_ps s) i + 2))) \<and>
      pw (lk_net (cl_up s i)) = [] \<and> lk_wcs (cl_up s i) = [] \<and>
      (\<forall>x. lane_of x = Some i \<and> pc x = Tested \<longrightarrow> x = Recv i)"
proof -
  obtain b where r: "system_run Fb pw pm F n m a bytes rnd b" and C: "carried F Ls rnd pc (settle pc s) b"
    using statement_carried[OF run c] unfolding Ls_def .
  note inv = run_inv[OF r, folded Ls_def]
  have core: "core_eq (settle pc s) b" "core_eq b (settle pc s)"
    using C rest_core eq_sym(2) unfolding carried_def by blast+
  have ln: "lanes b = lanes s" using core_lanes[OF core(2)] by simp
  show "specs_ok Ls (lanes s)" "lanes s = nat (atoi a)" using inv(1,2) ln by (simp_all add: system_inv_def)
  have C': "carried F Ls (\<lambda>i. ls_rnd (Ls i)) pc (settle pc s) b" using C by (simp only: inv(4))
  show "lane_fit Ls i s" if i: "i < lanes s"
  proof -
    have ib: "i < lanes b" using i ln by simp
    obtain d where d: "lane_eq Ls i (settle pc s) d" "lane_mid F (\<lambda>i. ls_rnd (Ls i)) pc i b d"
      using C' ib by (auto simp: carried_def)
    have "eles (Pblocks (cl_ps d) i) = ls_p (Ls i) \<and> eles (Qblocks (cl_ps d) i) = ls_q (Ls i)"
    proof (cases "\<forall>y. lane_of y = Some i \<longrightarrow> pc y \<noteq> Worked")
      case True
      then show ?thesis using d(2) lane_facts(8,9)[OF inv(1) ib] by (simp add: lane_mid_def)
    next
      case False
      then obtain y where y: "lane_of y = Some i" "pc y = Worked" by blast
      then have w: "work F (\<lambda>i. ls_rnd (Ls i)) y b = Inr d" using d(2) by (simp add: lane_mid_def)
      have "here y b" "tested y b" using C y(2) by (auto simp: carried_def busy_def)
      from worked_arrays(2,3)[OF inv(1) ib this y(1) w inv(3)] show ?thesis by blast
    qed
    then show ?thesis
      using d(1) core(1) lane_facts(1,6,7)[OF inv(1) ib] by (simp add: lane_fit_def lane_eq_def core_eq_def settle_def)
  qed
  assume i: "i < lanes s" and p: "pc (Recv i) = Tested"
  have ib: "i < lanes b" using i ln by simp
  have h: "tested (Recv i) b" using C p by (auto simp: carried_def busy_def)
  have alone: "x = Recv i" if "lane_of x = Some i" "busy pc x" for x
    using one_busy[OF inv(1) C that(2,1), of "Recv i"] p by (simp add: busy_def)
  then have "pc x \<noteq> Worked" if "lane_of x = Some i" for x
    using that p by (auto simp: busy_def)
  moreover obtain d where "lane_eq Ls i (settle pc s) d" "lane_mid F rnd pc i b d"
    using C ib by (auto simp: carried_def)
  ultimately have e: "lane_eq Ls i b (settle pc s)" by (auto simp: lane_mid_def intro: eq_sym(1))
  from system_message[OF inv(1) ib tested_ready[OF h]] obtain msg where
    m: "read_blocks (sc_buffer (lk_sv (cl_up b i))) = Inr msg"
    "snd (fst msg) = fst (lane_ref F (Ls i) (nat (recved_iter (cl_ps b) i + 2)))" by blast
  have u: "cl_up b i = (cl_up s i)\<lparr>lk_sv := heard (pc (Recv i)) (lk_sv (cl_up s i))\<rparr>"
    "recved_iter (cl_ps b) i = recved_iter (cl_ps s) i" using e by (simp_all add: lane_eq_def settle_def)
  have "message_fit i (settle pc s)"
    using work_fit_eq[OF _ e core(2)] system_fit(2)[OF inv(1) ib, of "Recv i"] h by (simp add: work_fit_def)
  then have "message_fit i s" by (simp add: message_fit_def lane_message_def settle_def p)
  moreover have "snd (fst (message_of i s)) = fst (lane_ref F (Ls i) (nat (recved_iter (cl_ps s) i + 2)))"
    using m u by (simp add: message_of_def p)
  moreover have "pw (lk_net (cl_up s i)) = [] \<and> lk_wcs (cl_up s i) = []"
    using ready_settled(2)[of pw pm b i] inv(1) ib tested_ready[OF h] u(1) by (simp add: system_inv_def)
  ultimately show "message_fit i s \<and>
      snd (fst (message_of i s)) = fst (lane_ref F (Ls i) (nat (recved_iter (cl_ps s) i + 2))) \<and>
      pw (lk_net (cl_up s i)) = [] \<and> lk_wcs (cl_up s i) = [] \<and>
      (\<forall>x. lane_of x = Some i \<and> pc x = Tested \<longrightarrow> x = Recv i)"
    using alone by (auto simp: busy_def)
qed

section \<open>Following a run of half copies\<close>

lemma halved_core: "halved Ls H d s \<Longrightarrow> core_eq d s"
  by (simp add: halved_def rest_eq_def)

lemma halved_lane:
  assumes "halved Ls H d s" and "i < lanes s"
  shows "lane_eq Ls i d (if H i = None then s else half_done i s)" "H i = None \<Longrightarrow> lane_eq Ls i d s"
    "H i \<noteq> None \<Longrightarrow> lane_eq Ls i d (half_done i s)" "H i = Some t \<Longrightarrow> t = total_of i s"
proof -
  show l: "lane_eq Ls i d (if H i = None then s else half_done i s)" "H i = Some t \<Longrightarrow> t = total_of i s"
    using assms by (simp_all add: halved_def)
  show "H i = None \<Longrightarrow> lane_eq Ls i d s" "H i \<noteq> None \<Longrightarrow> lane_eq Ls i d (half_done i s)"
    using l(1) by (simp_all split: if_splits)
qed

lemma halved_links:
  assumes "halved Ls H d s" and "i < lanes s"
  shows "cl_down d i = cl_down s i" "cl_up d i = cl_up s i" "recved_iter (cl_ps d) i = recved_iter (cl_ps s) i"
  using assms by (auto simp: halved_def lane_eq_def half_done_def ps_copied_P_def Let_def split_beta split: if_splits)

lemma halved_here: "halved Ls H d s \<Longrightarrow> here x d = here x s"
  using here_core[OF halved_core] .

lemma half_tested: "tested x (half_done i s) = tested x s"
  by (cases x) (simp_all add: half_done_def ps_copied_P_def Let_def split_beta)

lemma halved_tested:
  assumes h: "halved Ls H d s" and x: "here x s"
  shows "tested x d = tested x s"
proof (cases "lane_of x")
  case None
  then have "x = Main" using x by (cases x) (auto simp: here_def)
  then show ?thesis using tested_main[OF halved_core[OF h]] halved_links(3)[OF h] by blast
next
  case (Some i)
  then have i: "i < lanes s" using x by (simp add: here_def)
  have core: "core_eq d (half_done i s)"
    using halved_core[OF h] by (simp add: core_eq_def half_done_def ps_copied_P_def Let_def split_beta)
  show ?thesis
    using h i tested_lane[OF Some _ halved_core[OF h]] tested_lane[OF Some _ core]
    by (auto simp: halved_def half_tested split: if_splits)
qed

lemma half_publish:
  "half_done i (publish x s) = publish x (half_done i s)" "total_of i (publish x s) = total_of i s"
  "half_done i (finish x s) = finish x (half_done i s)" "total_of i (finish x s) = total_of i s"
  by (cases x; simp add: half_done_def total_of_def message_of_def ps_copied_P_def set_defs cluster_order Let_def
      split: prod.split)+

text \<open>A step in lane \<open>i\<close>.\<close>

lemma halved_step:
  assumes h: "halved Ls H d s" and i: "i < lanes s"
    and o: "outside Ls (lanes s) i d' d" "outside Ls (lanes s) i s' s"
    and l: "lane_eq Ls i d' (if H' i = None then s' else half_done i s')" "\<forall>t. H' i = Some t \<longrightarrow> t = total_of i s'"
    and H: "\<And>j. j \<noteq> i \<Longrightarrow> H' j = H j"
    and fit: "\<And>j. j < lanes s \<Longrightarrow> H j \<noteq> None \<Longrightarrow> lane_fit Ls j s \<and> message_fit j s"
  shows "halved Ls H' d' s'"
proof -
  have ln: "lanes s' = lanes s" using o(2) core_lanes[OF rest_core] by (auto simp: outside_def)
  have "rest_eq Ls (lanes s) d' s'"
    using h o eq_trans(2) eq_sym(2) unfolding halved_def outside_def by meson
  moreover have "lane_eq Ls j d' (if H' j = None then s' else half_done j s') \<and> (\<forall>t. H' j = Some t \<longrightarrow> t = total_of j s')"
    if j: "j < lanes s" for j
  proof (cases "j = i")
    case False
    have e: "lane_eq Ls j d' d" "lane_eq Ls j s s'" "core_eq s s'"
      using o j False eq_sym(1) eq_sym(2) rest_core unfolding outside_def by blast+
    have g: "lane_eq Ls j d (if H j = None then s else half_done j s)" "\<forall>t. H j = Some t \<longrightarrow> t = total_of j s"
      using h j by (simp_all add: halved_def)
    have "lane_eq Ls j (if H j = None then s else half_done j s) (if H j = None then s' else half_done j s')"
      using e(2) half_lane[OF e(2,3)] fit[OF j] by simp
    then show ?thesis
      using eq_trans(1)[OF e(1) eq_trans(1)[OF g(1)]] g(2) message_of_eq[OF e(2)] H[OF False] by simp
  qed (use l in auto)
  ultimately show ?thesis by (simp add: halved_def ln)
qed

text \<open>
  One step: the run of whole copies makes the same step, or waits at the first half of a copy and makes all
  of it at the second.
\<close>

lemma half_work:
  assumes run: "statement_run Fb pw pm F n m a bytes rnd pc s" and c: "ps_completed_iter (cl_ps s) < 1199"
  defines "Ls \<equiv> setup_spec F n m (atoi a) rnd"
  assumes h: "halved Ls H d s" and H: "\<And>i. H i \<noteq> None \<Longrightarrow> i < lanes s \<and> pc (Recv i) = Tested"
    and x: "here x s" "pc x = Tested" "\<And>i. x \<noteq> Recv i" and w: "work F rnd x d = Inr d'"
  shows "\<exists>s'. work F rnd x s = Inr s' \<and> halved Ls H d' s'"
proof (cases "lane_of x")
  case None
  then show ?thesis using x(1) w h by (cases x) (auto simp: here_def)
next
  case (Some i)
  then have i: "i < lanes s" using x(1) by (simp add: here_def)
  note fit = statement_fit[OF run c, folded Ls_def]
  have no: "H i = None" using H[of i] fit(4)[OF i] Some x(2,3) by blast
  then have e: "lane_eq Ls i d s" using halved_lane(2)[OF h i] by simp
  have core: "core_eq d s" using halved_core[OF h] .
  have ln: "lanes d = lanes s" using core_lanes[OF core] .
  have f: "work_fit Ls x i s" using fit(3)[OF i] x(3) by (simp add: work_fit_def)
  have core': "core_eq s d" using core by (simp add: core_eq_def)
  have f': "work_fit Ls x i d" using work_fit_eq[OF f eq_sym(1)[OF e] core'] .
  from work_again[OF w Some f' e core] obtain s' where s': "work F rnd x s = Inr s'" "lane_eq Ls i d' s'" by blast
  have "halved Ls H d' s'"
    using work_outside[OF w Some i fit(1) f'] work_outside[OF s'(1) Some i fit(1) f] s'(2) no fit(3,4) H
    by (intro halved_step[OF h i]) (auto simp del: not_None_eq)
  with s'(1) show ?thesis by blast
qed

lemma halved_publish:
  assumes h: "halved Ls H d s" and x: "here x s"
    and fit: "\<And>j. j < lanes s \<Longrightarrow> H j \<noteq> None \<Longrightarrow> lane_fit Ls j s \<and> message_fit j s"
  shows "halved Ls H (publish x d) (publish x s)" and "halved Ls H (finish x d) (finish x s)"
proof -
  have "halved Ls H (publish x d) (publish x s) \<and> halved Ls H (finish x d) (finish x s)"
  proof (cases "lane_of x")
    case None
    then have m: "x = Main" using x by (cases x) (auto simp: here_def)
    have e: "lane_eq Ls i (publish Main d) (publish Main t) = lane_eq Ls i d t"
      "lane_eq Ls i (finish Main d) (finish Main t) = lane_eq Ls i d t" for i t
      by (simp_all add: lane_eq_def)
    have "rest_eq Ls (lanes s) (publish Main d) (publish Main s) \<and> rest_eq Ls (lanes s) (finish Main d) (finish Main s)"
      using h by (simp add: halved_def rest_eq_def core_eq_def)
    moreover have "lane_eq Ls i (publish Main d) (if H i = None then publish Main s else half_done i (publish Main s)) \<and>
        lane_eq Ls i (finish Main d) (if H i = None then finish Main s else half_done i (finish Main s))"
      if "i < lanes s" for i
      using halved_lane(1)[OF h that] unfolding half_publish
      by (cases "H i = None") (simp_all only: e if_True if_False simp_thms)
    moreover have "lanes (publish Main s) = lanes s" "lanes (finish Main s) = lanes s" by (simp_all add: lanes_def)
    moreover have "\<forall>i<lanes s. \<forall>t. H i = Some t \<longrightarrow> t = total_of i s" using h by (simp add: halved_def)
    ultimately show ?thesis unfolding m halved_def by (simp only: half_publish simp_thms) blast
  next
    case (Some i)
    then have i: "i < lanes s" using x by (simp add: here_def)
    have l: "lane_eq Ls i d (if H i = None then s else half_done i s)" "\<forall>t. H i = Some t \<longrightarrow> t = total_of i s"
      using h i by (simp_all add: halved_def)
    have "lane_eq Ls i (publish x d) (if H i = None then publish x s else half_done i (publish x s))"
      "lane_eq Ls i (finish x d) (if H i = None then finish x s else half_done i (finish x s))"
      using lane_publish[OF Some l(1)] by (auto simp: half_publish split: if_splits)
    then show ?thesis
      using l(2) outside_publish[OF Some i] fit
      by (intro conjI halved_step[OF h i]) (auto simp: half_publish simp del: not_None_eq)
  qed
  then show "halved Ls H (publish x d) (publish x s)" "halved Ls H (finish x d) (finish x s)" by blast+
qed

lemma halved_exit: "halved Ls H d s \<Longrightarrow> halved Ls H (d\<lparr>cl_exit := e\<rparr>) (s\<lparr>cl_exit := e\<rparr>)"
proof -
  have "lane_eq Ls i (d\<lparr>cl_exit := e\<rparr>) (t\<lparr>cl_exit := e\<rparr>) = lane_eq Ls i d t"
    "half_done i (s\<lparr>cl_exit := e\<rparr>) = (half_done i s)\<lparr>cl_exit := e\<rparr>" "total_of i (s\<lparr>cl_exit := e\<rparr>) = total_of i s" for i t
    by (simp_all add: lane_eq_def half_done_def total_of_def message_of_def)
  then show "halved Ls H d s \<Longrightarrow> halved Ls H (d\<lparr>cl_exit := e\<rparr>) (s\<lparr>cl_exit := e\<rparr>)"
    by (auto simp: halved_def rest_eq_def core_eq_def lanes_def split: if_splits)
qed

lemma halved_link:
  assumes h: "halved Ls H d s" and i: "i < lanes s"
    and fit: "\<And>j. j < lanes s \<Longrightarrow> H j \<noteq> None \<Longrightarrow> lane_fit Ls j s \<and> message_fit j s"
  shows "halved Ls H (set_down i l d) (set_down i l s)"
    and "H i = None \<or> sc_buffer (lk_sv l) = sc_buffer (lk_sv (cl_up s i)) \<Longrightarrow>
      halved Ls H (set_up i l d) (set_up i l s)"
proof -
  have l: "lane_eq Ls i d (if H i = None then s else half_done i s)" "\<forall>t. H i = Some t \<longrightarrow> t = total_of i s"
    using h i by (simp_all add: halved_def)
  have "half_done i (set_down i l s) = set_down i l (half_done i s)" "total_of i (set_down i l s) = total_of i s"
    by (simp_all add: half_done_def total_of_def message_of_def set_defs)
  then show "halved Ls H (set_down i l d) (set_down i l s)"
    using l outside_set(2)[OF i] fit
    by (intro halved_step[OF h i]) (auto simp: lane_eq_def set_defs simp del: not_None_eq split: if_splits)
  assume q: "H i = None \<or> sc_buffer (lk_sv l) = sc_buffer (lk_sv (cl_up s i))"
  then have "H i \<noteq> None \<Longrightarrow> half_done i (set_up i l s) = set_up i l (half_done i s) \<and> total_of i (set_up i l s) = total_of i s"
    using q by (auto simp: half_done_def total_of_def message_of_def set_defs cluster_order)
  then show "halved Ls H (set_up i l d) (set_up i l s)"
    using l outside_set(3)[OF i] fit
    by (intro halved_step[OF h i]) (auto simp: lane_eq_def set_defs simp del: not_None_eq split: if_splits)
qed

lemma work_lanes: "work F rnd x s = Inr t \<Longrightarrow> lanes t = lanes s"
  by (cases x) (auto simp: lanes_def set_defs result_elims ps_send_fill_def ps_recv_copy_unfold Let_def)

text \<open>A receiving thread is between the halves only after its guard.\<close>

definition halves_ok :: "(agent \<Rightarrow> phase) \<Rightarrow> (nat \<Rightarrow> nat option) \<Rightarrow> 'w cluster \<Rightarrow> bool" where
  "halves_ok pc H s \<longleftrightarrow> (\<forall>i. H i \<noteq> None \<longrightarrow> i < lanes s \<and> pc (Recv i) = Tested)"

lemma follow_whole:
  assumes run: "statement_run Fb pw pm F n m a bytes rnd pc s" and c: "ps_completed_iter (cl_ps s) < 1199"
  defines "Ls \<equiv> setup_spec F n m (atoi a) rnd"
  assumes h: "halved Ls H d s" and H: "halves_ok pc H s"
    and st: "statement_step Fb F rnd (pc, d) (pc', d')" "\<forall>i. \<not> (pc (Recv i) = Tested \<and> pc' (Recv i) = Worked)"
  shows "\<exists>s'. statement_step Fb F rnd (pc, s) (pc', s') \<and> halved Ls H d' s' \<and> halves_ok pc' H s'"
proof -
  note fits = statement_fit[OF run c, folded Ls_def]
  have fit: "lane_fit Ls j s \<and> message_fit j s" if "j < lanes s" "H j \<noteq> None" for j
    using fits(3,4) that H by (auto simp: halves_ok_def)
  have R: "rc_fabric Fb pw pm" using run by (simp add: statement_run_def)
  note core = halved_core[OF h]
  have ln: "lanes d = lanes s" "cl_exit d = cl_exit s" using core_lanes[OF core] core by (simp_all add: core_eq_def)
  have it: "ps_iter_t (cl_ps d) = ps_iter_t (cl_ps s)" using core by (simp add: core_eq_def)
  note here = halved_here[OF h]
  have keep: "halves_ok pc' H t" if p: "\<And>i. pc (Recv i) = Tested \<Longrightarrow> pc' (Recv i) = Tested" and l: "lanes t = lanes s" for t
    using H p l by (auto simp: halves_ok_def)
  show ?thesis
    using st(1)
  proof (cases rule: statement_step.cases)
    case (test x)
    have "statement_step Fb F rnd (pc, s) (pc(x := Tested), s)"
      using test here halved_tested[OF h] by (intro statement_step.test) auto
    then show ?thesis using test h keep[of s] by (intro exI[of _ s]) auto
  next
    case (work x)
    have x: "x \<noteq> Recv i" for i using st(2) work by auto
    have hx: "here x s" using work(2) here by simp
    have Hx: "i < lanes s \<and> pc (Recv i) = Tested" if "H i \<noteq> None" for i using H that by (simp add: halves_ok_def)
    from half_work[OF run c h[unfolded Ls_def] Hx hx work(3) x work(4)] obtain s' where
      s': "Statements.work F rnd x s = Inr s'" "halved Ls H d' s'" unfolding Ls_def by blast
    have "lanes s' = lanes s"
      using work_lanes[OF s'(1)] .
    moreover have "statement_step Fb F rnd (pc, s) (pc(x := Worked), s')"
      using hx work(3) s'(1) by (rule statement_step.work)
    moreover have "pc' (Recv i) = pc (Recv i)" for i using x[of i] work(1) by auto
    ultimately show ?thesis using work(1) s'(2) keep[of s'] by (intro exI[of _ s']) simp
  next
    case (publish x)
    have hx: "here x s" using publish(3) here by simp
    have "statement_step Fb F rnd (pc, s) (pc(x := Published), Statements.publish x s)"
      using hx publish(4) by (rule statement_step.publish)
    moreover have "lanes (Statements.publish x s) = lanes s" by (cases x) (simp_all add: lanes_def set_defs)
    moreover have "pc' (Recv i) = Tested" if "pc (Recv i) = Tested" for i
      using that publish(1,4) by (cases "Recv i = x") auto
    ultimately show ?thesis
      using publish(1,2) halved_publish(1)[OF h hx fit] keep[of "Statements.publish x s"]
      by (intro exI[of _ "Statements.publish x s"]) simp
  next
    case (finish x)
    have hx: "here x s" using finish(3) here by simp
    have "statement_step Fb F rnd (pc, s) (pc(x := Idle), Statements.finish x s)"
      using hx finish(4) finish(5) it by (intro statement_step.finish) simp_all
    moreover have "lanes (Statements.finish x s) = lanes s" by (cases x) (simp_all add: lanes_def set_defs)
    moreover have "pc' (Recv i) = Tested" if "pc (Recv i) = Tested" for i
      using that finish(1,4) by (cases "Recv i = x") auto
    ultimately show ?thesis
      using finish(1,2) halved_publish(2)[OF h hx fit] keep[of "Statements.finish x s"]
      by (intro exI[of _ "Statements.finish x s"]) simp
  next
    case exit
    have hx: "here Main s" using exit(3) here by simp
    let ?s = "(Statements.finish Main s)\<lparr>cl_exit := Some 0\<rparr>"
    have "statement_step Fb F rnd (pc, s) (pc(Main := Idle), ?s)"
      using hx exit(4) exit(5) it by (intro statement_step.exit) simp_all
    moreover have "lanes ?s = lanes s" by (simp add: lanes_def)
    ultimately show ?thesis
      using exit halved_exit[OF halved_publish(2)[OF h hx fit]] keep[of ?s]
      by (intro exI[of _ ?s]) auto
  next
    case (down i l')
    have i: "i < lanes s" "cl_exit s = None" using down ln by simp_all
    have "statement_step Fb F rnd (pc, s) (pc, set_down i l' s)"
      using i down(5) halved_links(1)[OF h i(1)] by (intro statement_step.down) simp_all
    then show ?thesis
      using down halved_link(1)[OF h i(1) fit] keep[of "set_down i l' s"]
      by (intro exI[of _ "set_down i l' s"]) (auto simp: lanes_def set_defs)
  next
    case (up i l')
    have i: "i < lanes s" "cl_exit s = None" using up ln by simp_all
    have l: "link_step Fb (cl_up s i) l'" using up(5) halved_links(2)[OF h i(1)] by simp
    have "H i = None \<or> sc_buffer (lk_sv l') = sc_buffer (lk_sv (cl_up s i))"
      using quiet_link(1)[OF R l] fits(4)[OF i(1)] H by (auto simp: halves_ok_def)
    moreover have "statement_step Fb F rnd (pc, s) (pc, set_up i l' s)"
      using i(2,1) l by (rule statement_step.up)
    ultimately show ?thesis
      using up halved_link(2)[OF h i(1) fit] keep[of "set_up i l' s"]
      by (intro exI[of _ "set_up i l' s"]) (auto simp: lanes_def set_defs)
  qed
qed

lemma follow_P:
  assumes run: "statement_run Fb pw pm F n m a bytes rnd pc s" and c: "ps_completed_iter (cl_ps s) < 1199"
  defines "Ls \<equiv> setup_spec F n m (atoi a) rnd"
  assumes h: "halved Ls H d s" and H: "halves_ok pc H s"
    and p: "here (Recv i) d" "pc (Recv i) = Tested" "H i = None"
      "ps_recv_P (cl_ps d) (lk_sv (cl_up d i)) = Inr (st, t)"
  shows "halved Ls (H(i \<mapsto> t)) (d\<lparr>cl_ps := st\<rparr>) s \<and> halves_ok pc (H(i \<mapsto> t)) s"
proof -
  note fits = statement_fit[OF run c, folded Ls_def]
  have fit: "lane_fit Ls j s \<and> message_fit j s" if "j < lanes s" "H j \<noteq> None" for j
    using fits(3,4) that H by (auto simp: halves_ok_def)
  note core = halved_core[OF h]
  have ln: "lanes d = lanes s" using core_lanes[OF core] .
  let ?d = "d\<lparr>cl_ps := st\<rparr>"
  have i: "i < lanes s" using p(1) ln by (simp add: here_def)
  have e: "lane_eq Ls i s d" using halved_lane(2)[OF h i p(3)] by (rule eq_sym(1))
  have core': "core_eq s d" using core by (simp add: core_eq_def)
  have f: "lane_fit Ls i s" "message_fit i s" using fits(3,4)[OF i] p(2) by simp_all
  have f': "lane_fit Ls i d" "message_fit i d"
    using work_fit_eq[OF _ e core', of "Recv i"] f by (simp_all add: work_fit_def)
  have d': "?d = half_done i d" "t = total_of i d"
    using first_half[OF f'] p(4) by (simp_all add: half_done_def)
  have "halved Ls (H(i \<mapsto> t)) ?d s"
  proof (rule halved_step[OF h i _ eq_refl(4)])
    show "outside Ls (lanes s) i ?d d" using half_outside[OF i fits(1) f'] d'(1) by simp
    show "lane_eq Ls i ?d (if (H(i \<mapsto> t)) i = None then s else half_done i s)"
      using eq_sym(1)[OF half_lane[OF e core' f]] d'(1) by simp
    show "\<forall>u. (H(i \<mapsto> t)) i = Some u \<longrightarrow> u = total_of i s" using d'(2) message_of_eq[OF e] by simp
  qed (use fit in simp_all)
  moreover have "halves_ok pc (H(i \<mapsto> t)) s" using H p(2) i by (simp add: halves_ok_def)
  ultimately show ?thesis by blast
qed

lemma follow_Q:
  assumes run: "statement_run Fb pw pm F n m a bytes rnd pc s" and c: "ps_completed_iter (cl_ps s) < 1199"
  defines "Ls \<equiv> setup_spec F n m (atoi a) rnd"
  assumes h: "halved Ls H d s" and H: "halves_ok pc H s"
    and p: "here (Recv i) d" "pc (Recv i) = Tested" "H i = Some t"
      "ps_recv_Q t (cl_ps d) (lk_sv (cl_up d i)) = Inr (st, c')"
  defines "d' \<equiv> set_up i ((cl_up d i)\<lparr>lk_sv := c'\<rparr>) (d\<lparr>cl_ps := st\<rparr>)"
  shows "\<exists>s'. statement_step Fb F rnd (pc, s) (pc(Recv i := Worked), s') \<and> halved Ls (H(i := None)) d' s' \<and>
     halves_ok (pc(Recv i := Worked)) (H(i := None)) s'"
proof -
  note fits = statement_fit[OF run c, folded Ls_def]
  have fit: "lane_fit Ls j s \<and> message_fit j s" if "j < lanes s" "H j \<noteq> None" for j
    using fits(3,4) that H by (auto simp: halves_ok_def)
  have hx: "here (Recv i) s" using p(1) halved_here[OF h] by simp
  then have i: "i < lanes s" by (simp add: here_def)
  have f: "lane_fit Ls i s" "message_fit i s" using fits(3,4)[OF i] p(2) by simp_all
  have e: "lane_eq Ls i d (half_done i s)" "t = total_of i s"
    using halved_lane(3,4)[OF h i] p(3) by simp_all
  from second_half[OF i fits(1) f e(1) p(4)[unfolded e(2)], of F rnd, folded d'_def] obtain s' where
    s': "work F rnd (Recv i) s = Inr s'" "lane_eq Ls i d' s'" "outside Ls (lanes s) i d' d" "outside Ls (lanes s) i s' s"
    by blast
  have "halved Ls (H(i := None)) d' s'"
    using s' fit by (intro halved_step[OF h i s'(3,4)]) simp_all
  moreover have "halves_ok (pc(Recv i := Worked)) (H(i := None)) s'"
    using H work_lanes[OF s'(1)] by (auto simp: halves_ok_def)
  moreover have "statement_step Fb F rnd (pc, s) (pc(Recv i := Worked), s')"
    using hx p(2) s'(1) by (rule statement_step.work)
  ultimately show ?thesis by blast
qed

lemma half_follow:
  assumes run: "statement_run Fb pw pm F n m a bytes rnd pc s" and c: "ps_completed_iter (cl_ps s) < 1199"
  defines "Ls \<equiv> setup_spec F n m (atoi a) rnd"
  assumes h: "halved Ls H d s" and H: "halves_ok pc H s"
    and st: "half_step Fb F rnd (pc, H, d) (pc', H', d')"
  shows "\<exists>s'. (statement_step Fb F rnd)\<^sup>=\<^sup>= (pc, s) (pc', s') \<and> halved Ls H' d' s' \<and> halves_ok pc' H' s'"
  using st
proof (cases rule: half_step.cases)
  case whole
  then show ?thesis using follow_whole[OF run c h[unfolded Ls_def] H, folded Ls_def] by blast
next
  case (copy_P i st t)
  then show ?thesis using follow_P[OF run c h[unfolded Ls_def] H, folded Ls_def] by blast
next
  case (copy_Q i t st c')
  then show ?thesis using follow_Q[OF run c h[unfolded Ls_def] H, folded Ls_def] by blast
qed

section \<open>Runs\<close>

lemma half_counters:
  assumes "half_step Fb F rnd (pc, H, d) (pc', H', d')" and "ps_completed_iter (cl_ps d) \<le> ps_iter_t (cl_ps d)"
  shows "ps_completed_iter (cl_ps d) \<le> ps_completed_iter (cl_ps d') \<and>
    ps_completed_iter (cl_ps d') \<le> ps_iter_t (cl_ps d')"
  using assms(1)
proof (cases rule: half_step.cases)
  case whole
  then show ?thesis using statement_counters[OF whole(2) assms(2)] by simp
next
  case (copy_P i st t)
  then show ?thesis using assms(2) by (auto simp: ps_recv_P_def result_elims Let_def)
next
  case (copy_Q i t st c)
  then show ?thesis using assms(2) by (auto simp: ps_recv_Q_def result_elims Let_def set_defs)
qed

lemma half_run_step:
  "half_run Fb pw pm F n m a bytes rnd z \<Longrightarrow> half_step Fb F rnd z z' \<Longrightarrow> half_run Fb pw pm F n m a bytes rnd z'"
  unfolding half_run_def by (blast intro: rtranclp.rtrancl_into_rtrancl)

text \<open>Every run of whole copies is one of half copies.\<close>

lemma statement_halves:
  assumes "statement_step Fb F rnd (pc, s) (pc', s')"
  shows "(half_step Fb F rnd)\<^sup>*\<^sup>* (pc, \<lambda>_. None, s) (pc', \<lambda>_. None, s')"
proof (cases "\<exists>i. pc (Recv i) = Tested \<and> pc' (Recv i) = Worked")
  case False
  then show ?thesis using half_step.whole[OF assms] by blast
next
  case True
  then obtain i where i: "pc (Recv i) = Tested" "pc' (Recv i) = Worked" by blast
  from assms have w: "here (Recv i) s \<and> work F rnd (Recv i) s = Inr s' \<and> pc' = pc(Recv i := Worked)"
    by (cases rule: statement_step.cases) (use i in \<open>auto split: if_splits\<close>)
  then obtain st1 t st c where p: "ps_recv_P (cl_ps s) (lk_sv (cl_up s i)) = Inr (st1, t)"
    and q: "ps_recv_Q t st1 (lk_sv (cl_up s i)) = Inr (st, c)"
    and s': "s' = set_up i ((cl_up s i)\<lparr>lk_sv := c\<rparr>) (s\<lparr>cl_ps := st\<rparr>)"
    by (auto simp: ps_recv_copy_def result_elims)
  let ?s = "s\<lparr>cl_ps := st1\<rparr>"
  let ?H = "(\<lambda>_. None)(i \<mapsto> t)"
  have h: "here (Recv i) ?s"
    using w p by (auto simp: here_def lanes_def ps_recv_P_def result_elims Let_def)
  have "half_step Fb F rnd (pc, ?H, ?s)
      (pc(Recv i := Worked), ?H(i := None), set_up i ((cl_up ?s i)\<lparr>lk_sv := c\<rparr>) (?s\<lparr>cl_ps := st\<rparr>))"
    using h i(1) q by (intro half_step.copy_Q) simp_all
  then have "half_step Fb F rnd (pc, ?H, ?s) (pc', \<lambda>_. None, s')"
    using w by (simp add: s' fun_upd_idem)
  moreover have "half_step Fb F rnd (pc, \<lambda>_. None, s) (pc, ?H, ?s)"
    using w i(1) p by (intro half_step.copy_P) simp_all
  ultimately show ?thesis by (meson converse_rtranclp_into_rtranclp rtranclp.rtrancl_refl)
qed

lemma statement_half_run:
  assumes "statement_run Fb pw pm F n m a bytes rnd pc s"
  shows "half_run Fb pw pm F n m a bytes rnd (pc, \<lambda>_. None, s)"
proof -
  obtain s0 where s0: "deployed pw pm F n m a bytes s0" "(statement_step Fb F rnd)\<^sup>*\<^sup>* (resting, s0) (pc, s)"
    using assms unfolding statement_run_def by blast
  have "(half_step Fb F rnd)\<^sup>*\<^sup>* (resting, \<lambda>_. None, s0) (pc, \<lambda>_. None, s)"
    using s0(2)
  proof (induction rule: rtranclp_induct2)
    case (step pc1 s1 pc2 s2)
    from step.IH statement_halves[OF step.hyps(2)] show ?case by (rule rtranclp_trans)
  qed simp
  then show ?thesis using assms s0(1) unfolding statement_run_def half_run_def by blast
qed

lemma half_run_follow:
  assumes run: "half_run Fb pw pm F n m a bytes rnd (pc, H, d)" and c: "ps_completed_iter (cl_ps d) < 1199"
  shows "\<exists>s. statement_run Fb pw pm F n m a bytes rnd pc s \<and> halved (setup_spec F n m (atoi a) rnd) H d s \<and>
    halves_ok pc H s"
proof -
  let ?Ls = "setup_spec F n m (atoi a) rnd"
  obtain s0 where s0: "deployed pw pm F n m a bytes s0" "(half_step Fb F rnd)\<^sup>*\<^sup>* (resting, \<lambda>_. None, s0) (pc, H, d)"
    using run unfolding half_run_def by blast
  let ?G = "\<lambda>pc H d. \<exists>s. statement_run Fb pw pm F n m a bytes rnd pc s \<and> halved ?Ls H d s \<and> halves_ok pc H s"
  let ?P = "\<lambda>z. case z of (pc, H, d) \<Rightarrow> ps_completed_iter (cl_ps d) \<le> ps_iter_t (cl_ps d) \<and>
    (ps_completed_iter (cl_ps d) < 1199 \<longrightarrow> ?G pc H d)"
  have "?P (pc, H, d)"
    using s0(2)
  proof (induction rule: rtranclp_induct)
    case base
    have "system_run Fb pw pm F n m a bytes rnd s0"
      using run s0(1) unfolding half_run_def system_run_def by blast
    then have "ps_completed_iter (cl_ps s0) \<le> ps_iter_t (cl_ps s0)"
      using run_inv(1) by (fastforce simp: system_inv_def cluster_inv_def)
    moreover have "statement_run Fb pw pm F n m a bytes rnd resting s0"
      using run s0(1) unfolding half_run_def statement_run_def by blast
    ultimately show ?case by (auto simp: halved_def halves_ok_def)
  next
    case (step y z)
    obtain pc1 H1 d1 pc2 H2 d2 where z: "y = (pc1, H1, d1)" "z = (pc2, H2, d2)" by (metis surj_pair)
    have IH: "ps_completed_iter (cl_ps d1) \<le> ps_iter_t (cl_ps d1)" "ps_completed_iter (cl_ps d1) < 1199 \<longrightarrow> ?G pc1 H1 d1"
      using step.IH z by simp_all
    note mono = half_counters[OF step.hyps(2)[unfolded z] IH(1)]
    have "?G pc2 H2 d2" if n: "ps_completed_iter (cl_ps d2) < 1199"
    proof -
      obtain s where s: "statement_run Fb pw pm F n m a bytes rnd pc1 s" "halved ?Ls H1 d1 s" "halves_ok pc1 H1 s"
        using IH(2) mono n by auto
      have "ps_completed_iter (cl_ps s) < 1199"
        using halved_core[OF s(2)] mono n by (simp add: core_eq_def)
      from half_follow[OF s(1) this s(2,3) step.hyps(2)[unfolded z]] obtain s' where
        s': "(statement_step Fb F rnd)\<^sup>=\<^sup>= (pc1, s) (pc2, s')" "halved ?Ls H2 d2 s'" "halves_ok pc2 H2 s'" by blast
      have "statement_run Fb pw pm F n m a bytes rnd pc2 s'"
        using s(1) s'(1) statement_run_step by auto
      with s'(2,3) show ?thesis by blast
    qed
    with mono show ?case by (simp add: z)
  qed
  with c show ?thesis by simp
qed

section \<open>Properties\<close>

text \<open>In the deployment of \<open>Loopback\<close> the receiving thread has copied the \<open>P\<close> block of the first answer.\<close>

lemma demo_half:
  "\<exists>s t. half_run loop_fabric fst snd demo_fp 1 1 ''1'' 2000 demo_rnd
      (resting(Recv 0 := Tested), (\<lambda>_. None)(0 \<mapsto> t), s) \<and>
     recved_iter (cl_ps s) 0 = - 1 \<and> ps_completed_iter (cl_ps s) = 0"
proof -
  obtain s u where s: "demo_statements (resting(Recv 0 := Tested)) s" "here (Recv 0) s"
    "work demo_fp demo_rnd (Recv 0) s = Inr u" "recved_iter (cl_ps s) 0 = - 1" "ps_completed_iter (cl_ps s) = 0"
    using demo_receiving by blast
  from s(3) obtain st t where p: "ps_recv_P (cl_ps s) (lk_sv (cl_up s 0)) = Inr (st, t)"
    by (auto simp: ps_recv_copy_def result_elims)
  have "recved_iter st 0 = - 1" "ps_completed_iter st = 0"
    using p s(4,5) by (auto simp: ps_recv_P_def result_elims Let_def)
  then show ?thesis
    using half_run_step[OF statement_half_run[OF s(1)] half_step.copy_P[OF s(2) _ _ p]]
    by (intro exI[of _ "s\<lparr>cl_ps := st\<rparr>"] exI[of _ t]) simp
qed

text \<open>
  C6: The server's arrays after every copy. The runs are those of single statements, in which the
  receiving thread's copy of a message is two steps more: the header and elements of the \<open>P\<close> block are
  copied, then those of the \<open>Q\<close> block, and other threads and the network step in between. In every state
  before the last iteration is published the \<open>P\<close> array of block \<open>i\<close> holds the reference of as many rounds
  as the server has counted results of worker \<open>i\<close>, and of one more from the copy of a \<open>P\<close> block until
  its result is counted; the \<open>Q\<close> array likewise, from the copy of the \<open>Q\<close> block on. Between the two
  copies \<open>P\<close> is one round ahead of \<open>Q\<close>. Sending, computing and everything done for other workers leave
  them alone. The elements of one block are copied in one step.
\<close>

theorem halves_hold_reference:
  assumes "half_run Fb pw pm F n m a bytes rnd (pc, H, s)" and "ps_completed_iter (cl_ps s) < 1199"
    and "int i < atoi a"
  shows "let k = recved_iter (cl_ps s) i + 1; L = setup_spec F n m (atoi a) rnd i;
             kP = nat (if H i \<noteq> None \<or> pc (Recv i) = Worked then k + 1 else k);
             kQ = nat (if pc (Recv i) = Worked then k + 1 else k) in
     h_arr (ps_heap (cl_ps s)) (eles (Pblocks (cl_ps s) i)) = Some (fst (lane_ref F L kP)) \<and>
     h_arr (ps_heap (cl_ps s)) (eles (Qblocks (cl_ps s) i)) = Some (snd (lane_ref F L kQ))"
proof -
  let ?Ls = "setup_spec F n m (atoi a) rnd"
  from half_run_follow[OF assms(1,2)] obtain u where u: "statement_run Fb pw pm F n m a bytes rnd pc u"
    "halved ?Ls H s u" "halves_ok pc H u" by blast
  have c: "ps_completed_iter (cl_ps u) < 1199" using halved_core[OF u(2)] assms(2) by (simp add: core_eq_def)
  note fit = statement_fit[OF u(1) c]
  have i: "i < lanes u" using assms(3) fit(2) by simp
  have f: "eles (Pblocks (cl_ps u) i) = ls_p (?Ls i)" "eles (Qblocks (cl_ps u) i) = ls_q (?Ls i)"
    using fit(3)[OF i] by (simp_all add: lane_fit_def)
  have arr: "h_arr (ps_heap (cl_ps u)) (ls_p (?Ls i)) = Some (fst (lane_ref F (?Ls i)
        (nat (recved_iter (cl_ps u) i + 1 + (if pc (Recv i) = Worked then 1 else 0)))))"
    "h_arr (ps_heap (cl_ps u)) (ls_q (?Ls i)) = Some (snd (lane_ref F (?Ls i)
        (nat (recved_iter (cl_ps u) i + 1 + (if pc (Recv i) = Worked then 1 else 0)))))"
    using statements_hold_reference[OF u(1) c assms(3)] f by (simp_all add: Let_def split_beta)
  have r: "recved_iter (cl_ps s) i = recved_iter (cl_ps u) i" using halved_links(3)[OF u(2) i] .
  show ?thesis
  proof (cases "H i = None")
    case True
    then have "lane_eq ?Ls i s u" using halved_lane(2)[OF u(2) i] by simp
    then show ?thesis using True arr f r by (simp add: lane_eq_def Let_def)
  next
    case False
    then have p: "pc (Recv i) = Tested" using u(3) by (simp add: halves_ok_def)
    have m: "message_fit i u" "snd (fst (message_of i u)) = fst (lane_ref F (?Ls i) (nat (recved_iter (cl_ps u) i + 2)))"
      using fit(4)[OF i p] by blast+
    from m(1) obtain P xs Q ys where b: "message_of i u = ((P, xs), (Q, ys))" "block_id P = int i"
      "lane_message i (cl_ps u) ((P, xs), (Q, ys))" by (rule message_fitE)
    have "ls_p (?Ls i) \<noteq> ls_q (?Ls i)" using b(3) f by (simp add: lane_message_def)
    then show ?thesis
      using halved_lane(3)[OF u(2) i False] False p arr f r b m(2)
      by (simp add: lane_eq_def half_done_def ps_copied_P_def ps_store_header_def Let_def add.commute[of 2])
  qed
qed

theorem halves_hold_reference_witness:
  "\<exists>s t. half_run loop_fabric fst snd demo_fp 1 1 ''1'' 2000 demo_rnd
      (resting(Recv 0 := Tested), (\<lambda>_. None)(0 \<mapsto> t), s) \<and>
     h_arr (ps_heap (cl_ps s)) (eles (Pblocks (cl_ps s) 0)) =
       Some (fst (lane_ref demo_fp (setup_spec demo_fp 1 1 1 demo_rnd 0) 1)) \<and>
     h_arr (ps_heap (cl_ps s)) (eles (Qblocks (cl_ps s) 0)) =
       Some (snd (lane_ref demo_fp (setup_spec demo_fp 1 1 1 demo_rnd 0) 0))"
proof -
  obtain s t where s: "half_run loop_fabric fst snd demo_fp 1 1 ''1'' 2000 demo_rnd
      (resting(Recv 0 := Tested), (\<lambda>_. None)(0 \<mapsto> t), s)"
    "recved_iter (cl_ps s) 0 = - 1" "ps_completed_iter (cl_ps s) = 0" using demo_half by blast
  from halves_hold_reference[OF s(1), of 0] s show ?thesis
    by (intro exI[of _ s] exI[of _ t]) (simp add: atoi_one Let_def)
qed

end
