(* ===== verification/Test_Runs.thy ===== *)
theory Test_Runs
  imports Loopback
begin

text \<open>
  A run of \<open>test_send.cpp\<close> and \<open>test_recv.cpp\<close> on the network of \<open>Loopback\<close>, step by step, in which
  the receiver prints a message that was not the one posted.
\<close>

definition demo_test :: "loop_world test_sys" where
  "demo_test = \<lparr>t_link = demo_link\<lparr>lk_cl := demo_cl\<lparr>cc_buf_len := 100\<rparr>\<rparr>, t_send = 0, t_read = 0, t_out = []\<rparr>"

lemma demo_test_start: "test_start fst snd demo_test"
  using demo_link_start by (simp add: test_start_def demo_test_def link_start_def demo_link_def demo_cl_def)

text \<open>
  The run of the two programs that shows the race: the message is filled with one letter and posted,
  the completion thread counts it, the sender fills the buffer with the next letter, and only then
  the adapter carries the write out.
\<close>

lemma demo_test_run:
  fixes letters :: "int \<Rightarrow> mem \<Rightarrow> mem"
  defines "letters k m \<equiv> put_bytes m 0 (replicate 100 (test_letter k))"
  shows "\<exists>t. (test_step loop_fabric)\<^sup>*\<^sup>* demo_test t \<and> t_send t = 2 \<and>
     t_out t = [replicate 100 (test_letter 1)]"
proof -
  let ?A = "letters 0 (\<lambda>_. 0)" and ?B = "letters 1 (letters 0 (\<lambda>_. 0))"
  define c1 where "c1 = demo_cl\<lparr>cc_buf_len := 100, cc_msg := sc_msg demo_sv, peer_addr := word_of_nat 4096, peer_rkey := 2\<rparr>"
  define wr where "wr = write_request 1 100 c1 (Some demo_mr)"
  define l1 where "l1 = demo_link\<lparr>lk_cl := c1, lk_cpc := CSpin, lk_net := ([], [])\<rparr>"
  define l2 where "l2 = l1\<lparr>lk_cl := c1\<lparr>cc_buffer := ?A, can_send := True\<rparr>\<rparr>"
  define l3 where "l3 = l2\<lparr>lk_cl := c1\<lparr>cc_buffer := ?A, can_send := True, cc_buf_prepared := False\<rparr>, lk_cpc := CPosted, lk_net := ([wr], [])\<rparr>"
  define l4 where "l4 = l3\<lparr>lk_cl := c1\<lparr>cc_buffer := ?A, can_send := False, cc_buf_prepared := False\<rparr>, lk_cpc := CCleared\<rparr>"
  define l5 where "l5 = l4\<lparr>lk_cl := c1\<lparr>cc_buffer := ?A, can_send := False, cc_buf_prepared := False, buf_write_counter := 1\<rparr>, lk_cpc := CIdle\<rparr>"
  define l6 where "l6 = l5\<lparr>lk_cl := c1\<lparr>cc_buffer := ?B, can_send := True, cc_buf_prepared := False, buf_write_counter := 1\<rparr>\<rparr>"
  define l7 where "l7 = l6\<lparr>lk_sv := demo_sv\<lparr>sc_buffer := put_bytes (\<lambda>_. 0) 0 (get_bytes ?B 0 100)\<rparr>, lk_wcs := [imm_wc 2 wr], lk_net := ([], [])\<rparr>"
  define l8 where "l8 = l7\<lparr>lk_sv := demo_sv\<lparr>sc_buffer := put_bytes (\<lambda>_. 0) 0 (get_bytes ?B 0 100), sc_buf_len := 100, buf_recv_counter := 1\<rparr>, lk_wcs := [], lk_spc := SSpin False\<rparr>"
  define l9 where "l9 = l8\<lparr>lk_sv := demo_sv\<lparr>sc_buffer := put_bytes (\<lambda>_. 0) 0 (get_bytes ?B 0 100), sc_buf_len := 100, buf_recv_counter := 1, can_recv := True\<rparr>\<rparr>"
  note defs = demo_link_def demo_cl_def demo_sv_def zero_client_context_def zero_conn_context_def loop_fabric_def
    c1_def l1_def l2_def l3_def l4_def l5_def l6_def l7_def l8_def l9_def
  let ?R = "test_step loop_fabric"
  let ?T = "\<lambda>l k r out. \<lparr>t_link = l, t_send = k, t_read = r, t_out = out\<rparr>"
  have s1: "?R demo_test (?T l1 0 0 [])"
  proof -
    have "link_step loop_fabric (t_link demo_test) ((t_link demo_test)\<lparr>lk_cl := c1,
        lk_cpc := (if Spin = Spin then CSpin else CIdle), lk_net := ([], [])\<rparr>)"
      by (rule link_step.msg_arrives)
        (auto simp: demo_test_def defs client_on_completion_enter_def recv_wc_def msg_ids)
    from test_link[OF this] show ?thesis by (simp add: demo_test_def l1_def)
  qed
  have sender: "?R (?T l k 0 []) (?T (l\<lparr>lk_cl := (lk_cl l)\<lparr>cc_buffer := letters k (cc_buffer (lk_cl l)), can_send := True\<rparr>\<rparr>) (k + 1) 0 [])"
    if "k \<le> buf_write_counter (lk_cl l)" "cc_buf_len (lk_cl l) = 100" "cc_buf_registered (lk_cl l)" "cc_buf_ptr (lk_cl l) \<noteq> 0" for l k
    using test_sender[of "?T l k 0 []" "k + 1" "(lk_cl l)\<lparr>cc_buffer := letters k (cc_buffer (lk_cl l)), can_send := True\<rparr>" loop_fabric] that
    by (simp add: test_send_pass_def buf_put_def BUFFER_SIZE_def letters_def)
  have s2: "?R (?T l1 0 0 []) (?T l2 1 0 [])" using sender[of 0 l1] by (simp add: defs)
  have link: "?R (?T l k 0 []) (?T l' k 0 [])" if "link_step loop_fabric l l'" for l l' k
    using test_link[of loop_fabric "?T l k 0 []" l'] that by simp
  have s3: "link_step loop_fabric l2 l3"
    using link_step.write_posted[of l2 loop_fabric "lk_cl l3" "([wr], [])"]
    by (simp add: defs wr_def client_on_completion_send_def client_send_next_chunk_def client_write_remote_def
        TEST_NZ_def ok_reply_def write_request_def zero_send_wr_def)
  have s4: "link_step loop_fabric l3 l4"
    using link_step.flag_cleared[of l3 loop_fabric] by (simp add: defs client_on_completion_clear_def)
  have s5: "link_step loop_fabric l4 l5"
    using link_step.write_counted[of l4 loop_fabric "lk_cl l5" "([wr], [])"]
    by (simp add: defs client_on_completion_finish_def client_post_receive_def TEST_NZ_def ok_reply_def)
  have s6: "?R (?T l5 1 0 []) (?T l6 2 0 [])" using sender[of 1 l5] by (simp add: defs)
  have s7: "link_step loop_fabric l6 l7"
    using link_step.write_lands[of loop_fabric l6 wr "([], [])" demo_mr]
    by (simp add: defs wr_def write_request_def zero_send_wr_def)
  have s8: "link_step loop_fabric l7 l8"
    using link_step.write_received[of l7 "imm_wc 2 wr" "[]" loop_fabric "Some False" "lk_sv l8" "([], [])"]
    by (simp add: defs imm_wc_def wr_def write_request_def zero_send_wr_def server_on_completion_enter_def
        server_post_receive_def TEST_NZ_def ok_reply_def)
  have g: "get_bytes (put_bytes (\<lambda>_. 0) 0 (get_bytes ?B 0 100)) 0 100 = replicate 100 (test_letter 1)"
    by (simp add: get_put_same letters_def)
  have s9: "?R (?T l8 2 0 []) (?T l9 2 1 [replicate 100 (test_letter 1)])"
    using test_receiver[of "?T l8 2 0 []" 1 "lk_sv l9" "Some (replicate 100 (test_letter 1))" loop_fabric] g
    by (simp add: defs test_recv_pass_def buf_get_def BUFFER_SIZE_def)
  note more = converse_rtranclp_into_rtranclp[where r = ?R]
  have "?R\<^sup>*\<^sup>* demo_test (?T l9 2 1 [replicate 100 (test_letter 1)])"
    by (rule more, rule s1, rule more, rule s2, rule more, rule link, rule s3, rule more, rule link, rule s4,
        rule more, rule link, rule s5, rule more, rule s6, rule more, rule link, rule s7, rule more,
        rule link, rule s8, rule more, rule s9, rule rtranclp.rtrancl_refl)
  then show ?thesis by (intro exI[of _ "?T l9 2 1 [replicate 100 (test_letter 1)]"]) simp
qed

end
