(* ===== verification/Poll_Loops.thy ===== *)
theory Poll_Loops
  imports Two_Sided_Client Two_Sided_Server
begin

text \<open>
  The completion threads as they are written: \<open>client_poll_cq\<close> and \<open>server_poll_cq\<close> with their local
  variable \<open>wc\<close>, around the handlers of \<open>Two_Sided_Client\<close> and \<open>Two_Sided_Server\<close>. \<open>Link\<close> runs the
  handlers in pieces, on completions without errors; here a completion may carry an error status and
  \<open>ibv_poll_cq\<close> itself may fail. The flag of a result is \<open>False\<close> when a handler spins and the thread
  goes on only after another thread has run.
\<close>

text \<open>What \<open>wc\<close> holds after a poll that stored \<open>new\<close>.\<close>

definition polled_wc :: "ibv_wc \<Rightarrow> ibv_wc list \<Rightarrow> ibv_wc" where
  "polled_wc wc new = (case new of [] \<Rightarrow> wc | c # cs \<Rightarrow> c)"

section \<open>The client\<close>

text \<open>\<open>while (ibv_poll_cq(cq, 1, &wc))\<close>: a negative result is true as well.\<close>

partial_function (option) client_drain ::
    "'w verbs \<Rightarrow> nat \<Rightarrow> ibv_wc \<Rightarrow> client_context \<Rightarrow> 'w \<Rightarrow>
       (bool \<times> ibv_wc \<times> client_context \<times> 'w) result option" where
  "client_drain V cq wc ctx w =
     (let (r, w1) = V (Poll_cq cq 1) w; wc' = polled_wc wc (r_wcs r) in
      if r_code r = 0 then Some (Inr (True, wc, ctx, w1))
      else if wc_status wc' = 0 then
        (case client_on_completion V wc' ctx w1 of
           Inl e \<Rightarrow> Some (Inl e)
         | Inr (ret, ctx', w2) \<Rightarrow>
             if ret then client_drain V cq wc' ctx' w2 else Some (Inr (False, wc', ctx', w2)))
      else client_drain V cq wc' ctx w1)"

partial_function (option) client_poll_cq ::
    "'w verbs \<Rightarrow> nat \<Rightarrow> ibv_wc \<Rightarrow> client_context \<Rightarrow> 'w \<Rightarrow>
       (bool \<times> ibv_wc \<times> client_context \<times> 'w) result option" where
  "client_poll_cq V ch wc ctx w =
     (case TEST_NZ V (Get_cq_event ch) w of
        Inl e \<Rightarrow> Some (Inl e)
      | Inr (r1, w1) \<Rightarrow>
          let cq = r_handle r1; (r2, w2) = V (Ack_cq_events cq 1) w1 in
          (case TEST_NZ V (Req_notify_cq cq) w2 of
             Inl e \<Rightarrow> Some (Inl e)
           | Inr (r3, w3) \<Rightarrow>
               (case client_drain V cq wc ctx w3 of
                  None \<Rightarrow> None
                | Some (Inl e) \<Rightarrow> Some (Inl e)
                | Some (Inr (ret, wc', ctx', w4)) \<Rightarrow>
                    if ret then client_poll_cq V ch wc' ctx' w4
                    else Some (Inr (False, wc', ctx', w4)))))"

section \<open>The server\<close>

partial_function (option) server_drain ::
    "'w verbs \<Rightarrow> nat \<Rightarrow> ibv_wc \<Rightarrow> conn_context \<Rightarrow> 'w \<Rightarrow>
       (bool \<times> ibv_wc \<times> conn_context \<times> 'w) result option" where
  "server_drain V cq wc ctx w =
     (let (r, w1) = V (Poll_cq cq 1) w; wc' = polled_wc wc (r_wcs r) in
      if r_code r = 0 then Some (Inr (True, wc, ctx, w1))
      else if wc_status wc' = 0 then
        (case server_on_completion V wc' ctx w1 of
           Inl e \<Rightarrow> Some (Inl e)
         | Inr (ret, ctx', w2) \<Rightarrow>
             if ret then server_drain V cq wc' ctx' w2 else Some (Inr (False, wc', ctx', w2)))
      else Some (rc_die ''poll_cq: status is not IBV_WC_SUCCESS''))"

partial_function (option) server_poll_cq ::
    "'w verbs \<Rightarrow> nat \<Rightarrow> ibv_wc \<Rightarrow> conn_context \<Rightarrow> 'w \<Rightarrow>
       (bool \<times> ibv_wc \<times> conn_context \<times> 'w) result option" where
  "server_poll_cq V ch wc ctx w =
     (case TEST_NZ V (Get_cq_event ch) w of
        Inl e \<Rightarrow> Some (Inl e)
      | Inr (r1, w1) \<Rightarrow>
          let cq = r_handle r1; (r2, w2) = V (Ack_cq_events cq 1) w1 in
          (case TEST_NZ V (Req_notify_cq cq) w2 of
             Inl e \<Rightarrow> Some (Inl e)
           | Inr (r3, w3) \<Rightarrow>
               (case server_drain V cq wc ctx w3 of
                  None \<Rightarrow> None
                | Some (Inl e) \<Rightarrow> Some (Inl e)
                | Some (Inr (ret, wc', ctx', w4)) \<Rightarrow>
                    if ret then server_poll_cq V ch wc' ctx' w4
                    else Some (Inr (False, wc', ctx', w4)))))"

section \<open>The inner loops over the delivered completions\<close>

text \<open>The library \<open>V\<close> with a completion queue in front of it, which polling empties in order.\<close>

definition poll_reply :: "ibv_wc list \<Rightarrow> reply" where
  "poll_reply cs = \<lparr>r_code = int (length cs), r_errno = 0, r_handle = 0,
     r_mr = \<lparr>mr_addr = 0, mr_length = 0, mr_lkey = 0, mr_rkey = 0\<rparr>,
     r_event = \<lparr>ev_event = RDMA_CM_EVENT_OTHER 0, ev_id = 0, ev_verbs = 0, ev_status = 0\<rparr>, r_wcs = cs\<rparr>"

fun with_queue :: "'w verbs \<Rightarrow> ('w \<times> ibv_wc list) verbs" where
  "with_queue V (Poll_cq cq n) (w, q) = (poll_reply (take n q), (w, drop n q))"
| "with_queue V c (w, q) = (fst (V c w), (snd (V c w), q))"

definition beside :: "'q \<Rightarrow> ('b \<times> 'c \<times> 'w) result \<Rightarrow> ('b \<times> 'c \<times> 'w \<times> 'q) result" where
  "beside q m = bindr m (\<lambda>(b, c, w). Inr (b, c, w, q))"

lemma beside_simps [simp]:
  "beside q (Inl e) = Inl e" "beside q (Inr (b, c, w)) = Inr (b, c, w, q)"
  by (simp_all add: beside_def)

lemma queue_NZ:
  "(\<And>cq n. c \<noteq> Poll_cq cq n) \<Longrightarrow> TEST_NZ (with_queue V) c (w, q) =
     bindr (TEST_NZ V c w) (\<lambda>x. Inr (fst x, (snd x, q)))"
  by (cases c) (auto simp: TEST_NZ_def rc_die_def split_beta)

text \<open>The queue stays beside what a handler does, since no handler polls.\<close>

lemmas beside_rules = queue_NZ bindr_assoc split_beta

lemma client_post_beside:
  "client_post_receive (with_queue V) cid ctx (w, q) = bindr (client_post_receive V cid ctx w) (\<lambda>w'. Inr (w', q))"
  by (simp add: client_post_receive_def beside_rules split: option.split)

lemma client_chunk_beside:
  "client_send_next_chunk (with_queue V) cid ctx (w, q) =
     bindr (client_send_next_chunk V cid ctx w) (\<lambda>x. Inr (fst x, (snd x, q)))"
  by (simp add: client_send_next_chunk_def client_write_remote_def beside_rules)

lemma client_enter_beside:
  "client_on_completion_enter (with_queue V) wc ctx (w, q) =
     bindr (client_on_completion_enter V wc ctx w) (\<lambda>x. Inr (fst x, fst (snd x), (snd (snd x), q)))"
  by (simp add: client_on_completion_enter_def client_post_beside rc_disconnect_def Let_def bindr_assoc)

lemma client_finish_beside:
  "client_on_completion_finish (with_queue V) cid ctx (w, q) =
     bindr (client_on_completion_finish V cid ctx w) (\<lambda>x. Inr (fst x, (snd x, q)))"
  by (simp add: client_on_completion_finish_def client_post_beside Let_def bindr_assoc)

lemma client_completion_beside:
  "client_on_completion (with_queue V) wc ctx (w, q) = beside q (client_on_completion V wc ctx w)"
  unfolding client_on_completion_def client_enter_beside beside_def bindr_assoc
  by (rule bindr_cong)
    (auto simp: client_chunk_beside client_finish_beside client_on_completion_send_def bindr_assoc split_beta
      split: client_next.split)

lemma server_send_beside:
  "server_send_message (with_queue V) cid ctx (w, q) = bindr (server_send_message V cid ctx w) (\<lambda>w'. Inr (w', q))"
  by (simp add: server_send_message_def beside_rules split: option.split)

lemma server_enter_beside:
  "server_on_completion_enter (with_queue V) wc ctx (w, q) =
     bindr (server_on_completion_enter V wc ctx w) (\<lambda>x. Inr (fst x, fst (snd x), (snd (snd x), q)))"
  by (simp add: server_on_completion_enter_def server_post_receive_def beside_rules Let_def)

lemma server_reply_beside:
  "server_on_completion_reply (with_queue V) cid z ctx (w, q) =
     bindr (server_on_completion_reply V cid z ctx w) (\<lambda>x. Inr (fst x, (snd x, q)))"
  by (simp add: server_on_completion_reply_def server_send_beside Let_def bindr_assoc)

lemma server_completion_beside:
  "server_on_completion (with_queue V) wc ctx (w, q) = beside q (server_on_completion V wc ctx w)"
  unfolding server_on_completion_def server_enter_beside beside_def bindr_assoc
  by (rule bindr_cong)
    (auto simp: server_reply_beside bindr_assoc split_beta split: option.split)

text \<open>A handler applied to one completion after the other, until it faults or spins.\<close>

fun handle_each ::
    "(ibv_wc \<Rightarrow> 'c \<Rightarrow> 'w \<Rightarrow> (bool \<times> 'c \<times> 'w) result) \<Rightarrow> ibv_wc list \<Rightarrow> 'c \<Rightarrow> 'w \<Rightarrow> (bool \<times> 'c \<times> 'w) result" where
  "handle_each h [] ctx w = Inr (True, ctx, w)"
| "handle_each h (wc # wcs) ctx w =
     bindr (h wc ctx w) (\<lambda>(ret, ctx', w'). if ret then handle_each h wcs ctx' w' else Inr (False, ctx', w'))"

lemma client_drain_list:
  "\<exists>wc' q'. client_drain (with_queue V) cq wc ctx (w, q) =
     Some (bindr (handle_each (client_on_completion V) (filter (\<lambda>x. wc_status x = 0) q) ctx w) (\<lambda>(b, c, w'). Inr (b, wc', c, w', q')))"
proof (induction q arbitrary: wc ctx w)
  case Nil
  show ?case by (subst client_drain.simps) (simp add: poll_reply_def)
next
  case (Cons x xs)
  show ?case
  proof (cases "wc_status x = 0")
    case False
    then show ?thesis
      using Cons.IH[of x ctx w] by (subst client_drain.simps) (simp add: poll_reply_def polled_wc_def)
  next
    case True
    show ?thesis
    proof (cases "client_on_completion V x ctx w")
      case (Inl e)
      then show ?thesis using True
        by (subst client_drain.simps) (simp add: poll_reply_def polled_wc_def client_completion_beside)
    next
      case (Inr y)
      obtain b c w' where y: "y = (b, c, w')" by (cases y)
      show ?thesis using True Inr y Cons.IH[of x c w']
        by (subst client_drain.simps) (auto simp: poll_reply_def polled_wc_def client_completion_beside)
    qed
  qed
qed

lemma server_drain_list:
  "\<exists>wc' q'. server_drain (with_queue V) cq wc ctx (w, q) =
     Some (bindr (handle_each (server_on_completion V) (takeWhile (\<lambda>x. wc_status x = 0) q) ctx w) (\<lambda>(b, c, w').
       if b \<and> list_ex (\<lambda>x. wc_status x \<noteq> 0) q then Inl (Died ''poll_cq: status is not IBV_WC_SUCCESS'')
       else Inr (b, wc', c, w', q')))"
proof (induction q arbitrary: wc ctx w)
  case Nil
  show ?case by (subst server_drain.simps) (simp add: poll_reply_def)
next
  case (Cons x xs)
  show ?case
  proof (cases "wc_status x = 0")
    case False
    then show ?thesis
      by (subst server_drain.simps) (simp add: poll_reply_def polled_wc_def rc_die_def)
  next
    case True
    show ?thesis
    proof (cases "server_on_completion V x ctx w")
      case (Inl e)
      then show ?thesis using True
        by (subst server_drain.simps) (simp add: poll_reply_def polled_wc_def server_completion_beside)
    next
      case (Inr y)
      obtain b c w' where y: "y = (b, c, w')" by (cases y)
      show ?thesis using True Inr y Cons.IH[of x c w']
        by (subst server_drain.simps) (auto simp: poll_reply_def polled_wc_def server_completion_beside)
    qed
  qed
qed

section \<open>Properties\<close>

text \<open>
  C28: What becomes of a failed completion. On a queue whose polls deliver the completions \<open>q\<close> one at a
  time, in their order, and then nothing, both polling loops return. The client's handles the good
  completions, each once and in order, and drops the failed ones without a trace, so that a write that
  failed is never repeated. The server's handles the completions before the first failed one and then
  ends the process; it returns to wait for the next event only if none failed. A handler that spins or
  faults stops the loop where it is.
\<close>

theorem failed_completions:
  "(\<exists>wc' q'. client_drain (with_queue V) cq wc ctx (w, q) =
      Some (bindr (handle_each (client_on_completion V) (filter (\<lambda>x. wc_status x = 0) q) ctx w)
        (\<lambda>(b, c, w'). Inr (b, wc', c, w', q')))) \<and>
   (\<exists>wc' q'. server_drain (with_queue V) cq wc sctx (w, q) =
      Some (bindr (handle_each (server_on_completion V) (takeWhile (\<lambda>x. wc_status x = 0) q) sctx w) (\<lambda>(b, c, w').
        if b \<and> list_ex (\<lambda>x. wc_status x \<noteq> 0) q then Inl (Died ''poll_cq: status is not IBV_WC_SUCCESS'')
        else Inr (b, wc', c, w', q'))))"
  by (intro conjI client_drain_list server_drain_list)

text \<open>A handler that has nothing to do leaves context and world alone.\<close>

lemma client_idle:
  "wc_status wc \<noteq> 0 \<or> \<not> opcode_recv_bit (wc_opcode wc) \<Longrightarrow>
   wc_status wc = 0 \<Longrightarrow> client_on_completion V wc ctx w = Inr (True, ctx, w)"
  by (simp add: client_on_completion_def client_on_completion_enter_def)

lemma client_drain_error:
  assumes "client_drain V cq wc ctx w = Some x"
    and err: "\<forall>w. r_code (fst (V (Poll_cq cq 1) w)) < 0 \<and> r_wcs (fst (V (Poll_cq cq 1) w)) = []"
    and idle: "wc_status wc \<noteq> 0 \<or> \<not> opcode_recv_bit (wc_opcode wc)"
  shows False
proof -
  let ?P = "\<lambda>V cq wc ctx w x.
    (\<forall>w. r_code (fst (V (Poll_cq cq 1) w)) < 0 \<and> r_wcs (fst (V (Poll_cq cq 1) w)) = []) \<longrightarrow>
    \<not> (wc_status wc \<noteq> 0 \<or> \<not> opcode_recv_bit (wc_opcode wc))"
  have "?P V cq wc ctx w x"
  proof (rule client_drain.raw_induct[OF _ assms(1), of ?P], rule impI)
    fix f :: "'a verbs \<Rightarrow> nat \<Rightarrow> ibv_wc \<Rightarrow> client_context \<Rightarrow> 'a \<Rightarrow> (bool \<times> ibv_wc \<times> client_context \<times> 'a) result option"
      and V cq wc ctx w x
    assume IH: "\<And>V cq wc ctx w y. f V cq wc ctx w = Some y \<Longrightarrow> ?P V cq wc ctx w y"
      and r: "(let (r, w1) = V (Poll_cq cq 1) w; wc' = polled_wc wc (r_wcs r) in
        if r_code r = 0 then Some (Inr (True, wc, ctx, w1))
        else if wc_status wc' = 0 then
          (case client_on_completion V wc' ctx w1 of Inl e \<Rightarrow> Some (Inl e)
           | Inr (ret, ctx', w2) \<Rightarrow> if ret then f V cq wc' ctx' w2 else Some (Inr (False, wc', ctx', w2)))
        else f V cq wc' ctx w1) = Some x"
      and e: "\<forall>w. r_code (fst (V (Poll_cq cq 1) w)) < 0 \<and> r_wcs (fst (V (Poll_cq cq 1) w)) = []"
    let ?w = "snd (V (Poll_cq cq 1) w)"
    have "\<not> (wc_status wc \<noteq> 0 \<or> \<not> opcode_recv_bit (wc_opcode wc))"
      if i: "wc_status wc \<noteq> 0 \<or> \<not> opcode_recv_bit (wc_opcode wc)"
    proof -
      have "f V cq wc ctx ?w = Some x"
        using r e[rule_format, of w] client_idle[OF i, of V ctx ?w]
        by (auto simp: polled_wc_def Let_def split_beta split: if_splits)
      from IH[OF this] e show ?thesis by blast
    qed
    then show "\<not> (wc_status wc \<noteq> 0 \<or> \<not> opcode_recv_bit (wc_opcode wc))" by blast
  qed
  with err idle show False by blast
qed

text \<open>
  C39: A negative result of \<open>ibv_poll_cq\<close> counts as true. Once the adapter answers with errors only, a
  client thread whose last completion was no good receive (of a write, or with an error status) polls
  for ever and never waits for an event again.
\<close>

theorem poll_error_spins:
  assumes err: "\<forall>w. r_code (fst (V (Poll_cq cq 1) w)) < 0 \<and> r_wcs (fst (V (Poll_cq cq 1) w)) = []"
    and idle: "wc_status wc \<noteq> 0 \<or> \<not> opcode_recv_bit (wc_opcode wc)"
  shows "client_drain V cq wc ctx w = None"
proof (cases "client_drain V cq wc ctx w")
  case (Some x)
  then have False using err idle by (rule client_drain_error)
  then show ?thesis ..
qed

theorem poll_error_spins_witness:
  "client_drain (\<lambda>c (n :: nat). ((poll_reply [])\<lparr>r_code := - 5\<rparr>, n)) 1
     \<lparr>wc_id = 1, wc_status = 0, wc_opcode = IBV_WC_RDMA_WRITE, wc_imm = 0\<rparr> zero_client_context 0 = None"
  by (rule poll_error_spins) (simp_all add: poll_reply_def)

end
