(* ===== verification/RDMA_Common.thy ===== *)
theory RDMA_Common
  imports Verbs
begin

text \<open>
  The routines that the one-sided client and server share (\<open>rdma_common.cpp\<close>, \<open>rdma_common.h\<close>).
  They report failures by a negative result, most often \<open>-errno\<close>; the model reads \<open>errno\<close> from the
  reply of the call before it. A memory region is \<open>None\<close> for \<open>NULL\<close>, an event pointer likewise. A
  loop that may not end is a \<open>partial_function\<close>, so that not returning is the value \<open>None\<close>.
\<close>

section \<open>Constants and the exchanged attributes\<close>

definition rdma_BLOCK_SZ :: nat where "rdma_BLOCK_SZ = 25000000"
definition CQ_CAPACITY :: nat where "CQ_CAPACITY = 16"
definition MAX_SGE :: nat where "MAX_SGE = 2"
definition MAX_WR :: nat where "MAX_WR = 8"
definition DEFAULT_RDMA_PORT :: int where "DEFAULT_RDMA_PORT = 20886"

definition EINVAL :: int where "EINVAL = 22"
definition ENOMEM :: int where "ENOMEM = 12"

record rdma_buffer_attr =
  at_address :: "64 word"
  at_length :: "32 word"
  at_stag :: "32 word"

definition zero_attr :: rdma_buffer_attr where
  "zero_attr = \<lparr>at_address = 0, at_length = 0, at_stag = 0\<rparr>"

text \<open>The packed image of the structure: no padding, hence 16 bytes.\<close>

definition attr_bytes :: "rdma_buffer_attr \<Rightarrow> byte list" where
  "attr_bytes a = le_bytes 8 (at_address a) @ le_bytes 4 (at_length a) @ le_bytes 4 (at_stag a)"

definition attr_of_bytes :: "byte list \<Rightarrow> rdma_buffer_attr" where
  "attr_of_bytes bs = \<lparr>at_address = le_word (take 8 bs), at_length = le_word (take 4 (drop 8 bs)),
     at_stag = le_word (take 4 (drop 12 bs))\<rparr>"

definition ATTR_SZ :: nat where "ATTR_SZ = 16"

text \<open>The three assignments that describe a region to the peer; the length is cut to 32 bits.\<close>

definition attr_of_mr :: "ibv_mr \<Rightarrow> rdma_buffer_attr" where
  "attr_of_mr m = \<lparr>at_address = word_of_nat (mr_addr m), at_length = word_of_nat (mr_length m),
     at_stag = mr_lkey m\<rparr>"

definition sge_of_mr :: "ibv_mr \<Rightarrow> ibv_sge" where
  "sge_of_mr m = \<lparr>sge_addr = word_of_nat (mr_addr m), sge_length = word_of_nat (mr_length m),
     sge_lkey = mr_lkey m\<rparr>"

section \<open>Buffers\<close>

definition rdma_buffer_register ::
    "'w verbs \<Rightarrow> nat \<Rightarrow> nat \<Rightarrow> 32 word \<Rightarrow> access list \<Rightarrow> 'w \<Rightarrow> ibv_mr option \<times> 'w" where
  "rdma_buffer_register V pd addr len perm w =
     (if pd = 0 then (None, w)
      else let (r, w1) = V (Reg_mr pd addr (unat len) perm) w in
        if r_handle r = 0 then (None, w1) else (Some (r_mr r), w1))"

definition rdma_buffer_alloc ::
    "'w verbs \<Rightarrow> nat \<Rightarrow> 32 word \<Rightarrow> access list \<Rightarrow> 'w \<Rightarrow> ibv_mr option \<times> 'w" where
  "rdma_buffer_alloc V pd sz perm w =
     (if pd = 0 then (None, w)
      else let (r, w1) = V (Calloc (unat sz)) w in
        if r_handle r = 0 then (None, w1)
        else case rdma_buffer_register V pd (r_handle r) sz perm w1 of
            (None, w2) \<Rightarrow> let (r', w3) = V (Free (r_handle r)) w2 in (None, w3)
          | (Some m, w2) \<Rightarrow> (Some m, w2))"

definition rdma_buffer_alloc1 ::
    "'w verbs \<Rightarrow> nat \<Rightarrow> nat \<Rightarrow> 32 word \<Rightarrow> access list \<Rightarrow> 'w \<Rightarrow> ibv_mr option \<times> 'w" where
  "rdma_buffer_alloc1 V pd buf sz perm w =
     (if pd = 0 then (None, w)
      else if buf = 0 then (None, w)
      else case rdma_buffer_register V pd buf sz perm w of
          (None, w1) \<Rightarrow> let (r, w2) = V (Free buf) w1 in (None, w2)
        | (Some m, w1) \<Rightarrow> (Some m, w1))"

definition rdma_buffer_deregister :: "'w verbs \<Rightarrow> ibv_mr option \<Rightarrow> 'w \<Rightarrow> 'w" where
  "rdma_buffer_deregister V mr w =
     (case mr of None \<Rightarrow> w | Some m \<Rightarrow> snd (V (Dereg_mr m) w))"

definition rdma_buffer_free :: "'w verbs \<Rightarrow> ibv_mr option \<Rightarrow> 'w \<Rightarrow> 'w" where
  "rdma_buffer_free V mr w =
     (case mr of
        None \<Rightarrow> w
      | Some m \<Rightarrow> let to_free = mr_addr m; w1 = rdma_buffer_deregister V mr w in
          snd (V (Free to_free) w1))"

section \<open>Connection events\<close>

text \<open>
  The result, the event pointer left with the caller and the next world. A rejected event is
  acknowledged here, and the pointer still refers to it; an accepted one is the caller's to
  acknowledge. Without an event the pointer keeps its old value \<open>e\<close>.
\<close>

definition process_rdma_cm_event ::
    "'w verbs \<Rightarrow> nat \<Rightarrow> cm_event_type \<Rightarrow> cm_event option \<Rightarrow> 'w \<Rightarrow>
       int \<times> cm_event option \<times> 'w" where
  "process_rdma_cm_event V echannel expected e w =
     (let (r, w1) = V (Get_cm_event echannel) w in
      if r_code r \<noteq> 0 then (- r_errno r, e, w1)
      else let ev = r_event r in
        if ev_status ev \<noteq> 0 then
          let (r', w2) = V Ack_cm_event w1 in (- ev_status ev, Some ev, w2)
        else if ev_event ev \<noteq> expected then
          let (r', w2) = V Ack_cm_event w1 in (- 1, Some ev, w2)
        else (0, Some ev, w1))"

section \<open>Work completions\<close>

definition store_wcs :: "ibv_wc list \<Rightarrow> nat \<Rightarrow> ibv_wc list \<Rightarrow> ibv_wc list" where
  "store_wcs wc i new = take i wc @ new @ drop (i + length new) wc"

text \<open>The \<open>do\<close>-\<open>while\<close> loop: the last result, the total and the array.\<close>

partial_function (option) reap_wcs ::
    "'w verbs \<Rightarrow> nat \<Rightarrow> int \<Rightarrow> int \<Rightarrow> ibv_wc list \<Rightarrow> 'w \<Rightarrow> (int \<times> int \<times> ibv_wc list \<times> 'w) option"
where
  "reap_wcs V cq max_wc total_wc wc w =
     (let (r, w1) = V (Poll_cq cq (nat (max_wc - total_wc))) w in
      if r_code r < 0 then Some (r_code r, total_wc, wc, w1)
      else let total_wc' = total_wc + r_code r; wc' = store_wcs wc (nat total_wc) (r_wcs r) in
        if total_wc' < max_wc then reap_wcs V cq max_wc total_wc' wc' w1
        else Some (r_code r, total_wc', wc', w1))"

text \<open>The loop over the statuses: the first one that is not \<open>IBV_WC_SUCCESS\<close>, or 0.\<close>

fun first_bad :: "ibv_wc list \<Rightarrow> nat" where
  "first_bad [] = 0"
| "first_bad (c # cs) = (if wc_status c \<noteq> 0 then wc_status c else first_bad cs)"

text \<open>
  The channel reports the queue with activity. On an error the event of the completion channel
  stays unacknowledged.
\<close>

definition process_work_completion_events ::
    "'w verbs \<Rightarrow> nat \<Rightarrow> ibv_wc list \<Rightarrow> int \<Rightarrow> 'w \<Rightarrow> (int \<times> ibv_wc list \<times> 'w) option" where
  "process_work_completion_events V ch wc max_wc w =
     (let (r, w1) = V (Get_cq_event ch) w; cq_ptr = r_handle r in
      if r_code r \<noteq> 0 then Some (- r_errno r, wc, w1)
      else let (r2, w2) = V (Req_notify_cq cq_ptr) w1 in
        if r_code r2 \<noteq> 0 then Some (- r_errno r2, wc, w2)
        else case reap_wcs V cq_ptr max_wc 0 wc w2 of
            None \<Rightarrow> None
          | Some (ret, total_wc, wc', w3) \<Rightarrow>
              if ret < 0 then Some (ret, wc', w3)
              else let bad = first_bad (take (nat total_wc) wc') in
                if bad \<noteq> 0 then Some (- int bad, wc', w3)
                else let (r4, w4) = V (Ack_cq_events cq_ptr 1) w3 in Some (total_wc, wc', w4))"

section \<open>Addresses\<close>

text \<open>\<open>r_handle\<close> stands for the first resolved address; the target is untouched on a failure.\<close>

definition get_addr :: "'w verbs \<Rightarrow> string \<Rightarrow> nat \<Rightarrow> 'w \<Rightarrow> int \<times> nat \<times> 'w" where
  "get_addr V dst addr w =
     (let (r, w1) = V (Getaddrinfo dst []) w in
      if r_code r \<noteq> 0 then (r_code r, addr, w1)
      else let (r2, w2) = V Freeaddrinfo w1 in (r_code r, r_handle r, w2))"

section \<open>Facts\<close>

lemma length_attr_bytes [simp]: "length (attr_bytes a) = ATTR_SZ"
  by (simp add: attr_bytes_def ATTR_SZ_def)

lemma attr_roundtrip: "attr_of_bytes (attr_bytes a) = a"
  by (simp add: attr_of_bytes_def attr_bytes_def le_word_le_bytes_full)

text \<open>How an event is consumed, by its fate.\<close>

lemma process_cm_cases:
  assumes "process_rdma_cm_event V ec x e w = (c, e', w')"
  obtains (no_event) r where "V (Get_cm_event ec) w = (r, w')" "r_code r \<noteq> 0" "c = - r_errno r" "e' = e"
  | (bad_status) r w1 r' where "V (Get_cm_event ec) w = (r, w1)" "r_code r = 0" "ev_status (r_event r) \<noteq> 0"
      "V Ack_cm_event w1 = (r', w')" "c = - ev_status (r_event r)" "e' = Some (r_event r)"
  | (bad_type) r w1 r' where "V (Get_cm_event ec) w = (r, w1)" "r_code r = 0" "ev_status (r_event r) = 0"
      "ev_event (r_event r) \<noteq> x" "V Ack_cm_event w1 = (r', w')" "c = - 1" "e' = Some (r_event r)"
  | (good) r where "V (Get_cm_event ec) w = (r, w')" "r_code r = 0" "ev_status (r_event r) = 0"
      "ev_event (r_event r) = x" "c = 0" "e' = Some (r_event r)"
  using assms unfolding process_rdma_cm_event_def by (auto simp: Let_def split: prod.splits if_splits)

text \<open>
  \<open>polls_well\<close> is what \<open>ibv_poll_cq\<close> documents for a queue without errors: at most as many
  completions as were asked for; \<open>rank\<close> bounds how often it may find nothing before the next one.
\<close>

definition polls_well :: "'w verbs \<Rightarrow> nat \<Rightarrow> ('w \<Rightarrow> nat) \<Rightarrow> bool" where
  "polls_well V cq rank \<longleftrightarrow>
     (\<forall>n w. let (r, w') = V (Poll_cq cq n) w in
        0 \<le> r_code r \<and> r_code r \<le> int n \<and> int (length (r_wcs r)) = r_code r \<and>
        (r_code r = 0 \<and> 0 < n \<longrightarrow> rank w' < rank w))"

text \<open>
  The library \<open>V\<close> with a record of the calls and of its answers, and the completions that the polls of
  a record delivered, in their order.
\<close>

definition recorded :: "'w verbs \<Rightarrow> ('w \<times> (call \<times> reply) list) verbs" where
  "recorded V c st = (let (r, w') = V c (fst st) in (r, (w', snd st @ [(c, r)])))"

fun polled :: "call \<times> reply \<Rightarrow> ibv_wc list" where
  "polled (Poll_cq cq n, r) = r_wcs r"
| "polled (_, r) = []"

definition delivered :: "(call \<times> reply) list \<Rightarrow> ibv_wc list" where
  "delivered log = concat (map polled log)"

lemma recorded_eq: "recorded V c (w, log) = (fst (V c w), (snd (V c w), log @ [(c, fst (V c w))]))"
  by (simp add: recorded_def Let_def split_beta)

lemma delivered_simps [simp]:
  "delivered [] = []" "delivered (x # log) = polled x @ delivered log"
  "delivered (log @ log') = delivered log @ delivered log'"
  by (simp_all add: delivered_def)

lemma first_bad_find: "first_bad cs = (case find (\<lambda>c. wc_status c \<noteq> 0) cs of None \<Rightarrow> 0 | Some c \<Rightarrow> wc_status c)"
  by (induction cs rule: first_bad.induct) auto

lemma find_holds: "find P xs = Some x \<Longrightarrow> P x"
  by (induction xs) (auto split: if_splits)

text \<open>The completions of a poll stand behind those of the polls before it.\<close>

lemma take_store_wcs: "i \<le> length wc \<Longrightarrow> take (i + length new) (store_wcs wc i new) = take i wc @ new"
  by (simp add: store_wcs_def)

lemma length_store_wcs:
  "i + length new \<le> length wc \<Longrightarrow> length (store_wcs wc i new) = length wc"
  by (simp add: store_wcs_def)

lemma reap_wcs_collects:
  assumes P: "polls_well V cq rank" and "0 \<le> total_wc" and "total_wc \<le> max_wc" and "int (length wc) = max_wc"
  shows "\<exists>ret polls w'. reap_wcs (recorded V) cq max_wc total_wc wc (w, log) =
      Some (ret, max_wc, take (nat total_wc) wc @ delivered polls, (w', log @ polls)) \<and> 0 \<le> ret \<and>
    length (take (nat total_wc) wc @ delivered polls) = length wc \<and> (\<forall>x\<in>set polls. \<exists>n. fst x = Poll_cq cq n)"
proof -
  let ?R = "inv_image (less_than <*lex*> less_than) (\<lambda>(t, c :: ibv_wc list, w, l :: (call \<times> reply) list). (nat (max_wc - t), rank w))"
  have R: "wf ?R" by (simp add: wf_inv_image wf_lex_prod)
  show ?thesis
    using assms(2-)
  proof (induction "(total_wc, wc, w, log)" arbitrary: total_wc wc w log rule: wf_induct_rule[OF R])
    case (1 total_wc wc w log)
    let ?c = "Poll_cq cq (nat (max_wc - total_wc))"
    obtain r w1 where V: "V ?c w = (r, w1)" by fastforce
    have r: "0 \<le> r_code r" "r_code r \<le> max_wc - total_wc" "int (length (r_wcs r)) = r_code r"
      "r_code r = 0 \<Longrightarrow> total_wc < max_wc \<Longrightarrow> rank w1 < rank w"
      using P[unfolded polls_well_def, rule_format, of "nat (max_wc - total_wc)" w] V 1(3) by auto
    let ?t = "total_wc + r_code r" and ?wc = "store_wcs wc (nat total_wc) (r_wcs r)"
    have l: "length ?wc = length wc"
      using r 1(2-4) by (intro length_store_wcs) auto
    have tk: "take (nat ?t) ?wc = take (nat total_wc) wc @ r_wcs r"
    proof -
      have "nat ?t = nat total_wc + length (r_wcs r)" using r(3) 1(2) by linarith
      moreover have "nat total_wc \<le> length wc" using 1(2-4) by linarith
      ultimately show ?thesis by (simp add: take_store_wcs)
    qed
    have step: "reap_wcs (recorded V) cq max_wc total_wc wc (w, log) =
        (if ?t < max_wc then reap_wcs (recorded V) cq max_wc ?t ?wc (w1, log @ [(?c, r)])
         else Some (r_code r, ?t, ?wc, (w1, log @ [(?c, r)])))"
      by (subst reap_wcs.simps) (use r(1) in \<open>simp add: recorded_eq V\<close>)
    show ?case
    proof (cases "?t < max_wc")
      case True
      have "((?t, ?wc, w1, log @ [(?c, r)]), total_wc, wc, w, log) \<in> ?R"
        using r True by (cases "r_code r = 0") auto
      from 1(1)[OF this] r 1(2,4) True l obtain ret polls w' where
        n: "reap_wcs (recorded V) cq max_wc ?t ?wc (w1, log @ [(?c, r)]) =
          Some (ret, max_wc, take (nat ?t) ?wc @ delivered polls, (w', (log @ [(?c, r)]) @ polls))" "0 \<le> ret"
        "length (take (nat ?t) ?wc @ delivered polls) = length ?wc" "\<forall>x\<in>set polls. \<exists>n. fst x = Poll_cq cq n"
        by auto
      have "reap_wcs (recorded V) cq max_wc total_wc wc (w, log) =
          Some (ret, max_wc, take (nat total_wc) wc @ delivered ((?c, r) # polls), (w', log @ (?c, r) # polls))"
        using step True n(1) tk by simp
      moreover have "length (take (nat total_wc) wc @ delivered ((?c, r) # polls)) = length wc"
        using n(3) l tk by simp
      moreover have "\<forall>x\<in>set ((?c, r) # polls). \<exists>n. fst x = Poll_cq cq n" using n(4) by simp
      ultimately show ?thesis using n(2) by blast
    next
      case False
      then have t: "?t = max_wc" using r by simp
      then have w: "?wc = take (nat total_wc) wc @ delivered [(?c, r)]" using l 1(4) tk by simp
      then have "reap_wcs (recorded V) cq max_wc total_wc wc (w, log) =
          Some (r_code r, max_wc, take (nat total_wc) wc @ delivered [(?c, r)], (w1, log @ [(?c, r)]))"
        using step False t by simp
      moreover have "length (take (nat total_wc) wc @ delivered [(?c, r)]) = length wc" using w l by simp
      moreover have "\<forall>x\<in>set [(?c, r)]. \<exists>n. fst x = Poll_cq cq n" by simp
      ultimately show ?thesis using r(1) by blast
    qed
  qed
qed

text \<open>What polling does not change, the loop does not change.\<close>

lemma reap_wcs_pres:
  assumes "reap_wcs V cq max_wc total_wc wc w = Some (ret, t, wc', w')"
    and "\<And>n w. f (snd (V (Poll_cq cq n) w)) = f w"
  shows "f w' = f w"
proof -
  have "(\<forall>n w. f (snd (V (Poll_cq cq n) w)) = f w) \<longrightarrow> f (snd (snd (snd (ret, t, wc', w')))) = f w"
    by (rule reap_wcs.raw_induct[OF _ assms(1), of "\<lambda>V cq m t c w x.
          (\<forall>n w. f (snd (V (Poll_cq cq n) w)) = f w) \<longrightarrow> f (snd (snd (snd x))) = f w"])
      (auto simp: Let_def split_beta split: if_splits)
  with assms(2) show ?thesis by simp
qed

lemma reap_wcs_total:
  assumes "reap_wcs V cq max_wc total_wc wc w = Some (ret, t, wc', w')" and "0 \<le> ret"
  shows "max_wc \<le> t"
proof -
  have "0 \<le> fst (ret, t, wc', w') \<longrightarrow> max_wc \<le> fst (snd (ret, t, wc', w'))"
    by (rule reap_wcs.raw_induct[OF _ assms(1), of "\<lambda>V cq m t c w x. 0 \<le> fst x \<longrightarrow> m \<le> fst (snd x)"])
      (auto simp: Let_def split_beta split: if_splits)
  with assms(2) show ?thesis by simp
qed

section \<open>Properties\<close>

text \<open>
  \<open>process_rdma_cm_event\<close> accepts an event exactly when its status is 0 and it is of the expected
  type. It acknowledges the events that it rejects and no other, so that the caller owns exactly the
  accepted ones, and it returns 0 for those alone; the pointer refers to the event in both cases.
\<close>

lemma cm_event_owner:
  "let r = fst (V (Get_cm_event ec) w); ev = r_event r;
       ok = (r_code r = 0 \<and> ev_status ev = 0 \<and> ev_event ev = expected);
       (c, e', (w', log')) = process_rdma_cm_event (traced V) ec expected e (w, log)
   in log' = log @ Get_cm_event ec # (if r_code r = 0 \<and> \<not> ok then [Ack_cm_event] else []) \<and>
      (if r_code r = 0 then (c = 0) = ok \<and> e' = Some ev else c = - r_errno r \<and> e' = e)"
  by (auto simp: process_rdma_cm_event_def traced_eq Let_def)

text \<open>
  C27: The loop of \<open>process_work_completion_events\<close> ends if \<open>ibv_poll_cq\<close> keeps to its contract and a
  further completion arrives after finitely many empty polls. The array then holds exactly the
  completions that the polls of the run delivered, one behind the other in the order of their
  arrival; the routine returns the number asked for if all their statuses are good, and the negated
  status of the first bad one otherwise, and it acknowledges the event of the queue in the first case
  only.
\<close>

theorem completions_collected:
  assumes P: "polls_well V (r_handle (fst (V (Get_cq_event ch) w))) rank"
    and get: "r_code (fst (V (Get_cq_event ch) w)) = 0"
    and notify: "r_code (fst (V (Req_notify_cq (r_handle (fst (V (Get_cq_event ch) w))))
      (snd (V (Get_cq_event ch) w)))) = 0"
    and len: "int (length wc) = max_wc"
  shows "\<exists>ret wc' w' log. process_work_completion_events (recorded V) ch wc max_wc (w, []) = Some (ret, wc', (w', log)) \<and>
    wc' = delivered log \<and> length wc' = length wc \<and>
    ret = (case find (\<lambda>c. wc_status c \<noteq> 0) wc' of None \<Rightarrow> max_wc | Some c \<Rightarrow> - int (wc_status c)) \<and>
    (Ack_cq_events (r_handle (fst (V (Get_cq_event ch) w))) 1 \<in> fst ` set log \<longleftrightarrow>
       find (\<lambda>c. wc_status c \<noteq> 0) wc' = None)"
proof -
  let ?cq = "r_handle (fst (V (Get_cq_event ch) w))"
  let ?w1 = "snd (V (Get_cq_event ch) w)" and ?n = "Req_notify_cq ?cq"
  let ?log = "[(Get_cq_event ch, fst (V (Get_cq_event ch) w)), (?n, fst (V ?n ?w1))]"
  obtain ret polls w' where *: "reap_wcs (recorded V) ?cq max_wc 0 wc (snd (V ?n ?w1), ?log) =
      Some (ret, max_wc, delivered polls, (w', ?log @ polls))" "0 \<le> ret" "length (delivered polls) = length wc"
    "\<forall>x\<in>set polls. \<exists>n. fst x = Poll_cq ?cq n"
    using reap_wcs_collects[OF P, of 0 max_wc wc "snd (V ?n ?w1)" ?log] len by auto
  have "Ack_cq_events ?cq 1 \<notin> fst ` set polls" using *(4) by fastforce
  then show ?thesis
    using get notify len * find_holds[of "\<lambda>c. wc_status c \<noteq> 0" "delivered polls"]
    by (auto simp: process_work_completion_events_def recorded_eq first_bad_find Let_def split_beta split: option.splits)
qed

text \<open>An adapter that finds nothing in the first \<open>n\<close> polls and then one completion at a time.\<close>

fun slow_cq :: "nat \<Rightarrow> nat verbs" where
  "slow_cq bad (Poll_cq cq k) n =
     (\<lparr>r_code = (if 0 < n \<or> k = 0 then 0 else 1), r_errno = 0, r_handle = 0,
       r_mr = \<lparr>mr_addr = 0, mr_length = 0, mr_lkey = 0, mr_rkey = 0\<rparr>,
       r_event = \<lparr>ev_event = RDMA_CM_EVENT_OTHER 0, ev_id = 0, ev_verbs = 0, ev_status = 0\<rparr>,
       r_wcs = (if 0 < n \<or> k = 0 then [] else
         [\<lparr>wc_id = 0, wc_status = bad, wc_opcode = IBV_WC_RECV, wc_imm = 0\<rparr>])\<rparr>, n - 1)"
| "slow_cq bad c n =
     (\<lparr>r_code = 0, r_errno = 0, r_handle = 3,
       r_mr = \<lparr>mr_addr = 0, mr_length = 0, mr_lkey = 0, mr_rkey = 0\<rparr>,
       r_event = \<lparr>ev_event = RDMA_CM_EVENT_OTHER 0, ev_id = 0, ev_verbs = 0, ev_status = 0\<rparr>,
       r_wcs = []\<rparr>, n)"

definition no_wc :: ibv_wc where
  "no_wc = \<lparr>wc_id = 0, wc_status = 0, wc_opcode = IBV_WC_SEND, wc_imm = 0\<rparr>"

lemma slow_cq_polls: "polls_well (slow_cq bad) cq id"
  by (auto simp: polls_well_def)

theorem completions_collected_witness:
  "\<exists>ret wc' w' log. process_work_completion_events (recorded (slow_cq 12)) 1 (replicate 2 no_wc) 2 (5, []) =
       Some (ret, wc', (w', log)) \<and> wc' = delivered log \<and> length wc' = 2 \<and>
     ret = (case find (\<lambda>c. wc_status c \<noteq> 0) wc' of None \<Rightarrow> 2 | Some c \<Rightarrow> - int (wc_status c))"
  using completions_collected[of "slow_cq 12" 1 5 id "replicate 2 no_wc" 2] by (fastforce simp: slow_cq_polls)

end
