(* ===== verification/Ledger.thy ===== *)
theory Ledger
  imports RDMA_Common "HOL-Library.Multiset"
begin

text \<open>
  A ledger of resources for statements about leaks: \<open>ledger V\<close> is the library \<open>V\<close> that also keeps
  the multiset of resources that were handed out and not given back, and the multiset of releases of
  something that was not held (a second release, or a release of nothing). A resource counts as given
  back when the program asks for its release: what such a call answers is only printed, and no release
  is tried twice.
\<close>

section \<open>Resources\<close>

datatype resource =
    Channel nat
  | Cm_id nat
  | Cm_event
  | Domain nat
  | Comp_channel nat
  | Queue nat
  | Queue_event nat
  | Queue_pair nat
  | Region ibv_mr
  | Heap nat

text \<open>The calls that return a pointer fail with \<open>NULL\<close>, the others with a non-zero code.\<close>

fun failed :: "call \<Rightarrow> reply \<Rightarrow> bool" where
  "failed Create_event_channel r = (r_handle r = 0)"
| "failed (Alloc_pd v) r = (r_handle r = 0)"
| "failed (Create_comp_channel v) r = (r_handle r = 0)"
| "failed (Create_cq v n ch) r = (r_handle r = 0)"
| "failed (Reg_mr pd a n acc) r = (r_handle r = 0)"
| "failed (Calloc n) r = (r_handle r = 0)"
| "failed (Malloc n) r = (r_handle r = 0)"
| "failed Freeaddrinfo r = False"
| "failed (Free a) r = False"
| "failed (Destroy_qp c) r = False"
| "failed (Destroy_event_channel h) r = False"
| "failed (Ack_cq_events cq n) r = False"
| "failed (Poll_cq cq n) r = (r_code r < 0)"
| "failed _ r = (r_code r \<noteq> 0)"

fun acquired :: "call \<Rightarrow> reply \<Rightarrow> resource multiset" where
  "acquired Create_event_channel r = {#Channel (r_handle r)#}"
| "acquired (Create_id ec) r = {#Cm_id (r_handle r)#}"
| "acquired (Get_cm_event ec) r =
     (if ev_event (r_event r) = RDMA_CM_EVENT_CONNECT_REQUEST
      then {#Cm_event, Cm_id (ev_id (r_event r))#} else {#Cm_event#})"
| "acquired (Alloc_pd v) r = {#Domain (r_handle r)#}"
| "acquired (Create_comp_channel v) r = {#Comp_channel (r_handle r)#}"
| "acquired (Create_cq v n ch) r = {#Queue (r_handle r)#}"
| "acquired (Get_cq_event ch) r = {#Queue_event (r_handle r)#}"
| "acquired (Create_qp c pd a) r = {#Queue_pair c#}"
| "acquired (Reg_mr pd a n acc) r = {#Region (r_mr r)#}"
| "acquired (Calloc n) r = {#Heap (r_handle r)#}"
| "acquired (Malloc n) r = {#Heap (r_handle r)#}"
| "acquired _ r = {#}"

fun released :: "call \<Rightarrow> resource multiset" where
  "released (Destroy_event_channel h) = {#Channel h#}"
| "released (Destroy_id c) = {#Cm_id c#}"
| "released Ack_cm_event = {#Cm_event#}"
| "released (Dealloc_pd h) = {#Domain h#}"
| "released (Destroy_comp_channel h) = {#Comp_channel h#}"
| "released (Destroy_cq h) = {#Queue h#}"
| "released (Ack_cq_events h n) = replicate_mset n (Queue_event h)"
| "released (Destroy_qp c) = {#Queue_pair c#}"
| "released (Dereg_mr m) = {#Region m#}"
| "released (Free a) = (if a = 0 then {#} else {#Heap a#})"
| "released _ = {#}"

section \<open>The ledger\<close>

type_synonym account = "resource multiset \<times> resource multiset"

definition book :: "call \<Rightarrow> reply \<Rightarrow> account \<Rightarrow> account" where
  "book c r a =
     (let held = fst a + (if failed c r then {#} else acquired c r) in
      (held - released c, snd a + (released c - held)))"

definition ledger :: "'w verbs \<Rightarrow> ('w \<times> account) verbs" where
  "ledger V c st = (let (r, w') = V c (fst st) in (r, (w', book c r (snd st))))"

lemma ledger_eq: "ledger V c (w, a) = (fst (V c w), (snd (V c w), book c (fst (V c w)) a))"
  by (simp add: ledger_def Let_def split_beta)

lemma book_failed: "failed c r \<Longrightarrow> released c = {#} \<Longrightarrow> book c r a = a"
  by (cases a) (simp add: book_def)

lemma book_neutral: "acquired c r = {#} \<Longrightarrow> released c = {#} \<Longrightarrow> book c r a = a"
  by (cases a) (simp add: book_def)

lemma book_acquire: "\<not> failed c r \<Longrightarrow> released c = {#} \<Longrightarrow> book c r a = (fst a + acquired c r, snd a)"
  by (simp add: book_def)

lemma book_release: "acquired c r = {#} \<Longrightarrow> book c r a = (fst a - released c, snd a + (released c - fst a))"
  by (simp add: book_def Let_def)

lemma ledger_release:
  assumes "\<And>r. acquired c r = {#}"
  shows "ledger V c (w, a) = (fst (V c w), (snd (V c w), (fst a - released c, snd a + (released c - fst a))))"
  using assms by (simp add: ledger_eq book_release)

section \<open>What the library is relied on for\<close>

text \<open>
  The calls after whose failure the methods return \<open>-errno\<close>, and what they rely on there: such a call
  leaves a positive \<open>errno\<close> when it fails. About calls that succeed nothing is assumed.
\<close>

fun reads_errno :: "call \<Rightarrow> bool" where
  "reads_errno Create_event_channel = True"
| "reads_errno (Create_id ec) = True"
| "reads_errno (Bind_addr c p) = True"
| "reads_errno (Listen c n) = True"
| "reads_errno (Resolve_addr c t) = True"
| "reads_errno (Resolve_route c t) = True"
| "reads_errno (Accept c p) = True"
| "reads_errno (Get_cm_event ec) = True"
| "reads_errno Ack_cm_event = True"
| "reads_errno (Create_qp c pd a) = True"
| "reads_errno (Alloc_pd v) = True"
| "reads_errno (Create_comp_channel v) = True"
| "reads_errno (Create_cq v n ch) = True"
| "reads_errno (Req_notify_cq cq) = True"
| "reads_errno (Get_cq_event ch) = True"
| "reads_errno (Reg_mr pd a n acc) = True"
| "reads_errno (Post_send c wr) = True"
| "reads_errno _ = False"

definition errno_reliable :: "'w verbs \<Rightarrow> bool" where
  "errno_reliable V \<longleftrightarrow>
     (\<forall>c w. reads_errno c \<and> failed c (fst (V c w)) \<longrightarrow> 0 < r_errno (fst (V c w)))"

text \<open>A registered region lies where it was asked for.\<close>

definition registers_in_place :: "'w verbs \<Rightarrow> bool" where
  "registers_in_place V \<longleftrightarrow>
     (\<forall>pd a n acc w. mr_addr (r_mr (fst (V (Reg_mr pd a n acc) w))) = a)"

lemma errno_reliable_ledger: "errno_reliable V \<Longrightarrow> errno_reliable (ledger V)"
  by (auto simp: errno_reliable_def ledger_eq)

lemma errno_pos:
  "errno_reliable V \<Longrightarrow> reads_errno c \<Longrightarrow> failed c (fst (V c w)) \<Longrightarrow> 0 < r_errno (fst (V c w))"
  by (simp add: errno_reliable_def)

lemma ledger_iff: "ledger V c (w, a) = (r, w', a') \<longleftrightarrow> V c w = (r, w') \<and> a' = book c r a"
  by (cases "V c w") (auto simp: ledger_eq)

lemma errno_call: "V c w = (r, w') \<Longrightarrow> errno_reliable V \<Longrightarrow> reads_errno c \<Longrightarrow> failed c r \<Longrightarrow> 0 < r_errno r"
  by (metis errno_pos fst_conv)

lemma errno_zero: "r_errno r = 0 \<Longrightarrow> V c w = (r, w') \<Longrightarrow> errno_reliable V \<Longrightarrow> reads_errno c \<Longrightarrow> \<not> failed c r"
  using errno_call by fastforce

section \<open>The shared routines on the ledger\<close>

text \<open>An accepted event is held by the caller.\<close>

lemma event_accepted:
  assumes E: "errno_reliable V"
    and p: "process_rdma_cm_event (ledger V) ec x e (w, a) = (0, e', (w', a'))"
  shows "\<exists>ev. e' = Some ev \<and> ev_event ev = x \<and>
    a' = (fst a + (if x = RDMA_CM_EVENT_CONNECT_REQUEST then {#Cm_event, Cm_id (ev_id ev)#} else {#Cm_event#}), snd a)"
  using p errno_pos[OF E, of "Get_cm_event ec" w]
  by (auto simp: process_rdma_cm_event_def ledger_eq Let_def book_def split: if_splits)

lemma completions_keep_ledger:
  assumes E: "errno_reliable V"
    and p: "process_work_completion_events (ledger V) ch wc n (w, a) = Some (ret, wc', (w', a'))"
    and r: "0 < ret"
  shows "a' = a"
proof -
  obtain r1 w1 a1 where 1: "ledger V (Get_cq_event ch) (w, a) = (r1, (w1, a1))" by (metis prod.collapse)
  let ?cq = "r_handle r1"
  obtain r2 w2 a2 where 2: "ledger V (Req_notify_cq ?cq) (w1, a1) = (r2, (w2, a2))" by (metis prod.collapse)
  have c1: "r_code r1 = 0"
    using p 1 r errno_pos[OF E, of "Get_cq_event ch" w]
    by (auto simp: process_work_completion_events_def ledger_eq Let_def split: if_splits)
  have c2: "r_code r2 = 0"
    using p 1 2 r c1 errno_pos[OF E, of "Req_notify_cq ?cq" w1]
    by (auto simp: process_work_completion_events_def ledger_eq Let_def split: if_splits)
  obtain ret' t wc3 w3 a3 where 3: "reap_wcs (ledger V) ?cq n 0 wc (w2, a2) = Some (ret', t, wc3, (w3, a3))"
    using p 1 2 c1 c2 by (auto simp: process_work_completion_events_def Let_def split: option.splits prod.splits)
  have a3: "a3 = a2"
    using reap_wcs_pres[OF 3, of snd] by (simp add: ledger_def book_def Let_def split_beta)
  obtain r4 w4 a4 where 4: "ledger V (Ack_cq_events ?cq 1) (w3, a3) = (r4, (w4, a4))" by (metis prod.collapse)
  have "a' = a4"
    using p 1 2 3 4 c1 c2 r by (auto simp: process_work_completion_events_def Let_def split: if_splits)
  also have "a4 = a"
    using 1 2 4 c1 c2 a3 by (auto simp: ledger_eq book_def)
  finally show ?thesis .
qed

lemma completions_not_zero:
  assumes E: "errno_reliable V"
    and p: "process_work_completion_events V ch wc n w = Some (ret, wc', w')" and n: "0 < n"
  shows "ret \<noteq> 0"
  using p n
  by (auto simp: process_work_completion_events_def Let_def split: if_splits prod.splits option.splits
      dest!: reap_wcs_total errno_zero[OF _ _ E])

end
