(* ===== verification/One_Sided_Client.thy ===== *)
theory One_Sided_Client
  imports RDMA_Common
begin

text \<open>
  \<open>client_rdma_op\<close> (\<open>client_rdma_op.cpp\<close>, \<open>.h\<close>): the client that writes straight into the memory
  of the server. Every method is a function of the object and the world that gives the integer
  result, the object left behind on that path and the world after it. \<open>vb\<close> is the \<open>verbs\<close> field
  that the library stores in a connection id. The two attributes lie inside the object; their
  addresses are fields of the record.
\<close>

section \<open>State\<close>

record client_rdma =
  oc_cm_event_channel :: nat
  oc_cm_client_id :: nat
  oc_pd :: nat
  oc_io_completion_channel :: nat
  oc_client_cq :: nat
  oc_qp_init_attr :: qp_attr
  oc_client_qp :: nat
  oc_client_metadata_mr :: "ibv_mr option"
  oc_client_src_mr :: "ibv_mr option"
  oc_client_dst_mr :: "ibv_mr option"
  oc_server_metadata_mr :: "ibv_mr option"
  oc_client_metadata_attr :: rdma_buffer_attr
  oc_server_metadata_attr :: rdma_buffer_attr
  oc_client_send_wr :: send_wr
  oc_server_recv_wr :: recv_wr
  oc_client_send_sge :: ibv_sge
  oc_server_recv_sge :: ibv_sge
  oc_src :: nat
  oc_dst :: nat
  oc_client_metadata_at :: nat
  oc_server_metadata_at :: nat

text \<open>The default member initialisers, over memory \<open>raw\<close> that holds anything.\<close>

definition new_client_rdma :: "client_rdma \<Rightarrow> client_rdma" where
  "new_client_rdma raw = raw\<lparr>oc_cm_event_channel := 0, oc_cm_client_id := 0, oc_pd := 0,
     oc_io_completion_channel := 0, oc_client_cq := 0, oc_client_metadata_mr := None,
     oc_client_src_mr := None, oc_client_dst_mr := None, oc_server_metadata_mr := None,
     oc_src := 0, oc_dst := 0\<rparr>"

section \<open>Connection\<close>

definition client_qp_attr :: "nat \<Rightarrow> qp_attr" where
  "client_qp_attr cq = \<lparr>qp_send_cq = cq, qp_recv_cq = cq, qp_reliable = True, max_send_wr = 15000,
     max_recv_wr = 1, max_send_sge = MAX_SGE, max_recv_sge = MAX_SGE\<rparr>"

text \<open>From the event channel to the resolved route.\<close>

definition client_resolve ::
    "'w verbs \<Rightarrow> client_rdma \<Rightarrow> 'w \<Rightarrow> int \<times> client_rdma \<times> 'w" where
  "client_resolve V st w =
     (let (r1, w1) = V Create_event_channel w;
          st1 = st\<lparr>oc_cm_event_channel := r_handle r1\<rparr> in
      if r_handle r1 = 0 then (- r_errno r1, st1, w1) else
      let (r2, w2) = V (Create_id (oc_cm_event_channel st1)) w1 in
      if r_code r2 \<noteq> 0 then (- r_errno r2, st1, w2) else
      let st2 = st1\<lparr>oc_cm_client_id := r_handle r2\<rparr>;
          (r3, w3) = V (Resolve_addr (oc_cm_client_id st2) 2000) w2 in
      if r_code r3 \<noteq> 0 then (- r_errno r3, st2, w3) else
      let (c4, e4, w4) =
        process_rdma_cm_event V (oc_cm_event_channel st2) RDMA_CM_EVENT_ADDR_RESOLVED None w3 in
      if c4 \<noteq> 0 then (c4, st2, w4) else
      let (r5, w5) = V Ack_cm_event w4 in
      if r_code r5 \<noteq> 0 then (- r_errno r5, st2, w5) else
      let (r6, w6) = V (Resolve_route (oc_cm_client_id st2) 2000) w5 in
      if r_code r6 \<noteq> 0 then (- r_errno r6, st2, w6) else
      let (c7, e7, w7) =
        process_rdma_cm_event V (oc_cm_event_channel st2) RDMA_CM_EVENT_ROUTE_RESOLVED e4 w6 in
      if c7 \<noteq> 0 then (c7, st2, w7) else
      let (r8, w8) = V Ack_cm_event w7 in
      if r_code r8 \<noteq> 0 then (- r_errno r8, st2, w8) else (0, st2, w8))"

text \<open>From the protection domain to the queue pair.\<close>

definition client_queues ::
    "'w verbs \<Rightarrow> (nat \<Rightarrow> nat) \<Rightarrow> client_rdma \<Rightarrow> 'w \<Rightarrow> int \<times> client_rdma \<times> 'w" where
  "client_queues V vb st w =
     (let (r1, w1) = V (Alloc_pd (vb (oc_cm_client_id st))) w; st1 = st\<lparr>oc_pd := r_handle r1\<rparr> in
      if r_handle r1 = 0 then (- r_errno r1, st1, w1) else
      let (r2, w2) = V (Create_comp_channel (vb (oc_cm_client_id st))) w1;
          st2 = st1\<lparr>oc_io_completion_channel := r_handle r2\<rparr> in
      if r_handle r2 = 0 then (- r_errno r2, st2, w2) else
      let (r3, w3) = V (Create_cq (vb (oc_cm_client_id st)) 20000 (oc_io_completion_channel st2)) w2;
          st3 = st2\<lparr>oc_client_cq := r_handle r3\<rparr> in
      if r_handle r3 = 0 then (- r_errno r3, st3, w3) else
      let (r4, w4) = V (Req_notify_cq (oc_client_cq st3)) w3 in
      if r_code r4 \<noteq> 0 then (- r_errno r4, st3, w4) else
      let st4 = st3\<lparr>oc_qp_init_attr := client_qp_attr (oc_client_cq st3)\<rparr>;
          (r5, w5) = V (Create_qp (oc_cm_client_id st4) (oc_pd st4) (oc_qp_init_attr st4)) w4 in
      if r_code r5 \<noteq> 0 then (- r_errno r5, st4, w5) else
      (0, st4\<lparr>oc_client_qp := r_handle r5\<rparr>, w5))"

definition client_prepare_connection ::
    "'w verbs \<Rightarrow> (nat \<Rightarrow> nat) \<Rightarrow> client_rdma \<Rightarrow> 'w \<Rightarrow> int \<times> client_rdma \<times> 'w" where
  "client_prepare_connection V vb st w =
     (let (c, st1, w1) = client_resolve V st w in
      if c \<noteq> 0 then (c, st1, w1) else client_queues V vb st1 w1)"

definition client_pre_post_recv_buffer ::
    "'w verbs \<Rightarrow> client_rdma \<Rightarrow> 'w \<Rightarrow> int \<times> client_rdma \<times> 'w" where
  "client_pre_post_recv_buffer V st w =
     (let (mr, w1) = rdma_buffer_register V (oc_pd st) (oc_server_metadata_at st)
            (word_of_nat ATTR_SZ) [LOCAL_WRITE] w;
          st1 = st\<lparr>oc_server_metadata_mr := mr\<rparr> in
      case mr of
        None \<Rightarrow> (- ENOMEM, st1, w1)
      | Some m \<Rightarrow>
          let st2 = st1\<lparr>oc_server_recv_sge := sge_of_mr m,
                        oc_server_recv_wr := \<lparr>rwr_id = 0, rwr_sges = [sge_of_mr m]\<rparr>\<rparr>;
              (r, w2) = V (Post_recv (oc_client_qp st2) (oc_server_recv_wr st2)) w1 in
          (r_code r, st2, w2))"

definition client_conn_param :: conn_param where
  "client_conn_param =
     \<lparr>initiator_depth = 3, responder_resources = 3, retry_count = 3, rnr_retry_count = 0\<rparr>"

text \<open>The loop repeats \<open>rdma_connect\<close> until it succeeds.\<close>

definition connect_retry :: "'w verbs \<Rightarrow> nat \<Rightarrow> conn_param \<Rightarrow> 'w \<Rightarrow> 'w option" where
  "connect_retry V cid p w = repeat_call V (Connect cid p) (\<lambda>r. r_code r \<noteq> 0) w"

definition client_connect_to_server ::
    "'w verbs \<Rightarrow> client_rdma \<Rightarrow> 'w \<Rightarrow> (int \<times> client_rdma \<times> 'w) option" where
  "client_connect_to_server V st w =
     (case connect_retry V (oc_cm_client_id st) client_conn_param w of
        None \<Rightarrow> None
      | Some w1 \<Rightarrow>
          let (c, e, w2) =
            process_rdma_cm_event V (oc_cm_event_channel st) RDMA_CM_EVENT_ESTABLISHED None w1 in
          if c \<noteq> 0 then Some (c, st, w2) else
          let (r, w3) = V Ack_cm_event w2 in
          if r_code r \<noteq> 0 then Some (- r_errno r, st, w3) else Some (0, st, w3))"

section \<open>Exchange of the attributes\<close>

text \<open>
  The common body of the two methods; they differ in the memory that they register. A failed
  registration returns the initial \<open>-1\<close> of \<open>ret\<close>.
\<close>

definition client_exchange ::
    "'w verbs \<Rightarrow> nat \<Rightarrow> 32 word \<Rightarrow> client_rdma \<Rightarrow> ibv_wc list \<Rightarrow> 'w \<Rightarrow>
       (int \<times> client_rdma \<times> 'w) option" where
  "client_exchange V buf len st wc w =
     (let (mr, w1) = rdma_buffer_register V (oc_pd st) buf len
            [LOCAL_WRITE, REMOTE_READ, REMOTE_WRITE] w;
          st1 = st\<lparr>oc_client_src_mr := mr\<rparr> in
      case mr of
        None \<Rightarrow> Some (- 1, st1, w1)
      | Some m \<Rightarrow>
        let st2 = st1\<lparr>oc_client_metadata_attr := attr_of_mr m\<rparr>;
            (mr', w2) = rdma_buffer_register V (oc_pd st2) (oc_client_metadata_at st2)
              (word_of_nat ATTR_SZ) [LOCAL_WRITE] w1;
            st3 = st2\<lparr>oc_client_metadata_mr := mr'\<rparr> in
        (case mr' of
           None \<Rightarrow> Some (- 1, st3, w2)
         | Some m' \<Rightarrow>
           let st4 = st3\<lparr>oc_client_send_sge := sge_of_mr m',
                 oc_client_send_wr := zero_send_wr\<lparr>swr_opcode := IBV_WR_SEND, swr_signaled := True,
                   swr_sges := [sge_of_mr m']\<rparr>\<rparr>;
               (r, w3) = V (Post_send (oc_client_qp st4) (oc_client_send_wr st4)) w2 in
           if r_code r \<noteq> 0 then Some (- r_errno r, st4, w3) else
           (case process_work_completion_events V (oc_io_completion_channel st4) wc 2 w3 of
              None \<Rightarrow> None
            | Some (ret, wc', w4) \<Rightarrow>
                if ret \<noteq> 2 then Some (ret, st4, w4) else Some (0, st4, w4))))"

definition client_send_metadata_to_server ::
    "'w verbs \<Rightarrow> client_rdma \<Rightarrow> ibv_wc list \<Rightarrow> 'w \<Rightarrow> (int \<times> client_rdma \<times> 'w) option" where
  "client_send_metadata_to_server V st wc w =
     client_exchange V (oc_src st) (word_of_nat rdma_BLOCK_SZ) st wc w"

text \<open>\<open>size_t\<close> is passed as \<open>uint32_t\<close>.\<close>

definition client_send_metadata_to_server1 ::
    "'w verbs \<Rightarrow> nat \<Rightarrow> nat \<Rightarrow> client_rdma \<Rightarrow> ibv_wc list \<Rightarrow> 'w \<Rightarrow>
       (int \<times> client_rdma \<times> 'w) option" where
  "client_send_metadata_to_server1 V send_buf send_sz st wc w =
     client_exchange V send_buf (word_of_nat send_sz) st wc w"

section \<open>Writing to the server\<close>

definition remote_write_wr :: "ibv_mr \<Rightarrow> 32 word \<Rightarrow> rdma_buffer_attr \<Rightarrow> 64 word \<Rightarrow> send_wr" where
  "remote_write_wr m len a off =
     zero_send_wr\<lparr>swr_opcode := IBV_WR_RDMA_WRITE, swr_remote_addr := at_address a + off,
       swr_rkey := at_stag a,
       swr_sges := [\<lparr>sge_addr = word_of_nat (mr_addr m), sge_length = len, sge_lkey = mr_lkey m\<rparr>]\<rparr>"

definition start_remote_write ::
    "'w verbs \<Rightarrow> nat \<Rightarrow> nat \<Rightarrow> client_rdma \<Rightarrow> 'w \<Rightarrow> (int \<times> 'w) result" where
  "start_remote_write V len offset st w =
     (case oc_client_src_mr st of
        None \<Rightarrow> Inl Null_deref
      | Some m \<Rightarrow>
          let (r, w1) = V (Post_send (oc_client_qp st)
            (remote_write_wr m (word_of_nat len) (oc_server_metadata_attr st) (word_of_nat offset))) w in
          Inr (if r_code r \<noteq> 0 then - r_code r else 0, w1))"

section \<open>The test methods\<close>

text \<open>The sign of \<open>memcmp\<close>; \<open>sizeof(src)\<close> is the size of the pointer, 8 bytes.\<close>

fun memcmp_sign :: "byte list \<Rightarrow> byte list \<Rightarrow> int" where
  "memcmp_sign (a # as) (b # bs) = (if a = b then memcmp_sign as bs else if a < b then - 1 else 1)"
| "memcmp_sign _ _ = 0"

definition check_src_dst :: "mem \<Rightarrow> mem \<Rightarrow> client_rdma \<Rightarrow> int result" where
  "check_src_dst ms md st =
     (if oc_src st = 0 \<or> oc_dst st = 0 then Inl Null_deref
      else Inr (memcmp_sign (get_bytes ms 0 8) (get_bytes md 0 8)))"

fun draw_doubles :: "('w \<Rightarrow> double \<times> 'w) \<Rightarrow> nat \<Rightarrow> 'w \<Rightarrow> double list \<times> 'w" where
  "draw_doubles drand 0 w = ([], w)"
| "draw_doubles drand (Suc n) w =
     (let (d, w1) = drand w; (ds, w2) = draw_doubles drand n w1 in (d # ds, w2))"

text \<open>
  One pass of the endless loop: \<open>m\<close> is the memory at \<open>src\<close>, \<open>rnd\<close> and \<open>drand\<close> are \<open>random\<close> and
  \<open>drand48\<close>. The result of \<open>ibv_post_send\<close> decides only whether the thread sleeps.
\<close>

definition remote_ops_pass ::
    "'w verbs \<Rightarrow> ('w \<Rightarrow> nat \<times> 'w) \<Rightarrow> ('w \<Rightarrow> double \<times> 'w) \<Rightarrow> nat \<Rightarrow> send_wr \<Rightarrow> mem \<times> 'w \<Rightarrow> (mem \<times> 'w) result"
where
  "remote_ops_pass V rnd drand qp wr s =
     (let (m, w) = s; (x, w1) = rnd w; ele_num = x mod 10;
          m1 = put_bytes m 0 (le_bytes 4 (word_of_nat ele_num :: 32 word));
          (r, w2) = V (Malloc (ele_num * 8)) w1 in
      if 0 < ele_num \<and> r_handle r = 0 then Inl Null_deref else
      let (ds, w3) = draw_doubles drand ele_num w2;
          m2 = put_bytes m1 4 (enc_array (le_bytes 8) ds);
          (r', w4) = V (Post_send qp wr) w3 in
      Inr (m2, w4))"

partial_function (option) remote_ops_loop ::
    "'w verbs \<Rightarrow> ('w \<Rightarrow> nat \<times> 'w) \<Rightarrow> ('w \<Rightarrow> double \<times> 'w) \<Rightarrow> nat \<Rightarrow> send_wr \<Rightarrow> mem \<times> 'w \<Rightarrow>
       (int \<times> 'w) result option"
where
  "remote_ops_loop V rnd drand qp wr s =
     (case remote_ops_pass V rnd drand qp wr s of
        Inl e \<Rightarrow> Some (Inl e)
      | Inr s' \<Rightarrow> remote_ops_loop V rnd drand qp wr s')"

text \<open>The first store through \<open>src\<close> comes before the loop.\<close>

definition client_remote_memory_ops ::
    "'w verbs \<Rightarrow> ('w \<Rightarrow> nat \<times> 'w) \<Rightarrow> ('w \<Rightarrow> double \<times> 'w) \<Rightarrow> client_rdma \<Rightarrow> mem \<times> 'w \<Rightarrow>
       (int \<times> 'w) result option"
where
  "client_remote_memory_ops V rnd drand st s =
     (case oc_client_src_mr st of
        None \<Rightarrow> Some (Inl Null_deref)
      | Some mr \<Rightarrow>
          if oc_src st = 0 then Some (Inl Null_deref)
          else remote_ops_loop V rnd drand (oc_client_qp st)
            (remote_write_wr mr (word_of_nat (mr_length mr)) (oc_server_metadata_attr st) 0)
            (put_bytes (fst s) 0 (le_bytes 4 (0 :: 32 word)), snd s))"

section \<open>Disconnecting\<close>

text \<open>
  Every failure is only reported. The event pointer is acknowledged whatever
  \<open>process_rdma_cm_event\<close> has returned.
\<close>

definition client_disconnect_and_clean ::
    "'w verbs \<Rightarrow> client_rdma \<Rightarrow> 'w \<Rightarrow> int \<times> client_rdma \<times> 'w" where
  "client_disconnect_and_clean V st w =
     (let (r1, w1) = V (Disconnect (oc_cm_client_id st)) w;
          (c2, e2, w2) =
            process_rdma_cm_event V (oc_cm_event_channel st) RDMA_CM_EVENT_DISCONNECTED None w1;
          (r3, w3) = V Ack_cm_event w2;
          (r4, w4) = V (Destroy_qp (oc_cm_client_id st)) w3;
          (r5, w5) = V (Destroy_id (oc_cm_client_id st)) w4;
          (r6, w6) = V (Destroy_cq (oc_client_cq st)) w5;
          (r7, w7) = V (Destroy_comp_channel (oc_io_completion_channel st)) w6;
          w8 = rdma_buffer_deregister V (oc_server_metadata_mr st) w7;
          w9 = rdma_buffer_deregister V (oc_client_metadata_mr st) w8;
          w10 = rdma_buffer_deregister V (oc_client_src_mr st) w9;
          w11 = rdma_buffer_deregister V (oc_client_dst_mr st) w10;
          (r12, w12) = V (Free (oc_src st)) w11;
          (r13, w13) = V (Free (oc_dst st)) w12;
          (r14, w14) = V (Dealloc_pd (oc_pd st)) w13;
          (r15, w15) = V (Destroy_event_channel (oc_cm_event_channel st)) w14 in
      (0, st, w15))"

section \<open>Facts\<close>

lemma remote_ops_loop_faults:
  assumes "remote_ops_loop V rnd drand qp wr s = Some r"
  shows "isl r"
  by (rule remote_ops_loop.raw_induct[OF _ assms, of "\<lambda>V rnd drand qp wr s r. isl r"])
    (auto split: sum.splits)

section \<open>Properties\<close>

text \<open>
  \<open>client_connect_to_server\<close> returns exactly when some attempt of \<open>rdma_connect\<close> succeeds: with a
  server that is not there it repeats the call for ever. A return then tells nothing about the
  attempts before the last one.
\<close>

lemma connect_returns_iff:
  "(\<exists>c st' w'. client_connect_to_server V st w = Some (c, st', w')) \<longleftrightarrow>
   (\<exists>n. r_code (nth_reply V (Connect (oc_cm_client_id st) client_conn_param) w n) = 0)"
proof -
  have "(\<exists>c st' w'. client_connect_to_server V st w = Some (c, st', w')) \<longleftrightarrow>
      (\<exists>w1. connect_retry V (oc_cm_client_id st) client_conn_param w = Some w1)"
    by (auto simp: client_connect_to_server_def Let_def split_beta split: option.splits)
  then show ?thesis by (simp add: connect_retry_def repeat_call_iff)
qed

text \<open>
  \<open>client_remote_memory_ops\<close> never returns a result: it faults, or repeats its write for ever, so
  that the code behind its loop is dead. In an object as the constructor leaves it, where no method
  sets \<open>src\<close>, it dereferences a null pointer.
\<close>

lemma remote_ops_no_return:
  "client_remote_memory_ops V rnd drand st s \<noteq> Some (Inr y) \<and>
   client_remote_memory_ops V rnd drand (new_client_rdma raw\<lparr>oc_client_src_mr := mr\<rparr>) s = Some (Inl Null_deref)"
proof -
  have "isl r" if "client_remote_memory_ops V rnd drand st s = Some r" for r
    using that by (auto simp: client_remote_memory_ops_def split: option.splits if_splits dest: remote_ops_loop_faults)
  then show ?thesis
    by (auto simp: client_remote_memory_ops_def new_client_rdma_def split: option.splits)
qed

end
