(* ===== verification/One_Sided_Server.thy ===== *)
theory One_Sided_Server
  imports RDMA_Common
begin

text \<open>
  \<open>server_rdma_op\<close> (\<open>server_rdma_op.cpp\<close>, \<open>.h\<close>): the server whose memory the one-sided client
  writes. It waits for one client, prepares queues for it, accepts it, and sends it the attributes
  of a buffer that the caller passed in. The conventions are those of \<open>One_Sided_Client\<close>; error
  paths return without releasing anything.
\<close>

section \<open>State\<close>

record server_rdma =
  os_cm_event_channel :: nat
  os_cm_server_id :: nat
  os_cm_client_id :: nat
  os_pd :: nat
  os_io_completion_channel :: nat
  os_cq :: nat
  os_qp_init_attr :: qp_attr
  os_client_qp :: nat
  os_client_metadata_mr :: "ibv_mr option"
  os_server_buffer_mr :: "ibv_mr option"
  os_server_metadata_mr :: "ibv_mr option"
  os_client_metadata_attr :: rdma_buffer_attr
  os_server_metadata_attr :: rdma_buffer_attr
  os_client_recv_wr :: recv_wr
  os_client_recv_sge :: ibv_sge
  os_client_metadata_at :: nat
  os_server_metadata_at :: nat

definition new_server_rdma :: "server_rdma \<Rightarrow> server_rdma" where
  "new_server_rdma raw = raw\<lparr>os_cm_event_channel := 0, os_cm_server_id := 0, os_cm_client_id := 0,
     os_pd := 0, os_io_completion_channel := 0, os_cq := 0, os_client_qp := 0,
     os_client_metadata_mr := None, os_server_buffer_mr := None, os_server_metadata_mr := None\<rparr>"

section \<open>Waiting for a client\<close>

definition start_rdma_server ::
    "'w verbs \<Rightarrow> int \<Rightarrow> server_rdma \<Rightarrow> 'w \<Rightarrow> int \<times> server_rdma \<times> 'w" where
  "start_rdma_server V port st w =
     (let (r1, w1) = V Create_event_channel w;
          st1 = st\<lparr>os_cm_event_channel := r_handle r1\<rparr> in
      if r_handle r1 = 0 then (- r_errno r1, st1, w1) else
      let (r2, w2) = V (Create_id (os_cm_event_channel st1)) w1 in
      if r_code r2 \<noteq> 0 then (- r_errno r2, st1, w2) else
      let st2 = st1\<lparr>os_cm_server_id := r_handle r2\<rparr>;
          (r3, w3) = V (Bind_addr (os_cm_server_id st2) port) w2 in
      if r_code r3 \<noteq> 0 then (- r_errno r3, st2, w3) else
      let (r4, w4) = V (Listen (os_cm_server_id st2) 8) w3 in
      if r_code r4 \<noteq> 0 then (- r_errno r4, st2, w4) else
      let (c5, e5, w5) =
        process_rdma_cm_event V (os_cm_event_channel st2) RDMA_CM_EVENT_CONNECT_REQUEST None w4 in
      if c5 \<noteq> 0 then (c5, st2, w5) else
      let st3 = st2\<lparr>os_cm_client_id := (case e5 of None \<Rightarrow> 0 | Some e \<Rightarrow> ev_id e)\<rparr>;
          (r6, w6) = V Ack_cm_event w5 in
      if r_code r6 \<noteq> 0 then (- r_errno r6, st3, w6) else (0, st3, w6))"

definition server_qp_attr :: "nat \<Rightarrow> qp_attr" where
  "server_qp_attr cq = \<lparr>qp_send_cq = cq, qp_recv_cq = cq, qp_reliable = True, max_send_wr = MAX_WR,
     max_recv_wr = MAX_WR, max_send_sge = MAX_SGE, max_recv_sge = MAX_SGE\<rparr>"

definition setup_client_resources ::
    "'w verbs \<Rightarrow> (nat \<Rightarrow> nat) \<Rightarrow> server_rdma \<Rightarrow> 'w \<Rightarrow> int \<times> server_rdma \<times> 'w" where
  "setup_client_resources V vb st w =
     (if os_cm_client_id st = 0 then (- EINVAL, st, w) else
      let (r1, w1) = V (Alloc_pd (vb (os_cm_client_id st))) w; st1 = st\<lparr>os_pd := r_handle r1\<rparr> in
      if r_handle r1 = 0 then (- r_errno r1, st1, w1) else
      let (r2, w2) = V (Create_comp_channel (vb (os_cm_client_id st))) w1;
          st2 = st1\<lparr>os_io_completion_channel := r_handle r2\<rparr> in
      if r_handle r2 = 0 then (- r_errno r2, st2, w2) else
      let (r3, w3) = V (Create_cq (vb (os_cm_client_id st)) CQ_CAPACITY
            (os_io_completion_channel st2)) w2;
          st3 = st2\<lparr>os_cq := r_handle r3\<rparr> in
      if r_handle r3 = 0 then (- r_errno r3, st3, w3) else
      let (r4, w4) = V (Req_notify_cq (os_cq st3)) w3 in
      if r_code r4 \<noteq> 0 then (- r_errno r4, st3, w4) else
      let st4 = st3\<lparr>os_qp_init_attr := server_qp_attr (os_cq st3)\<rparr>;
          (r5, w5) = V (Create_qp (os_cm_client_id st4) (os_pd st4) (os_qp_init_attr st4)) w4 in
      if r_code r5 \<noteq> 0 then (- r_errno r5, st4, w5) else
      (0, st4\<lparr>os_client_qp := r_handle r5\<rparr>, w5))"

section \<open>Accepting it\<close>

definition server_conn_param :: conn_param where
  "server_conn_param =
     \<lparr>initiator_depth = 3, responder_resources = 3, retry_count = 0, rnr_retry_count = 0\<rparr>"

text \<open>
  After a failed \<open>process_rdma_cm_event\<close> the method returns \<open>-errno\<close>, not the result of the routine.
  When the routine has acknowledged a rejected event, \<open>errno\<close> is what that call left.
\<close>

definition event_errno :: "'w verbs \<Rightarrow> nat \<Rightarrow> 'w \<Rightarrow> int" where
  "event_errno V echannel w =
     (let (r, w1) = V (Get_cm_event echannel) w in
      if r_code r \<noteq> 0 then r_errno r else r_errno (fst (V Ack_cm_event w1)))"

definition accept_client_connection ::
    "'w verbs \<Rightarrow> server_rdma \<Rightarrow> 'w \<Rightarrow> int \<times> server_rdma \<times> 'w" where
  "accept_client_connection V st w =
     (if os_cm_client_id st = 0 \<or> os_client_qp st = 0 then (- EINVAL, st, w) else
      let (mr, w1) = rdma_buffer_register V (os_pd st) (os_client_metadata_at st)
            (word_of_nat ATTR_SZ) [LOCAL_WRITE] w;
          st1 = st\<lparr>os_client_metadata_mr := mr\<rparr> in
      case mr of
        None \<Rightarrow> (- ENOMEM, st1, w1)
      | Some m \<Rightarrow>
        let st2 = st1\<lparr>os_client_recv_sge := sge_of_mr m,
                      os_client_recv_wr := \<lparr>rwr_id = 0, rwr_sges = [sge_of_mr m]\<rparr>\<rparr>;
            (r2, w2) = V (Post_recv (os_client_qp st2) (os_client_recv_wr st2)) w1 in
        if r_code r2 \<noteq> 0 then (r_code r2, st2, w2) else
        let (r3, w3) = V (Accept (os_cm_client_id st2) server_conn_param) w2 in
        if r_code r3 \<noteq> 0 then (- r_errno r3, st2, w3) else
        let (c4, e4, w4) =
          process_rdma_cm_event V (os_cm_event_channel st2) RDMA_CM_EVENT_ESTABLISHED None w3 in
        if c4 \<noteq> 0 then (- event_errno V (os_cm_event_channel st2) w3, st2, w4) else
        let (r5, w5) = V Ack_cm_event w4 in
        if r_code r5 \<noteq> 0 then (- r_errno r5, st2, w5) else (0, st2, w5))"

section \<open>Sending the attributes\<close>

definition server_send_wr :: "ibv_mr \<Rightarrow> send_wr" where
  "server_send_wr m = zero_send_wr\<lparr>swr_opcode := IBV_WR_SEND, swr_signaled := True,
     swr_sges := [sge_of_mr m]\<rparr>"

text \<open>What \<open>errno\<close> is after the failed registration of the attributes.\<close>

definition register_errno :: "'w verbs \<Rightarrow> server_rdma \<Rightarrow> 'w \<Rightarrow> int" where
  "register_errno V st w =
     r_errno (fst (V (Reg_mr (os_pd st) (os_server_metadata_at st) ATTR_SZ [LOCAL_WRITE]) w))"

text \<open>The region of the passed buffer is used without a test for \<open>NULL\<close>.\<close>

definition send_server_metadata_to_client1 ::
    "'w verbs \<Rightarrow> nat \<Rightarrow> nat \<Rightarrow> server_rdma \<Rightarrow> ibv_wc list \<Rightarrow> 'w \<Rightarrow>
       (int \<times> server_rdma \<times> 'w) result option" where
  "send_server_metadata_to_client1 V buf_to_rwrite buf_sz st wc w =
     (case process_work_completion_events V (os_io_completion_channel st) wc 1 w of
        None \<Rightarrow> None
      | Some (ret, wc', w1) \<Rightarrow>
        if ret \<noteq> 1 then Some (Inr (ret, st, w1)) else
        let (mr, w2) = rdma_buffer_alloc1 V (os_pd st) buf_to_rwrite (word_of_nat buf_sz)
              [REMOTE_READ, LOCAL_WRITE, REMOTE_WRITE] w1;
            st1 = st\<lparr>os_server_buffer_mr := mr\<rparr> in
        (case mr of
           None \<Rightarrow> Some (Inl Null_deref)
         | Some m \<Rightarrow>
           let st2 = st1\<lparr>os_server_metadata_attr := attr_of_mr m\<rparr> in
           let (mr', w3) = rdma_buffer_register V (os_pd st2) (os_server_metadata_at st2)
                 (word_of_nat ATTR_SZ) [LOCAL_WRITE] w2;
               st3 = st2\<lparr>os_server_metadata_mr := mr'\<rparr> in
           (case mr' of
              None \<Rightarrow> Some (Inr (- register_errno V st2 w2, st3, w3))
            | Some m' \<Rightarrow>
              let (r4, w4) = V (Post_send (os_client_qp st3) (server_send_wr m')) w3 in
              Some (Inr (if r_code r4 \<noteq> 0 then - r_code r4 else 0, st3, w4)))))"

section \<open>Disconnecting and starting up\<close>

definition disconnect_and_cleanup ::
    "'w verbs \<Rightarrow> server_rdma \<Rightarrow> 'w \<Rightarrow> int \<times> server_rdma \<times> 'w" where
  "disconnect_and_cleanup V st w =
     (let (c1, e1, w1) =
            process_rdma_cm_event V (os_cm_event_channel st) RDMA_CM_EVENT_DISCONNECTED None w in
      if c1 \<noteq> 0 then (c1, st, w1) else
      let (r2, w2) = V Ack_cm_event w1 in
      if r_code r2 \<noteq> 0 then (- r_errno r2, st, w2) else
      let (r3, w3) = V (Destroy_qp (os_cm_client_id st)) w2;
          (r4, w4) = V (Destroy_id (os_cm_client_id st)) w3;
          (r5, w5) = V (Destroy_cq (os_cq st)) w4;
          (r6, w6) = V (Destroy_comp_channel (os_io_completion_channel st)) w5;
          w7 = rdma_buffer_free V (os_server_buffer_mr st) w6;
          w8 = rdma_buffer_deregister V (os_server_metadata_mr st) w7;
          w9 = rdma_buffer_deregister V (os_client_metadata_mr st) w8;
          (r10, w10) = V (Dealloc_pd (os_pd st)) w9;
          (r11, w11) = V (Destroy_id (os_cm_server_id st)) w10;
          (r12, w12) = V (Destroy_event_channel (os_cm_event_channel st)) w11 in
      (0, st, w12))"

text \<open>\<open>local_ip\<close> is not used: the server listens on \<open>INADDR_ANY\<close>.\<close>

definition rdma_server_init ::
    "'w verbs \<Rightarrow> (nat \<Rightarrow> nat) \<Rightarrow> string \<Rightarrow> int \<Rightarrow> nat \<Rightarrow> nat \<Rightarrow> server_rdma \<Rightarrow> ibv_wc list \<Rightarrow> 'w \<Rightarrow>
       (int \<times> server_rdma \<times> 'w) result option" where
  "rdma_server_init V vb local_ip local_port register_buf register_sz st wc w =
     (let (c1, st1, w1) = start_rdma_server V (local_port mod 2 ^ 16) st w in
      if c1 \<noteq> 0 then Some (Inr (c1, st1, w1)) else
      let (c2, st2, w2) = setup_client_resources V vb st1 w1 in
      if c2 \<noteq> 0 then Some (Inr (c2, st2, w2)) else
      let (c3, st3, w3) = accept_client_connection V st2 w2 in
      if c3 \<noteq> 0 then Some (Inr (c3, st3, w3)) else
      send_server_metadata_to_client1 V register_buf register_sz st3 wc w3)"

section \<open>Properties\<close>

text \<open>
  When the buffer that the caller passed in cannot be registered, \<open>rdma_buffer_alloc1\<close> frees the
  caller's memory, and \<open>send_server_metadata_to_client1\<close>, which does not look at its result, reads the
  address of the region through a null pointer.
\<close>

lemma unregistered_buffer:
  assumes pd: "os_pd st \<noteq> 0" and buf: "buf \<noteq> 0"
    and got: "process_work_completion_events V (os_io_completion_channel st) wc 1 w = Some (1, wc', w1)"
    and reg: "r_handle (fst (V (Reg_mr (os_pd st) buf (unat (word_of_nat sz :: 32 word))
      [REMOTE_READ, LOCAL_WRITE, REMOTE_WRITE]) w1)) = 0"
  shows "send_server_metadata_to_client1 V buf sz st wc w = Some (Inl Null_deref) \<and>
    (\<exists>w2. rdma_buffer_alloc1 (traced V) (os_pd st) buf (word_of_nat sz) [REMOTE_READ, LOCAL_WRITE, REMOTE_WRITE]
        (w1, []) = (None, (w2, [Reg_mr (os_pd st) buf (unat (word_of_nat sz :: 32 word))
          [REMOTE_READ, LOCAL_WRITE, REMOTE_WRITE], Free buf])))"
  using assms
  by (auto simp: send_server_metadata_to_client1_def rdma_buffer_alloc1_def rdma_buffer_register_def traced_eq
      Let_def split_beta)

text \<open>An adapter that delivers a good completion at once and has no room for regions.\<close>

fun full_adapter :: "nat verbs" where
  "full_adapter (Poll_cq cq k) n =
     (\<lparr>r_code = int k, r_errno = 0, r_handle = 0,
       r_mr = \<lparr>mr_addr = 0, mr_length = 0, mr_lkey = 0, mr_rkey = 0\<rparr>,
       r_event = \<lparr>ev_event = RDMA_CM_EVENT_OTHER 0, ev_id = 0, ev_verbs = 0, ev_status = 0\<rparr>,
       r_wcs = replicate k \<lparr>wc_id = 0, wc_status = 0, wc_opcode = IBV_WC_RECV, wc_imm = 0\<rparr>\<rparr>, n)"
| "full_adapter c n =
     (\<lparr>r_code = 0, r_errno = ENOMEM, r_handle = 0,
       r_mr = \<lparr>mr_addr = 0, mr_length = 0, mr_lkey = 0, mr_rkey = 0\<rparr>,
       r_event = \<lparr>ev_event = RDMA_CM_EVENT_OTHER 0, ev_id = 0, ev_verbs = 0, ev_status = 0\<rparr>,
       r_wcs = []\<rparr>, n)"

lemma full_adapter_completion:
  "\<exists>wc'. process_work_completion_events full_adapter ch wc 1 n = Some (1, wc', n)"
proof -
  have "reap_wcs full_adapter 0 1 0 wc n =
      Some (1, 1, store_wcs wc 0 [\<lparr>wc_id = 0, wc_status = 0, wc_opcode = IBV_WC_RECV, wc_imm = 0\<rparr>], n)"
    by (subst reap_wcs.simps) simp
  then show ?thesis by (simp add: process_work_completion_events_def store_wcs_def)
qed

lemma unregistered_buffer_example:
  "send_server_metadata_to_client1 full_adapter 4096 64 ((new_server_rdma undefined)\<lparr>os_pd := 1\<rparr>) [] 0 =
     Some (Inl Null_deref)"
proof -
  obtain wc' where "process_work_completion_events full_adapter
      (os_io_completion_channel ((new_server_rdma undefined)\<lparr>os_pd := 1\<rparr>)) [] 1 0 = Some (1, wc', 0)"
    using full_adapter_completion by blast
  from unregistered_buffer[OF _ _ this, of 4096 64] show ?thesis by simp
qed

end
