(* ===== verification/Lifecycle.thy ===== *)
theory Lifecycle
  imports Ledger One_Sided_Client One_Sided_Server
begin

text \<open>
  What the methods of the one-sided client and server hold and give back, on the ledger, and the
  properties of their whole life: from a new object over connection and exchange of the attributes
  to the clean-up. \<open>One_Sided_Runs\<close> puts them together.
\<close>

section \<open>The server\<close>

lemma start_books:
  assumes E: "errno_reliable V"
    and r: "start_rdma_server (ledger V) port st (w, a) = (0, st', (w', a'))"
  shows "a' = (fst a + {#Channel (os_cm_event_channel st'), Cm_id (os_cm_server_id st'),
      Cm_id (os_cm_client_id st')#}, snd a)"
  using r
  by (auto simp: start_rdma_server_def Let_def ledger_iff book_def split: if_splits prod.splits
      dest!: event_accepted[OF E] errno_zero[OF _ _ E])

lemma setup_books:
  assumes E: "errno_reliable V"
    and r: "setup_client_resources (ledger V) vb st (w, a) = (0, st', (w', a'))"
  shows "a' = (fst a + {#Domain (os_pd st'), Comp_channel (os_io_completion_channel st'),
      Queue (os_cq st'), Queue_pair (os_cm_client_id st')#}, snd a) \<and>
    os_cm_event_channel st' = os_cm_event_channel st \<and> os_cm_server_id st' = os_cm_server_id st \<and>
    os_cm_client_id st' = os_cm_client_id st \<and> os_pd st' \<noteq> 0"
  using r
  by (auto simp: setup_client_resources_def Let_def ledger_iff book_def EINVAL_def
      split: if_splits prod.splits dest!: errno_zero[OF _ _ E])

lemma register_books:
  assumes "rdma_buffer_register (ledger V) pd a n acc (w, x) = (mr, (w', x'))"
  shows "x' = (fst x + (case mr of None \<Rightarrow> {#} | Some m \<Rightarrow> {#Region m#}), snd x)"
  using assms
  by (auto simp: rdma_buffer_register_def Let_def ledger_iff book_def split: if_splits prod.splits)

lemma alloc1_books:
  assumes "rdma_buffer_alloc1 (ledger V) pd buf n acc (w, x) = (Some m, (w', x'))"
  shows "x' = (fst x + {#Region m#}, snd x)"
  using assms
  by (auto simp: rdma_buffer_alloc1_def Let_def split: if_splits prod.splits option.splits dest: register_books)

text \<open>
  A rejected event is acknowledged by \<open>process_rdma_cm_event\<close>; if it was the request of a client, the
  id of that client stays.
\<close>

lemma event_rejected:
  assumes p: "process_rdma_cm_event (ledger V) ec x e (w, a) = (c, e', (w', a'))" and c: "c \<noteq> 0"
  shows "\<exists>S. (S = {#} \<or> (\<exists>j. S = {#Cm_id j#})) \<and> a' = (fst a + S, snd a)"
  using p c
proof (cases rule: process_cm_cases)
  case (no_event r)
  then show ?thesis by (intro exI[of _ "{#}"]) (auto simp: ledger_iff book_def)
next
  case (bad_status r w1 r')
  then show ?thesis
    by (intro exI[of _ "if ev_event (r_event r) = RDMA_CM_EVENT_CONNECT_REQUEST then {#Cm_id (ev_id (r_event r))#} else {#}"])
      (auto simp: ledger_eq book_def)
next
  case (bad_type r w1 r')
  then show ?thesis
    by (intro exI[of _ "if ev_event (r_event r) = RDMA_CM_EVENT_CONNECT_REQUEST then {#Cm_id (ev_id (r_event r))#} else {#}"])
      (auto simp: ledger_eq book_def)
qed (use c in simp)

text \<open>
  When \<open>accept_client_connection\<close> returns 0 it has taken the expected event, or it has rejected one
  and \<open>errno\<close> was 0 after the acknowledgement.
\<close>

lemma rejected_errno:
  assumes E: "errno_reliable V" and "event_errno V ec w = 0"
  shows "\<exists>w. r_errno (fst (V Ack_cm_event w)) = 0"
  using errno_pos[OF E, of "Get_cm_event ec" w] assms(2)
  by (auto simp: event_errno_def Let_def split_beta split: if_splits)

lemma register_errno_pos:
  assumes E: "errno_reliable V"
    and r: "rdma_buffer_register V (os_pd st) (os_server_metadata_at st) (word_of_nat ATTR_SZ) [LOCAL_WRITE] w =
      (None, w')"
    and pd: "os_pd st \<noteq> 0"
  shows "0 < register_errno V st w"
  using r pd errno_pos[OF E, of "Reg_mr (os_pd st) (os_server_metadata_at st) ATTR_SZ [LOCAL_WRITE]" w]
  by (auto simp: rdma_buffer_register_def register_errno_def ATTR_SZ_def Let_def split: if_splits prod.splits)

lemma alloc1_domain: "rdma_buffer_alloc1 V pd buf n acc w = (Some m, w') \<Longrightarrow> pd \<noteq> 0"
  by (simp add: rdma_buffer_alloc1_def split: if_splits)

lemma alloc1_addr:
  assumes "rdma_buffer_alloc1 (ledger V) pd buf n acc (w, x) = (Some m, y)" and "registers_in_place V"
  shows "mr_addr m = buf \<and> buf \<noteq> 0"
  using assms
  by (auto simp: rdma_buffer_alloc1_def rdma_buffer_register_def registers_in_place_def ledger_eq Let_def
      split: if_splits)

lemma accept_books:
  assumes E: "errno_reliable V"
    and r: "accept_client_connection (ledger V) st (w, a) = (0, st', (w', a'))"
  shows "\<exists>m S. os_client_metadata_mr st' = Some m \<and> a' = (fst a + {#Region m#} + S, snd a) \<and>
    (S = {#} \<or> (\<exists>j. S = {#Cm_id j#}) \<and> (\<exists>w. r_errno (fst (V Ack_cm_event w)) = 0)) \<and>
    os_cm_event_channel st' = os_cm_event_channel st \<and> os_cm_server_id st' = os_cm_server_id st \<and>
    os_cm_client_id st' = os_cm_client_id st \<and> os_pd st' = os_pd st \<and>
    os_io_completion_channel st' = os_io_completion_channel st \<and> os_cq st' = os_cq st"
proof -
  note d = accept_client_connection_def Let_def and c = if_splits prod.splits option.splits
  obtain m w1 a1 where 1: "rdma_buffer_register (ledger V) (os_pd st) (os_client_metadata_at st) (word_of_nat ATTR_SZ)
      [LOCAL_WRITE] (w, a) = (Some m, (w1, a1))"
    using r by (auto simp: d EINVAL_def ENOMEM_def split: c)
  define st2 where "st2 = st\<lparr>os_client_metadata_mr := Some m, os_client_recv_sge := sge_of_mr m,
    os_client_recv_wr := \<lparr>rwr_id = 0, rwr_sges = [sge_of_mr m]\<rparr>\<rparr>"
  obtain r2 w2 a2 where 2: "ledger V (Post_recv (os_client_qp st2) (os_client_recv_wr st2)) (w1, a1) = (r2, (w2, a2))"
    "r_code r2 = 0" using r 1 by (auto simp: d st2_def EINVAL_def split: c)
  obtain r3 w3 a3 where 3: "ledger V (Accept (os_cm_client_id st2) server_conn_param) (w2, a2) = (r3, (w3, a3))"
    by (metis prod.collapse)
  have c3: "r_code r3 = 0"
    using r 1 2 3 by (auto simp: d st2_def EINVAL_def ledger_iff split: c dest!: errno_zero[OF _ _ E])
  have a3: "a3 = (fst a + {#Region m#}, snd a)"
    using register_books[OF 1] 2 3 by (simp add: ledger_iff book_def)
  obtain c4 e4 w4 a4 where 4: "process_rdma_cm_event (ledger V) (os_cm_event_channel st2) RDMA_CM_EVENT_ESTABLISHED None
      (w3, a3) = (c4, e4, (w4, a4))" by (metis prod.collapse)
  have "os_client_metadata_mr st2 = Some m \<and> os_cm_event_channel st2 = os_cm_event_channel st \<and>
      os_cm_server_id st2 = os_cm_server_id st \<and> os_cm_client_id st2 = os_cm_client_id st \<and> os_pd st2 = os_pd st \<and>
      os_io_completion_channel st2 = os_io_completion_channel st \<and> os_cq st2 = os_cq st" by (simp add: st2_def)
  moreover have "st' = st2 \<and> (\<exists>S. a' = (fst a + {#Region m#} + S, snd a) \<and>
      (S = {#} \<or> (\<exists>j. S = {#Cm_id j#}) \<and> (\<exists>w. r_errno (fst (V Ack_cm_event w)) = 0)))"
  proof (cases "c4 = 0")
    case True
    then have "a4 = (fst a3 + {#Cm_event#}, snd a3)" using event_accepted[OF E] 4 by fastforce
    then have "st' = st2 \<and> a' = (fst a + {#Region m#}, snd a)"
      using r 1 2 3 4 True c3 a3 by (auto simp: d st2_def EINVAL_def ledger_iff book_def split: c dest!: errno_zero[OF _ _ E])
    then show ?thesis by (intro conjI exI[of _ "{#}"]) auto
  next
    case False
    have z: "st' = st2" "event_errno (ledger V) (os_cm_event_channel st2) (w3, a3) = 0" "a' = a4"
      using r 1 2 3 4 False c3 by (auto simp: d st2_def EINVAL_def split: c)
    have "event_errno (ledger V) (os_cm_event_channel st2) (w3, a3) = event_errno V (os_cm_event_channel st2) w3"
      by (simp add: event_errno_def ledger_eq Let_def split_beta)
    then have "\<exists>w. r_errno (fst (V Ack_cm_event w)) = 0" using rejected_errno[OF E] z(2) by simp
    then show ?thesis using event_rejected[OF 4 False] z a3 by auto
  qed
  ultimately show ?thesis by auto
qed

text \<open>What the calls of \<open>send_server_metadata_to_client1\<close> answered when it returns 0.\<close>

lemma send_metadata_steps:
  assumes E: "errno_reliable W"
    and r: "send_server_metadata_to_client1 W buf sz st wc s = Some (Inr (0, st', s'))"
  obtains wc1 w1 m w2 m' w3 reply where
    "process_work_completion_events W (os_io_completion_channel st) wc 1 s = Some (1, wc1, w1)"
    "rdma_buffer_alloc1 W (os_pd st) buf (word_of_nat sz) [REMOTE_READ, LOCAL_WRITE, REMOTE_WRITE] w1 = (Some m, w2)"
    "rdma_buffer_register W (os_pd st) (os_server_metadata_at st) (word_of_nat ATTR_SZ) [LOCAL_WRITE] w2 = (Some m', w3)"
    "W (Post_send (os_client_qp st) (server_send_wr m')) w3 = (reply, s')"
    "st' = st\<lparr>os_server_buffer_mr := Some m, os_server_metadata_attr := attr_of_mr m, os_server_metadata_mr := Some m'\<rparr>"
proof -
  note d = send_server_metadata_to_client1_def Let_def
  note c = option.splits prod.splits if_splits
  obtain wc1 w1 where 1:
    "process_work_completion_events W (os_io_completion_channel st) wc 1 s = Some (1, wc1, w1)"
    using r completions_not_zero[OF E, of "os_io_completion_channel st" wc 1 s]
    by (auto simp: d split: c)
  obtain m w2 where 2: "rdma_buffer_alloc1 W (os_pd st) buf (word_of_nat sz)
      [REMOTE_READ, LOCAL_WRITE, REMOTE_WRITE] w1 = (Some m, w2)"
    using r 1 by (auto simp: d split: c)
  let ?st = "st\<lparr>os_server_buffer_mr := Some m, os_server_metadata_attr := attr_of_mr m\<rparr>"
  obtain m' w3 where 3: "rdma_buffer_register W (os_pd st) (os_server_metadata_at st)
      (word_of_nat ATTR_SZ) [LOCAL_WRITE] w2 = (Some m', w3)"
    using r 1 2 alloc1_domain[OF 2] register_errno_pos[OF E, of ?st w2] by (auto simp: d split: c)
  obtain reply s4 where 4: "W (Post_send (os_client_qp st) (server_send_wr m')) w3 = (reply, s4)"
    by fastforce
  have "s4 = s' \<and> st' = ?st\<lparr>os_server_metadata_mr := Some m'\<rparr>"
    using r 1 2 3 4 by (auto simp: d split: c)
  then show thesis using that[OF 1 2 3] 4 by simp
qed

lemma send_metadata_books:
  assumes E: "errno_reliable V"
    and r: "send_server_metadata_to_client1 (ledger V) buf sz st wc (w, a) = Some (Inr (0, st', (w', a')))"
  shows "\<exists>m m'. os_server_buffer_mr st' = Some m \<and> os_server_metadata_mr st' = Some m' \<and>
    a' = (fst a + {#Region m, Region m'#}, snd a) \<and>
    (registers_in_place V \<longrightarrow> mr_addr m = buf \<and> buf \<noteq> 0) \<and>
    os_cm_event_channel st' = os_cm_event_channel st \<and> os_cm_server_id st' = os_cm_server_id st \<and>
    os_cm_client_id st' = os_cm_client_id st \<and> os_pd st' = os_pd st \<and> os_cq st' = os_cq st \<and>
    os_io_completion_channel st' = os_io_completion_channel st \<and>
    os_client_metadata_mr st' = os_client_metadata_mr st"
proof -
  obtain wc1 w1 a1 m w2 a2 m' w3 a3 reply where
    1: "process_work_completion_events (ledger V) (os_io_completion_channel st) wc 1 (w, a) = Some (1, wc1, (w1, a1))" and
    2: "rdma_buffer_alloc1 (ledger V) (os_pd st) buf (word_of_nat sz)
      [REMOTE_READ, LOCAL_WRITE, REMOTE_WRITE] (w1, a1) = (Some m, (w2, a2))" and
    3: "rdma_buffer_register (ledger V) (os_pd st) (os_server_metadata_at st)
      (word_of_nat ATTR_SZ) [LOCAL_WRITE] (w2, a2) = (Some m', (w3, a3))" and
    4: "ledger V (Post_send (os_client_qp st) (server_send_wr m')) (w3, a3) = (reply, (w', a'))" and
    st': "st' = st\<lparr>os_server_buffer_mr := Some m, os_server_metadata_attr := attr_of_mr m,
      os_server_metadata_mr := Some m'\<rparr>"
    by (rule send_metadata_steps[OF errno_reliable_ledger[OF E] r]) (metis prod.collapse)
  have "a1 = a" using completions_keep_ledger[OF E 1] by simp
  then have "a3 = (fst a + {#Region m, Region m'#}, snd a)"
    using alloc1_books[OF 2] register_books[OF 3] by simp
  moreover have "a' = a3" using 4 by (simp add: ledger_iff book_def)
  ultimately show ?thesis using alloc1_addr[OF 2] by (simp add: st')
qed

lemma diff_skip: "y \<notin># M \<Longrightarrow> M - add_mset y L = M - L"
  by (rule multiset_eqI) (auto simp: not_in_iff)

lemma deregister_books:
  "rdma_buffer_deregister (ledger V) (Some m) (w, a) =
     (snd (V (Dereg_mr m) w), (fst a - {#Region m#}, snd a + ({#Region m#} - fst a)))"
  by (simp add: rdma_buffer_deregister_def ledger_release)

lemma disconnect_books:
  assumes E: "errno_reliable V"
    and m: "os_server_buffer_mr st = Some b" "os_server_metadata_mr st = Some s" "os_client_metadata_mr st = Some c"
    and a: "a = ({#Channel (os_cm_event_channel st), Cm_id (os_cm_server_id st), Cm_id (os_cm_client_id st),
      Domain (os_pd st), Comp_channel (os_io_completion_channel st), Queue (os_cq st),
      Queue_pair (os_cm_client_id st), Region c, Region b, Region s#} + L, x)"
    and r: "disconnect_and_cleanup (ledger V) st (w, a) = (0, st', (w', a'))"
  shows "a' = (L - released (Free (mr_addr b)), x + (released (Free (mr_addr b)) - L))"
proof -
  obtain e1 w1 a1 where 1:
    "process_rdma_cm_event (ledger V) (os_cm_event_channel st) RDMA_CM_EVENT_DISCONNECTED None (w, a) = (0, e1, w1, a1)"
    using r by (auto simp: disconnect_and_cleanup_def Let_def split: prod.splits if_splits)
  have "a1 = (fst a + {#Cm_event#}, snd a)" using event_accepted[OF E 1] by auto
  moreover have "r_code (fst (V Ack_cm_event w1)) = 0"
    using r 1 errno_pos[OF E, of Ack_cm_event w1]
    by (auto simp: disconnect_and_cleanup_def ledger_release Let_def split_beta split: if_splits)
  ultimately show ?thesis
    using r 1 m a
    by (auto simp: disconnect_and_cleanup_def rdma_buffer_free_def deregister_books ledger_release diff_skip)
qed

section \<open>The client\<close>

text \<open>What the client holds once its queue pair exists, and the members no method sets.\<close>

definition client_base :: "client_rdma \<Rightarrow> resource multiset" where
  "client_base st = {#Channel (oc_cm_event_channel st), Cm_id (oc_cm_client_id st), Domain (oc_pd st),
     Comp_channel (oc_io_completion_channel st), Queue (oc_client_cq st), Queue_pair (oc_cm_client_id st)#}"

definition same_base :: "client_rdma \<Rightarrow> client_rdma \<Rightarrow> bool" where
  "same_base st st' \<longleftrightarrow> oc_cm_event_channel st' = oc_cm_event_channel st \<and>
     oc_cm_client_id st' = oc_cm_client_id st \<and> oc_pd st' = oc_pd st \<and>
     oc_io_completion_channel st' = oc_io_completion_channel st \<and> oc_client_cq st' = oc_client_cq st"

definition unset :: "client_rdma \<Rightarrow> bool" where
  "unset st \<longleftrightarrow> oc_client_dst_mr st = None \<and> oc_src st = 0 \<and> oc_dst st = 0"

lemma resolve_books:
  assumes E: "errno_reliable V"
    and r: "client_resolve (ledger V) st (w, a) = (0, st', (w', a'))"
  shows "a' = (fst a + {#Channel (oc_cm_event_channel st'), Cm_id (oc_cm_client_id st')#}, snd a)"
    and "unset st' = unset st"
  using r
  by (auto simp: client_resolve_def unset_def Let_def ledger_iff book_def split: if_splits prod.splits
      dest!: event_accepted[OF E] errno_zero[OF _ _ E])

lemma queues_books:
  assumes E: "errno_reliable V"
    and r: "client_queues (ledger V) vb st (w, a) = (0, st', (w', a'))"
  shows "a' = (fst a + {#Domain (oc_pd st'), Comp_channel (oc_io_completion_channel st'),
      Queue (oc_client_cq st'), Queue_pair (oc_cm_client_id st')#}, snd a) \<and>
    oc_cm_event_channel st' = oc_cm_event_channel st \<and> oc_cm_client_id st' = oc_cm_client_id st \<and>
    unset st' = unset st"
  using r
  by (auto simp: client_queues_def unset_def Let_def ledger_iff book_def split: if_splits prod.splits
      dest!: errno_zero[OF _ _ E])

lemma prepare_books:
  assumes E: "errno_reliable V"
    and r: "client_prepare_connection (ledger V) vb st (w, a) = (0, st', (w', a'))"
  shows "a' = (fst a + client_base st', snd a)" and "unset st' = unset st"
proof -
  obtain st1 w1 a1 where 1: "client_resolve (ledger V) st (w, a) = (0, st1, (w1, a1))"
    and 2: "client_queues (ledger V) vb st1 (w1, a1) = (0, st', (w', a'))"
    using r by (auto simp: client_prepare_connection_def split: prod.splits if_splits)
  show "a' = (fst a + client_base st', snd a)" "unset st' = unset st"
    using resolve_books[OF E 1] queues_books[OF E 2] by (auto simp: client_base_def)
qed

lemma pre_post_books:
  assumes r: "client_pre_post_recv_buffer (ledger V) st (w, a) = (0, st', (w', a'))"
  shows "\<exists>m. oc_server_metadata_mr st' = Some m \<and> a' = (fst a + {#Region m#}, snd a) \<and>
    same_base st st' \<and> unset st' = unset st"
  using r
  by (auto simp: client_pre_post_recv_buffer_def same_base_def unset_def Let_def ledger_iff book_def ENOMEM_def
      split: prod.splits option.splits dest!: register_books)

lemma connects_keep_ledger: "snd (after_calls (ledger V) (Connect cid p) n st) = snd st"
  by (induction n arbitrary: st) (auto simp: ledger_def Let_def split_beta book_neutral)

lemma connect_books:
  assumes E: "errno_reliable V"
    and r: "client_connect_to_server (ledger V) st (w, a) = Some (0, st', (w', a'))"
  shows "a' = a \<and> st' = st"
proof -
  obtain w1 a1 where 1: "connect_retry (ledger V) (oc_cm_client_id st) client_conn_param (w, a) = Some (w1, a1)"
    using r by (auto simp: client_connect_to_server_def split: option.splits)
  have "a1 = a" using repeat_call_returned[OF 1[unfolded connect_retry_def]] connects_keep_ledger by (metis snd_conv)
  then show ?thesis
    using r 1
    by (auto simp: client_connect_to_server_def Let_def ledger_iff book_def split: prod.splits if_splits
        dest!: event_accepted[OF E] errno_zero[OF _ _ E])
qed

lemma exchange_books:
  assumes E: "errno_reliable V"
    and r: "client_exchange (ledger V) buf len st wc (w, a) = Some (0, st', (w', a'))"
  shows "\<exists>m m'. oc_client_src_mr st' = Some m \<and> oc_client_metadata_mr st' = Some m' \<and>
    a' = (fst a + {#Region m, Region m'#}, snd a) \<and>
    same_base st st' \<and> unset st' = unset st \<and> oc_server_metadata_mr st' = oc_server_metadata_mr st"
  using r completions_not_zero[OF errno_reliable_ledger[OF E]]
  by (auto simp: client_exchange_def same_base_def unset_def Let_def ledger_iff book_def
      split: if_splits prod.splits option.splits
      dest!: register_books completions_keep_ledger[OF E] errno_zero[OF _ _ E])

text \<open>The clean-up gives back the connection and the three regions, and acknowledges once.\<close>

lemma client_clean_books:
  assumes u: "unset st"
    and m: "oc_server_metadata_mr st = Some m1" "oc_client_metadata_mr st = Some m2" "oc_client_src_mr st = Some m3"
    and a1: "process_rdma_cm_event (ledger V) (oc_cm_event_channel st) RDMA_CM_EVENT_DISCONNECTED None
      (snd (V (Disconnect (oc_cm_client_id st)) w), a) = (c1, e1, w1, a1)"
    and b: "fst a1 = client_base st + {#Region m1, Region m2, Region m3#} + L"
    and r: "client_disconnect_and_clean (ledger V) st (w, a) = (c, st', (w', a'))"
  shows "a' = (L - {#Cm_event#}, snd a1 + ({#Cm_event#} - L))"
proof -
  have d: "ledger V (Disconnect (oc_cm_client_id st)) (w, a) =
      (fst (V (Disconnect (oc_cm_client_id st)) w), (snd (V (Disconnect (oc_cm_client_id st)) w), a))"
    by (simp add: ledger_eq book_neutral)
  show ?thesis
    using r a1 b u m
    by (auto simp: client_disconnect_and_clean_def d deregister_books ledger_release unset_def
        client_base_def diff_skip rdma_buffer_deregister_def)
qed

section \<open>The start-up of the server as a whole\<close>

lemma init_books:
  assumes E: "errno_reliable V"
    and r: "rdma_server_init (ledger V) vb ip port buf sz st wc (w, a) = Some (Inr (0, st', (w', a')))"
  shows "\<exists>b s c S. os_server_buffer_mr st' = Some b \<and> os_server_metadata_mr st' = Some s \<and>
    os_client_metadata_mr st' = Some c \<and> (registers_in_place V \<longrightarrow> mr_addr b = buf \<and> buf \<noteq> 0) \<and>
    a' = ({#Channel (os_cm_event_channel st'), Cm_id (os_cm_server_id st'), Cm_id (os_cm_client_id st'),
      Domain (os_pd st'), Comp_channel (os_io_completion_channel st'), Queue (os_cq st'),
      Queue_pair (os_cm_client_id st'), Region c, Region b, Region s#} + (fst a + S), snd a) \<and>
    (S = {#} \<or> (\<exists>j. S = {#Cm_id j#}) \<and> (\<exists>w. r_errno (fst (V Ack_cm_event w)) = 0))"
proof -
  obtain st1 w1 a1 where 1: "start_rdma_server (ledger V) (port mod 2 ^ 16) st (w, a) = (0, st1, (w1, a1))"
    using r by (auto simp: rdma_server_init_def split: prod.splits if_splits)
  obtain st2 w2 a2 where 2: "setup_client_resources (ledger V) vb st1 (w1, a1) = (0, st2, (w2, a2))"
    using r 1 by (auto simp: rdma_server_init_def split: prod.splits if_splits)
  obtain st3 w3 a3 where 3: "accept_client_connection (ledger V) st2 (w2, a2) = (0, st3, (w3, a3))"
    and 4: "send_server_metadata_to_client1 (ledger V) buf sz st3 wc (w3, a3) = Some (Inr (0, st', (w', a')))"
    using r 1 2 by (auto simp: rdma_server_init_def split: prod.splits if_splits)
  from accept_books[OF E 3] obtain c S where c: "os_client_metadata_mr st3 = Some c"
    "a3 = (fst a2 + {#Region c#} + S, snd a2)"
    "S = {#} \<or> (\<exists>j. S = {#Cm_id j#}) \<and> (\<exists>w. r_errno (fst (V Ack_cm_event w)) = 0)"
    "os_cm_event_channel st3 = os_cm_event_channel st2" "os_cm_server_id st3 = os_cm_server_id st2"
    "os_cm_client_id st3 = os_cm_client_id st2" "os_pd st3 = os_pd st2"
    "os_io_completion_channel st3 = os_io_completion_channel st2" "os_cq st3 = os_cq st2" by blast
  from send_metadata_books[OF E 4] obtain b s where b: "os_server_buffer_mr st' = Some b"
    "os_server_metadata_mr st' = Some s" "a' = (fst a3 + {#Region b, Region s#}, snd a3)"
    "registers_in_place V \<longrightarrow> mr_addr b = buf \<and> buf \<noteq> 0" by blast
  show ?thesis
    using start_books[OF E 1] setup_books[OF E 2] send_metadata_books[OF E 4] b c
    by (intro exI[of _ b] exI[of _ s] exI[of _ c] exI[of _ S]) (auto simp: ac_simps)
qed

end
