(* ===== verification/One_Sided_Runs.thy ===== *)
theory One_Sided_Runs
  imports Lifecycle
begin

text \<open>
  Properties of the one-sided client and server over their whole life, and the library on which
  their witnesses run.
\<close>

section \<open>A library for examples\<close>

text \<open>
  No call fails; the connection events arrive in the order of the list, a number \<open>e\<close> stands in
  \<open>errno\<close>, and a registered region has the address and length that were asked for.
\<close>

definition calm_reply :: "int \<Rightarrow> reply" where
  "calm_reply e = \<lparr>r_code = 0, r_errno = e, r_handle = 1,
     r_mr = \<lparr>mr_addr = 0, mr_length = 0, mr_lkey = 0, mr_rkey = 0\<rparr>,
     r_event = \<lparr>ev_event = RDMA_CM_EVENT_OTHER 0, ev_id = 0, ev_verbs = 0, ev_status = 0\<rparr>, r_wcs = []\<rparr>"

definition good_wc :: ibv_wc where
  "good_wc = \<lparr>wc_id = 0, wc_status = 0, wc_opcode = IBV_WC_SEND, wc_imm = 0\<rparr>"

fun calm_lib :: "int \<Rightarrow> cm_event_type list \<Rightarrow> nat verbs" where
  "calm_lib e evs (Get_cm_event ec) n = ((calm_reply e)\<lparr>r_event :=
     \<lparr>ev_event = evs ! n, ev_id = 2, ev_verbs = 0, ev_status = 0\<rparr>\<rparr>, Suc n)"
| "calm_lib e evs (Reg_mr pd a len acc) n = ((calm_reply e)\<lparr>r_mr :=
     \<lparr>mr_addr = a, mr_length = len, mr_lkey = 7, mr_rkey = 8\<rparr>\<rparr>, n)"
| "calm_lib e evs (Poll_cq cq k) n = ((calm_reply e)\<lparr>r_code := int k, r_wcs := replicate k good_wc\<rparr>, n)"
| "calm_lib e evs _ n = (calm_reply e, n)"

lemma calm_errno: "r_errno (fst (calm_lib e evs c n)) = e"
  by (cases c) (simp_all add: calm_reply_def)

lemma calm_not_failed: "\<not> failed c (fst (calm_lib e evs c n))"
  by (cases c) (simp_all add: calm_reply_def)

lemma calm_reliable: "errno_reliable (calm_lib e evs)"
  by (simp add: errno_reliable_def calm_not_failed)

lemma calm_in_place: "registers_in_place (calm_lib e evs)"
  by (simp add: registers_in_place_def)

lemma good_wcs: "first_bad (replicate k good_wc) = 0"
  by (induction k) (simp_all add: good_wc_def)

text \<open>A library that answers as \<open>calm_lib\<close> does, with \<open>f\<close> the number of events delivered.\<close>

definition calm :: "'w verbs \<Rightarrow> ('w \<Rightarrow> nat) \<Rightarrow> int \<Rightarrow> cm_event_type list \<Rightarrow> bool" where
  "calm W f e evs \<longleftrightarrow>
     (\<forall>c s. fst (W c s) = fst (calm_lib e evs c (f s)) \<and> f (snd (W c s)) = snd (calm_lib e evs c (f s)))"

lemma calm_self: "calm (calm_lib e evs) id e evs"
  by (simp add: calm_def)

lemma calm_ledger: "calm (ledger (calm_lib e evs)) fst e evs"
  by (simp add: calm_def ledger_def Let_def split_beta)

lemma calm_call:
  "calm W f e evs \<Longrightarrow> fst (W c s) = fst (calm_lib e evs c (f s))"
  "calm W f e evs \<Longrightarrow> f (snd (W c s)) = snd (calm_lib e evs c (f s))"
  by (simp_all add: calm_def)

lemma calm_event:
  assumes C: "calm W f e evs"
  shows "\<exists>s'. f s' = Suc (f s) \<and> process_rdma_cm_event W ec x e0 s =
    (if evs ! f s = x then 0 else - 1, Some \<lparr>ev_event = evs ! f s, ev_id = 2, ev_verbs = 0, ev_status = 0\<rparr>, s')"
  by (auto simp: process_rdma_cm_event_def Let_def split_beta calm_call[OF C] calm_reply_def)

lemma calm_start:
  assumes C: "calm W f e evs" and x: "evs ! f s = RDMA_CM_EVENT_CONNECT_REQUEST"
  shows "\<exists>s'. f s' = Suc (f s) \<and> start_rdma_server W port st s =
    (0, st\<lparr>os_cm_event_channel := 1, os_cm_server_id := 1, os_cm_client_id := 2\<rparr>, s')"
  using x
  by (auto simp: start_rdma_server_def process_rdma_cm_event_def Let_def split_beta calm_call[OF C] calm_reply_def)

lemma calm_setup:
  assumes C: "calm W f e evs" and x: "os_cm_client_id st = 2"
  shows "\<exists>s'. f s' = f s \<and> setup_client_resources W vb st s =
    (0, st\<lparr>os_pd := 1, os_io_completion_channel := 1, os_cq := 1, os_qp_init_attr := server_qp_attr 1,
       os_client_qp := 1\<rparr>, s')"
  using x by (auto simp: setup_client_resources_def Let_def split_beta calm_call[OF C] calm_reply_def)

lemma calm_accept:
  assumes C: "calm W f e evs" and x: "os_cm_client_id st = 2" "os_client_qp st = 1" "os_pd st = 1"
    and ev: "evs ! f s = RDMA_CM_EVENT_ESTABLISHED \<or> e = 0"
  shows "\<exists>s' st'. f s' = Suc (f s) \<and> accept_client_connection W st s = (0, st', s') \<and>
    os_pd st' = 1 \<and> os_cm_event_channel st' = os_cm_event_channel st"
  using x ev
  by (auto simp: accept_client_connection_def event_errno_def process_rdma_cm_event_def rdma_buffer_register_def Let_def
      split_beta calm_call[OF C] calm_reply_def)

lemma calm_completions:
  assumes C: "calm W f e evs" and n: "0 \<le> n"
  shows "\<exists>s'. f s' = f s \<and> process_work_completion_events W ch wc n s =
     Some (n, replicate (nat n) good_wc @ drop (nat n) wc, s')"
proof -
  let ?s = "snd (W (Req_notify_cq 1) (snd (W (Get_cq_event ch) s)))"
  have "reap_wcs W 1 n 0 wc ?s =
      Some (n, n, replicate (nat n) good_wc @ drop (nat n) wc, snd (W (Poll_cq 1 (nat n)) ?s))"
    by (subst reap_wcs.simps)
      (use n in \<open>simp add: Let_def split_beta calm_call[OF C] calm_reply_def store_wcs_def\<close>)
  then show ?thesis
    using n by (auto simp: process_work_completion_events_def Let_def split_beta calm_call[OF C] calm_reply_def good_wcs)
qed

lemma calm_alloc1:
  assumes C: "calm W f e evs" and x: "pd \<noteq> 0" "buf \<noteq> 0"
  shows "\<exists>s' m. f s' = f s \<and> rdma_buffer_alloc1 W pd buf n acc s = (Some m, s')"
  using x
  by (auto simp: rdma_buffer_alloc1_def rdma_buffer_register_def Let_def split_beta calm_call[OF C] calm_reply_def)

lemma calm_register:
  assumes C: "calm W f e evs" and x: "pd \<noteq> 0"
  shows "\<exists>s' m. f s' = f s \<and> rdma_buffer_register W pd a n acc s = (Some m, s')"
  using x by (auto simp: rdma_buffer_register_def Let_def split_beta calm_call[OF C] calm_reply_def)

lemma calm_send:
  assumes C: "calm W f e evs" and x: "os_pd st = 1" "buf \<noteq> 0"
  shows "\<exists>s' st'. f s' = f s \<and> send_server_metadata_to_client1 W buf sz st wc s = Some (Inr (0, st', s')) \<and>
    os_cm_event_channel st' = os_cm_event_channel st"
proof -
  obtain s1 wc1 where 1: "f s1 = f s"
    "process_work_completion_events W (os_io_completion_channel st) wc 1 s = Some (1, wc1, s1)"
    using calm_completions[OF C, of 1] by force
  obtain s2 m where 2: "f s2 = f s1" "rdma_buffer_alloc1 W (os_pd st) buf (word_of_nat sz)
      [REMOTE_READ, LOCAL_WRITE, REMOTE_WRITE] s1 = (Some m, s2)"
    using calm_alloc1[OF C] x by (metis zero_neq_one)
  obtain s3 m' where 3: "f s3 = f s2" "rdma_buffer_register W (os_pd st) (os_server_metadata_at st)
      (word_of_nat ATTR_SZ) [LOCAL_WRITE] s2 = (Some m', s3)"
    using calm_register[OF C] x by (metis zero_neq_one)
  show ?thesis
    using 1 2 3
    by (auto simp: send_server_metadata_to_client1_def Let_def split_beta calm_call[OF C] calm_reply_def)
qed

lemma calm_init:
  assumes C: "calm W f e evs" and f: "f s = 0" and x: "evs ! 0 = RDMA_CM_EVENT_CONNECT_REQUEST" "buf \<noteq> 0"
    and ev: "evs ! 1 = RDMA_CM_EVENT_ESTABLISHED \<or> e = 0"
  shows "\<exists>s' st'. f s' = 2 \<and> rdma_server_init W vb ip port buf sz st wc s = Some (Inr (0, st', s'))"
proof -
  obtain s1 st1 where 1: "f s1 = 1" "start_rdma_server W (port mod 2 ^ 16) st s = (0, st1, s1)"
      "os_cm_client_id st1 = 2"
    using calm_start[OF C, of s "port mod 2 ^ 16" st] f x by auto
  obtain s2 st2 where 2: "f s2 = 1" "setup_client_resources W vb st1 s1 = (0, st2, s2)"
      "os_cm_client_id st2 = 2" "os_client_qp st2 = 1" "os_pd st2 = 1"
    using calm_setup[OF C 1(3), of s1 vb] 1(1,3) by auto
  obtain s3 st3 where 3: "f s3 = 2" "accept_client_connection W st2 s2 = (0, st3, s3)" "os_pd st3 = 1"
    using calm_accept[OF C 2(3-5), of s2] 2(1) ev by (auto simp: numeral_2_eq_2)
  show ?thesis
    using calm_send[OF C 3(3) x(2), of s3 sz wc] 1 2 3 by (auto simp: rdma_server_init_def)
qed

lemma calm_cleanup:
  assumes C: "calm W f e evs" and x: "evs ! f s = RDMA_CM_EVENT_DISCONNECTED"
  shows "\<exists>s'. disconnect_and_cleanup W st s = (0, st, s')"
  using x by (auto simp: disconnect_and_cleanup_def process_rdma_cm_event_def Let_def split_beta
      calm_call[OF C] calm_reply_def)

lemma calm_prepare:
  assumes C: "calm W f e evs"
    and x: "evs ! f s = RDMA_CM_EVENT_ADDR_RESOLVED" "evs ! Suc (f s) = RDMA_CM_EVENT_ROUTE_RESOLVED"
  shows "\<exists>s' st'. f s' = Suc (Suc (f s)) \<and> client_prepare_connection W vb st s = (0, st', s') \<and> oc_pd st' = 1"
  using x
  by (auto simp: client_prepare_connection_def client_resolve_def client_queues_def process_rdma_cm_event_def
      Let_def split_beta calm_call[OF C] calm_reply_def)

lemma calm_pre_post:
  assumes C: "calm W f e evs" and x: "oc_pd st = 1"
  shows "\<exists>s' st'. f s' = f s \<and> client_pre_post_recv_buffer W st s = (0, st', s') \<and> oc_pd st' = 1"
proof -
  obtain s1 m where "f s1 = f s" "rdma_buffer_register W (oc_pd st) (oc_server_metadata_at st)
      (word_of_nat ATTR_SZ) [LOCAL_WRITE] s = (Some m, s1)"
    using calm_register[OF C] x by (metis zero_neq_one)
  then show ?thesis
    using x by (auto simp: client_pre_post_recv_buffer_def Let_def split_beta calm_call[OF C] calm_reply_def)
qed

lemma calm_connect:
  assumes C: "calm W f e evs" and x: "evs ! f s = RDMA_CM_EVENT_ESTABLISHED"
  shows "\<exists>s'. f s' = Suc (f s) \<and> client_connect_to_server W st s = Some (0, st, s')"
proof -
  have "connect_retry W (oc_cm_client_id st) client_conn_param s =
      Some (snd (W (Connect (oc_cm_client_id st) client_conn_param) s))"
    using repeat_call_step[of W "Connect (oc_cm_client_id st) client_conn_param" "\<lambda>r. r_code r \<noteq> 0" s]
    by (simp add: connect_retry_def nth_reply_def calm_call[OF C] calm_reply_def)
  then show ?thesis
    using x by (auto simp: client_connect_to_server_def process_rdma_cm_event_def Let_def split_beta
        calm_call[OF C] calm_reply_def)
qed

lemma calm_exchange:
  assumes C: "calm W f e evs" and x: "oc_pd st = 1"
  shows "\<exists>s' st'. f s' = f s \<and> client_exchange W buf len st wc s = Some (0, st', s')"
proof -
  obtain s1 m where 1: "f s1 = f s" "rdma_buffer_register W (oc_pd st) buf len
      [LOCAL_WRITE, REMOTE_READ, REMOTE_WRITE] s = (Some m, s1)"
    using calm_register[OF C] x by (metis zero_neq_one)
  obtain s2 m' where 2: "f s2 = f s1" "rdma_buffer_register W (oc_pd st) (oc_client_metadata_at st)
      (word_of_nat ATTR_SZ) [LOCAL_WRITE] s1 = (Some m', s2)"
    using calm_register[OF C] x by (metis zero_neq_one)
  let ?s3 = "snd (W (Post_send (oc_client_qp st) (zero_send_wr\<lparr>swr_opcode := IBV_WR_SEND, swr_signaled := True,
      swr_sges := [sge_of_mr m']\<rparr>)) s2)"
  obtain s4 wc' where 4: "f s4 = f ?s3"
    "process_work_completion_events W (oc_io_completion_channel st) wc 2 ?s3 = Some (2, wc', s4)"
    using calm_completions[OF C, of 2] by force
  then show ?thesis
    using 1 2 by (auto simp: client_exchange_def Let_def split_beta calm_call[OF C] calm_reply_def)
qed

section \<open>Life of the server\<close>

fun conn_id :: "resource \<Rightarrow> bool" where
  "conn_id (Cm_id j) = True"
| "conn_id _ = False"

text \<open>
  C22: A server that came up with one client and is later shut down cleanly gives back every resource
  it took, each exactly once: let \<open>rdma_server_init\<close> return 0, with the id of the listening server and
  that of the one client as the only connection ids that came up, and \<open>disconnect_and_cleanup\<close>
  return 0. Then every release was asked for once, and the ledger holds what it held at the start
  except for the caller's buffer, which the clean-up frees although the server did not allocate it.
  The state of the world between the two calls is arbitrary. Relied on are \<open>errno\<close> after a failed
  call, and that a region lies where it was registered.
\<close>

theorem server_releases_all:
  assumes E: "errno_reliable V" and R: "registers_in_place V"
    and buf: "Heap register_buf \<in># L"
    and init: "rdma_server_init (ledger V) vb ip port register_buf sz (new_server_rdma raw) wc (w, (L, X)) =
      Some (Inr (0, st, (w1, a1)))"
    and one: "{#r \<in># fst a1. conn_id r#} =
      {#r \<in># L. conn_id r#} + {#Cm_id (os_cm_server_id st), Cm_id (os_cm_client_id st)#}"
    and clean: "disconnect_and_cleanup (ledger V) st (w2, a1) = (0, st', (w', a'))"
  shows "a' = (L - {#Heap register_buf#}, X)"
proof -
  obtain b s c S where m: "os_server_buffer_mr st = Some b" "os_server_metadata_mr st = Some s"
    "os_client_metadata_mr st = Some c" and b: "registers_in_place V \<longrightarrow> mr_addr b = register_buf \<and> register_buf \<noteq> 0"
    and a1: "a1 = ({#Channel (os_cm_event_channel st), Cm_id (os_cm_server_id st), Cm_id (os_cm_client_id st),
      Domain (os_pd st), Comp_channel (os_io_completion_channel st), Queue (os_cq st),
      Queue_pair (os_cm_client_id st), Region c, Region b, Region s#} + (fst (L, X) + S), snd (L, X))"
    and S: "S = {#} \<or> (\<exists>j. S = {#Cm_id j#}) \<and> (\<exists>w. r_errno (fst (V Ack_cm_event w)) = 0)"
    using init_books[OF E init] by blast
  have "{#r \<in># S. conn_id r#} = {#}" using one a1 by simp
  then have "S = {#}" using S by auto
  moreover have "{#Heap register_buf#} - L = {#}"
    using buf by (simp add: Diff_eq_empty_iff_mset)
  ultimately show ?thesis
    using disconnect_books[OF E m a1 clean] b R by simp
qed

theorem server_releases_all_witness:
  "\<exists>st1 w1 a1 st2 w2.
     rdma_server_init (ledger (calm_lib 1 [RDMA_CM_EVENT_CONNECT_REQUEST, RDMA_CM_EVENT_ESTABLISHED,
         RDMA_CM_EVENT_DISCONNECTED])) id ''10.0.0.1'' 20886 4096 64 (new_server_rdma undefined) [good_wc]
       (0, ({#Heap 4096, Heap 8192#}, {#})) = Some (Inr (0, st1, (w1, a1))) \<and>
     disconnect_and_cleanup (ledger (calm_lib 1 [RDMA_CM_EVENT_CONNECT_REQUEST, RDMA_CM_EVENT_ESTABLISHED,
         RDMA_CM_EVENT_DISCONNECTED])) st1 (w1, a1) = (0, st2, (w2, ({#Heap 8192#}, {#})))"
proof -
  let ?evs = "[RDMA_CM_EVENT_CONNECT_REQUEST, RDMA_CM_EVENT_ESTABLISHED, RDMA_CM_EVENT_DISCONNECTED]"
  let ?V = "calm_lib 1 ?evs" and ?L = "{#Heap 4096, Heap 8192#}"
  note C = calm_ledger[of 1 ?evs]
  obtain st1 a1 where 1: "rdma_server_init (ledger ?V) id ''10.0.0.1'' 20886 4096 64 (new_server_rdma undefined)
      [good_wc] (0, (?L, {#})) = Some (Inr (0, st1, (2, a1)))"
    using calm_init[OF C, of "(0, (?L, {#}))" 4096 id "''10.0.0.1''" 20886 64 "new_server_rdma undefined" "[good_wc]"]
    by auto
  obtain w2 a2 where 2: "disconnect_and_cleanup (ledger ?V) st1 (2, a1) = (0, st1, (w2, a2))"
    using calm_cleanup[OF C, of "(2, a1)" st1] by auto
  have "{#r \<in># fst a1. conn_id r#} =
      {#r \<in># ?L. conn_id r#} + {#Cm_id (os_cm_server_id st1), Cm_id (os_cm_client_id st1)#}"
    using init_books[OF calm_reliable 1] by (auto simp: calm_errno simp del: calm_lib.simps)
  then have "a2 = (?L - {#Heap 4096#}, {#})"
    by (intro server_releases_all[OF calm_reliable calm_in_place _ 1 _ 2]) simp_all
  then show ?thesis using 1 2 by (intro exI[of _ st1] exI[of _ 2] exI[of _ a1] exI[of _ st1] exI[of _ w2]) simp
qed

text \<open>
  C29: The server takes a rejected connection for an accepted one. Let the start of
  \<open>rdma_server_init\<close> succeed up to \<open>rdma_accept\<close>, and let the event that arrives then be any that
  \<open>process_rdma_cm_event\<close> rejects: with a status, or of another type than \<open>ESTABLISHED\<close>. No call has
  failed, and if \<open>errno\<close> is 0 after the acknowledgement, the method reports success by \<open>-errno\<close>:
  \<open>rdma_server_init\<close> goes on to \<open>send_server_metadata_to_client1\<close> as if the client were connected,
  and if it returns 0, the last thing it did was to post the attributes of its buffer.
\<close>

theorem accept_takes_rejection:
  assumes E: "errno_reliable V"
    and up: "start_rdma_server (traced V) (port mod 2 ^ 16) st s = (0, st1, s1)"
    and res: "setup_client_resources (traced V) vb st1 s1 = (0, st2, s2)"
    and ids: "os_cm_client_id st2 \<noteq> 0" "os_client_qp st2 \<noteq> 0"
    and reg: "rdma_buffer_register (traced V) (os_pd st2) (os_client_metadata_at st2) (word_of_nat ATTR_SZ)
      [LOCAL_WRITE] s2 = (Some m, s3)"
    and post: "traced V (Post_recv (os_client_qp st2) \<lparr>rwr_id = 0, rwr_sges = [sge_of_mr m]\<rparr>) s3 = (r4, s4)" "r_code r4 = 0"
    and acc: "traced V (Accept (os_cm_client_id st2) server_conn_param) s4 = (r5, (w5, log))" "r_code r5 = 0"
    and event: "V (Get_cm_event (os_cm_event_channel st2)) w5 = (r6, w6)" "r_code r6 = 0"
    and rejected: "ev_status (r_event r6) \<noteq> 0 \<or> ev_event (r_event r6) \<noteq> RDMA_CM_EVENT_ESTABLISHED"
    and ack: "V Ack_cm_event w6 = (r7, w7)" "r_errno r7 = 0"
  shows "(\<exists>st3. rdma_server_init (traced V) vb ip port buf sz st wc s =
      send_server_metadata_to_client1 (traced V) buf sz st3 wc
        (w7, log @ [Get_cm_event (os_cm_event_channel st2), Ack_cm_event]) \<and> os_client_qp st3 = os_client_qp st2) \<and>
    (\<forall>st' w' log'. rdma_server_init (traced V) vb ip port buf sz st wc s = Some (Inr (0, st', (w', log'))) \<longrightarrow>
      (\<exists>b a log'' wr. os_server_buffer_mr st' = Some b \<and> os_server_metadata_attr st' = attr_of_mr b \<and>
        os_server_metadata_mr st' = Some a \<and> log' = log'' @ [Post_send (os_client_qp st2) wr] \<and>
        swr_opcode wr = IBV_WR_SEND \<and> swr_sges wr = [sge_of_mr a]))"
proof -
  let ?st3 = "st2\<lparr>os_client_metadata_mr := Some m, os_client_recv_sge := sge_of_mr m,
    os_client_recv_wr := \<lparr>rwr_id = 0, rwr_sges = [sge_of_mr m]\<rparr>\<rparr>"
  let ?s7 = "(w7, log @ [Get_cm_event (os_cm_event_channel st2), Ack_cm_event])"
  have "process_rdma_cm_event (traced V) (os_cm_event_channel st2) RDMA_CM_EVENT_ESTABLISHED None (w5, log) =
      ((if ev_status (r_event r6) \<noteq> 0 then - ev_status (r_event r6) else - 1), Some (r_event r6), ?s7)"
    using event ack(1) rejected by (simp add: process_rdma_cm_event_def traced_eq Let_def)
  moreover have "event_errno (traced V) (os_cm_event_channel st2) (w5, log) = 0"
    using event ack by (simp add: event_errno_def traced_eq)
  ultimately have "accept_client_connection (traced V) st2 s2 = (0, ?st3, ?s7)"
    using ids reg post acc by (simp add: accept_client_connection_def Let_def)
  then have init: "rdma_server_init (traced V) vb ip port buf sz st wc s =
      send_server_metadata_to_client1 (traced V) buf sz ?st3 wc ?s7"
    using up res by (simp add: rdma_server_init_def)
  have T: "errno_reliable (traced V)" using E by (auto simp: errno_reliable_def traced_eq)
  have "\<exists>b a log'' wr. os_server_buffer_mr st' = Some b \<and> os_server_metadata_attr st' = attr_of_mr b \<and>
      os_server_metadata_mr st' = Some a \<and> log' = log'' @ [Post_send (os_client_qp st2) wr] \<and>
      swr_opcode wr = IBV_WR_SEND \<and> swr_sges wr = [sge_of_mr a]"
    if r: "send_server_metadata_to_client1 (traced V) buf sz ?st3 wc ?s7 = Some (Inr (0, st', (w', log')))" for st' w' log'
  proof (rule send_metadata_steps[OF T r])
    fix wc1 w1 b w2 a w3 reply
    assume "traced V (Post_send (os_client_qp ?st3) (server_send_wr a)) w3 = (reply, w', log')"
      "st' = ?st3\<lparr>os_server_buffer_mr := Some b, os_server_metadata_attr := attr_of_mr b, os_server_metadata_mr := Some a\<rparr>"
    then show ?thesis
      by (intro exI[of _ b] exI[of _ a] exI[of _ "snd w3"] exI[of _ "server_send_wr a"])
        (simp add: traced_eq server_send_wr_def zero_send_wr_def)
  qed
  then show ?thesis unfolding init by (intro conjI exI[of _ ?st3]) auto
qed

theorem accept_takes_rejection_witness:
  "\<exists>st' w' log' qp wr. rdma_server_init (traced (calm_lib 0 [RDMA_CM_EVENT_CONNECT_REQUEST, RDMA_CM_EVENT_DISCONNECTED]))
     id ''10.0.0.1'' 20886 4096 64 (new_server_rdma undefined) [good_wc] (0, []) = Some (Inr (0, st', (w', log'))) \<and>
     last log' = Post_send qp wr \<and> swr_opcode wr = IBV_WR_SEND"
proof -
  let ?evs = "[RDMA_CM_EVENT_CONNECT_REQUEST, RDMA_CM_EVENT_DISCONNECTED]"
  let ?V = "calm_lib 0 ?evs" and ?s = "(0, []) :: nat \<times> call list" and ?st = "new_server_rdma undefined"
  have C: "calm (traced ?V) fst 0 ?evs" by (simp add: calm_def traced_eq)
  note call = calm_call[OF C]
  obtain s1 st1 where 1: "fst s1 = 1" "start_rdma_server (traced ?V) (20886 mod 2 ^ 16) ?st ?s = (0, st1, s1)"
    "os_cm_client_id st1 = 2" using calm_start[OF C, of ?s "20886 mod 2 ^ 16" ?st] by auto
  obtain s2 st2 where 2: "fst s2 = 1" "setup_client_resources (traced ?V) id st1 s1 = (0, st2, s2)"
    "os_cm_client_id st2 = 2" "os_client_qp st2 = 1" "os_pd st2 = 1"
    using calm_setup[OF C 1(3), of s1 id] 1(1,3) by auto
  obtain s3 m where 3: "fst s3 = 1" "rdma_buffer_register (traced ?V) (os_pd st2) (os_client_metadata_at st2)
      (word_of_nat ATTR_SZ) [LOCAL_WRITE] s2 = (Some m, s3)"
    using calm_register[OF C, of "os_pd st2" s2 "os_client_metadata_at st2"] 2(1,5) by (metis zero_neq_one)
  let ?p = "Post_recv (os_client_qp st2) \<lparr>rwr_id = 0, rwr_sges = [sge_of_mr m]\<rparr>"
  obtain r4 s4 where 4: "traced ?V ?p s3 = (r4, s4)" by (metis prod.collapse)
  obtain r5 w5 log where 5: "traced ?V (Accept (os_cm_client_id st2) server_conn_param) s4 = (r5, (w5, log))"
    by (metis prod.collapse)
  have c: "r_code r4 = 0" "fst s4 = 1" "r_code r5 = 0" "w5 = 1"
    using call[of ?p s3] call[of "Accept (os_cm_client_id st2) server_conn_param" s4] 3(1) 4 5
    by (simp_all add: calm_reply_def)
  obtain st' s' where init: "rdma_server_init (traced ?V) id ''10.0.0.1'' 20886 4096 64 ?st [good_wc] ?s =
      Some (Inr (0, st', s'))" using calm_init[OF C, of ?s 4096 id "''10.0.0.1''" 20886 64 ?st "[good_wc]"] by auto
  obtain w' log' where s': "s' = (w', log')" by fastforce
  note rej = accept_takes_rejection[OF calm_reliable 1(2) 2(2) _ _ 3(2) 4 c(1) 5 c(3) _ _ _ _ _, where
      buf = 4096 and sz = 64 and wc = "[good_wc]" and ip = "''10.0.0.1''"]
  have "\<exists>b a log'' wr. os_server_buffer_mr st' = Some b \<and> os_server_metadata_attr st' = attr_of_mr b \<and>
        os_server_metadata_mr st' = Some a \<and> log' = log'' @ [Post_send (os_client_qp st2) wr] \<and>
        swr_opcode wr = IBV_WR_SEND \<and> swr_sges wr = [sge_of_mr a]"
    using rej init[unfolded s'] c(4) 2(3,4) by (simp add: calm_reply_def)
  then show ?thesis using init s' by fastforce
qed

section \<open>Life of the client\<close>

text \<open>What the client holds once the four methods of its start-up have returned 0.\<close>

lemma client_up_books:
  assumes E: "errno_reliable V"
    and prep: "client_prepare_connection (ledger V) vb (new_client_rdma raw) (w, (L, X)) = (0, st1, (w1, a1))"
    and post: "client_pre_post_recv_buffer (ledger V) st1 (w1, a1) = (0, st2, (w2, a2))"
    and conn: "client_connect_to_server (ledger V) st2 (w2, a2) = Some (0, st3, (w3, a3))"
    and exch: "client_exchange (ledger V) buf len st3 wc (w3, a3) = Some (0, st4, (w4, a4))"
  obtains m1 m2 m3 where "oc_server_metadata_mr st4 = Some m1" "oc_client_metadata_mr st4 = Some m2"
    "oc_client_src_mr st4 = Some m3" "unset st4"
    "a4 = (client_base st4 + {#Region m1, Region m2, Region m3#} + L, X)"
proof -
  obtain m1 where 2: "oc_server_metadata_mr st2 = Some m1" "a2 = (fst a1 + {#Region m1#}, snd a1)"
    "same_base st1 st2" "unset st2 = unset st1"
    using pre_post_books[OF post] by blast
  have 3: "a3 = a2" "st3 = st2" using connect_books[OF E conn] by auto
  obtain m3 m2 where 4: "oc_client_src_mr st4 = Some m3" "oc_client_metadata_mr st4 = Some m2"
    "a4 = (fst a3 + {#Region m3, Region m2#}, snd a3)" "same_base st3 st4" "unset st4 = unset st3"
    "oc_server_metadata_mr st4 = oc_server_metadata_mr st3"
    using exchange_books[OF E exch] by blast
  have u: "unset (new_client_rdma raw)" by (simp add: unset_def new_client_rdma_def)
  have base: "client_base st4 = client_base st1"
    using 2(3) 4(4) 3 by (simp add: client_base_def same_base_def)
  show thesis
    using prepare_books[OF E prep] 2 3 4 u base by (intro that[of m1 m2 m3]) (auto simp: add.commute)
qed

text \<open>
  C23: A client that was prepared, has posted its receive, connected and exchanged attributes, each
  with result 0, and whose wait for the disconnect event succeeds, gives back every resource it took:
  \<open>client_disconnect_and_clean\<close> asks for each release exactly once, and leaves the ledger as it was at
  the start. The buffer that the caller passed in is registered and deregistered, not freed. Relied
  on is \<open>errno\<close> after a failed call.
\<close>

theorem client_releases_all:
  assumes E: "errno_reliable V"
    and prep: "client_prepare_connection (ledger V) vb (new_client_rdma raw) (w, (L, X)) = (0, st1, (w1, a1))"
    and post: "client_pre_post_recv_buffer (ledger V) st1 (w1, a1) = (0, st2, (w2, a2))"
    and conn: "client_connect_to_server (ledger V) st2 (w2, a2) = Some (0, st3, (w3, a3))"
    and exch: "client_send_metadata_to_server1 (ledger V) buf sz st3 wc (w3, a3) = Some (0, st4, (w4, a4))"
    and ev: "fst (process_rdma_cm_event V (oc_cm_event_channel st4) RDMA_CM_EVENT_DISCONNECTED None
      (snd (V (Disconnect (oc_cm_client_id st4)) w5))) = 0"
    and clean: "client_disconnect_and_clean (ledger V) st4 (w5, a4) = (c, st5, (w6, a6))"
  shows "a6 = (L, X)"
proof -
  obtain m1 m2 m3 where m: "oc_server_metadata_mr st4 = Some m1" "oc_client_metadata_mr st4 = Some m2"
    "oc_client_src_mr st4 = Some m3" "unset st4" and
    a4: "a4 = (client_base st4 + {#Region m1, Region m2, Region m3#} + L, X)"
    using client_up_books[OF E prep post conn exch[unfolded client_send_metadata_to_server1_def]] .
  let ?w = "snd (V (Disconnect (oc_cm_client_id st4)) w5)"
  obtain e w' a' where e: "process_rdma_cm_event (ledger V) (oc_cm_event_channel st4) RDMA_CM_EVENT_DISCONNECTED None
      (?w, a4) = (0, e, (w', a'))"
    using ev by (auto simp: process_rdma_cm_event_def ledger_eq Let_def split_beta split: if_splits)
  have a': "a' = (fst a4 + {#Cm_event#}, snd a4)" using event_accepted[OF E e] by auto
  show ?thesis
    using client_clean_books[OF m(4,1,2,3) e _ clean, of "L + {#Cm_event#}"] a4 a' by simp
qed

theorem client_releases_all_witness:
  "\<exists>st1 s1 st2 s2 st3 s3 st4 s4 st5 w6.
     client_prepare_connection (ledger (calm_lib 1 [RDMA_CM_EVENT_ADDR_RESOLVED, RDMA_CM_EVENT_ROUTE_RESOLVED,
         RDMA_CM_EVENT_ESTABLISHED, RDMA_CM_EVENT_DISCONNECTED])) id (new_client_rdma undefined)
       (0, ({#Heap 4096#}, {#})) = (0, st1, s1) \<and>
     client_pre_post_recv_buffer (ledger (calm_lib 1 [RDMA_CM_EVENT_ADDR_RESOLVED, RDMA_CM_EVENT_ROUTE_RESOLVED,
         RDMA_CM_EVENT_ESTABLISHED, RDMA_CM_EVENT_DISCONNECTED])) st1 s1 = (0, st2, s2) \<and>
     client_connect_to_server (ledger (calm_lib 1 [RDMA_CM_EVENT_ADDR_RESOLVED, RDMA_CM_EVENT_ROUTE_RESOLVED,
         RDMA_CM_EVENT_ESTABLISHED, RDMA_CM_EVENT_DISCONNECTED])) st2 s2 = Some (0, st3, s3) \<and>
     client_send_metadata_to_server1 (ledger (calm_lib 1 [RDMA_CM_EVENT_ADDR_RESOLVED, RDMA_CM_EVENT_ROUTE_RESOLVED,
         RDMA_CM_EVENT_ESTABLISHED, RDMA_CM_EVENT_DISCONNECTED])) 4096 64 st3 [] s3 = Some (0, st4, s4) \<and>
     client_disconnect_and_clean (ledger (calm_lib 1 [RDMA_CM_EVENT_ADDR_RESOLVED, RDMA_CM_EVENT_ROUTE_RESOLVED,
         RDMA_CM_EVENT_ESTABLISHED, RDMA_CM_EVENT_DISCONNECTED])) st4 s4 = (0, st5, (w6, ({#Heap 4096#}, {#})))"
proof -
  let ?evs = "[RDMA_CM_EVENT_ADDR_RESOLVED, RDMA_CM_EVENT_ROUTE_RESOLVED, RDMA_CM_EVENT_ESTABLISHED,
    RDMA_CM_EVENT_DISCONNECTED]"
  let ?V = "calm_lib 1 ?evs" and ?a = "({#Heap 4096#}, {#})"
  note C = calm_ledger[of 1 ?evs]
  obtain st1 a1 where 1: "client_prepare_connection (ledger ?V) id (new_client_rdma undefined) (0, ?a) = (0, st1, (2, a1))"
      "oc_pd st1 = 1"
    using calm_prepare[OF C, of "(0, ?a)" id "new_client_rdma undefined"] by auto
  obtain st2 a2 where 2: "client_pre_post_recv_buffer (ledger ?V) st1 (2, a1) = (0, st2, (2, a2))" "oc_pd st2 = 1"
    using calm_pre_post[OF C 1(2), of "(2, a1)"] by auto
  obtain a3 where 3: "client_connect_to_server (ledger ?V) st2 (2, a2) = Some (0, st2, (3, a3))"
    using calm_connect[OF C, of "(2, a2)" st2] by auto
  obtain st4 a4 where 4: "client_send_metadata_to_server1 (ledger ?V) 4096 64 st2 [] (3, a3) = Some (0, st4, (3, a4))"
    using calm_exchange[OF C 2(2), of "(3, a3)" 4096 "word_of_nat 64" "[]"]
    by (auto simp: client_send_metadata_to_server1_def)
  obtain st5 w6 a6 where 5: "client_disconnect_and_clean (ledger ?V) st4 (3, a4) = (0, st5, (w6, a6))"
    by (simp add: client_disconnect_and_clean_def Let_def split_beta prod_eq_iff) 
  have "a6 = ?a"
    by (rule client_releases_all[OF calm_reliable 1(1) 2(1) 3 4 _ 5])
      (simp_all add: process_rdma_cm_event_def calm_reply_def)
  then show ?thesis
    using 1(1) 2(1) 3 4 5 by blast
qed

text \<open>A release of something not held stays in the account.\<close>

lemma bad_stays: "x \<in># snd (snd s) \<Longrightarrow> x \<in># snd (snd (snd (ledger V c s)))"
  by (simp add: ledger_def book_def Let_def split_beta)

lemma bad_stays_deregister: "x \<in># snd (snd s) \<Longrightarrow> x \<in># snd (snd (rdma_buffer_deregister (ledger V) mr s))"
  by (simp add: rdma_buffer_deregister_def bad_stays split: option.splits)

text \<open>
  C32: When the wait for the disconnect event fails, because there is none or because it was rejected
  and acknowledged by \<open>process_rdma_cm_event\<close> already, the clean-up of the client calls
  \<open>rdma_ack_cm_event\<close> all the same, on an event that it does not hold.
\<close>

theorem client_acks_unheld:
  assumes ev: "fst (process_rdma_cm_event V (oc_cm_event_channel st) RDMA_CM_EVENT_DISCONNECTED None
      (snd (V (Disconnect (oc_cm_client_id st)) w))) \<noteq> 0"
    and L: "Cm_event \<notin># L"
  shows "Cm_event \<in># snd (snd (snd (snd (client_disconnect_and_clean (ledger V) st (w, (L, X))))))"
proof -
  let ?s = "snd (ledger V (Disconnect (oc_cm_client_id st)) (w, (L, X)))"
  have s: "?s = (snd (V (Disconnect (oc_cm_client_id st)) w), (L, X))"
    by (simp add: ledger_eq book_neutral)
  obtain c e w1 a1 where e: "process_rdma_cm_event (ledger V) (oc_cm_event_channel st) RDMA_CM_EVENT_DISCONNECTED None ?s =
      (c, e, (w1, a1))" by (metis prod.collapse)
  then have "c \<noteq> 0"
    using ev unfolding s by (auto simp: process_rdma_cm_event_def ledger_eq Let_def split_beta split: if_splits)
  from event_rejected[OF e[unfolded s] this] obtain S where "S = {#} \<or> (\<exists>j. S = {#Cm_id j#})" and
    S: "a1 = (L + S, X)" by auto
  then have "Cm_event \<notin># S" by auto
  have "Cm_event \<in># snd (snd (snd (ledger V Ack_cm_event (w1, a1))))"
    using S \<open>Cm_event \<notin># S\<close> L by (simp add: ledger_release in_diff_count not_in_iff)
  then show ?thesis
    by (simp add: client_disconnect_and_clean_def Let_def split_beta e bad_stays bad_stays_deregister)
qed

theorem client_acks_unheld_witness:
  "Cm_event \<in># snd (snd (snd (snd (client_disconnect_and_clean (ledger (calm_lib 0 [RDMA_CM_EVENT_OTHER 5]))
     (new_client_rdma undefined) (0, ({#}, {#}))))))"
  by (rule client_acks_unheld) (simp_all add: process_rdma_cm_event_def calm_reply_def)

section \<open>Writing to the server\<close>

text \<open>The bytes that a write with one element reaches lie inside a region.\<close>

definition write_inside :: "send_wr \<Rightarrow> ibv_mr \<Rightarrow> bool" where
  "write_inside wr b \<longleftrightarrow>
     mr_addr b \<le> unat (swr_remote_addr wr) \<and>
     unat (swr_remote_addr wr) + (\<Sum>g\<leftarrow>swr_sges wr. unat (sge_length g)) \<le> mr_addr b + mr_length b"

text \<open>
  With the attributes of the server's region \<open>b\<close>, \<open>start_remote_write\<close> posts one write of the first
  \<open>len\<close> bytes of the client's buffer to offset \<open>offset\<close> of the region, under the region's local key, for
  any \<open>len\<close> and \<open>offset\<close> that fit their types. Nothing compares them with the length that the server
  announced: the write stays inside exactly when \<open>offset + len\<close> does.
\<close>

lemma remote_write_target:
  assumes src: "oc_client_src_mr st = Some m"
    and attr: "oc_server_metadata_attr st = attr_of_mr b"
    and len: "len < 2 ^ 32" and top: "mr_addr b + offset < 2 ^ 64"
  shows "\<exists>wr c w'. start_remote_write (traced V) len offset st (w, log) =
      Inr (c, (w', log @ [Post_send (oc_client_qp st) wr])) \<and>
    swr_opcode wr = IBV_WR_RDMA_WRITE \<and> unat (swr_remote_addr wr) = mr_addr b + offset \<and>
    swr_rkey wr = mr_lkey b \<and>
    swr_sges wr = [\<lparr>sge_addr = word_of_nat (mr_addr m), sge_length = word_of_nat len, sge_lkey = mr_lkey m\<rparr>] \<and>
    write_inside wr b = (offset + len \<le> mr_length b)"
proof -
  have "unat (word_of_nat (mr_addr b) + word_of_nat offset :: 64 word) = mr_addr b + offset"
    using top by (simp add: unat_of_nat flip: of_nat_add)
  moreover have "unat (word_of_nat len :: 32 word) = len"
    using len by (simp add: unat_of_nat)
  ultimately show ?thesis
    using src attr
    by (auto simp: start_remote_write_def remote_write_wr_def attr_of_mr_def zero_send_wr_def write_inside_def
        traced_eq Let_def)
qed

lemma remote_write_target_example:
  "\<exists>wr c w'. start_remote_write (traced (calm_lib 0 [])) 100 4000
      ((new_client_rdma undefined)\<lparr>oc_client_src_mr := Some \<lparr>mr_addr = 8192, mr_length = 4096, mr_lkey = 1, mr_rkey = 2\<rparr>,
        oc_server_metadata_attr := attr_of_mr \<lparr>mr_addr = 65536, mr_length = 4096, mr_lkey = 3, mr_rkey = 4\<rparr>\<rparr>) (0, []) =
      Inr (c, (w', [Post_send (oc_client_qp (new_client_rdma undefined)) wr])) \<and>
    \<not> write_inside wr \<lparr>mr_addr = 65536, mr_length = 4096, mr_lkey = 3, mr_rkey = 4\<rparr>"
  using remote_write_target[of "(new_client_rdma undefined)\<lparr>oc_client_src_mr :=
        Some \<lparr>mr_addr = 8192, mr_length = 4096, mr_lkey = 1, mr_rkey = 2\<rparr>,
        oc_server_metadata_attr := attr_of_mr \<lparr>mr_addr = 65536, mr_length = 4096, mr_lkey = 3, mr_rkey = 4\<rparr>\<rparr>"
      "\<lparr>mr_addr = 8192, mr_length = 4096, mr_lkey = 1, mr_rkey = 2\<rparr>"
      "\<lparr>mr_addr = 65536, mr_length = 4096, mr_lkey = 3, mr_rkey = 4\<rparr>" 100 4000 "calm_lib 0 []" 0 "[]"]
  by auto

end
