(* ===== verification/One_Sided_Pair.thy ===== *)
theory One_Sided_Pair
  imports One_Sided_Runs
begin

text \<open>
  The one-sided client and server together: the attributes of the server's buffer travel to the
  client, which writes to that buffer.
\<close>

section \<open>What the two ends register and post\<close>

text \<open>A registered region has the address and the length that were asked for.\<close>

definition registers_exactly :: "'w verbs \<Rightarrow> bool" where
  "registers_exactly V \<longleftrightarrow>
     (\<forall>pd a n acc w. let m = r_mr (fst (V (Reg_mr pd a n acc) w)) in mr_addr m = a \<and> mr_length m = n)"

lemma registered_region:
  assumes "registers_exactly V" and "rdma_buffer_register V pd a len acc w = (Some m, w')"
  shows "mr_addr m = a" and "mr_length m = unat len"
  using assms by (auto simp: registers_exactly_def rdma_buffer_register_def Let_def split_beta split: if_splits)

lemma registers_traced: "registers_exactly V \<Longrightarrow> registers_exactly (traced V)"
  by (simp add: registers_exactly_def traced_eq)

text \<open>The one element of a request, without its key.\<close>

definition extents :: "ibv_sge list \<Rightarrow> (64 word \<times> 32 word) list" where
  "extents gs = map (\<lambda>g. (sge_addr g, sge_length g)) gs"

lemma attr_extent:
  "mr_addr m = a \<Longrightarrow> mr_length m = ATTR_SZ \<Longrightarrow> extents [sge_of_mr m] = [(word_of_nat a, 16)]"
  by (simp add: extents_def sge_of_mr_def ATTR_SZ_def)

lemma attr_size: "unat (word_of_nat ATTR_SZ :: 32 word) = ATTR_SZ"
  by (simp add: ATTR_SZ_def unat_of_nat)

text \<open>The client waits for the server's attributes in its own field.\<close>

lemma pre_post_waits:
  assumes "registers_exactly V" and "client_pre_post_recv_buffer V st w = (0, st', w')"
  shows "extents (rwr_sges (oc_server_recv_wr st')) = [(word_of_nat (oc_server_metadata_at st), 16)]"
    and "oc_server_metadata_at st' = oc_server_metadata_at st"
proof -
  obtain m w1 where r: "rdma_buffer_register V (oc_pd st) (oc_server_metadata_at st) (word_of_nat ATTR_SZ)
      [LOCAL_WRITE] w = (Some m, w1)" and st': "st' = st\<lparr>oc_server_metadata_mr := Some m,
      oc_server_recv_sge := sge_of_mr m, oc_server_recv_wr := \<lparr>rwr_id = 0, rwr_sges = [sge_of_mr m]\<rparr>\<rparr>"
    using assms(2)
    by (auto simp: client_pre_post_recv_buffer_def Let_def ENOMEM_def split: option.splits prod.splits)
  show "extents (rwr_sges (oc_server_recv_wr st')) = [(word_of_nat (oc_server_metadata_at st), 16)]"
    using attr_extent registered_region[OF assms(1) r] by (simp add: st' attr_size)
  show "oc_server_metadata_at st' = oc_server_metadata_at st" by (simp add: st')
qed

lemma connect_keeps: "client_connect_to_server V st w = Some (0, st', w') \<Longrightarrow> st' = st"
  by (auto simp: client_connect_to_server_def Let_def split_beta split: option.splits if_splits)

lemma exchange_keeps:
  assumes "registers_exactly V" and "client_exchange V buf len st wc w = Some (0, st', w')"
  shows "oc_server_recv_wr st' = oc_server_recv_wr st" "oc_server_metadata_at st' = oc_server_metadata_at st"
    and "\<exists>m. oc_client_src_mr st' = Some m \<and> mr_addr m = buf \<and> mr_length m = unat len"
proof -
  obtain m w1 where r: "rdma_buffer_register V (oc_pd st) buf len [LOCAL_WRITE, REMOTE_READ, REMOTE_WRITE] w = (Some m, w1)"
    and k: "oc_server_recv_wr st' = oc_server_recv_wr st \<and> oc_server_metadata_at st' = oc_server_metadata_at st \<and>
      oc_client_src_mr st' = Some m"
    using assms(2)
    by (auto simp: client_exchange_def Let_def split: option.splits prod.splits if_splits)
  show "oc_server_recv_wr st' = oc_server_recv_wr st" "oc_server_metadata_at st' = oc_server_metadata_at st"
    using k by simp_all
  show "\<exists>m. oc_client_src_mr st' = Some m \<and> mr_addr m = buf \<and> mr_length m = unat len"
    using k registered_region[OF assms(1) r] by blast
qed

text \<open>The server sends the attributes of the buffer that it was given.\<close>

lemma errno_reliable_traced: "errno_reliable V \<Longrightarrow> errno_reliable (traced V)"
  by (auto simp: errno_reliable_def traced_eq)

lemma server_sends:
  assumes E: "errno_reliable V" and V: "registers_exactly V"
    and s: "send_server_metadata_to_client1 (traced V) buf sz st wc (w, log) = Some (Inr (0, st', (w', log')))"
  obtains b swr log1 where "os_server_buffer_mr st' = Some b" "mr_addr b = buf"
    "mr_length b = unat (word_of_nat sz :: 32 word)" "os_server_metadata_attr st' = attr_of_mr b"
    "log' = log1 @ [Post_send (os_client_qp st') swr]" "swr_opcode swr = IBV_WR_SEND"
    "extents (swr_sges swr) = [(word_of_nat (os_server_metadata_at st'), 16)]"
proof -
  obtain wc1 w1 m w2 m' w3 reply where
    1: "rdma_buffer_alloc1 (traced V) (os_pd st) buf (word_of_nat sz) [REMOTE_READ, LOCAL_WRITE, REMOTE_WRITE] w1 = (Some m, w2)" and
    2: "rdma_buffer_register (traced V) (os_pd st) (os_server_metadata_at st) (word_of_nat ATTR_SZ) [LOCAL_WRITE] w2 = (Some m', w3)" and
    3: "traced V (Post_send (os_client_qp st) (server_send_wr m')) w3 = (reply, (w', log'))" and
    st': "st' = st\<lparr>os_server_buffer_mr := Some m, os_server_metadata_attr := attr_of_mr m, os_server_metadata_mr := Some m'\<rparr>"
    using send_metadata_steps[OF errno_reliable_traced[OF E] s] by metis
  have "rdma_buffer_register (traced V) (os_pd st) buf (word_of_nat sz) [REMOTE_READ, LOCAL_WRITE, REMOTE_WRITE] w1 = (Some m, w2)"
    using 1 by (auto simp: rdma_buffer_alloc1_def split: if_splits option.splits prod.splits)
  note reg = registered_region[OF registers_traced[OF V] this] registered_region[OF registers_traced[OF V] 2]
  have "log' = snd w3 @ [Post_send (os_client_qp st) (server_send_wr m')]" using 3 by (simp add: traced_eq)
  then show thesis
    using reg attr_extent[of m'] by (intro that[of m "snd w3" "server_send_wr m'"])
      (simp_all add: st' server_send_wr_def zero_send_wr_def attr_size)
qed

section \<open>The attributes on their way\<close>

text \<open>
  The network and the adapters, as an update \<open>D\<close> of the client's memory: a \<open>SEND\<close> whose element is the
  server's field \<open>server_metadata_attr\<close>, received into an element that is the client's field of that
  name, puts the bytes of the one into the other. What happens otherwise is left open.
\<close>

definition sends_attrs ::
    "(send_wr \<Rightarrow> recv_wr \<Rightarrow> server_rdma \<Rightarrow> client_rdma \<Rightarrow> client_rdma) \<Rightarrow> bool" where
  "sends_attrs D \<longleftrightarrow> (\<forall>wr rwr s c.
     swr_opcode wr = IBV_WR_SEND \<and> extents (swr_sges wr) = [(word_of_nat (os_server_metadata_at s), 16)] \<and>
     extents (rwr_sges rwr) = [(word_of_nat (oc_server_metadata_at c), 16)] \<longrightarrow>
     D wr rwr s c = c\<lparr>oc_server_metadata_attr := attr_of_bytes (attr_bytes (os_server_metadata_attr s))\<rparr>)"

definition demo_delivery :: "send_wr \<Rightarrow> recv_wr \<Rightarrow> server_rdma \<Rightarrow> client_rdma \<Rightarrow> client_rdma" where
  "demo_delivery wr rwr s c =
     (if swr_opcode wr = IBV_WR_SEND \<and> length (swr_sges wr) = 1 \<and> length (rwr_sges rwr) = 1
      then c\<lparr>oc_server_metadata_attr := attr_of_bytes (attr_bytes (os_server_metadata_attr s))\<rparr> else c)"

lemma demo_delivers: "sends_attrs demo_delivery"
  by (auto simp: sends_attrs_def demo_delivery_def extents_def)

text \<open>The library of the examples registers exactly what it is asked to.\<close>

lemma calm_exactly: "registers_exactly (calm_lib e evs)"
  by (simp add: registers_exactly_def calm_reply_def)

section \<open>Properties\<close>

text \<open>
  C33: A client's write reaches the server's buffer. Let the client post its receive, connect and
  exchange attributes, and the server send the attributes of the buffer \<open>sbuf\<close> that it was given, each
  call with result 0. When the server's message, the last thing that it posted, has gone to the receive
  that the client posted, \<open>start_remote_write\<close> posts one write of the first \<open>len\<close> bytes of the buffer
  that the client registered to \<open>sbuf + offset\<close>, under the local key of the server's region. The region
  has the size given to the server modulo \<open>2 ^ 32\<close>, since \<open>size_t\<close> is passed as \<open>uint32_t\<close>; neither end
  compares anything with it, so that the write stays inside exactly when \<open>offset + len\<close> does. Relied
  on are \<open>errno\<close> after a failed call of the server, regions that lie where they were asked for and
  have the length asked for, and the delivery of the message.
\<close>

theorem write_reaches_server:
  assumes E: "errno_reliable V" and V: "registers_exactly V" and U: "registers_exactly U" and D: "sends_attrs D"
    and post: "client_pre_post_recv_buffer U c0 u0 = (0, c1, u1)"
    and conn: "client_connect_to_server U c1 u1 = Some (0, c2, u2)"
    and serve: "send_server_metadata_to_client1 (traced V) sbuf ssz s0 swc (w0, log0) = Some (Inr (0, s1, (w1, log1)))"
    and exch: "client_send_metadata_to_server1 U cbuf csz c2 cwc u2 = Some (0, c3, u3)"
    and len: "len < 2 ^ 32" and top: "sbuf + offset < 2 ^ 64"
  shows "\<exists>msg wr r u. last log1 = Post_send (os_client_qp s1) msg \<and>
    start_remote_write (traced U) len offset (D msg (oc_server_recv_wr c3) s1 c3) (u3, []) =
      Inr (r, (u, [Post_send (oc_client_qp c3) wr])) \<and>
    swr_opcode wr = IBV_WR_RDMA_WRITE \<and> unat (swr_remote_addr wr) = sbuf + offset \<and>
    extents (swr_sges wr) = [(word_of_nat cbuf, word_of_nat len)] \<and>
    (\<exists>b. os_server_buffer_mr s1 = Some b \<and> mr_addr b = sbuf \<and> swr_rkey wr = mr_lkey b \<and>
       write_inside wr b = (offset + len \<le> ssz mod 2 ^ 32))"
proof -
  obtain b msg log where s: "os_server_buffer_mr s1 = Some b" "mr_addr b = sbuf"
    "mr_length b = unat (word_of_nat ssz :: 32 word)" "os_server_metadata_attr s1 = attr_of_mr b"
    "log1 = log @ [Post_send (os_client_qp s1) msg]" "swr_opcode msg = IBV_WR_SEND"
    "extents (swr_sges msg) = [(word_of_nat (os_server_metadata_at s1), 16)]"
    using server_sends[OF E V serve] .
  note k = exchange_keeps[OF U exch[unfolded client_send_metadata_to_server1_def]] connect_keeps[OF conn]
  obtain m where m: "oc_client_src_mr c3 = Some m" "mr_addr m = cbuf" using k(3) by blast
  have "extents (rwr_sges (oc_server_recv_wr c3)) = [(word_of_nat (oc_server_metadata_at c3), 16)]"
    using pre_post_waits[OF U post] k(1,2,4) by simp
  then have d: "D msg (oc_server_recv_wr c3) s1 c3 = c3\<lparr>oc_server_metadata_attr := attr_of_mr b\<rparr>"
    using D s(4,6,7) unfolding sends_attrs_def by (simp add: attr_roundtrip)
  let ?c = "c3\<lparr>oc_server_metadata_attr := attr_of_mr b\<rparr>"
  have "mr_length b = ssz mod 2 ^ 32" using s(3) by (simp add: unat_of_nat)
  moreover obtain wr r u where "start_remote_write (traced U) len offset ?c (u3, []) =
      Inr (r, (u, [] @ [Post_send (oc_client_qp ?c) wr]))"
    "swr_opcode wr = IBV_WR_RDMA_WRITE" "unat (swr_remote_addr wr) = mr_addr b + offset" "swr_rkey wr = mr_lkey b"
    "swr_sges wr = [\<lparr>sge_addr = word_of_nat (mr_addr m), sge_length = word_of_nat len, sge_lkey = mr_lkey m\<rparr>]"
    "write_inside wr b = (offset + len \<le> mr_length b)"
    using remote_write_target[of ?c m b len offset U u3 "[]"] m(1) len top s(2) by auto
  ultimately show ?thesis
    using s(1,2,5) m(2) by (intro exI[of _ msg] exI[of _ wr] exI[of _ r] exI[of _ u]) (simp add: d extents_def)
qed

theorem write_reaches_server_witness:
  "\<exists>s1 w1 log1 c3 u3 msg wr r u.
     send_server_metadata_to_client1 (traced (calm_lib 1 [])) 65536 4096
       ((new_server_rdma undefined)\<lparr>os_pd := 1\<rparr>) [good_wc] (0, []) = Some (Inr (0, s1, (w1, log1))) \<and>
     last log1 = Post_send (os_client_qp s1) msg \<and>
     start_remote_write (traced (calm_lib 0 [RDMA_CM_EVENT_ESTABLISHED])) 100 4000
       (demo_delivery msg (oc_server_recv_wr c3) s1 c3) (u3, []) = Inr (r, (u, [Post_send (oc_client_qp c3) wr])) \<and>
     unat (swr_remote_addr wr) = 69536 \<and> (\<exists>b. os_server_buffer_mr s1 = Some b \<and> \<not> write_inside wr b)"
proof -
  let ?V = "calm_lib 1 []" and ?U = "calm_lib 0 [RDMA_CM_EVENT_ESTABLISHED]"
  let ?s0 = "(new_server_rdma undefined)\<lparr>os_pd := 1\<rparr>" and ?c0 = "(new_client_rdma undefined)\<lparr>oc_pd := 1\<rparr>"
  have T: "calm (traced ?V) fst 1 []" by (simp add: calm_def traced_eq)
  obtain s1 w1 where 1: "send_server_metadata_to_client1 (traced ?V) 65536 4096 ?s0 [good_wc] (0, []) = Some (Inr (0, s1, w1))"
    using calm_send[OF T, where st = ?s0 and buf = 65536 and sz = 4096 and wc = "[good_wc]" and s = "(0, [])"] by auto
  obtain w1' log1 where w: "w1 = (w1', log1)" by fastforce
  note C = calm_self[of 0 "[RDMA_CM_EVENT_ESTABLISHED]"]
  obtain u1 c1 where 2: "u1 = 0" "client_pre_post_recv_buffer ?U ?c0 0 = (0, c1, u1)" "oc_pd c1 = 1"
    using calm_pre_post[OF C, of ?c0 0] by auto
  obtain u2 where 3: "client_connect_to_server ?U c1 u1 = Some (0, c1, u2)"
    using calm_connect[OF C, of u1 c1] 2(1) by auto
  obtain u3 c3 where 4: "client_send_metadata_to_server1 ?U 8192 4096 c1 [] u2 = Some (0, c3, u3)"
    using calm_exchange[OF C 2(3), of u2 8192 "word_of_nat 4096" "[]"]
    by (auto simp: client_send_metadata_to_server1_def)
  from write_reaches_server[OF calm_reliable calm_exactly calm_exactly demo_delivers 2(2) 3 1[unfolded w] 4, of 100 4000]
  show ?thesis using 1 w by fastforce
qed

end
