(* ===== verification/GPU_MF.thy ===== *)
theory GPU_MF
  imports SGD
begin

text \<open>
  The matrix factorisation on the GPU: the kernel \<open>cuda_mf\<close> (\<open>cuda_kernel_mf.cu\<close>) and its host
  function \<open>gpu_mf\<close> (\<open>gpu_mf.cu\<close>), which no program of the repository calls yet. A launch runs
  \<open>wn\<close> threads over the same two arrays without any synchronisation; \<open>kernel_step\<close> interleaves them by
  whole rating entries in any order. Arrays are lists with checked bounds, indices and loop variables
  are \<open>int\<close> with checked overflow, and arithmetic on doubles is the parameter \<open>F\<close>, as in \<open>SGD\<close>.
\<close>

section \<open>The kernel\<close>

definition mf_yita :: double where "mf_yita = 0x3FC999999999999A"
definition mf_theta :: double where "mf_theta = 0x3FC999999999999A"

text \<open>\<open>err == 0\<close> holds of both zeros.\<close>

definition fp_zero :: "double \<Rightarrow> bool" where
  "fp_zero x \<longleftrightarrow> x = 0 \<or> x = 0x8000000000000000"

type_synonym mats = "double list \<times> double list"

text \<open>An index \<open>i * w + k\<close>, computed in \<open>int\<close>.\<close>

definition mf_index :: "int \<Rightarrow> int \<Rightarrow> int \<Rightarrow> int result" where
  "mf_index i w k = bindr (c_mul i w) (\<lambda>p. c_add p k)"

definition mf_err :: "fp \<Rightarrow> int \<Rightarrow> double \<Rightarrow> int \<Rightarrow> int \<Rightarrow> mats \<Rightarrow> double result" where
  "mf_err F dim e i j m =
     for_up (\<lambda>k err.
       bindr (mf_index i dim (int k)) (\<lambda>p.
       bindr (arr_get (fst m) p) (\<lambda>a.
       bindr (mf_index j dim (int k)) (\<lambda>q.
       bindr (arr_get (snd m) q) (\<lambda>b.
       Inr (fp_sub F err (fp_mul F a b))))))) 0 (nat dim) e"

definition mf_upd :: "fp \<Rightarrow> double \<Rightarrow> double \<Rightarrow> double \<Rightarrow> double" where
  "mf_upd F err y x = fp_add F x (fp_mul F mf_yita (fp_sub F (fp_mul F err y) (fp_mul F mf_theta x)))"

definition mf_update :: "fp \<Rightarrow> int \<Rightarrow> double \<Rightarrow> int \<Rightarrow> int \<Rightarrow> nat \<Rightarrow> mats \<Rightarrow> mats result" where
  "mf_update F dim err i j k m =
     bindr (mf_index i dim (int k)) (\<lambda>p.
     bindr (mf_index j dim (int k)) (\<lambda>q.
     bindr (arr_get (fst m) p) (\<lambda>a.
     bindr (arr_get (snd m) q) (\<lambda>b.
     bindr (arr_set (fst m) p (mf_upd F err b a)) (\<lambda>R.
     bindr (arr_get R p) (\<lambda>a1.
     bindr (arr_set (snd m) q (mf_upd F err a1 b)) (\<lambda>C.
     Inr (R, C))))))))"

text \<open>The body of the two loops: one rating entry. An entry of 0 is a missing rating.\<close>

definition mf_cell :: "fp \<Rightarrow> int \<Rightarrow> int \<Rightarrow> double list \<Rightarrow> int \<times> int \<Rightarrow> mats \<Rightarrow> mats result" where
  "mf_cell F dim ch rs ij m =
     (let (i, j) = ij in
      bindr (mf_index i ch j) (\<lambda>p.
      bindr (arr_get rs p) (\<lambda>e.
      if fp_zero e then Inr m
      else bindr (mf_err F dim e i j m) (\<lambda>err.
           for_up (mf_update F dim err i j) 0 (nat dim) m))))"

text \<open>
  The values of \<open>for (i = lo; i < hi; i += st)\<close>; a launch has \<open>st > 0\<close>. The list ends with an error if
  the addition overflows.
\<close>

function stride :: "int \<Rightarrow> int \<Rightarrow> int \<Rightarrow> int result list" where
  "stride lo hi st =
     (if lo < hi \<and> 0 < st
      then Inr lo # (case c_add lo st of Inl e \<Rightarrow> [Inl e] | Inr i \<Rightarrow> stride i hi st)
      else [])"
  by pat_completeness auto

termination by (relation "measure (\<lambda>(lo, hi, st). nat (hi - lo))") (auto simp: c_add_def chk32_eq_Inr)

declare stride.simps [simp del]

text \<open>What a thread does one after the other: the entries, or an overflow of a loop variable.\<close>

definition mf_cells :: "int \<Rightarrow> int \<Rightarrow> int \<Rightarrow> int \<Rightarrow> int \<Rightarrow> (int \<times> int) result list" where
  "mf_cells wn rh ch r_rx r_cx =
     concat (map (\<lambda>x. case x of
         Inl e \<Rightarrow> [Inl e]
       | Inr i \<Rightarrow> map (\<lambda>y. bindr y (\<lambda>j. Inr (i, j))) (stride r_cx ch wn)) (stride r_rx rh wn))"

fun run_cells :: "fp \<Rightarrow> int \<Rightarrow> int \<Rightarrow> double list \<Rightarrow> (int \<times> int) result list \<Rightarrow> mats \<Rightarrow> mats result" where
  "run_cells F dim ch rs [] m = Inr m"
| "run_cells F dim ch rs (x # xs) m =
     bindr x (\<lambda>c. bindr (mf_cell F dim ch rs c m) (run_cells F dim ch rs xs))"

text \<open>The thread \<open>tid\<close>, when no other thread runs.\<close>

definition cuda_mf ::
    "fp \<Rightarrow> int \<Rightarrow> int \<Rightarrow> int \<Rightarrow> double list \<Rightarrow> int list \<Rightarrow> int list \<Rightarrow> int \<Rightarrow> nat \<Rightarrow> mats \<Rightarrow> mats result" where
  "cuda_mf F dim rh ch rs row_id col_id wn tid m =
     bindr (arr_get row_id (int tid)) (\<lambda>r_rx.
     bindr (arr_get col_id (int tid)) (\<lambda>r_cx.
     run_cells F dim ch rs (mf_cells wn rh ch r_rx r_cx) m))"

section \<open>The host\<close>

text \<open>
  A launch with the threads one after the other; \<open>kernel_order_free\<close> shows that every interleaving
  gives the same arrays. \<open>shuf\<close> gives the two arrays that \<open>random_shuffle\<close> leaves in each of the 100
  iterations; the copies between host and device are the identity.
\<close>

definition mf_launch ::
    "fp \<Rightarrow> int \<Rightarrow> int \<Rightarrow> int \<Rightarrow> double list \<Rightarrow> int list \<times> int list \<Rightarrow> int \<Rightarrow> mats \<Rightarrow> mats result" where
  "mf_launch F dim rh ch rs ids wn m =
     for_up (\<lambda>tid. cuda_mf F dim rh ch rs (fst ids) (snd ids) wn tid) 0 (nat wn) m"

definition gpu_mf ::
    "fp \<Rightarrow> int \<Rightarrow> int \<Rightarrow> int \<Rightarrow> double list \<Rightarrow> (nat \<Rightarrow> int list \<times> int list) \<Rightarrow> int \<Rightarrow> mats \<Rightarrow> mats result"
where
  "gpu_mf F dim rh ch rs shuf wn m =
     for_up (\<lambda>iter. mf_launch F dim rh ch rs (shuf iter) wn) 0 100 m"

section \<open>Interleaving\<close>

text \<open>
  What every thread has still to do, and the arrays. A step lets one thread work off its next rating
  entry; a thread that faults has no step.
\<close>

type_synonym launch_state = "(nat \<Rightarrow> (int \<times> int) result list) \<times> mats"

inductive kernel_step :: "fp \<Rightarrow> int \<Rightarrow> int \<Rightarrow> double list \<Rightarrow> launch_state \<Rightarrow> launch_state \<Rightarrow> bool"
  for F dim ch rs where
  "todo t = Inr c # cs \<Longrightarrow> mf_cell F dim ch rs c m = Inr m' \<Longrightarrow>
   kernel_step F dim ch rs (todo, m) (todo(t := cs), m')"

inductive_cases kernel_stepE: "kernel_step F dim ch rs s s'"

section \<open>The pure meaning of an entry\<close>

definition mf_dot :: "fp \<Rightarrow> nat \<Rightarrow> double \<Rightarrow> nat \<Rightarrow> nat \<Rightarrow> mats \<Rightarrow> double" where
  "mf_dot F d e a b m = foldl (\<lambda>err k. fp_sub F err (fp_mul F (fst m ! (a + k)) (snd m ! (b + k)))) e [0..<d]"

definition mf_pure :: "fp \<Rightarrow> nat \<Rightarrow> double \<Rightarrow> nat \<Rightarrow> nat \<Rightarrow> mats \<Rightarrow> mats" where
  "mf_pure F d e a b m =
     (if fp_zero e then m
      else let err = mf_dot F d e a b m; f = (\<lambda>k. mf_upd F err (snd m ! (b + k)) (fst m ! (a + k))) in
        (row_set (fst m) a d f, row_set (snd m) b d (\<lambda>k. mf_upd F err (f k) (snd m ! (b + k)))))"

lemma arr_at: "i < length xs \<Longrightarrow> arr_get xs (int i) = Inr (xs ! i)"
  "i < length xs \<Longrightarrow> arr_set xs (int i) v = Inr (xs[i := v])"
  by (simp_all add: arr_get_ok arr_set_ok)

text \<open>All indices and loop variables are \<open>int\<close>.\<close>

definition indices_fit :: "nat \<Rightarrow> nat \<Rightarrow> nat \<Rightarrow> nat \<Rightarrow> bool" where
  "indices_fit wn d rh ch \<longleftrightarrow> rh * d \<le> 2 ^ 31 \<and> ch * d \<le> 2 ^ 31 \<and> rh * ch \<le> 2 ^ 31 \<and>
     rh + wn \<le> 2 ^ 31 \<and> ch + wn \<le> 2 ^ 31"

lemma mf_index_ok:
  assumes "i * w + k < 2 ^ 31"
  shows "mf_index (int i) (int w) (int k) = Inr (int (i * w + k))"
proof -
  define p where "p = int i * int w"
  have "int (i * w + k) < int (2 ^ 31)" using assms by (simp only: of_nat_less_iff)
  then have "0 \<le> p" "p + int k < 2 ^ 31" by (simp_all add: p_def)
  then have "in_int32 p" "in_int32 (p + int k)" by (simp_all add: int32_defs)
  then show ?thesis by (simp add: mf_index_def c_mul_def c_add_def p_def)
qed

lemma mf_err_ok:
  assumes "i * d + d \<le> length (fst m)" and "j * d + d \<le> length (snd m)"
    and "length (fst m) \<le> 2 ^ 31" and "length (snd m) \<le> 2 ^ 31"
  shows "mf_err F (int d) e (int i) (int j) m = Inr (mf_dot F d e (i * d) (j * d) m)"
proof -
  let ?f = "\<lambda>k err. bindr (mf_index (int i) (int d) (int k)) (\<lambda>p. bindr (arr_get (fst m) p) (\<lambda>a.
       bindr (mf_index (int j) (int d) (int k)) (\<lambda>q. bindr (arr_get (snd m) q) (\<lambda>b.
       Inr (fp_sub F err (fp_mul F a b))))))"
  have "\<exists>s. for_up ?f 0 d e = Inr s \<and> s = mf_dot F (0 + d) e (i * d) (j * d) m"
  proof (rule for_up_inv)
    fix k s
    assume k: "0 \<le> k" "k < 0 + d" "s = mf_dot F k e (i * d) (j * d) m"
    then have "i * d + k < length (fst m)" "j * d + k < length (snd m)" using assms by auto
    moreover from this have "i * d + k < 2 ^ 31" "j * d + k < 2 ^ 31" using assms(3,4) by linarith+
    ultimately show "\<exists>s'. ?f k s = Inr s' \<and> s' = mf_dot F (Suc k) e (i * d) (j * d) m"
      using k(3) by (simp add: mf_index_ok arr_at mf_dot_def del: of_nat_add of_nat_mult)
  qed (simp add: mf_dot_def)
  then show ?thesis by (simp add: mf_err_def)
qed

lemma mf_update_loop:
  assumes l: "i * d + d \<le> length (fst m)" "j * d + d \<le> length (snd m)"
    "length (fst m) \<le> 2 ^ 31" "length (snd m) \<le> 2 ^ 31"
  shows "for_up (mf_update F (int d) err (int i) (int j)) 0 d m =
    Inr (row_set (fst m) (i * d) d (\<lambda>k. mf_upd F err (snd m ! (j * d + k)) (fst m ! (i * d + k))),
         row_set (snd m) (j * d) d (\<lambda>k. mf_upd F err (mf_upd F err (snd m ! (j * d + k)) (fst m ! (i * d + k)))
           (snd m ! (j * d + k))))"
proof -
  let ?f = "\<lambda>k. mf_upd F err (snd m ! (j * d + k)) (fst m ! (i * d + k))"
  let ?M = "\<lambda>k. (row_set (fst m) (i * d) k ?f, row_set (snd m) (j * d) k (\<lambda>k. mf_upd F err (?f k) (snd m ! (j * d + k))))"
  have "\<exists>s. for_up (mf_update F (int d) err (int i) (int j)) 0 d m = Inr s \<and> s = ?M (0 + d)"
  proof (rule for_up_inv)
    fix k s
    assume k: "0 \<le> k" "k < 0 + d" and s: "s = ?M k"
    have b: "i * d + k < length (fst m)" "j * d + k < length (snd m)" using k l by auto
    then have "i * d + k < 2 ^ 31" "j * d + k < 2 ^ 31" using l(3,4) by linarith+
    with b show "\<exists>s'. mf_update F (int d) err (int i) (int j) k s = Inr s' \<and> s' = ?M (Suc k)"
      by (simp add: s mf_update_def mf_index_ok arr_at nth_row_set row_set_Suc del: of_nat_add of_nat_mult)
  qed simp
  then show ?thesis by simp
qed

text \<open>Arrays of the right sizes: \<open>rh\<close> rows and \<open>ch\<close> columns of \<open>d\<close> elements.\<close>

definition sized :: "nat \<Rightarrow> nat \<Rightarrow> nat \<Rightarrow> mats \<Rightarrow> bool" where
  "sized d rh ch m \<longleftrightarrow> length (fst m) = rh * d \<and> length (snd m) = ch * d"

definition cell_in :: "nat \<Rightarrow> nat \<Rightarrow> int \<times> int \<Rightarrow> bool" where
  "cell_in rh ch c \<longleftrightarrow> 0 \<le> fst c \<and> fst c < int rh \<and> 0 \<le> snd c \<and> snd c < int ch"

definition cell_pure :: "fp \<Rightarrow> nat \<Rightarrow> nat \<Rightarrow> double list \<Rightarrow> int \<times> int \<Rightarrow> mats \<Rightarrow> mats" where
  "cell_pure F d ch rs c m =
     mf_pure F d (rs ! (nat (fst c) * ch + nat (snd c))) (nat (fst c) * d) (nat (snd c) * d) m"

lemma row_fits: "i < n \<Longrightarrow> i * d + d \<le> n * (d :: nat)"
  by (metis Suc_leI add.commute mult_Suc mult_le_mono1)

lemma sized_pure: "sized d rh ch m \<Longrightarrow> sized d rh ch (cell_pure F d ch rs c m)"
  by (simp add: sized_def cell_pure_def mf_pure_def Let_def)

lemma mf_cell_ok:
  assumes m: "sized d rh ch m" and c: "cell_in rh ch c" and rs: "length rs = rh * ch"
    and fit: "indices_fit wn d rh ch"
  shows "mf_cell F (int d) (int ch) rs c m = Inr (cell_pure F d ch rs c m)"
proof -
  obtain i j where ij: "c = (int i, int j)" "i < rh" "j < ch"
    using c by (intro that[of "nat (fst c)" "nat (snd c)"]) (auto simp: cell_in_def prod_eq_iff)
  have l: "i * d + d \<le> length (fst m)" "j * d + d \<le> length (snd m)"
    "length (fst m) \<le> 2 ^ 31" "length (snd m) \<le> 2 ^ 31"
    using m ij row_fits fit by (auto simp: sized_def indices_fit_def)
  have k: "i * ch + j < length rs" using rs ij row_fits[of i rh ch] by simp
  then have "i * ch + j < 2 ^ 31" using rs fit unfolding indices_fit_def by linarith
  then have "mf_index (int i) (int ch) (int j) = Inr (int (i * ch + j))" by (rule mf_index_ok)
  with k show ?thesis
    using mf_err_ok[OF l] mf_update_loop[OF l]
    by (simp add: ij mf_cell_def cell_pure_def mf_pure_def arr_at Let_def del: of_nat_add of_nat_mult)
qed

text \<open>An index past \<open>INT_MAX\<close> overflows, also where the array has an element.\<close>

lemma mf_cell_overflow:
  assumes "2 ^ 31 \<le> i * ch + j"
  shows "mf_cell F dim (int ch) rs (int i, int j) m = Inl Signed_overflow"
proof -
  have o: "2 ^ 31 \<le> int i * int ch + int j" using assms by (simp flip: of_nat_mult of_nat_add)
  have "mf_index (int i) (int ch) (int j) = Inl Signed_overflow"
  proof (cases "in_int32 (int i * int ch)")
    case True
    moreover have "\<not> in_int32 (int i * int ch + int j)" using o by (simp add: int32_defs)
    ultimately show ?thesis by (simp add: mf_index_def c_mul_def c_add_def chk32_def)
  qed (simp add: mf_index_def c_mul_def chk32_def)
  then show ?thesis by (simp add: mf_cell_def)
qed

text \<open>With the matrices of \<open>mf_common.h\<close> this is so from row 3437 on.\<close>

lemma shipped_index_overflows:
  "3437 < N_rows \<and> mf_cell F dim M_cols rs (3437, 0) m = Inl Signed_overflow"
  using mf_cell_overflow[of 3437 624961 0 F dim rs m] by (simp add: N_rows_def M_cols_def)

section \<open>Entries that share no row and no column commute\<close>

lemma rows_apart: "i \<noteq> j \<Longrightarrow> i * d + d \<le> j * d \<or> j * d + d \<le> i * (d :: nat)"
  using row_fits by (cases "i < j") auto

lemma row_set_cong: "(\<And>k. k < n \<Longrightarrow> f k = g k) \<Longrightarrow> row_set xs a n f = row_set xs a n g"
  by (rule nth_equalityI) (auto simp: nth_row_set)

lemma row_set_swap:
  "a + n \<le> b \<or> b + n \<le> a \<Longrightarrow> row_set (row_set xs a n f) b n g = row_set (row_set xs b n g) a n f"
  by (rule nth_equalityI) (auto simp: nth_row_set)

lemma row_set_keeps:
  "a + n \<le> b \<or> b + n \<le> a \<Longrightarrow> b + n \<le> length xs \<Longrightarrow> k < n \<Longrightarrow> row_set xs a n f ! (b + k) = xs ! (b + k)"
  by (subst nth_row_set) auto

lemma mf_pure_keeps:
  assumes "a' + d \<le> a \<or> a + d \<le> a'" "a + d \<le> length (fst m)" "b' + d \<le> b \<or> b + d \<le> b'" "b + d \<le> length (snd m)"
    and "k < d"
  shows "fst (mf_pure F d e' a' b' m) ! (a + k) = fst m ! (a + k)"
    "snd (mf_pure F d e' a' b' m) ! (b + k) = snd m ! (b + k)"
  using assms by (auto simp: mf_pure_def Let_def row_set_keeps)

lemma mf_dot_keeps:
  assumes "a' + d \<le> a \<or> a + d \<le> a'" "a + d \<le> length (fst m)" "b' + d \<le> b \<or> b + d \<le> b'" "b + d \<le> length (snd m)"
  shows "mf_dot F d e a b (mf_pure F d e' a' b' m) = mf_dot F d e a b m"
  unfolding mf_dot_def using mf_pure_keeps[OF assms] by (intro foldl_cong) auto

lemma mf_pure_commute:
  assumes r: "a' + d \<le> a \<or> a + d \<le> a'" "a + d \<le> length (fst m)" "a' + d \<le> length (fst m)"
    and c: "b' + d \<le> b \<or> b + d \<le> b'" "b + d \<le> length (snd m)" "b' + d \<le> length (snd m)"
  shows "mf_pure F d e a b (mf_pure F d e' a' b' m) = mf_pure F d e' a' b' (mf_pure F d e a b m)"
proof (cases "fp_zero e \<or> fp_zero e'")
  case True
  then show ?thesis by (auto simp: mf_pure_def)
next
  case False
  have r': "a + d \<le> a' \<or> a' + d \<le> a" and c': "b + d \<le> b' \<or> b' + d \<le> b" using r(1) c(1) by auto
  note k1 = mf_pure_keeps[OF r(1,2) c(1,2)] mf_dot_keeps[OF r(1,2) c(1,2)]
    and k2 = mf_pure_keeps[OF r' r(3) c' c(3)] mf_dot_keeps[OF r' r(3) c' c(3)]
  let ?f = "\<lambda>e a b m k. mf_upd F (mf_dot F d e a b m) (snd m ! (b + k)) (fst m ! (a + k))"
  let ?g = "\<lambda>e a b m k. mf_upd F (mf_dot F d e a b m) (?f e a b m k) (snd m ! (b + k))"
  have exp: "mf_pure F d e a b m = (row_set (fst m) a d (?f e a b m), row_set (snd m) b d (?g e a b m))"
    if "\<not> fp_zero e" for e a b m using that by (simp add: mf_pure_def Let_def)
  have "mf_pure F d e a b (mf_pure F d e' a' b' m) =
      (row_set (fst (mf_pure F d e' a' b' m)) a d (?f e a b m), row_set (snd (mf_pure F d e' a' b' m)) b d (?g e a b m))"
    using False by (subst exp) (auto simp: k1 intro!: row_set_cong)
  also have "\<dots> = (row_set (row_set (fst m) a' d (?f e' a' b' m)) a d (?f e a b m),
      row_set (row_set (snd m) b' d (?g e' a' b' m)) b d (?g e a b m))"
    using False by (simp add: exp)
  also have "\<dots> = (row_set (row_set (fst m) a d (?f e a b m)) a' d (?f e' a' b' m),
      row_set (row_set (snd m) b d (?g e a b m)) b' d (?g e' a' b' m))"
    using r(1) c(1) by (simp add: row_set_swap)
  also have "\<dots> = (row_set (fst (mf_pure F d e a b m)) a' d (?f e' a' b' m),
      row_set (snd (mf_pure F d e a b m)) b' d (?g e' a' b' m))"
    using False by (simp add: exp)
  also have "\<dots> = mf_pure F d e' a' b' (mf_pure F d e a b m)"
    using False by (subst (2) exp) (auto simp: k2 intro!: row_set_cong)
  finally show ?thesis .
qed

definition apart :: "int \<times> int \<Rightarrow> int \<times> int \<Rightarrow> bool" where
  "apart c c' \<longleftrightarrow> fst c \<noteq> fst c' \<and> snd c \<noteq> snd c'"

lemma cell_commute:
  assumes "sized d rh ch m" "cell_in rh ch c" "cell_in rh ch c'" "apart c c'"
  shows "cell_pure F d ch rs c (cell_pure F d ch rs c' m) = cell_pure F d ch rs c' (cell_pure F d ch rs c m)"
  unfolding cell_pure_def
proof (rule mf_pure_commute)
  have i: "nat (fst c) < rh" "nat (fst c') < rh" "nat (fst c') \<noteq> nat (fst c)"
    "nat (snd c) < ch" "nat (snd c') < ch" "nat (snd c') \<noteq> nat (snd c)"
    using assms by (auto simp: cell_in_def apart_def)
  show "nat (fst c') * d + d \<le> nat (fst c) * d \<or> nat (fst c) * d + d \<le> nat (fst c') * d"
    "nat (snd c') * d + d \<le> nat (snd c) * d \<or> nat (snd c) * d + d \<le> nat (snd c') * d"
    using rows_apart i by blast+
  show "nat (fst c) * d + d \<le> length (fst m)" "nat (fst c') * d + d \<le> length (fst m)"
    "nat (snd c) * d + d \<le> length (snd m)" "nat (snd c') * d + d \<le> length (snd m)"
    using assms(1) i row_fits by (auto simp: sized_def)
qed

lemma sized_fold: "sized d rh ch m \<Longrightarrow> sized d rh ch (fold (cell_pure F d ch rs) cs m)"
  by (induction cs arbitrary: m) (auto simp: sized_pure)

text \<open>An entry moves to the front past entries that it does not touch.\<close>

lemma cell_to_front:
  assumes "sized d rh ch m" "cell_in rh ch c" "\<And>x. x \<in> set xs \<Longrightarrow> cell_in rh ch x \<and> apart c x"
  shows "fold (cell_pure F d ch rs) (xs @ [c]) m = fold (cell_pure F d ch rs) xs (cell_pure F d ch rs c m)"
  using assms(1,3)
proof (induction xs arbitrary: m)
  case Nil
  then show ?case by simp
next
  case (Cons x xs)
  have "fold (cell_pure F d ch rs) (xs @ [c]) (cell_pure F d ch rs x m) =
      fold (cell_pure F d ch rs) xs (cell_pure F d ch rs c (cell_pure F d ch rs x m))"
    using Cons.prems by (intro Cons.IH) (auto intro: sized_pure)
  then show ?case
    using cell_commute[OF Cons.prems(1) assms(2), of x F rs] Cons.prems(2) by simp
qed

lemma run_cells_ok:
  assumes "sized d rh ch m" "\<And>c. c \<in> set cs \<Longrightarrow> cell_in rh ch c" "length rs = rh * ch" "indices_fit wn d rh ch"
  shows "run_cells F (int d) (int ch) rs (map Inr cs) m = Inr (fold (cell_pure F d ch rs) cs m)"
  using assms
proof (induction cs arbitrary: m)
  case (Cons c cs)
  then show ?case by (simp add: mf_cell_ok[where rh = rh and wn = wn] sized_pure)
qed simp

section \<open>The threads of a launch share no row and no column\<close>

lemma stride_in:
  assumes "x \<in> set (stride lo hi st)" and "0 \<le> lo" and "hi + st \<le> 2 ^ 31"
  shows "\<exists>i. x = Inr i \<and> lo \<le> i \<and> i < hi \<and> i mod st = lo mod st"
  using assms
proof (induction lo hi st rule: stride.induct)
  case (1 lo hi st)
  have c: "lo < hi" "0 < st" using 1(2) by (subst (asm) stride.simps; auto split: if_splits)+
  then have a: "c_add lo st = Inr (lo + st)" using 1(3,4) by (simp add: c_add_def int32_defs)
  have "x = Inr lo \<or> x \<in> set (stride (lo + st) hi st)"
    using 1(2) c a by (subst (asm) stride.simps) simp
  then show ?case using 1(1)[OF _ a] 1(3,4) c by fastforce
qed

text \<open>What \<open>random_shuffle\<close> makes of \<open>0, ..., wn - 1\<close>.\<close>

definition shuffled :: "nat \<Rightarrow> int list \<Rightarrow> bool" where
  "shuffled wn xs \<longleftrightarrow> length xs = wn \<and> distinct xs \<and> set xs = {0..<int wn}"

definition thread_cells :: "nat \<Rightarrow> nat \<Rightarrow> nat \<Rightarrow> int list \<times> int list \<Rightarrow> nat \<Rightarrow> (int \<times> int) result list" where
  "thread_cells wn rh ch ids t =
     (if t < wn then mf_cells (int wn) (int rh) (int ch) (fst ids ! t) (snd ids ! t) else [])"

lemma thread_cells_in:
  assumes "shuffled wn (fst ids)" "shuffled wn (snd ids)" "indices_fit wn d rh ch"
    and "x \<in> set (thread_cells wn rh ch ids t)"
  shows "\<exists>c. x = Inr c \<and> cell_in rh ch c \<and> t < wn \<and> fst c mod int wn = fst ids ! t \<and> snd c mod int wn = snd ids ! t"
proof -
  have t: "t < wn" using assms(4) by (simp add: thread_cells_def split: if_splits)
  then have i: "fst ids ! t \<in> {0..<int wn}" "snd ids ! t \<in> {0..<int wn}"
    using assms(1,2) by (metis nth_mem shuffled_def)+
  have b: "int rh + int wn \<le> 2 ^ 31" "int ch + int wn \<le> 2 ^ 31"
    using assms(3) by (simp_all add: indices_fit_def flip: of_nat_add)
  obtain y where y: "y \<in> set (stride (fst ids ! t) (int rh) (int wn))"
    "x \<in> set (case y of Inl e \<Rightarrow> [Inl e] | Inr i \<Rightarrow> map (\<lambda>y. bindr y (\<lambda>j. Inr (i, j))) (stride (snd ids ! t) (int ch) (int wn)))"
    using assms(4) t by (auto simp: thread_cells_def mf_cells_def)
  obtain r where r: "y = Inr r" "fst ids ! t \<le> r" "r < int rh" "r mod int wn = fst ids ! t mod int wn"
    using stride_in[OF y(1) _ b(1)] i by auto
  obtain z where z: "z \<in> set (stride (snd ids ! t) (int ch) (int wn))" "x = bindr z (\<lambda>j. Inr (r, j))"
    using y(2) r(1) by auto
  obtain q where q: "z = Inr q" "snd ids ! t \<le> q" "q < int ch" "q mod int wn = snd ids ! t mod int wn"
    using stride_in[OF z(1) _ b(2)] i by auto
  show ?thesis
    using r q z(2) i t by (intro exI[of _ "(r, q)"]) (auto simp: cell_in_def)
qed

text \<open>The entries themselves, since no thread faults.\<close>

definition entries :: "nat \<Rightarrow> nat \<Rightarrow> nat \<Rightarrow> int list \<times> int list \<Rightarrow> nat \<Rightarrow> (int \<times> int) list" where
  "entries wn rh ch ids t = map projr (thread_cells wn rh ch ids t)"

lemma thread_entries:
  assumes "shuffled wn (fst ids)" "shuffled wn (snd ids)" "indices_fit wn d rh ch"
  shows "thread_cells wn rh ch ids t = map Inr (entries wn rh ch ids t)"
proof -
  have "map (Inr \<circ> projr) (thread_cells wn rh ch ids t) = map id (thread_cells wn rh ch ids t)"
    by (rule map_cong) (use thread_cells_in[OF assms] in fastforce)+
  then show ?thesis by (simp add: entries_def)
qed

lemma entries_in:
  assumes "shuffled wn (fst ids)" "shuffled wn (snd ids)" "indices_fit wn d rh ch" "c \<in> set (entries wn rh ch ids t)"
  shows "cell_in rh ch c \<and> t < wn \<and> fst c mod int wn = fst ids ! t \<and> snd c mod int wn = snd ids ! t"
  using thread_cells_in[OF assms(1-3), of _ t] assms(4) by (fastforce simp: entries_def)

lemma threads_apart:
  assumes s: "shuffled wn (fst ids)" "shuffled wn (snd ids)" "indices_fit wn d rh ch" and "t \<noteq> t'"
    and "c \<in> set (entries wn rh ch ids t)" "c' \<in> set (entries wn rh ch ids t')"
  shows "apart c c'"
  using entries_in[OF s assms(5)] entries_in[OF s assms(6)] assms(1,2,4)
  by (auto simp: apart_def shuffled_def) (metis nth_eq_iff_index_eq)+

section \<open>Every interleaving\<close>

definition remaining :: "nat \<Rightarrow> (nat \<Rightarrow> (int \<times> int) list) \<Rightarrow> (int \<times> int) list" where
  "remaining wn todo = concat (map todo [0..<wn])"

definition launch_inv :: "nat \<Rightarrow> nat \<Rightarrow> nat \<Rightarrow> (nat \<Rightarrow> (int \<times> int) list) \<Rightarrow> bool" where
  "launch_inv wn rh ch todo \<longleftrightarrow>
     (\<forall>t c. c \<in> set (todo t) \<longrightarrow> cell_in rh ch c \<and> t < wn) \<and>
     (\<forall>t t' c c'. t \<noteq> t' \<longrightarrow> c \<in> set (todo t) \<longrightarrow> c' \<in> set (todo t') \<longrightarrow> apart c c')"

lemma launch_inv_start:
  assumes "shuffled wn (fst ids)" "shuffled wn (snd ids)" "indices_fit wn d rh ch"
  shows "launch_inv wn rh ch (entries wn rh ch ids)"
  using entries_in[OF assms] threads_apart[OF assms] unfolding launch_inv_def by blast

lemma launch_inv_step: "launch_inv wn rh ch todo \<Longrightarrow> todo t = c # cs \<Longrightarrow> launch_inv wn rh ch (todo(t := cs))"
  unfolding launch_inv_def by (auto split: if_splits) (metis list.set_intros(2))+

lemma upt_at: "t < n \<Longrightarrow> [0..<n] = [0..<t] @ t # [Suc t..<n]"
  using upt_add_eq_append[of 0 t "n - t"] by (simp add: upt_conv_Cons)

text \<open>A step moves the entry in front of all that is left, which changes nothing.\<close>

lemma step_keeps_result:
  assumes I: "launch_inv wn rh ch todo" and m: "sized d rh ch m" and t: "todo t = c # cs"
  shows "fold (cell_pure F d ch rs) (remaining wn (todo(t := cs))) (cell_pure F d ch rs c m) =
    fold (cell_pure F d ch rs) (remaining wn todo) m"
proof -
  have tw: "t < wn" "cell_in rh ch c" using I t unfolding launch_inv_def by (metis list.set_intros(1))+
  define A B where "A = concat (map todo [0..<t])" and "B = concat (map todo [Suc t..<wn])"
  have r: "remaining wn todo = (A @ [c]) @ cs @ B" "remaining wn (todo(t := cs)) = A @ cs @ B"
    using t by (simp_all add: remaining_def A_def B_def upt_at[OF tw(1)])
  have "fold (cell_pure F d ch rs) (A @ [c]) m = fold (cell_pure F d ch rs) A (cell_pure F d ch rs c m)"
  proof (rule cell_to_front[OF m tw(2)])
    fix x assume "x \<in> set A"
    then obtain u where "u < t" "x \<in> set (todo u)" by (auto simp: A_def)
    then show "cell_in rh ch x \<and> apart c x"
      using I t unfolding launch_inv_def by (metis list.set_intros(1) less_irrefl)
  qed
  then show ?thesis unfolding r by simp
qed

text \<open>The invariant of a launch that is to end in the arrays \<open>r\<close>.\<close>

definition launch_good ::
    "fp \<Rightarrow> nat \<Rightarrow> nat \<Rightarrow> nat \<Rightarrow> nat \<Rightarrow> double list \<Rightarrow> mats \<Rightarrow> launch_state \<Rightarrow> bool" where
  "launch_good F d wn rh ch rs r s \<longleftrightarrow> indices_fit wn d rh ch \<and> sized d rh ch (snd s) \<and> length rs = rh * ch \<and>
     (\<exists>todo. fst s = (\<lambda>t. map Inr (todo t)) \<and> launch_inv wn rh ch todo \<and>
        fold (cell_pure F d ch rs) (remaining wn todo) (snd s) = r)"

lemma launch_good_step:
  assumes g: "launch_good F d wn rh ch rs r s" and st: "kernel_step F (int d) (int ch) rs s s'"
  shows "launch_good F d wn rh ch rs r s'"
  using st
proof (cases rule: kernel_step.cases)
  case (1 todo t c xs m m')
  obtain ps where p: "todo = (\<lambda>t. map Inr (ps t))" and I: "launch_inv wn rh ch ps" "sized d rh ch m" "length rs = rh * ch"
    and fit: "indices_fit wn d rh ch" and r: "fold (cell_pure F d ch rs) (remaining wn ps) m = r"
    using g 1(1) by (auto simp: launch_good_def)
  obtain cs where t: "ps t = c # cs" "xs = map Inr cs" using 1(3) p by auto
  then have "cell_in rh ch c" using I unfolding launch_inv_def by (metis list.set_intros(1))
  then have m': "m' = cell_pure F d ch rs c m" using mf_cell_ok[OF I(2) _ I(3) fit] 1(4) by simp
  have "todo(t := xs) = (\<lambda>u. map Inr ((ps(t := cs)) u))" using p t by auto
  then show ?thesis
    using 1(2) I fit r m' launch_inv_step[OF I(1) t(1)] step_keeps_result[OF I(1,2) t(1), of F rs]
    unfolding launch_good_def by (auto simp: sized_pure intro!: exI[of _ "ps(t := cs)"])
qed

interpretation launch: inv_system "launch_good F d wn rh ch rs r" "kernel_step F (int d) (int ch) rs"
  "launch_good F d wn rh ch rs r"
  for F :: fp and d wn rh ch :: nat and rs :: "double list" and r :: mats
  by unfold_locales (auto intro: launch_good_step)

lemma launch_ok:
  assumes s: "shuffled wn (fst ids)" "shuffled wn (snd ids)" "indices_fit wn d rh ch" and m: "sized d rh ch m"
    and rs: "length rs = rh * ch"
  shows "mf_launch F (int d) (int rh) (int ch) rs ids (int wn) m =
    Inr (fold (cell_pure F d ch rs) (remaining wn (entries wn rh ch ids)) m)"
proof -
  let ?T = "entries wn rh ch ids"
  let ?R = "\<lambda>t. fold (cell_pure F d ch rs) (remaining t ?T) m"
  let ?f = "\<lambda>tid. cuda_mf F (int d) (int rh) (int ch) rs (fst ids) (snd ids) (int wn) tid"
  have "\<exists>x. for_up ?f 0 wn m = Inr x \<and> x = ?R (0 + wn)"
  proof (rule for_up_inv)
    fix t x
    assume t: "0 \<le> t" "t < 0 + wn" and x: "x = ?R t"
    have "run_cells F (int d) (int ch) rs (thread_cells wn rh ch ids t) x = Inr (fold (cell_pure F d ch rs) (?T t) x)"
      unfolding thread_entries[OF s] x
      using entries_in[OF s] m rs s(3) by (intro run_cells_ok) (auto intro: sized_fold)
    then show "\<exists>x'. ?f t x = Inr x' \<and> x' = ?R (Suc t)"
      using t s by (simp add: cuda_mf_def arr_at shuffled_def thread_cells_def remaining_def x)
  qed (simp add: remaining_def)
  then have "for_up ?f 0 wn m = Inr (?R wn)" by (metis add_0)
  then show ?thesis by (simp add: mf_launch_def)
qed

text \<open>
  C24: The kernel has no data race. After \<open>random_shuffle\<close> has permuted the row and column numbers, and
  if the sizes are such that every index and loop variable of the kernel is an \<open>int\<close>, the \<open>wn\<close> threads
  of a launch, interleaved by rating entries in any order, never fault, do not block before all of
  them are done, and then leave the arrays that running them one after the other leaves, although
  nothing synchronises them. The matrices of \<open>mf_common.h\<close> are too large for the condition: there the
  index of a rating overflows.
\<close>

theorem kernel_order_free:
  assumes s: "shuffled wn (fst ids)" "shuffled wn (snd ids)" and m: "sized d rh ch m" and rs: "length rs = rh * ch"
    and fit: "indices_fit wn d rh ch"
    and run: "(kernel_step F (int d) (int ch) rs)\<^sup>*\<^sup>* (thread_cells wn rh ch ids, m) (todo, m')"
  shows "if \<forall>t. todo t = [] then mf_launch F (int d) (int rh) (int ch) rs ids (int wn) m = Inr m'
    else \<forall>t. todo t \<noteq> [] \<longrightarrow> (\<exists>c m''. hd (todo t) = Inr c \<and> mf_cell F (int d) (int ch) rs c m' = Inr m'' \<and>
      kernel_step F (int d) (int ch) rs (todo, m') (todo(t := tl (todo t)), m''))"
proof -
  let ?r = "fold (cell_pure F d ch rs) (remaining wn (entries wn rh ch ids)) m"
  have "launch_good F d wn rh ch rs ?r (thread_cells wn rh ch ids, m)"
    using launch_inv_start[OF s fit] m rs fit thread_entries[OF s fit]
    by (auto simp: launch_good_def fun_eq_iff intro!: exI[of _ "entries wn rh ch ids"])
  from launch.inv_reach[OF this run] obtain ps where r: "todo = (\<lambda>t. map Inr (ps t))" "launch_inv wn rh ch ps"
    "sized d rh ch m'" "fold (cell_pure F d ch rs) (remaining wn ps) m' = ?r" by (auto simp: launch_good_def)
  show ?thesis
  proof (cases "\<forall>t. todo t = []")
    case True
    then have "remaining wn ps = []" using r(1) by (simp add: remaining_def)
    then show ?thesis using True r launch_ok[OF s fit m rs] by simp
  next
    case False
    have "\<exists>c m''. hd (todo t) = Inr c \<and> mf_cell F (int d) (int ch) rs c m' = Inr m'' \<and>
      kernel_step F (int d) (int ch) rs (todo, m') (todo(t := tl (todo t)), m'')" if ne: "todo t \<noteq> []" for t
    proof -
      obtain c cs where t: "ps t = c # cs" using ne r(1) by (auto simp: neq_Nil_conv)
      then have "cell_in rh ch c" using r(2) unfolding launch_inv_def by (metis list.set_intros(1))
      then have c: "mf_cell F (int d) (int ch) rs c m' = Inr (cell_pure F d ch rs c m')"
        using mf_cell_ok r(3) rs fit by blast
      have h: "todo t = Inr c # map Inr cs" using t r(1) by simp
      show ?thesis using kernel_step.intros[of todo t c "map Inr cs", OF h c] c h
        by (intro exI[of _ c] exI[of _ "cell_pure F d ch rs c m'"]) simp
    qed
    then show ?thesis unfolding if_not_P[OF False] by blast
  qed
qed

text \<open>Two threads on a matrix of two rows and columns; the second runs first.\<close>

definition word_fp :: fp where
  "word_fp = \<lparr>fp_add = (+), fp_sub = (-), fp_mul = (*), fp_of_int = word_of_int\<rparr>"

theorem kernel_order_free_witness:
  "\<exists>m'. (kernel_step word_fp 1 2 [5, 6, 7, 8])\<^sup>*\<^sup>* (thread_cells 2 2 2 ([1, 0], [0, 1]), ([1, 2], [3, 4]))
      (\<lambda>t. [], m') \<and>
    mf_launch word_fp 1 2 2 [5, 6, 7, 8] ([1, 0], [0, 1]) 2 ([1, 2], [3, 4]) = Inr m'"
proof -
  let ?F = word_fp and ?rs = "[5, 6, 7, 8] :: double list" and ?m = "([1, 2], [3, 4]) :: mats"
  let ?ids = "([1, 0], [0, 1]) :: int list \<times> int list"
  let ?T = "thread_cells 2 2 2 ?ids"
  let ?m1 = "cell_pure ?F 1 2 ?rs (0, 1) ?m" and ?c0 = "(1, 0) :: int \<times> int"
  have T: "?T = (\<lambda>t. [])(0 := [Inr ?c0], Suc 0 := [Inr (0, 1)])"
    by (rule ext) (auto simp: thread_cells_def mf_cells_def stride.simps c_add_def int32_defs less_2_cases_iff)
  have s1: "sized 1 2 2 ?m" by (simp add: sized_def)
  have fit: "indices_fit 2 1 2 2" by (simp add: indices_fit_def)
  note s = s1 sized_pure[OF s1, of ?F ?rs "(0, 1)"]
  have c1: "mf_cell ?F 1 2 ?rs (0, 1) ?m = Inr ?m1"
    using mf_cell_ok[OF s(1) _ _ fit, of "(0, 1)" ?rs ?F] by (simp add: cell_in_def)
  have c0: "mf_cell ?F 1 2 ?rs ?c0 ?m1 = Inr (cell_pure ?F 1 2 ?rs ?c0 ?m1)"
    using mf_cell_ok[OF s(2) _ _ fit, of ?c0 ?rs ?F] by (simp add: cell_in_def)
  have k1: "kernel_step ?F 1 2 ?rs (?T, ?m) (?T(Suc 0 := []), ?m1)"
    by (rule kernel_step.intros[of _ _ "(0, 1)"]) (simp_all only: T c1, simp)
  have k2: "kernel_step ?F 1 2 ?rs (?T(Suc 0 := []), ?m1) (?T(Suc 0 := [], 0 := []), cell_pure ?F 1 2 ?rs ?c0 ?m1)"
    by (rule kernel_step.intros[of _ _ ?c0]) (simp_all only: T c0, simp)
  have e: "?T(Suc 0 := [], 0 := []) = (\<lambda>t. [])" unfolding T by auto
  have run: "(kernel_step ?F 1 2 ?rs)\<^sup>*\<^sup>* (?T, ?m) (\<lambda>t. [], cell_pure ?F 1 2 ?rs ?c0 ?m1)"
  proof (rule rtranclp.rtrancl_into_rtrancl)
    show "(kernel_step ?F 1 2 ?rs)\<^sup>*\<^sup>* (?T, ?m) (?T(Suc 0 := []), ?m1)" by (rule r_into_rtranclp) (rule k1)
    show "kernel_step ?F 1 2 ?rs (?T(Suc 0 := []), ?m1) (\<lambda>t. [], cell_pure ?F 1 2 ?rs ?c0 ?m1)"
      using k2 unfolding e .
  qed
  have sh: "shuffled 2 (fst ?ids)" "shuffled 2 (snd ?ids)" by (auto simp: shuffled_def)
  have run': "(kernel_step ?F (int 1) (int 2) ?rs)\<^sup>*\<^sup>* (?T, ?m) (\<lambda>t. [], cell_pure ?F 1 2 ?rs ?c0 ?m1)"
    using run by (simp only: of_nat_1 of_nat_numeral)
  have l: "length ?rs = 2 * 2" by simp
  have "mf_launch ?F (int 1) (int 2) (int 2) ?rs ?ids (int 2) ?m = Inr (cell_pure ?F 1 2 ?rs ?c0 ?m1)"
    using kernel_order_free[OF sh s1 l fit run'] by (simp only: if_True simp_thms)
  then have "mf_launch ?F 1 2 2 ?rs ?ids 2 ?m = Inr (cell_pure ?F 1 2 ?rs ?c0 ?m1)"
    by (simp only: of_nat_1 of_nat_numeral)
  with run show ?thesis by blast
qed

end
