(* ===== verification/Sockets.thy ===== *)
theory Sockets
  imports Verbs
begin

text \<open>
  \<open>wait4connection\<close>, a helper that \<open>ps.cpp\<close> and \<open>worker.cpp\<close> both contain and neither calls: it
  opens a TCP socket, binds it to the address, listens and returns the first connection. The address
  is passed to \<open>Bind_socket\<close> in the form in which \<open>inet_pton\<close> reads it; \<open>assert\<close> ends the process.
\<close>

definition bind_retry :: "'w verbs \<Rightarrow> int \<Rightarrow> string \<Rightarrow> int \<Rightarrow> 'w \<Rightarrow> 'w option" where
  "bind_retry V fd ip port w = repeat_call V (Bind_socket fd ip port) (\<lambda>r. 0 \<le> r_code r) w"

definition wait4connection :: "'w verbs \<Rightarrow> string \<Rightarrow> int \<Rightarrow> 'w \<Rightarrow> (int \<times> 'w) result option" where
  "wait4connection V local_ip local_port w =
     (let (r1, w1) = V Socket w; fd = r_code r1 in
      case bind_retry V fd local_ip (local_port mod 2 ^ 16) w1 of
        None \<Rightarrow> None
      | Some w2 \<Rightarrow>
          let (r3, w3) = V (Listen_socket fd 5) w2 in
          if r_code r3 < 0 then Some (Inl (Died ''assert''))
          else let (r4, w4) = V (Accept_socket fd) w3 in Some (Inr (r_code r4, w4)))"

text \<open>Whether the \<open>bind\<close> after \<open>n\<close> others succeeds, and the answer to the \<open>listen\<close> after it.\<close>

definition socket_of :: "'w verbs \<Rightarrow> 'w \<Rightarrow> int" where
  "socket_of V w = r_code (fst (V Socket w))"

definition bound :: "'w verbs \<Rightarrow> string \<Rightarrow> int \<Rightarrow> 'w \<Rightarrow> nat \<Rightarrow> bool" where
  "bound V ip port w n \<longleftrightarrow>
     0 \<le> r_code (nth_reply V (Bind_socket (socket_of V w) ip (port mod 2 ^ 16)) (snd (V Socket w)) n)"

definition listening :: "'w verbs \<Rightarrow> string \<Rightarrow> int \<Rightarrow> 'w \<Rightarrow> nat \<Rightarrow> reply \<times> 'w" where
  "listening V ip port w n = V (Listen_socket (socket_of V w) 5)
     (after_calls V (Bind_socket (socket_of V w) ip (port mod 2 ^ 16)) (Suc n) (snd (V Socket w)))"

text \<open>
  C40: The loop of \<open>wait4connection\<close> goes on while \<open>bind\<close> succeeds: the test is inverted. If the socket
  can be bound again and again the function never returns. Otherwise it leaves the loop with the first
  \<open>bind\<close> that fails and listens on the socket all the same: it ends the process at the assertion when
  \<open>listen\<close> fails, and only otherwise returns, with what \<open>accept\<close> gave. So it returns exactly when some
  \<open>bind\<close> fails and the \<open>listen\<close> after the first one that does succeeds.
\<close>

theorem wait4connection_needs_failure:
  "wait4connection V ip port w =
     (if \<forall>n. bound V ip port w n then None
      else let (r, w') = listening V ip port w (LEAST n. \<not> bound V ip port w n);
               (r', w'') = V (Accept_socket (socket_of V w)) w' in
        if r_code r < 0 then Some (Inl (Died ''assert'')) else Some (Inr (r_code r', w'')))"
proof -
  let ?fd = "socket_of V w" and ?w = "snd (V Socket w)"
  let ?b = "bind_retry V ?fd ip (port mod 2 ^ 16) ?w"
  have u: "wait4connection V ip port w = (case ?b of None \<Rightarrow> None | Some w2 \<Rightarrow>
      if r_code (fst (V (Listen_socket ?fd 5) w2)) < 0 then Some (Inl (Died ''assert''))
      else Some (Inr (r_code (fst (V (Accept_socket ?fd) (snd (V (Listen_socket ?fd 5) w2)))),
        snd (V (Accept_socket ?fd) (snd (V (Listen_socket ?fd 5) w2))))))"
    by (simp add: wait4connection_def socket_of_def Let_def split_beta split: option.split)
  show ?thesis
  proof (cases "\<forall>n. bound V ip port w n")
    case True
    then have "\<nexists>w2. ?b = Some w2"
      using repeat_call_iff[of V "Bind_socket ?fd ip (port mod 2 ^ 16)" "\<lambda>r. 0 \<le> r_code r" ?w]
      by (simp add: bind_retry_def bound_def)
    then show ?thesis using True u by (cases ?b) simp_all
  next
    case False
    define n where "n = (LEAST n. \<not> bound V ip port w n)"
    have n: "\<not> bound V ip port w n" "\<And>i. i < n \<Longrightarrow> bound V ip port w i"
      using LeastI_ex[of "\<lambda>n. \<not> bound V ip port w n"] False not_less_Least unfolding n_def by blast+
    have "?b = Some (after_calls V (Bind_socket ?fd ip (port mod 2 ^ 16)) (Suc n) ?w)"
      unfolding bind_retry_def using n by (intro repeat_call_ends) (simp_all add: bound_def)
    then show ?thesis
      using False u by (simp add: listening_def Let_def split_beta flip: n_def)
  qed
qed

end
