(* ===== verification/Spec2Isabelle.thy ===== *)
theory Spec2Isabelle
  imports Whole_Runs Statement_Work Copy_Halves Test_Runs Poll_Loops One_Sided_Pair GPU_MF Sockets
begin

text \<open>
  Stellar-Bench is a benchmark of distributed matrix factorisation over RDMA. A parameter server
  (\<open>ps.cpp\<close>) holds two factor matrices P and Q, cut into one block per worker. In every iteration it
  sends to each worker its pair of blocks; the worker (\<open>worker.cpp\<close>, built from the copy \<open>worker.cu\<close>)
  runs stochastic gradient descent on them and sends them back. Server and workers are joined by two
  links each, one per direction, and a link has a client end
  (\<open>rdma_two_sided_client_op.cpp\<close>) that writes into the registered buffer of its server end
  (\<open>rdma_two_sided_server_op.cpp\<close>). Threads share flags and counters without locks.

  The theories follow the code from the bottom up.
  \<^item> \<open>Prelude\<close>: fault values and their bind, checked \<open>int\<close> arithmetic, array access, counting loops,
    and the locale of transition systems with an invariant.
  \<^item> \<open>Wire\<close>, \<open>MF_Common\<close>, \<open>C_Strings\<close>: byte images of \<open>int\<close>, \<open>bool\<close>, pointers and doubles as
    instances of one locale; \<open>mf_common.h\<close> with its \<open>Block\<close> and the heap of element arrays; \<open>atoi\<close>
    and \<open>sprintf\<close> on decimal numbers.
  \<^item> \<open>Partition\<close>: \<open>partitionBlock\<close>, its closed form, tiling, memory, and boundary cases.
  \<^item> \<open>SGD\<close>: \<open>FakeSubMF\<close> on the heap, and its equality with pure row updates.
  \<^item> \<open>Block_Wire\<close>: a pair of blocks packed into a buffer and read back through overlays, as an
    instance of the locale of message ports.
  \<^item> \<open>Verbs\<close>: the calls into librdmacm, libibverbs and the socket library; \<open>common.h\<close>, \<open>common.cpp\<close>.
  \<^item> \<open>Two_Sided_Client\<close>, \<open>Two_Sided_Server\<close>: every method of the two classes, the completion handlers
    cut at the points where other threads can run in between.
  \<^item> \<open>Worker\<close>, \<open>Param_Server\<close>, \<open>Server_Setup\<close>: the two programs, their globals as a record, \<open>main\<close>
    up to its loop, one pass of each loop, and what the setup of the server establishes.
  \<^item> \<open>Link\<close>, \<open>Link_Data\<close>, \<open>Link_Progress\<close>, \<open>Handshake\<close>: one direction of communication as a step
    relation of the two completion threads and the network; its token invariant, what the buffers
    hold, when it can move, and how connecting leads to its start state.
  \<^item> \<open>Cluster\<close>, \<open>Dataflow\<close>, \<open>Progress\<close>, \<open>System\<close>: the whole system as a step relation; the chain of
    counters, the values that travel, when the system can move, and a deployed system.
  \<^item> \<open>Simulation\<close>, \<open>Channel\<close>, \<open>Rounds\<close>, \<open>Completion\<close>, \<open>Whole_Runs\<close>: the contracts of the link and of the
    system: what they look like from outside (simulation by an abstract system), the bounded work of
    a run, and when a run can be completed.
  \<^item> \<open>Threads\<close>, \<open>Races\<close>: the steps with their threads, which of them commute, and the one pair that
    does not.
  \<^item> \<open>Statements\<close>, \<open>Lane_Work\<close>, \<open>Midway\<close>, \<open>Reduction\<close>, \<open>Statement_Runs\<close>,
    \<open>Statement_Work\<close>: the application threads statement by statement, what the work of a thread
    touches, states with work under way, their reduction to the system whose steps are whole passes,
    and the length and the end of such runs.
  \<^item> \<open>Copy_Halves\<close>: the same with the server's copy of a message cut between its two blocks, and how such
    a run is followed by one that makes the copy in one step.
  \<^item> \<open>Poll_Loops\<close>: the completion threads around the handlers, down to the single \<open>ibv_poll_cq\<close>, and
    what becomes of completions with a bad status.
  \<^item> \<open>RDMA_Common\<close>, \<open>One_Sided_Client\<close>, \<open>One_Sided_Server\<close>: the older, one-sided transport
    (\<open>rdma_common.cpp\<close>, \<open>client_rdma_op.cpp\<close>, \<open>server_rdma_op.cpp\<close>), which is built into all programs
    and used by none; every method as a function of object and world, errors included.
  \<^item> \<open>Ledger\<close>, \<open>Lifecycle\<close>, \<open>One_Sided_Runs\<close>, \<open>One_Sided_Pair\<close>: a ledger of the resources that the
    library hands out, what each method of the one-sided classes takes and gives back, their whole
    life, and the two ends together.
  \<^item> \<open>GPU_MF\<close>: the CUDA kernel of \<open>cuda_kernel_mf.cu\<close> as interleaved threads, with indices that are checked
    \<open>int\<close>s, and its host loop.
  \<^item> \<open>Sockets\<close>: \<open>wait4connection\<close>.
  \<^item> \<open>Test_Programs\<close>: \<open>test_send.cpp\<close> and \<open>test_recv.cpp\<close> on one link.
  \<^item> \<open>Loopback\<close>, \<open>Test_Runs\<close>: a concrete network of two queues, a deployment of one worker, and
    concrete runs on it, to which the theorems are applied.

  How the state corresponds to the code. \<open>ps_state\<close> and \<open>worker_state\<close> hold the globals under the
  names of the source (with a prefix \<open>ps_\<close> or \<open>wk_\<close> where both programs have the name).
  \<open>client_context\<close> and \<open>conn_context\<close> hold the fields of the structures, a \<open>buffer\<close> being its address
  and its bytes. An \<open>int\<close> is an integer, checked where the source computes with sizes
  (\<open>partitionBlock\<close>) and indices (\<open>mf_index\<close>, \<open>stride\<close>), and shown to stay in range where it counts (\<open>counters_fit_int\<close>); a \<open>size_t\<close> sum wraps at 64 bits; lengths, keys and addresses on the wire are
  words. A double is its bit pattern; the floating point operations are the parameter \<open>F\<close> of type
  \<open>fp\<close>, and the results hold for every choice of them. An array of doubles is a list under an opaque
  address, \<open>malloc\<close> may fail, and every access is checked: null pointers, indices out of range,
  buffer overruns and divisions by zero are values of type \<open>fault\<close>. A message overlay in a buffer is
  the decoding of its 32 bytes.

  The library boundary. Calls of the verbs library are values of type \<open>call\<close>; their answers are
  the parameter \<open>V\<close>. What the code relies on is stated as hypotheses: \<open>rc_fabric\<close> (a reliable
  connection carries out posted work once and in order, and a write puts the bytes of its one
  scatter element at the start of the region that it names), \<open>rc_live\<close> (posting succeeds and pending
  work is carried out) and \<open>rc_connects\<close> (other calls post nothing; registration and allocation
  answer with what was asked for). \<open>Loopback\<close> gives a network that satisfies all three. The one-sided
  theorems rely on \<open>errno_reliable\<close> (a call that failed, and after which the code looks at \<open>errno\<close>, has set
  it) and \<open>registers_in_place\<close> (a region lies where it was registered), both in \<open>Ledger\<close>, and on
  \<open>polls_well\<close> (\<open>RDMA_Common\<close>), \<open>registers_exactly\<close> and \<open>sends_attrs\<close> (\<open>One_Sided_Pair\<close>), which the
  libraries of their witnesses satisfy.

  Concurrency. A step of the system (\<open>cluster_step\<close>) is one pass of an application loop, one piece of
  a completion handler, or one action of the network, in any order; the handlers are cut where they
  read or write the shared flags. Threads of a process share memory, and a pass is not one step of the
  machine. \<open>statement_step\<close> is the finer model: it cuts a pass into the test of its guard, the work
  on blocks and buffers (\<open>ps_send_fill\<close>, \<open>ps_recv_copy\<close>, \<open>wk_compute\<close>, \<open>wk_send_fill\<close>,
  \<open>wk_recv_copy\<close>), the store that the other threads wait for, and the last store. \<open>passes_atomic\<close> shows that the
  two models come to rest in the same states: the thread that found its guard true is the only one of
  its lane that works, until it has told the others (\<open>lane_exclusive\<close>), and all others leave what it
  uses alone. Work is one step of this model; that the steps of others which come between the test and
  the publication neither read nor write its data is what the relation \<open>carried\<close> keeps track of.
  Excluded is the moment after the last iteration, in which \<open>main\<close> has stored \<open>completed_iter = 1199\<close>
  and not yet called \<open>exit\<close>, and the sending threads may start once more; \<open>statements_end\<close> covers it,
  and \<open>statements_bounded\<close> the length of a run up to it. \<open>half_step\<close>
  cuts the copying of a received message at the server once more, between its \<open>P\<close> and its
  \<open>Q\<close> block, and \<open>halves_hold_reference\<close> says what the arrays hold then too; copying one block remains
  one step. In the system of passes
  every two steps made by two threads of the programs, by a thread and a link, or by two links commute
  but for one pair (\<open>only_race\<close>); the completion threads at the ends of one link and the network between
  them count as one there, and the pass that ends the process is left out. Iterations that only
  sleep leave the state as it was. Accesses are sequentially consistent: reordering by compiler or
  processor is not modelled.

  What the lemmas show. The counters of each lane form one chain whose ends are at most one apart
  (\<open>lockstep\<close>), from which follow mutual exclusion, that no buffer is refilled or overwritten while
  it is in use, and that each block passes through exactly the sequential computation
  (\<open>server_holds_reference\<close>). What a run looks like from outside is stated as two
  contracts. \<open>Rounds\<close> is an abstract system of bulk-synchronous rounds, without network,
  threads or buffers, and every step of the system is a step of it or invisible in it
  (\<open>run_refines_rounds\<close>); \<open>Channel\<close> does the same for a link (\<open>link_refines_channel\<close>). Apart
  from waiting, every run is finite (\<open>run_bounded\<close>). One real flaw of the code can keep it from its end: the completion thread may
  clear a \<open>can_send\<close> flag that already announces the next message, and then the run never ends
  (\<open>lost_update_reachable\<close>); without such a loss, and with memory left, it always can
  (\<open>completes_iff_nothing_lost\<close>). Other
  theorems give the exact conditions under which the programs fault: matrices and worker numbers,
  buffer sizes, memory. For the one-sided classes the theorems are about ownership: a life without
  errors gives back every resource exactly once (\<open>server_releases_all\<close>, \<open>client_releases_all\<close>), and
  the error paths that break this are shown one by one. For the GPU kernel, \<open>kernel_order_free\<close>
  shows that its threads need no synchronisation.

  Bounds. No fuel is used: loops with a bound are \<open>for_up\<close> over it, loops that may run for ever
  (event loops, polling, repeated calls) are \<open>partial_function (option)\<close>, whose value \<open>None\<close> is not
  returning, and the endless loops of the programs are step relations.

  Not modelled: output and sleeping; signals; the thread library beyond the interleaving; the
  functions that only print (\<open>printBlock\<close>, \<open>show_rdma_cmid\<close>, \<open>show_rdma_buffer_attr\<close>); failures of
  the CUDA runtime; \<open>testHybrid\<close>, which prints one word; the pointers to a bad work request that the
  library fills in and nothing reads.
\<close>

section \<open>The computation\<close>

text \<open>
  C1: The distributed run computes the sequential reference. In every state of every run, for every
  worker \<open>i\<close>: if the server has taken in \<open>k\<close> results of worker \<open>i\<close>, its blocks P and Q with index \<open>i\<close>
  hold exactly what \<open>k\<close> successive calls of the SGD routine make of the initial values, with the
  worker's random numbers, and their headers are those of the partition. No interleaving of the
  threads, no buffer that is reused, and no other worker changes the values.
\<close>

theorem server_holds_reference:
  assumes "system_run Fb pw pm F n m a bytes rnd s" and "int i < atoi a"
  shows "let k = nat (recved_iter (cl_ps s) i + 1);
             (xs, ys) = lane_ref F (setup_spec F n m (atoi a) rnd i) k;
             P = Pblocks (cl_ps s) i; Q = Qblocks (cl_ps s) i in
     - 1 \<le> recved_iter (cl_ps s) i \<and> block_id P = int i \<and> block_id Q = int i \<and>
     height P = part_rows n (part_hgt n (atoi a)) i \<and> height Q = part_rows m (part_hgt m (atoi a)) i \<and>
     h_arr (ps_heap (cl_ps s)) (eles P) = Some xs \<and> h_arr (ps_heap (cl_ps s)) (eles Q) = Some ys"
proof -
  let ?L = "setup_spec F n m (atoi a) rnd i"
  have D: "cluster_data pw F (setup_spec F n m (atoi a) rnd) s" "i < lanes s"
    using run_inv(1,2)[OF assms(1)] assms(2) by (auto simp: system_inv_def)
  then obtain mrd mru where "lane_data pw F ?L mrd mru (recved_iter (cl_ps s) i)
      (to_send_iter (cl_ps s) i) (cl_ps s) (cl_down s i) (cl_wk s i) (cl_up s i)"
    by (auto simp: cluster_data_def)
  then have "- 1 \<le> recved_iter (cl_ps s) i" "ps_holds F ?L (cl_ps s) (nat (recved_iter (cl_ps s) i + 1))"
    by (auto simp: lane_data_def)
  moreover have "ls_id ?L = i" "ls_hp ?L = part_rows n (part_hgt n (atoi a)) i"
    "ls_hq ?L = part_rows m (part_hgt m (atoi a)) i" by (simp_all add: setup_spec_def Let_def)
  ultimately show ?thesis by (auto simp: ps_holds_def hdr_def Let_def split: prod.splits)
qed

theorem server_holds_reference_witness:
  "\<exists>s. system_run loop_fabric fst snd demo_fp 1 1 ''1'' 2000 demo_rnd s \<and>
     recved_iter (cl_ps s) 0 = 0 \<and>
     h_arr (ps_heap (cl_ps s)) (eles (Pblocks (cl_ps s) 0)) =
       Some (fst (lane_ref demo_fp (setup_spec demo_fp 1 1 1 demo_rnd 0) 1))"
proof -
  obtain s where r: "system_run loop_fabric fst snd demo_fp 1 1 ''1'' 2000 demo_rnd s"
    and v: "recved_iter (cl_ps s) 0 = 0"
    using demo_run demo_hyps unfolding system_run_def view_def by auto
  show ?thesis
    using r v server_holds_reference[OF r, of 0]
    by (intro exI[of _ s]) (auto simp: atoi_one Let_def split: prod.splits)
qed

text \<open>
  C9: The worker's side of the same fact: once worker \<open>i\<close> has received its first message, its two
  arrays are distinct and hold the reference of as many rounds as it has computed, in every state of
  every run; the random numbers it has used up are exactly those of these rounds.
\<close>

theorem worker_holds_reference:
  assumes "system_run Fb pw pm F n m a bytes rnd s" and "int i < atoi a"
    and "0 \<le> recved_age (cl_wk s i)"
  shows "let w = cl_wk s i; k = nat (wk_iter_t w) in
     holds_arrs (wk_heap w) (eles (Pblock w)) (eles (Qblock w))
       (lane_ref F (setup_spec F n m (atoi a) rnd i) k) \<and>
     block_id (Pblock w) = int i \<and> block_id (Qblock w) = int i \<and> wk_rnd_pos w = 180000 * k"
proof -
  let ?L = "setup_spec F n m (atoi a) rnd i"
  have D: "cluster_data pw F (setup_spec F n m (atoi a) rnd) s" "i < lanes s"
    using run_inv(1,2)[OF assms(1)] assms(2) by (auto simp: system_inv_def)
  then obtain mrd mru where "lane_data pw F ?L mrd mru (recved_iter (cl_ps s) i)
      (to_send_iter (cl_ps s) i) (cl_ps s) (cl_down s i) (cl_wk s i) (cl_up s i)"
    by (auto simp: cluster_data_def)
  then have "wk_holds F ?L (cl_wk s i) (nat (wk_iter_t (cl_wk s i)))" "worker_memory (cl_wk s i)"
    using assms(3) by (auto simp: lane_data_def)
  moreover have "ls_id ?L = i" by (simp add: setup_spec_def Let_def)
  ultimately show ?thesis by (simp add: wk_holds_def hdr_def worker_memory_def Let_def)
qed

theorem worker_holds_reference_witness:
  "\<exists>s. system_run loop_fabric fst snd demo_fp 1 1 ''1'' 2000 demo_rnd s \<and> wk_iter_t (cl_wk s 0) = 1 \<and>
     holds_arrs (wk_heap (cl_wk s 0)) (eles (Pblock (cl_wk s 0))) (eles (Qblock (cl_wk s 0)))
       (lane_ref demo_fp (setup_spec demo_fp 1 1 1 demo_rnd 0) 1)"
proof -
  obtain s where r: "system_run loop_fabric fst snd demo_fp 1 1 ''1'' 2000 demo_rnd s"
    and v: "recved_age (cl_wk s 0) = 0" "wk_iter_t (cl_wk s 0) = 1"
    using demo_run demo_hyps unfolding system_run_def view_def by auto
  show ?thesis
    using r v worker_holds_reference[OF r, of 0] by (intro exI[of _ s]) (simp add: atoi_one Let_def)
qed

section \<open>Lockstep\<close>

text \<open>
  C10: Lockstep. In every reachable state the counters of a lane form one chain, from the results the
  server has received over what the worker has sent, computed and received to what the server has
  sent and its iteration, and the two ends of the chain differ by at most one: no worker is ever more
  than one iteration away from the server or from any other worker.
\<close>

theorem lockstep:
  assumes "rc_fabric Fb pw pm" and "cluster_start pw pm s0" and "(cluster_step Fb F rnd)\<^sup>*\<^sup>* s0 s"
    and "i < lanes s"
  shows "let st = cl_ps s; w = cl_wk s i in
     recved_iter st i + 1 \<le> to_send_age w \<and> to_send_age w \<le> wk_iter_t w \<and>
     wk_iter_t w \<le> recved_age w + 1 \<and> recved_age w + 1 \<le> to_send_iter st i \<and>
     to_send_iter st i \<le> ps_iter_t st \<and> ps_iter_t st \<le> recved_iter st i + 2 \<and>
     wk_completed_iter w = wk_iter_t w - 1 \<and> ps_completed_iter st = ps_iter_t st - 1"
  using lane_chain[OF reach_lane(1)[OF assms]] reach_lane(2)[OF assms] unfolding Let_def by linarith

theorem lockstep_witness:
  "\<exists>s0 s. cluster_start fst snd s0 \<and> (cluster_step loop_fabric demo_fp demo_rnd)\<^sup>*\<^sup>* s0 s \<and>
     ps_iter_t (cl_ps s) = 2 \<and> 1 \<le> to_send_age (cl_wk s 0) \<and> recved_age (cl_wk s 0) \<le> 1"
proof -
  obtain s0 s where r: "deployed fst snd demo_fp 1 1 ''1'' 2000 s0"
    "(cluster_step loop_fabric demo_fp demo_rnd)\<^sup>*\<^sup>* s0 s" "demo_good s"
    "view s = ((2, 0, 2), (CCleared, False, 1, 1, False), (0, 1, 1), (CPosted, True, 1, 1, False))"
    using demo_run_lost by blast
  note st = deployed_cluster_start(1)[OF r(1)]
  have "0 < lanes s" using r(3) by (simp add: demo_good_def)
  from lockstep[OF loop_rc st r(2) this] r(4) st r(2) show ?thesis
    by (intro exI[of _ s0] exI[of _ s]) (auto simp: Let_def view_def)
qed

text \<open>
  The two guards of sending agree. The worker tests \<open>to_send_iter == completed_age\<close> where the
  server tests \<open><=\<close>; in every reachable state the worker's equality holds exactly when \<open><=\<close> does, so
  the stricter test never skips a completed iteration.
\<close>

lemma worker_send_guard_exact:
  assumes "rc_fabric Fb pw pm" and "cluster_start pw pm s0" and "(cluster_step Fb F rnd)\<^sup>*\<^sup>* s0 s"
    and "i < lanes s"
  shows "wk_CanSend (to_send_age (cl_wk s i)) (wk_completed_iter (cl_wk s i)) =
     CanSend (to_send_age (cl_wk s i)) (wk_completed_iter (cl_wk s i))"
  using lane_chain[OF reach_lane(1)[OF assms]] by (auto simp: wk_CanSend_def CanSend_def)

lemma worker_send_guard_exact_example:
  "\<exists>s0 s. cluster_start fst snd s0 \<and> (cluster_step loop_fabric demo_fp demo_rnd)\<^sup>*\<^sup>* s0 s \<and>
     wk_iter_t (cl_wk s 0) = 1 \<and>
     wk_CanSend (to_send_age (cl_wk s 0)) (wk_completed_iter (cl_wk s 0)) =
     CanSend (to_send_age (cl_wk s 0)) (wk_completed_iter (cl_wk s 0))"
proof -
  obtain s0 s where r: "deployed fst snd demo_fp 1 1 ''1'' 2000 s0"
    "(cluster_step loop_fabric demo_fp demo_rnd)\<^sup>*\<^sup>* s0 s" "demo_good s"
    "view s = ((1, 0, 1), (CPosted, True, 1, 1, False), (0, 1, 1), (CPosted, True, 1, 1, False))"
    using demo_run by blast
  note st = deployed_cluster_start(1)[OF r(1)]
  have "0 < lanes s" using r(3) by (simp add: demo_good_def)
  from worker_send_guard_exact[OF loop_rc st r(2) this] r(4) st r(2) show ?thesis
    by (intro exI[of _ s0] exI[of _ s]) (auto simp: view_def)
qed

section \<open>Buffers and threads\<close>

text \<open>
  C14: No unread buffer is overwritten. Although nothing but the server's message tells the sender
  when it may write, and \<open>can_recv\<close> stays set for ever after the first message, in every reachable
  state a write that is under way towards a receiver, or has just landed there, finds that its
  application has already taken in every earlier message.
\<close>

theorem no_unread_overwritten:
  assumes "rc_fabric Fb pw pm" and "cluster_start pw pm s0" and "(cluster_step Fb F rnd)\<^sup>*\<^sup>* s0 s"
    and "i < lanes s"
  shows "(pw (lk_net (cl_down s i)) = [] \<and> lk_wcs (cl_down s i) = [] \<or>
          buf_recv_counter (lk_sv (cl_down s i)) = recved_age (cl_wk s i) + 1) \<and>
     (pw (lk_net (cl_up s i)) = [] \<and> lk_wcs (cl_up s i) = [] \<or>
          buf_recv_counter (lk_sv (cl_up s i)) = recved_iter (cl_ps s) i + 1)"
proof -
  note c = lane_chain[OF reach_lane(1)[OF assms]]
  show ?thesis
  proof
    show "pw (lk_net (cl_down s i)) = [] \<and> lk_wcs (cl_down s i) = [] \<or>
          buf_recv_counter (lk_sv (cl_down s i)) = recved_age (cl_wk s i) + 1"
    proof (rule disjCI)
      assume "buf_recv_counter (lk_sv (cl_down s i)) \<noteq> recved_age (cl_wk s i) + 1"
      then have "int (length (lk_wcs (cl_down s i))) + int (length (pw (lk_net (cl_down s i)))) \<le> 0"
        using c by linarith
      then show "pw (lk_net (cl_down s i)) = [] \<and> lk_wcs (cl_down s i) = []" by (simp add: no_lengths)
    qed
    show "pw (lk_net (cl_up s i)) = [] \<and> lk_wcs (cl_up s i) = [] \<or>
          buf_recv_counter (lk_sv (cl_up s i)) = recved_iter (cl_ps s) i + 1"
    proof (rule disjCI)
      assume "buf_recv_counter (lk_sv (cl_up s i)) \<noteq> recved_iter (cl_ps s) i + 1"
      then have "int (length (lk_wcs (cl_up s i))) + int (length (pw (lk_net (cl_up s i)))) \<le> 0"
        using c by linarith
      then show "pw (lk_net (cl_up s i)) = [] \<and> lk_wcs (cl_up s i) = []" by (simp add: no_lengths)
    qed
  qed
qed

theorem no_unread_overwritten_witness:
  "\<exists>s0 s. cluster_start fst snd s0 \<and> (cluster_step loop_fabric demo_fp demo_rnd)\<^sup>*\<^sup>* s0 s \<and>
     ps_iter_t (cl_ps s) = 1 \<and>
     (fst (lk_net (cl_down s 0)) = [] \<and> lk_wcs (cl_down s 0) = [] \<or>
      buf_recv_counter (lk_sv (cl_down s 0)) = recved_age (cl_wk s 0) + 1)"
proof -
  obtain s0 s where r: "deployed fst snd demo_fp 1 1 ''1'' 2000 s0"
    "(cluster_step loop_fabric demo_fp demo_rnd)\<^sup>*\<^sup>* s0 s" "demo_good s"
    "view s = ((1, 0, 1), (CPosted, True, 1, 1, False), (0, 1, 1), (CPosted, True, 1, 1, False))"
    using demo_run by blast
  note st = deployed_cluster_start(1)[OF r(1)]
  have "0 < lanes s" using r(3) by (simp add: demo_good_def)
  from no_unread_overwritten[OF loop_rc st r(2) this] r(4) st r(2) show ?thesis
    by (intro exI[of _ s0] exI[of _ s]) (auto simp: view_def)
qed

text \<open>
  C15: No buffer is refilled too early. When a sending thread (the server's for worker \<open>i\<close>, or the
  worker's) finds its guard true, none of the messages it has announced by setting \<open>can_send\<close> was lost
  or is still to be sent: as many writes were posted as it announced, all of them have landed, and the
  receiver has counted them all. The only thing that may still be under way is the completion thread's
  clearing of the flag.
\<close>

theorem no_early_refill:
  assumes "rc_fabric Fb pw pm" and "cluster_start pw pm s0" and "(cluster_step Fb F rnd)\<^sup>*\<^sup>* s0 s"
    and "i < lanes s"
  shows "(CanSend (to_send_iter (cl_ps s) i) (ps_completed_iter (cl_ps s)) \<longrightarrow>
       link_posts (cl_down s i) = to_send_iter (cl_ps s) i \<and>
       buf_recv_counter (lk_sv (cl_down s i)) = to_send_iter (cl_ps s) i \<and>
       pw (lk_net (cl_down s i)) = [] \<and> lk_wcs (cl_down s i) = [] \<and>
       (can_send (lk_cl (cl_down s i)) \<longrightarrow> lk_cpc (cl_down s i) = CPosted)) \<and>
     (wk_CanSend (to_send_age (cl_wk s i)) (wk_completed_iter (cl_wk s i)) \<longrightarrow>
       link_posts (cl_up s i) = to_send_age (cl_wk s i) \<and>
       buf_recv_counter (lk_sv (cl_up s i)) = to_send_age (cl_wk s i) \<and>
       pw (lk_net (cl_up s i)) = [] \<and> lk_wcs (cl_up s i) = [] \<and>
       (can_send (lk_cl (cl_up s i)) \<longrightarrow> lk_cpc (cl_up s i) = CPosted))"
proof -
  note lane = reach_lane(1)[OF assms]
  note c = lane_chain[OF lane] and p = reach_lane(2)[OF assms]
  have L: "link_inv pw pm (cl_down s i)" "link_inv pw pm (cl_up s i)" using lane by (simp_all add: lane_inv_def)
  have posts: "link_posts l \<le> link_claims l \<and> buf_recv_counter (lk_sv l) \<le> link_posts l" if "link_inv pw pm l" for l
    using that by (auto simp: link_inv_defs link_claims_def split: if_splits)
  have "CanSend (to_send_iter (cl_ps s) i) (ps_completed_iter (cl_ps s)) \<Longrightarrow>
      link_claims (cl_down s i) \<le> buf_recv_counter (lk_sv (cl_down s i)) \<and>
      buf_recv_counter (lk_sv (cl_down s i)) = to_send_iter (cl_ps s) i"
    using c p by (auto simp: CanSend_def split: if_splits)
  moreover have "wk_CanSend (to_send_age (cl_wk s i)) (wk_completed_iter (cl_wk s i)) \<Longrightarrow>
      link_claims (cl_up s i) \<le> buf_recv_counter (lk_sv (cl_up s i)) \<and>
      buf_recv_counter (lk_sv (cl_up s i)) = to_send_age (cl_wk s i)"
    using c by (auto simp: wk_CanSend_def split: if_splits)
  ultimately show ?thesis
    using link_settled[OF L(1)] link_settled[OF L(2)] posts[OF L(1)] posts[OF L(2)] by fastforce
qed

theorem no_early_refill_witness:
  "\<exists>s0 s. cluster_start fst snd s0 \<and> (cluster_step loop_fabric demo_fp demo_rnd)\<^sup>*\<^sup>* s0 s \<and>
     CanSend (to_send_iter (cl_ps s) 0) (ps_completed_iter (cl_ps s)) \<and> to_send_iter (cl_ps s) 0 = 1 \<and>
     link_posts (cl_down s 0) = 1 \<and> fst (lk_net (cl_down s 0)) = [] \<and> lk_wcs (cl_down s 0) = []"
proof -
  obtain s0 s where r: "deployed fst snd demo_fp 1 1 ''1'' 2000 s0"
    "(cluster_step loop_fabric demo_fp demo_rnd)\<^sup>*\<^sup>* s0 s" "demo_good s"
    "view s = ((2, 0, 1), (CPosted, True, 1, 1, False), (0, 1, 1), (CPosted, True, 1, 1, False))"
    using demo_run_ready by blast
  note st = deployed_cluster_start(1)[OF r(1)]
  have l: "0 < lanes s" using r(3) by (simp add: demo_good_def)
  have guard: "CanSend (to_send_iter (cl_ps s) 0) (ps_completed_iter (cl_ps s))" "to_send_iter (cl_ps s) 0 = 1"
    using r(4) demo_lane(8)[OF r(3)] by (simp_all add: CanSend_def view_def)
  from no_early_refill[OF loop_rc st r(2) l] guard
  have "link_posts (cl_down s 0) = 1 \<and> fst (lk_net (cl_down s 0)) = [] \<and> lk_wcs (cl_down s 0) = []" by simp
  then show ?thesis using st r(2) guard by blast
qed

text \<open>
  At most one thread of a lane has work. In every reachable state at most one of the six guards of
  a lane is true: the server's merge, its sending and its receiving thread for worker \<open>i\<close>, and the
  worker's receiving, computing and sending. The blocks and the heap have no lock; it is this order
  that keeps two threads from using one lane's data at the same time.
\<close>

lemma one_thread_works:
  assumes "rc_fabric Fb pw pm" and "cluster_start pw pm s0" and "(cluster_step Fb F rnd)\<^sup>*\<^sup>* s0 s"
    and "i < lanes s"
  shows "length (filter (\<lambda>b. b)
     [CanMerge (ps_iter_t (cl_ps s)) (recved_iter (cl_ps s)) (worker_num (cl_ps s)),
      CanSend (to_send_iter (cl_ps s) i) (ps_completed_iter (cl_ps s)),
      recved_iter (cl_ps s) i + 1 \<le> buf_recv_counter (lk_sv (cl_up s i)) - 1,
      recved_age (cl_wk s i) + 1 < buf_recv_counter (lk_sv (cl_down s i)),
      CanCompute (wk_iter_t (cl_wk s i)) (recved_age (cl_wk s i)),
      wk_CanSend (to_send_age (cl_wk s i)) (wk_completed_iter (cl_wk s i))]) \<le> 1"
proof -
  note c = lane_chain[OF reach_lane(1)[OF assms]] and p = reach_lane(2)[OF assms]
  let ?it = "ps_iter_t (cl_ps s)" and ?ri = "recved_iter (cl_ps s) i" and ?ts = "to_send_iter (cl_ps s) i"
  let ?ra = "recved_age (cl_wk s i)" and ?wi = "wk_iter_t (cl_wk s i)" and ?sa = "to_send_age (cl_wk s i)"
  let ?ru = "buf_recv_counter (lk_sv (cl_up s i))" and ?rd = "buf_recv_counter (lk_sv (cl_down s i))"
  let ?M = "CanMerge ?it (recved_iter (cl_ps s)) (worker_num (cl_ps s))"
  have chain: "?ri + 1 \<le> ?ru" "?ru \<le> ?sa" "?sa \<le> ?wi" "?wi \<le> ?ra + 1" "?ra + 1 \<le> ?rd" "?rd \<le> ?ts"
    "?ts \<le> ?it" "?it \<le> ?ri + 1 + 1" using c by linarith+
  have "\<not> ?M \<or> ?it \<le> ?ri + 1" using assms(4) by (auto simp: CanMerge_iff lanes_def)
  note gap = one_gap[OF chain this]
  have g: "CanSend ?ts (ps_completed_iter (cl_ps s)) \<longleftrightarrow> ?ts < ?it"
    "?ri + 1 \<le> ?ru - 1 \<longleftrightarrow> ?ri + 1 < ?ru" "CanCompute ?wi ?ra \<longleftrightarrow> ?wi < ?ra + 1"
    "wk_CanSend ?sa (wk_completed_iter (cl_wk s i)) \<longleftrightarrow> ?sa < ?wi"
    using p c(7) chain by (auto simp: CanSend_def CanCompute_def wk_CanSend_def)
  show ?thesis unfolding g by (rule gap)
qed

lemma one_thread_works_example:
  "\<exists>s0 s. cluster_start fst snd s0 \<and> (cluster_step loop_fabric demo_fp demo_rnd)\<^sup>*\<^sup>* s0 s \<and>
     CanSend (to_send_iter (cl_ps s) 0) (ps_completed_iter (cl_ps s)) \<and>
     \<not> CanCompute (wk_iter_t (cl_wk s 0)) (recved_age (cl_wk s 0))"
proof -
  obtain s0 s where r: "deployed fst snd demo_fp 1 1 ''1'' 2000 s0"
    "(cluster_step loop_fabric demo_fp demo_rnd)\<^sup>*\<^sup>* s0 s" "demo_good s"
    "view s = ((2, 0, 1), (CPosted, True, 1, 1, False), (0, 1, 1), (CPosted, True, 1, 1, False))"
    using demo_run_ready by blast
  note st = deployed_cluster_start(1)[OF r(1)]
  have l: "0 < lanes s" using r(3) by (simp add: demo_good_def)
  have "CanSend (to_send_iter (cl_ps s) 0) (ps_completed_iter (cl_ps s))"
    using r(4) demo_lane(8)[OF r(3)] by (simp add: CanSend_def view_def)
  with one_thread_works[OF loop_rc st r(2) l] st r(2) show ?thesis by (auto split: if_splits)
qed

section \<open>The end of a run\<close>

text \<open>
  The server ends when it should. In every reachable state either the process runs and its
  iteration is between 0 and 1199, or it has left with exit code 0 at iteration 1200, and then it has
  received the results of at least 1199 rounds from every worker, each of which has computed at
  least 1199 rounds.
\<close>

lemma server_ends_at_1200:
  assumes "rc_fabric Fb pw pm" and "cluster_start pw pm s0" and "(cluster_step Fb F rnd)\<^sup>*\<^sup>* s0 s"
    and "i < lanes s"
  shows "cl_exit s = None \<and> 0 \<le> ps_iter_t (cl_ps s) \<and> ps_iter_t (cl_ps s) < 1200 \<or>
     cl_exit s = Some 0 \<and> ps_iter_t (cl_ps s) = 1200 \<and> 1199 \<le> recved_iter (cl_ps s) i + 1 \<and>
       1199 \<le> wk_iter_t (cl_wk s i)"
  using reach_exit[OF assms(1-3)] lane_chain[OF reach_lane(1)[OF assms]] by linarith

lemma server_ends_at_1200_example:
  "\<exists>s0 s. cluster_start fst snd s0 \<and> (cluster_step loop_fabric demo_fp demo_rnd)\<^sup>*\<^sup>* s0 s \<and>
     cl_exit s = None \<and> ps_iter_t (cl_ps s) = 2"
proof -
  obtain s0 s where r: "deployed fst snd demo_fp 1 1 ''1'' 2000 s0"
    "(cluster_step loop_fabric demo_fp demo_rnd)\<^sup>*\<^sup>* s0 s" "demo_good s"
    "view s = ((2, 0, 1), (CPosted, True, 1, 1, False), (0, 1, 1), (CPosted, True, 1, 1, False))"
    using demo_run_ready by blast
  note st = deployed_cluster_start(1)[OF r(1)]
  have "0 < lanes s" using r(3) by (simp add: demo_good_def)
  from server_ends_at_1200[OF loop_rc st r(2) this] r(4) st r(2) show ?thesis
    by (intro exI[of _ s0] exI[of _ s]) (auto simp: view_def)
qed

text \<open>
  Only a lost update stops the system. In every state of a run on a live network, with the server
  not yet at the end, with buffers that hold the blocks and with memory for the next message at every
  worker, some thread can make a step that changes the state, unless for some lane an application's
  \<open>can_send\<close> was overwritten by the completion thread.
\<close>

lemma run_progress:
  assumes "system_run Fb pw pm F n m a bytes rnd s" and "rc_live Fb pw pm" and "cl_exit s = None"
    and "\<forall>i<lanes s. lane_fits (setup_spec F n m (atoi a) rnd i) \<and>
       room_for_message (setup_spec F n m (atoi a) rnd i) (cl_wk s i) \<and> \<not> lane_lost s i"
  shows "\<exists>t. cluster_step Fb F rnd s t \<and> t \<noteq> s"
  using system_moves[OF run_inv(3)[OF assms(1)] assms(2) run_inv(1)[OF assms(1)] assms(3,4)]
  by (simp only: run_inv(4)[OF assms(1)])

lemma run_progress_example:
  "\<exists>s t. system_run loop_fabric fst snd demo_fp 1 1 ''1'' 2000 demo_rnd s \<and>
     cluster_step loop_fabric demo_fp demo_rnd s t \<and> t \<noteq> s"
proof -
  obtain s0 s where r: "deployed fst snd demo_fp 1 1 ''1'' 2000 s0"
    "(cluster_step loop_fabric demo_fp demo_rnd)\<^sup>*\<^sup>* s0 s" "demo_good s"
    "view s = ((0, - 1, 0), (CIdle, False, 0, 0, False), (- 1, 0, 0), (CIdle, False, 0, 0, False))"
    using demo_run_start by blast
  have run: "system_run loop_fabric fst snd demo_fp 1 1 ''1'' 2000 demo_rnd s"
    using r(1,2) demo_hyps unfolding system_run_def by blast
  have "room_for_message (demo_Ls 0) (cl_wk s 0)" "lanes s = 1" "cl_exit s = None"
    using r(3,4) by (auto simp: demo_good_def view_def)
  moreover have "\<not> lane_lost s 0"
    using r(4) by (auto simp: lane_lost_def view_def lview_def link_claims_def)
  ultimately show ?thesis
    using run_progress[OF run loop_live] run demo_fits by (auto simp: demo_Ls_def atoi_one)
qed

text \<open>
  A lost update is for ever. Once the completion thread has cleared a \<open>can_send\<close> that announced
  a new message (\<open>ctx->can_send = false\<close> after the post, while the application had set the flag
  again), that lane never moves on: in every later state the update is still lost, the server is at
  the same iteration and has not ended.
\<close>

lemma lost_update_permanent:
  assumes "rc_fabric Fb pw pm" and "cluster_start pw pm s0" and "(cluster_step Fb F rnd)\<^sup>*\<^sup>* s0 s"
    and "i < lanes s" and "lane_lost s i" and "(cluster_step Fb F rnd)\<^sup>*\<^sup>* s t"
  shows "lane_lost t i \<and> ps_iter_t (cl_ps t) = ps_iter_t (cl_ps s) \<and> cl_exit t = cl_exit s"
  using lost_steps[OF assms(1,6) reach_inv[OF assms(1-3)] assms(4,5)] by blast

lemma lost_update_permanent_example:
  "\<exists>s0 s. cluster_start fst snd s0 \<and> (cluster_step loop_fabric demo_fp demo_rnd)\<^sup>*\<^sup>* s0 s \<and>
     lane_lost s 0 \<and> ps_iter_t (cl_ps s) = 2"
proof -
  obtain s0 s where r: "deployed fst snd demo_fp 1 1 ''1'' 2000 s0"
    "(cluster_step loop_fabric demo_fp demo_rnd)\<^sup>*\<^sup>* s0 s" "demo_good s"
    "view s = ((2, 0, 2), (CCleared, False, 1, 1, False), (0, 1, 1), (CPosted, True, 1, 1, False))"
    using demo_run_lost by blast
  note st = deployed_cluster_start(1)[OF r(1)]
  have L: "lane_lost s 0" using r(4) by (auto simp: lane_lost_def view_def lview_def link_claims_def)
  have "0 < lanes s" using r(3) by (simp add: demo_good_def)
  from lost_update_permanent[OF loop_rc st r(2) this L rtranclp.rtrancl_refl] L r(2,4) st show ?thesis
    by (intro exI[of _ s0] exI[of _ s]) (auto simp: view_def)
qed
text \<open>
  C17: The lost update happens. There is a deployed system on a well-behaved network, with one worker,
  and a run to a state from which no run whatsoever ends or leaves iteration 2 of 1200.
\<close>

theorem lost_update_reachable:
  "\<exists>s. system_run loop_fabric fst snd demo_fp 1 1 ''1'' 2000 demo_rnd s \<and> lane_lost s 0 \<and>
     {t. (cluster_step loop_fabric demo_fp demo_rnd)\<^sup>*\<^sup>* s t} \<subseteq>
       {t. cl_exit t = None \<and> ps_iter_t (cl_ps t) = 2}"
proof -
  obtain s0 s where r: "deployed fst snd demo_fp 1 1 ''1'' 2000 s0"
    "(cluster_step loop_fabric demo_fp demo_rnd)\<^sup>*\<^sup>* s0 s" "demo_good s"
    "view s = ((2, 0, 2), (CCleared, False, 1, 1, False), (0, 1, 1), (CPosted, True, 1, 1, False))"
    using demo_run_lost by blast
  have run: "system_run loop_fabric fst snd demo_fp 1 1 ''1'' 2000 demo_rnd s"
    using r(1,2) demo_hyps unfolding system_run_def by blast
  have L: "lane_lost s 0" using r(4) by (auto simp: lane_lost_def view_def lview_def link_claims_def)
  have I: "cluster_inv fst snd s" and x: "cl_exit s = None" and l: "0 < lanes s"
    using r(3) by (auto simp: demo_good_def system_inv_def)
  have "cl_exit t = None \<and> ps_iter_t (cl_ps t) = 2"
    if "(cluster_step loop_fabric demo_fp demo_rnd)\<^sup>*\<^sup>* s t" for t
    using lost_steps[OF loop_rc that I l L] x r(4) by (simp add: view_def)
  then show ?thesis using run L by blast
qed

section \<open>Deployment\<close>

lemma shipped_rows:
  assumes "1 \<le> W" and "W \<le> int CAP"
  shows "64 + 8 * (part_rows N_rows (part_hgt N_rows W) 0 * K_dim + part_rows M_cols (part_hgt M_cols W) 0 * K_dim)
     \<le> 524288000 \<longleftrightarrow> 3 \<le> W"
proof -
  have r: "part_rows rc (part_hgt rc W) 0 = part_hgt rc W" if "0 \<le> rc" for rc
    using part_hgt_le[OF that assms(1)] by (simp add: part_rows_def part_start_def that)
  let ?p = "part_hgt N_rows W" and ?q = "part_hgt M_cols W"
  have p: "0 \<le> ?p" "W * ?p \<le> N_rows + W - 1" "N_rows \<le> W * ?p"
    using part_hgt_bounds[of N_rows W] assms by (simp_all add: N_rows_def)
  have q: "0 \<le> ?q" "W * ?q \<le> M_cols + W - 1" "M_cols \<le> W * ?q"
    using part_hgt_bounds[of M_cols W] assms by (simp_all add: M_cols_def)
  have up: "64 + 800 * (?p + ?q) \<le> 524288000" if "3 \<le> W"
  proof -
    have "3 * (h - 1) \<le> W * (h - 1)" if "1 \<le> h" for h
      using \<open>3 \<le> W\<close> that by (intro mult_right_mono) auto
    moreover have "1 \<le> ?p" "1 \<le> ?q" using p q by (cases "?p = 0"; cases "?q = 0"; simp add: N_rows_def M_cols_def)+
    ultimately have "3 * (?p - 1) \<le> W * ?p - W" "3 * (?q - 1) \<le> W * ?q - W"
      by (metis right_diff_distrib mult.right_neutral)+
    then show ?thesis using p(2) q(2) by (simp add: N_rows_def M_cols_def)
  qed
  have lo: "524288000 < 64 + 800 * (?p + ?q)" if "W \<le> 2"
  proof -
    have "W * ?p \<le> 2 * ?p" "W * ?q \<le> 2 * ?q" using p(1) q(1) that by (simp_all add: mult_right_mono)
    then show ?thesis using p(3) q(3) by (simp add: N_rows_def M_cols_def)
  qed
  have e: "64 + 8 * (?p * K_dim + ?q * K_dim) = 64 + 800 * (?p + ?q)" by (simp add: K_dim_def)
  show ?thesis using up lo e by (subst r, simp add: N_rows_def, subst r, simp add: M_cols_def) linarith
qed

text \<open>
  C30: The shipped matrices need three workers. After \<open>main\<close> has set up the shipped sizes for 1 to
  \<open>CAP\<close> workers, its first pass opens the first iteration, and the first message to worker 0 fits the
  registered buffer if there are at least three workers; with one or two, \<open>rdma_sendTd\<close> writes past
  the end of the buffer.
\<close>

theorem shipped_first_message:
  assumes "1 \<le> atoi a" and "atoi a \<le> int CAP" and "8 * nat (N_rows * K_dim) + 8 * nat (M_cols * K_dim) \<le> bytes"
    and "ps_main_setup N_rows M_cols K_dim F [a] (ps_globals bytes) = Inr st"
    and "cc_buf_registered c" and "cc_buf_ptr c \<noteq> 0"
  shows "\<exists>st1. ps_main_pass st = Running st1 \<and> ps_iter_t st1 = 1 \<and>
     (if 3 \<le> atoi a then \<exists>r. ps_rdma_sendTd 0 st1 c = Inr r
      else ps_rdma_sendTd 0 st1 c = Inl Buffer_overflow)"
proof -
  let ?W = "atoi a"
  have "setup_ok N_rows M_cols K_dim ?W bytes"
    using assms(1-3) part_sizes_shipped by (simp add: setup_ok_def)
  from ps_main_setup_ok[OF this, of F] assms(1,4) have
    s: "ps_iter_t st = 0" "ps_completed_iter st = - 1" "\<forall>i. int i < ?W \<longrightarrow> recved_iter st i = - 1"
    "worker_num st = ?W" and
    z: "to_send_iter st 0 = 0" "worker_pidx st 0 = 0" "worker_qidx st 0 = 0"
    "setup_block N_rows K_dim ?W 0 (Pblocks st 0)" "setup_block M_cols K_dim ?W 0 (Qblocks st 0)"
    "eles (Pblocks st 0) = 1" "eles (Qblocks st 0) = 1 + nat ?W"
    "filled F 0 (ps_heap st) (Pblocks st 0) (Qblocks st 0)"
    by (auto dest: spec[of _ "0::nat"])
  let ?st1 = "st\<lparr>ps_completed_iter := 0, ps_iter_t := 1\<rparr>"
  have run: "ps_main_pass st = Running ?st1" using s by (simp add: ps_main_pass_def CanMerge_iff Let_def)
  let ?P = "Pblocks (ps_stamp 0 ?st1) 0" and ?Q = "Qblocks (ps_stamp 0 ?st1) 0"
  have n: "ele_num ?P = part_rows N_rows (part_hgt N_rows ?W) 0 * K_dim"
    "ele_num ?Q = part_rows M_cols (part_hgt M_cols ?W) 0 * K_dim"
    using z by (simp_all add: ps_stamp_def setup_block_def part_header_def)
  have "0 < nat ?W" using assms(1) by simp
  note i = part_rows_int32(1)[OF part_sizes_shipped(1)[OF assms(1,2)] this]
    part_rows_int32(1)[OF part_sizes_shipped(2)[OF assms(1,2)] this]
  have pr: "pair_ok (ps_heap st) ?P ?Q"
    using z i assms(2) part_rows_bounds[of N_rows "part_hgt N_rows ?W" 0] part_rows_bounds[of M_cols "part_hgt M_cols ?W" 0]
      part_hgt_bounds(1)[of N_rows ?W] part_hgt_bounds(1)[of M_cols ?W] assms(1)
    by (auto simp: pair_ok_def ps_stamp_def block_ok_def block_ints_ok_def block_sized_def filled_def setup_block_def
        part_header_def mf_constants int32_defs)
  have "?P = (Pblocks ?st1 0)\<lparr>data_age := to_send_iter ?st1 0\<rparr>" "?Q = (Qblocks ?st1 0)\<lparr>data_age := to_send_iter ?st1 0\<rparr>"
    using z by (simp_all add: ps_stamp_def)
  moreover have "index_in CAP 0 = Inr 0" using index_in_ok[of 0 CAP] by (simp add: CAP_def)
  ultimately show ?thesis
    using pack_fits_iff[OF pr, of "cc_buffer c"] shipped_rows[OF assms(1,2)] n z assms(5,6) run
    by (auto simp: ps_rdma_sendTd_def ps_send_fill_def CanSend_def Let_def split: if_splits)
qed

theorem shipped_first_message_witness:
  "\<exists>st st1. ps_main_setup N_rows M_cols K_dim demo_fp [''1'']
       (ps_globals (8 * nat (N_rows * K_dim) + 8 * nat (M_cols * K_dim))) = Inr st \<and>
     ps_main_pass st = Running st1 \<and> ps_rdma_sendTd 0 st1 demo_cl = Inl Buffer_overflow"
proof -
  let ?b = "8 * nat (N_rows * K_dim) + 8 * nat (M_cols * K_dim)"
  have "setup_ok N_rows M_cols K_dim (atoi ''1'') ?b"
    using part_sizes_shipped[of 1] by (simp add: setup_ok_def atoi_one CAP_def)
  then obtain st where s: "ps_main_setup N_rows M_cols K_dim demo_fp [''1''] (ps_globals ?b) = Inr st"
    using ps_main_setup_ok by blast
  have c: "cc_buf_registered demo_cl" "cc_buf_ptr demo_cl \<noteq> 0" by (simp_all add: demo_cl_def)
  show ?thesis
    using shipped_first_message[OF _ _ order_refl s c] s by (auto simp: atoi_one CAP_def)
qed

text \<open>
  C25: The setup establishes the start of the invariants. \<open>main\<close> of the server, called with the number
  of workers, returns when sizes and memory are right; the state it leaves, with workers that have
  run the start of their \<open>main\<close> and links that are connected, is a start state of the system: every
  counter at its initial value, block \<open>i\<close> of P and of Q at worker \<open>i\<close>'s index with the header of the
  partition and an array of its own, filled with \<open>i * 0.1\<close> and \<open>i * 0.1 + 1\<close>.
\<close>

theorem deployment_starts:
  assumes "setup_ok n m K_dim (atoi a) bytes" and "no_empty_block n m (atoi a)"
    and "\<forall>i j. 0 \<le> rnd i j"
  shows "(\<exists>st. ps_main_setup n m K_dim F [a] (ps_globals bytes) = Inr st) \<and>
     {s. deployed pw pm F n m a bytes s} \<subseteq>
       {s. cluster_start pw pm s \<and> data_start F (setup_spec F n m (atoi a) rnd) s \<and>
           specs_ok (setup_spec F n m (atoi a) rnd) (lanes s) \<and> lanes s = nat (atoi a)}"
  using ps_main_setup_ok[OF assms(1), of F] deployed_start[OF assms] deployed_lanes[OF assms(1)]
  by (fastforce simp: system_start_def)

theorem deployment_starts_witness:
  "\<exists>s. deployed fst snd demo_fp 1 1 ''1'' 2000 s \<and> cluster_start fst snd s \<and> lanes s = 1"
proof -
  obtain st where "deployed fst snd demo_fp 1 1 ''1'' 2000 (demo_cluster st)"
    using demo_deployed by blast
  then show ?thesis
    using deployment_starts[OF demo_hyps(2-4), of demo_fp fst snd] by (auto simp: atoi_one)
qed

text \<open>
  The ports of server and worker \<open>i\<close> pair up. A worker started with the argument \<open>i\<close> listens on
  the port that the server's sending thread \<open>i\<close> connects to (\<open>20000 + i\<close>) and connects to the port
  that the server's receiving thread \<open>i\<close> listens on (\<open>10000 + i\<close>). The server's host is looked up
  modulo \<open>WORKER_NUM\<close> and is always an address; the worker's host is the null pointer from \<open>i = 4\<close> on.
\<close>

lemma ports_pair_up:
  assumes "i < CAP" and "wk_main_setup (sprintf_d (int i) # rest) w0 = Inr w"
  shows "\<exists>p q h. thread_id w = int i \<and>
     ps_rdma_sendTd_loop_args (ps_ports st0) (int i) = Inr (Some ''12.12.11.13'', p) \<and>
     wk_rdma_recvTd_loop_args w (thread_id w) = Inr p \<and> atoi p = 20000 + int i \<and>
     wk_rdma_sendTd_loop_args w (thread_id w) = Inr (h, q) \<and>
     ps_rdma_recvTd_loop_args (ps_ports st0) (int i) = Inr q \<and> atoi q = 10000 + int i \<and>
     (h = None \<longleftrightarrow> 4 \<le> i)"
proof -
  have m: "c_mod (int i) WORKER_NUM = Inr (int (i mod 4))"
    by (simp add: c_mod_nonneg WORKER_NUM_def zmod_int)
  have "i mod 4 < CAP" "i mod 4 < 4" using assms(1) by (auto simp: CAP_def)
  then show ?thesis
    using assms m
    by (auto simp: wk_main_setup_def wk_ports_def ps_ports_def ps_rdma_sendTd_loop_args_def
        ps_rdma_recvTd_loop_args_def wk_rdma_sendTd_loop_args_def wk_rdma_recvTd_loop_args_def
        ps_remote_ips_def wk_remote_ips_def atoi_sprintf_d)
qed

lemma ports_pair_up_example:
  "\<exists>w p q. wk_main_setup [sprintf_d (int 5), ''7''] (wk_globals 0) = Inr w \<and>
     wk_rdma_sendTd_loop_args w 5 = Inr (None, q) \<and>
     ps_rdma_recvTd_loop_args (ps_ports (ps_globals 0)) 5 = Inr q \<and> wk_rdma_recvTd_loop_args w 5 = Inr p"
proof -
  obtain w where w: "wk_main_setup [sprintf_d (int 5), ''7''] (wk_globals 0) = Inr w"
    by (auto simp: wk_main_setup_def)
  from ports_pair_up[OF _ w, of "ps_globals 0"] w show ?thesis by (auto simp: CAP_def)
qed

text \<open>
  C31: Each message costs the worker two arrays. A pass of \<open>rdma_recvTd\<close> over a received pair of
  non-empty blocks returns exactly when there is memory for both arrays, and then the worker holds the
  received headers and elements in two new arrays, the old ones are still allocated though nothing
  refers to them, and the free memory has shrunk by the size of the message; without that memory
  the pass stores through a null pointer.
\<close>

theorem worker_receives:
  assumes "wk_recv_ready w c" and "read_blocks (sc_buffer c) = Inr ((pb, ps), (qb, qs))"
    and "0 < ele_num pb" and "0 < ele_num qb" and "heap_ok (wk_heap w)"
  shows "let size = 8 * nat (ele_num pb) + 8 * nat (ele_num qb) in
     if size \<le> h_avail (wk_heap w) then
       \<exists>w'. wk_rdma_recvTd w c = Inr (w', c\<lparr>can_recv := True\<rparr>) \<and>
         recved_age w' = recved_age w + 1 \<and>
         block_id (Pblock w') = block_id pb \<and> height (Pblock w') = height pb \<and>
         block_id (Qblock w') = block_id qb \<and> height (Qblock w') = height qb \<and>
         h_arr (wk_heap w') (eles (Pblock w')) = Some ps \<and> h_arr (wk_heap w') (eles (Qblock w')) = Some qs \<and>
         eles (Pblock w') \<noteq> eles (Qblock w') \<and>
         (\<forall>a<h_next (wk_heap w). h_arr (wk_heap w') a = h_arr (wk_heap w) a \<and>
            eles (Pblock w') \<noteq> a \<and> eles (Qblock w') \<noteq> a) \<and>
         h_avail (wk_heap w') + size = h_avail (wk_heap w)
     else wk_rdma_recvTd w c = Inl Null_deref"
proof -
  have n: "0 \<le> ele_num pb" "0 \<le> ele_num qb" using assms by simp_all
  have l: "8 * length ps = 8 * nat (ele_num pb)" "8 * length qs = 8 * nat (ele_num qb)"
    using read_blocks_lengths[OF assms(2) n] by simp_all
  show ?thesis
    using wk_recv_ok[OF assms(1,2) n] wk_recv_no_memory[OF assms] l
    by (auto simp: wk_received_def wk_store_header_def Let_def)
qed


theorem worker_receives_witness:
  "\<exists>m w'. pack_blocks demo_pair_heap demo_P demo_Q (\<lambda>_. 0) = Inr (m, 88) \<and>
     wk_rdma_recvTd (wk_globals 24) (zero_conn_context\<lparr>sc_buf_ptr := 1, sc_buf_registered := True,
       buf_recv_counter := 1, sc_buffer := m\<rparr>) = Inr (w', zero_conn_context\<lparr>sc_buf_ptr := 1,
       sc_buf_registered := True, buf_recv_counter := 1, sc_buffer := m, can_recv := True\<rparr>) \<and>
     h_arr (wk_heap w') (eles (Pblock w')) = Some [10, 20] \<and> h_avail (wk_heap w') = 0"
proof -
  obtain m where p: "pack_blocks demo_pair_heap demo_P demo_Q (\<lambda>_. 0) = Inr (m, 88)"
    using pack_blocks_fits[OF demo_pair_ok, of "\<lambda>_. 0"] by (auto simp: demo_pair_total BUFFER_SIZE_def)
  have v: "block_vals demo_pair_heap demo_P = [10, 20]" "block_vals demo_pair_heap demo_Q = [30]"
    by (simp_all add: block_vals_def demo_pair_heap_def demo_P_def demo_Q_def)
  have r: "read_blocks m = Inr ((demo_P, [10, 20]), (demo_Q, [30]))"
    using block_port.get_own[of "(demo_pair_heap, demo_P, demo_Q)" "\<lambda>_. 0" m 88] p demo_pair_ok v
    by (simp add: pair_ok'_def put_pair_def pair_view_def)
  let ?c = "zero_conn_context\<lparr>sc_buf_ptr := 1, sc_buf_registered := True, buf_recv_counter := 1,
    sc_buffer := m\<rparr>"
  have "wk_recv_ready (wk_globals 24) ?c" by (simp add: wk_recv_ready_def wk_globals_def)
  moreover have "heap_ok (wk_heap (wk_globals 24))" by (simp add: wk_globals_def heap_ok_fresh)
  ultimately show ?thesis
    using worker_receives[of "wk_globals 24" ?c demo_P "[10, 20]" demo_Q "[30]"] r p
    by (auto simp: demo_P_def demo_Q_def wk_globals_def fresh_heap_def Let_def)
qed

section \<open>A link alone\<close>

text \<open>
  One message at a time. Whatever the two applications do with their flags and buffers, in every
  state a connected link can reach at most one write or one message is under way or waiting, the
  receiver has counted at most the writes that were posted, and at most one less; while the sender
  waits for \<open>can_send\<close> nothing at all is under way.
\<close>

lemma link_one_at_a_time:
  assumes "rc_fabric Fb pw pm" and "link_start pw pm l0" and "(link_run Fb)\<^sup>*\<^sup>* l0 l"
  shows "length (pm (lk_net l)) + length (pw (lk_net l)) + length (lk_wcs l) \<le> 1 \<and>
     buf_recv_counter (lk_sv l) \<le> link_posts l \<and> link_posts l \<le> buf_recv_counter (lk_sv l) + 1 \<and>
     (lk_cpc l = CSpin \<longrightarrow> pm (lk_net l) = [] \<and> pw (lk_net l) = [] \<and> lk_wcs l = [] \<and> lk_spc l = SIdle \<and>
        buf_recv_counter (lk_sv l) = buf_write_counter (lk_cl l))"
  using link.inv_reach[OF assms(2,3)] assms(1) by (auto simp: link_inv_defs split: if_splits)

lemma link_one_at_a_time_example:
  "\<exists>l. (link_run loop_fabric)\<^sup>*\<^sup>* demo_link l \<and> lk_cpc l = CSpin \<and> fst (lk_net l) = [] \<and> lk_wcs l = []"
proof -
  let ?l = "demo_link\<lparr>lk_cl := (demo_cl\<lparr>cc_msg := sc_msg demo_sv\<rparr>)\<lparr>peer_addr := word_of_nat 4096,
    peer_rkey := 2\<rparr>, lk_cpc := CSpin, lk_net := ([], [])\<rparr>"
  have "link_step loop_fabric demo_link (demo_link\<lparr>lk_cl := (demo_cl\<lparr>cc_msg := sc_msg demo_sv\<rparr>)
      \<lparr>peer_addr := word_of_nat 4096, peer_rkey := 2\<rparr>, lk_cpc := (if Spin = Spin then CSpin else CIdle),
      lk_net := ([], [])\<rparr>)"
    by (rule link_step.msg_arrives)
      (auto simp: demo_link_def loop_fabric_def client_on_completion_enter_def recv_wc_def
        demo_sv_def msg_ids)
  then have "(link_run loop_fabric)\<^sup>*\<^sup>* demo_link ?l"
    by (intro r_into_rtranclp) (simp add: link_run.transport)
  from link_one_at_a_time[OF loop_rc demo_link_start this] this show ?thesis
    by (intro exI[of _ ?l]) auto
qed

text \<open>
  C35: The receiving end. Let a completed write with immediate announce \<open>len\<close> in network byte order, and
  let the handler not end the process. It posts the next receive first, counts the message once and
  stores the length. If the application's flag \<open>can_recv\<close> is set it then posts one \<open>SEND\<close> of the message
  buffer, which says \<open>MSG_READY\<close> with the address and key of before, and returns; if the flag is not set
  it posts nothing more and does not return. It leaves the flag as it was, so that after the first
  message it no longer waits for the application.
\<close>

theorem server_completion:
  assumes "wc_opcode wc = IBV_WC_RECV_RDMA_WITH_IMM" and "wc_imm wc = htonl len"
    and "server_on_completion (traced V) wc ctx (w, log) = Inr (ret, ctx', (w', log'))"
  shows "ret = can_recv ctx \<and> can_recv ctx' = can_recv ctx \<and>
     buf_recv_counter ctx' = buf_recv_counter ctx + 1 \<and> sc_buf_len ctx' = unat len \<and>
     sc_buffer ctx' = sc_buffer ctx \<and>
     (\<exists>r calls. log' = log @ Post_recv (wc_id wc) r # calls \<and> rwr_sges r = [] \<and>
       (if can_recv ctx
        then \<exists>wr g. calls = [Post_send (wc_id wc) wr] \<and> swr_opcode wr = IBV_WR_SEND \<and> swr_sges wr = [g] \<and>
          sge_addr g = word_of_nat (sc_msg_ptr ctx) \<and> sge_length g = word_of_nat MESSAGE_SZ \<and>
          sc_msg ctx' = \<lparr>msg_id = MSG_READY, msg_addr = msg_addr (sc_msg ctx), msg_rkey = msg_rkey (sc_msg ctx)\<rparr>
        else calls = []))"
  using assms
  by (cases "sc_msg ctx")
    (auto simp: server_on_completion_def server_on_completion_enter_def server_on_completion_reply_def
      server_post_receive_def server_send_message_def message_request_def zero_send_wr_def traced_calls
      set_msg_id_def result_elims Let_def split: if_splits option.splits)

theorem server_completion_witness:
  "\<exists>ctx' w' r wr. server_on_completion (traced loop_verbs) \<lparr>wc_id = 2, wc_status = 0,
       wc_opcode = IBV_WC_RECV_RDMA_WITH_IMM, wc_imm = htonl 88\<rparr> (demo_sv\<lparr>can_recv := True\<rparr>) (([], []), []) =
       Inr (True, ctx', (w', [Post_recv 2 r, Post_send 2 wr])) \<and> swr_opcode wr = IBV_WR_SEND \<and>
     sc_buf_len ctx' = 88 \<and> can_recv ctx' \<and> msg_id (sc_msg ctx') = MSG_READY"
proof -
  let ?wc = "\<lparr>wc_id = 2, wc_status = 0, wc_opcode = IBV_WC_RECV_RDMA_WITH_IMM, wc_imm = htonl 88\<rparr>"
  obtain ctx' w' log' where r: "server_on_completion (traced loop_verbs) ?wc (demo_sv\<lparr>can_recv := True\<rparr>) (([], []), []) =
      Inr (True, ctx', (w', log'))"
    by (auto simp: server_on_completion_def server_on_completion_enter_def server_on_completion_reply_def
        server_post_receive_def server_send_message_def TEST_NZ_def ok_reply_def set_msg_id_def traced_eq
        demo_sv_def zero_conn_context_def message_request_def Let_def)
  show ?thesis using server_completion[OF _ _ r, of 88] r by auto
qed

text \<open>
  C36: The sending end. Let the server's message say \<open>MSG_MR\<close> or \<open>MSG_READY\<close>, and let the handler not
  end the process. If the application's flag is set, it posts one RDMA write with immediate, which
  carries \<open>buf_len\<close>, cut to 32 bits, as its length and in network byte order as its immediate, from the
  start of the buffer to the region of the message for \<open>MSG_MR\<close> and to the one learnt before for
  \<open>MSG_READY\<close>; it clears the flag, counts one write, posts the receive for the next message and returns.
  With the flag unset it posts nothing, counts nothing and does not return.
\<close>

theorem client_completion:
  assumes "wc_opcode wc = IBV_WC_RECV" and "msg_id (cc_msg ctx) = MSG_MR \<or> msg_id (cc_msg ctx) = MSG_READY"
    and "client_on_completion (traced V) wc ctx (w, log) = Inr (ret, ctx', (w', log'))"
  shows "let len = word_of_nat (cc_buf_len ctx) :: 32 word in
     ret = can_send ctx \<and> can_send ctx' = False \<and> cc_buffer ctx' = cc_buffer ctx \<and> cc_buf_len ctx' = cc_buf_len ctx \<and>
     (peer_addr ctx', peer_rkey ctx') =
       (if msg_id (cc_msg ctx) = MSG_MR then (msg_addr (cc_msg ctx), msg_rkey (cc_msg ctx))
        else (peer_addr ctx, peer_rkey ctx)) \<and>
     (if can_send ctx
      then \<exists>wr r. log' = log @ [Post_send (wc_id wc) wr, Post_recv (wc_id wc) r] \<and>
        swr_opcode wr = IBV_WR_RDMA_WRITE_WITH_IMM \<and> swr_imm wr = htonl len \<and>
        swr_remote_addr wr = peer_addr ctx' \<and> swr_rkey wr = peer_rkey ctx' \<and>
        map (\<lambda>g. (sge_addr g, sge_length g)) (swr_sges wr) =
          (if len = 0 then [] else [(word_of_nat (cc_buf_ptr ctx), len)]) \<and>
        map (\<lambda>g. (sge_addr g, sge_length g)) (rwr_sges r) = [(word_of_nat (cc_msg_ptr ctx), word_of_nat MESSAGE_SZ)] \<and>
        buf_write_counter ctx' = buf_write_counter ctx + 1
      else log' = log \<and> buf_write_counter ctx' = buf_write_counter ctx)"
  using assms
  by (auto simp: client_on_completion_def client_on_completion_enter_def client_on_completion_send_def
      client_send_next_chunk_def client_write_remote_def write_request_def client_post_receive_def zero_send_wr_def
      client_on_completion_clear_def client_on_completion_finish_def msg_ids traced_calls
      result_elims Let_def split: if_splits option.splits)

theorem client_completion_witness:
  "\<exists>ctx' w' wr r. client_on_completion (traced loop_verbs) (recv_wc 1)
       (demo_cl\<lparr>cc_msg := sc_msg demo_sv, can_send := True, cc_buf_len := 88\<rparr>) (([], []), []) =
       Inr (True, ctx', (w', [Post_send 1 wr, Post_recv 1 r])) \<and>
     swr_imm wr = htonl 88 \<and> swr_remote_addr wr = 4096 \<and>
     buf_write_counter ctx' = 1 \<and> \<not> can_send ctx' \<and> peer_addr ctx' = 4096"
proof -
  let ?c = "demo_cl\<lparr>cc_msg := sc_msg demo_sv, can_send := True, cc_buf_len := 88\<rparr>"
  obtain ctx' w' log' where r: "client_on_completion (traced loop_verbs) (recv_wc 1) ?c (([], []), []) =
      Inr (True, ctx', (w', log'))"
    by (auto simp: client_on_completion_def client_on_completion_enter_def client_on_completion_send_def
      client_send_next_chunk_def client_write_remote_def write_request_def client_on_completion_clear_def
      client_on_completion_finish_def client_post_receive_def TEST_NZ_def ok_reply_def zero_send_wr_def traced_eq
      msg_ids recv_wc_def demo_cl_def demo_sv_def zero_client_context_def Let_def)
  then show ?thesis using client_completion[OF _ _ r] by (auto simp: recv_wc_def demo_sv_def demo_cl_def
      zero_client_context_def msg_ids Let_def)
qed

section \<open>Connecting\<close>

text \<open>
  C21: The handshake establishes what the links rely on. From contexts as \<open>InitContext\<close> of either
  program leaves them, on a quiet network, whenever the passes of the two event loops from the
  resolved address to the established connection return, the link is in its start state: both ends
  hold registered buffers, the server's \<open>MSG_MR\<close> message with its region is the only thing under way,
  and all counters are zero.
\<close>

theorem handshake_starts_link:
  assumes "rc_fabric Fb pw pm" and "rc_connects Fb pw pm" and "pw w = []" and "pm w = []" and "i < CAP"
    and "I \<in> {ps_InitContext, wk_InitContext}" and "J \<in> {ps_InitContext, wk_InitContext}"
    and "handshake (f_verbs Fb) cid vc sid vs (fst (I (\<lambda>_. zero_client_context, svs)) i)
           (snd (J (cls, \<lambda>_. zero_conn_context)) i) w = Inr r"
  shows "link_start pw pm (connected_link cid sid r) \<and> link_ready (connected_link cid sid r)"
proof -
  have "quiet pw pm w" using assms(3,4) by (simp add: quiet_def)
  moreover have "fresh_ends (fst (I (\<lambda>_. zero_client_context, svs)) i) (snd (J (cls, \<lambda>_. zero_conn_context)) i)"
    using assms(5-7)
    by (auto simp: fresh_ends_def ps_InitContext_def wk_InitContext_def zero_client_context_def zero_conn_context_def)
  ultimately show ?thesis using handshake_link[OF assms(1,2) _ _ assms(8)] by blast
qed

theorem handshake_starts_link_witness:
  "\<exists>r. handshake loop_verbs 1 7 2 7 (fst (ps_InitContext (\<lambda>_. zero_client_context, \<lambda>_. zero_conn_context)) 0)
       (snd (wk_InitContext (\<lambda>_. zero_client_context, \<lambda>_. zero_conn_context)) 0) ([], []) = Inr r \<and>
     link_start fst snd (connected_link 1 2 r)"
proof -
  have v: "f_verbs loop_fabric = loop_verbs" by (simp add: loop_fabric_def)
  obtain r where r: "handshake (f_verbs loop_fabric) 1 7 2 7
       (fst (ps_InitContext (\<lambda>_. zero_client_context, \<lambda>_. zero_conn_context)) 0)
       (snd (wk_InitContext (\<lambda>_. zero_client_context, \<lambda>_. zero_conn_context)) 0) ([], []) = Inr r"
    unfolding v
    by (simp add: handshake_def client_handle_event_def server_handle_event_def cm_ev_def
        client_build_connection_def client_build_context_def server_build_connection_def server_build_context_def
        client_on_pre_conn_def server_on_pre_conn_def client_post_receive_def server_post_receive_def
        server_on_connection_def server_send_message_def message_request_def TEST_NZ_def TEST_Z_def ok_reply_def
        zero_send_wr_def Let_def)
  show ?thesis
    using handshake_starts_link[where Fb = loop_fabric and pw = fst and pm = snd and i = 0 and I = ps_InitContext and J = wk_InitContext, OF loop_rc loop_connects _ _ _ _ _ r] r
    by (simp add: CAP_def v)
qed

text \<open>
  The order in which the client connects. If the handler of \<open>ADDR_RESOLVED\<close> returns on an end
  without a device, the calls it made are: protection domain, completion channel, completion queue,
  its notification, the poller thread, the queue pair, then allocation and registration of both
  buffers, the posted receive, and only then the route; the receive is posted before any connection
  is asked for.
\<close>

lemma client_connect_calls:
  assumes "client_handle_event (traced V) e (cm_ev RDMA_CM_EVENT_ADDR_RESOLVED cid vc) (None, ctx, (w, [])) =
     Inr (k, s, ctx', (w', log))"
  shows "\<exists>c wr. s = Some c \<and> cx_ctx c = vc \<and> k \<and> cc_buf_registered ctx' \<and>
     log = [Alloc_pd vc, Create_comp_channel vc, Create_cq vc 10 (cx_comp_channel c),
       Req_notify_cq (cx_cq c), Pthread_create (cx_comp_channel c),
       Create_qp cid (cx_pd c) (client_build_qp_attr c),
       Memalign 524288000, Reg_mr (cx_pd c) (cc_buf_ptr ctx') 524288000 [LOCAL_WRITE],
       Memalign 24, Reg_mr (cx_pd c) (cc_msg_ptr ctx') 24 [LOCAL_WRITE, REMOTE_WRITE],
       Post_recv cid wr, Resolve_route cid 500]"
  using assms
  by (auto simp: client_handle_event_def cm_ev_def client_build_connection_def client_build_context_def
      client_on_pre_conn_def client_post_receive_def result_elims traced_calls Let_def BUFFER_SIZE_def
      MESSAGE_SZ_def TIMEOUT_IN_MS_def split: option.splits if_splits)

lemma client_connect_calls_example:
  "\<exists>s ctx' w' log. client_handle_event (traced loop_verbs) True (cm_ev RDMA_CM_EVENT_ADDR_RESOLVED 1 7)
       (None, zero_client_context, (([], []), [])) = Inr (True, s, ctx', (w', log)) \<and>
     length log = 12 \<and> last log = Resolve_route 1 500"
proof -
  obtain k s ctx' w' log where r: "client_handle_event (traced loop_verbs) True
       (cm_ev RDMA_CM_EVENT_ADDR_RESOLVED 1 7) (None, zero_client_context, (([], []), [])) = Inr (k, s, ctx', (w', log))"
    by (simp add: client_handle_event_def cm_ev_def client_build_connection_def client_build_context_def
        client_on_pre_conn_def client_post_receive_def TEST_NZ_def TEST_Z_def ok_reply_def traced_def Let_def)
  from client_connect_calls[OF r] r show ?thesis by auto
qed

text \<open>
  A disconnected server end stays marked as registered. The handler of \<open>DISCONNECTED\<close> destroys
  the queue pair, deregisters and frees both buffers and destroys the id, in this order, but leaves
  the context as it was: \<open>buf_registered\<close> and \<open>buffer\<close> still refer to the freed memory; with
  \<open>exit_on_disconnect = 0\<close>, as \<open>rc_server_loop\<close> passes it, the loop goes on.
\<close>

lemma server_disconnect_keeps_context:
  assumes "server_handle_event (traced V) e (cm_ev RDMA_CM_EVENT_DISCONNECTED sid vs) (s, ctx, (w, [])) =
     Inr (k, s', ctx', (w', log))"
  shows "k = (\<not> e) \<and> s' = s \<and> ctx' = ctx \<and>
     (\<exists>b m. sc_buffer_mr ctx = Some b \<and> sc_msg_mr ctx = Some m \<and>
        log = [Destroy_qp sid, Dereg_mr b, Dereg_mr m, Free (sc_buf_ptr ctx), Free (sc_msg_ptr ctx), Destroy_id sid])"
  using assms
  by (auto simp: server_handle_event_def cm_ev_def server_on_disconnect_def result_elims traced_eq Let_def
      split: option.splits)

lemma server_disconnect_keeps_context_example:
  "\<exists>w' log. server_handle_event (traced loop_verbs) False (cm_ev RDMA_CM_EVENT_DISCONNECTED 2 7)
       (None, demo_sv, (([], []), [])) = Inr (True, None, demo_sv, (w', log)) \<and>
     sc_buf_registered demo_sv \<and> Free (sc_buf_ptr demo_sv) \<in> set log"
proof -
  obtain k s' ctx' w' log where r: "server_handle_event (traced loop_verbs) False
      (cm_ev RDMA_CM_EVENT_DISCONNECTED 2 7) (None, demo_sv, (([], []), [])) = Inr (k, s', ctx', (w', log))"
    by (simp add: server_handle_event_def cm_ev_def server_on_disconnect_def traced_def demo_sv_def
        zero_conn_context_def Let_def)
  from server_disconnect_keeps_context[OF r] r show ?thesis by (auto simp: demo_sv_def)
qed

section \<open>The test programs\<close>

text \<open>
  C37: The test programs lose no update. In every state that the sender, the receiver and the
  transport can reach, the sender's counter is the number of writes posted, plus one while its flag
  announces a filled buffer that is not posted yet; the receiver has printed as many messages as its
  counter says and never more than arrived. The guard against \<open>buf_write_counter\<close>, which the server
  and the worker lack, is what makes the difference.
\<close>

theorem test_no_lost_update:
  assumes "rc_fabric Fb pw pm" and "test_start pw pm t0" and "(test_step Fb)\<^sup>*\<^sup>* t0 t"
  shows "let l = t_link t in
     t_send t = link_posts l + (if can_send (lk_cl l) \<and> lk_cpc l \<noteq> CPosted then 1 else 0) \<and>
     int (length (t_out t)) = t_read t \<and> t_read t \<le> buf_recv_counter (lk_sv l) \<and>
     buf_recv_counter (lk_sv l) \<le> link_posts l \<and> link_posts l \<le> buf_recv_counter (lk_sv l) + 1"
  using test_progs.inv_reach[OF assms(2,3)] assms(1)
  by (auto simp: test_inv_def link_claims_def link_inv_defs Let_def split: if_splits)

theorem test_no_lost_update_witness:
  "\<exists>t. (test_step loop_fabric)\<^sup>*\<^sup>* demo_test t \<and> t_send t = 2 \<and> link_posts (t_link t) + 1 \<ge> 2"
proof -
  obtain t where t: "(test_step loop_fabric)\<^sup>*\<^sup>* demo_test t" "t_send t = 2" using demo_test_run by blast
  from test_no_lost_update[OF loop_rc demo_test_start t(1)] t show ?thesis
    by (intro exI[of _ t]) (auto simp: Let_def split: if_splits)
qed

text \<open>
  C38: The sender of the test program refills too early. Counting a write says that it was posted, not
  that it was carried out: there is a run in which the first message the receiver prints is the
  second text, \<open>100\<close> times \<open>b\<close>, although the first text filled in and posted was \<open>100\<close> times \<open>a\<close>.
\<close>

theorem test_refills_early:
  "\<exists>t0 t. test_start fst snd t0 \<and> (test_step loop_fabric)\<^sup>*\<^sup>* t0 t \<and> t_send t = 2 \<and>
     hd (t_out t) = replicate 100 (word_of_int 98)"
proof -
  obtain t where "(test_step loop_fabric)\<^sup>*\<^sup>* demo_test t" "t_send t = 2"
    "t_out t = [replicate 100 (test_letter 1)]" using demo_test_run by blast
  then show ?thesis using demo_test_start by (intro exI[of _ demo_test] exI[of _ t]) (simp add: test_letter_def)
qed

end
